(* ===== verification/Prelude.thy ===== *)
theory Prelude
  imports "HOL-Library.AList" "HOL-Library.Sublist"
begin

text \<open>
  What the components share: the collections of rewrite rules, the insertion-ordered map that
  stands for a JavaScript \<open>Map\<close>, and generic lemmas on lists and options.

  A JavaScript \<open>Map\<close> iterates in insertion order, \<open>set\<close> of a present key keeps the key's
  position and \<open>set\<close> of a new key appends it. That is exactly \<open>AList.update\<close>, and
  \<open>Map.delete\<close> is \<open>AList.delete\<close>; lookup is \<open>map_of\<close>. The interface is stated as the locale
  \<open>keyed_store\<close> and interpreted on the association lists.
\<close>

section \<open>Rule collections and type names\<close>

named_theorems literal_defs "what reading a concrete numeric literal unfolds"

type_synonym ('k, 'v) jsmap = "('k \<times> 'v) list"
type_synonym ms = int

section \<open>Keyed stores\<close>

locale keyed_store =
  fixes get :: "'m \<Rightarrow> 'k \<Rightarrow> 'v option"
    and put :: "'k \<Rightarrow> 'v \<Rightarrow> 'm \<Rightarrow> 'm"
    and del :: "'k \<Rightarrow> 'm \<Rightarrow> 'm"
    and wf :: "'m \<Rightarrow> bool"
  assumes get_put: "get (put k v m) k' = (if k' = k then Some v else get m k')"
    and get_del: "get (del k m) k' = (if k' = k then None else get m k')"
    and wf_put: "wf m \<Longrightarrow> wf (put k v m)"
    and wf_del: "wf m \<Longrightarrow> wf (del k m)"
begin

lemma get_put_same: "get (put k v m) k = Some v"
  by (simp add: get_put)

lemma get_put_other: "k' \<noteq> k \<Longrightarrow> get (put k v m) k' = get m k'"
  by (simp add: get_put)

lemma get_fold_put:
  "k \<notin> fst ` set kvs \<Longrightarrow> get (fold (\<lambda>(a, b). put a b) kvs m) k = get m k"
proof (induction kvs arbitrary: m)
  case Nil
  then show ?case by simp
next
  case (Cons kv kvs)
  then show ?case by (cases kv) (simp add: get_put_other)
qed

lemma get_fold_del: "get (fold del ks m) k = (if k \<in> set ks then None else get m k)"
  by (induction ks arbitrary: m) (auto simp: get_del)

lemma wf_fold_del: "wf m \<Longrightarrow> wf (fold del ks m)"
  by (induction ks arbitrary: m) (simp_all add: wf_del)

end

definition jget :: "('k, 'v) jsmap \<Rightarrow> 'k \<Rightarrow> 'v option" where
  "jget = map_of"

definition jset :: "'k \<Rightarrow> 'v \<Rightarrow> ('k, 'v) jsmap \<Rightarrow> ('k, 'v) jsmap" where
  "jset = AList.update"

definition jdel :: "'k \<Rightarrow> ('k, 'v) jsmap \<Rightarrow> ('k, 'v) jsmap" where
  "jdel = AList.delete"

definition jhas :: "('k, 'v) jsmap \<Rightarrow> 'k \<Rightarrow> bool" where
  "jhas m k \<longleftrightarrow> jget m k \<noteq> None"

definition jkeys :: "('k, 'v) jsmap \<Rightarrow> 'k list" where
  "jkeys m = map fst m"

definition jwf :: "('k, 'v) jsmap \<Rightarrow> bool" where
  "jwf m \<longleftrightarrow> distinct (map fst m)"

interpretation jm: keyed_store jget jset jdel jwf
  by unfold_locales
    (auto simp: jget_def jset_def jdel_def jwf_def update_conv' delete_conv' distinct_update distinct_delete)

lemmas jmap_simps [simp] = jm.get_put jm.get_del
lemmas jmap_wf [simp, intro] = jm.wf_put jm.wf_del

lemma jget_Nil [simp]: "jget [] k = None"
  by (simp add: jget_def)

lemma jget_Cons [simp]: "jget ((a, b) # m) k = (if k = a then Some b else jget m k)"
  by (simp add: jget_def)

lemma jset_Nil [simp]: "jset k v [] = [(k, v)]"
  by (simp add: jset_def)

lemma jset_Cons [simp]:
  "jset k v ((a, b) # m) = (if k = a then (k, v) # m else (a, b) # jset k v m)"
  by (auto simp: jset_def)

lemma jdel_Nil [simp]: "jdel k [] = []"
  by (simp add: jdel_def)

lemma jdel_Cons [simp]:
  "jdel k ((a, b) # m) = (if k = a then jdel k m else (a, b) # jdel k m)"
  by (auto simp: jdel_def)

lemma jwf_Nil [simp]: "jwf []"
  by (simp add: jwf_def)

lemma jkeys_iff: "k \<in> set (jkeys m) \<longleftrightarrow> jget m k \<noteq> None"
  by (auto simp: jkeys_def jget_def map_of_eq_None_iff)

lemma jget_Some_in: "jget m k = Some v \<Longrightarrow> (k, v) \<in> set m"
  by (simp add: jget_def map_of_SomeD)

lemma jget_in_wf: "jwf m \<Longrightarrow> (k, v) \<in> set m \<Longrightarrow> jget m k = Some v"
  by (simp add: jget_def jwf_def)

lemma jwf_filter [intro]: "jwf m \<Longrightarrow> jwf (filter P m)"
  by (induction m) (auto simp: jwf_def)

lemma jget_filter:
  "jwf m \<Longrightarrow> jget (filter P m) k =
    (case jget m k of None \<Rightarrow> None | Some v \<Rightarrow> if P (k, v) then Some v else None)"
  by (induction m) (auto simp: jwf_def jget_def rev_image_eqI split: option.splits dest: map_of_SomeD)

section \<open>Lists and options\<close>

lemma find_Some_iff_in: "List.find P xs = Some x \<Longrightarrow> x \<in> set xs \<and> P x"
  by (induction xs) (auto split: if_splits)

lemma find_None_all: "List.find P xs = None \<Longrightarrow> x \<in> set xs \<Longrightarrow> \<not> P x"
  by (induction xs) (auto split: if_splits)

lemma those_map_Some: "(\<And>x. x \<in> set xs \<Longrightarrow> f (g x) = Some x) \<Longrightarrow> those (map f (map g xs)) = Some xs"
  by (induction xs) simp_all

lemma those_Some_length: "those xs = Some ys \<Longrightarrow> length ys = length xs"
  by (induction xs arbitrary: ys) (auto split: option.splits)

lemma those_Some_nth: "those xs = Some ys \<Longrightarrow> i < length xs \<Longrightarrow> xs ! i = Some (ys ! i)"
  by (induction xs arbitrary: ys i) (auto simp: nth_Cons split: option.splits nat.splits)

lemma those_all_Some: "those xs = Some ys \<Longrightarrow> xs = map Some ys"
  by (induction xs arbitrary: ys) (auto split: option.splits)

lemma those_in: "those (map f xs) = Some ys \<Longrightarrow> y \<in> set ys \<Longrightarrow> \<exists>x\<in>set xs. f x = Some y"
  by (induction xs arbitrary: ys) (auto split: option.splits)

text \<open>The elements of \<open>new Set(xs)\<close> in iteration order.\<close>

definition js_set :: "'a list \<Rightarrow> 'a list" where
  "js_set xs = rev (remdups (rev xs))"

lemma set_js_set [simp]: "set (js_set xs) = set xs"
  by (simp add: js_set_def)

lemma distinct_js_set [simp]: "distinct (js_set xs)"
  by (simp add: js_set_def)

section \<open>What an update does to the values of a map\<close>

lemma jget_None_append: "jget m k = None \<Longrightarrow> jset k v m = m @ [(k, v)]"
  by (induction m) (auto split: if_splits)

lemma map_jset_same: "jget m k = Some v0 \<Longrightarrow> f v = f v0 \<Longrightarrow> map (\<lambda>x. f (snd x)) (jset k v m) = map (\<lambda>x. f (snd x)) m"
  by (induction m) (auto split: if_splits)

lemma in_jset: "jwf m \<Longrightarrow> (d, s) \<in> set (jset k v m) \<Longrightarrow> d = k \<and> s = v \<or> d \<noteq> k \<and> (d, s) \<in> set m"
  by (metis jget_Some_in jget_in_wf jmap_simps(1) jmap_wf(1) option.inject)

lemma jdel_filter: "jdel k m = filter (\<lambda>x. fst x \<noteq> k) m"
  by (induction m) auto

lemma jdel_absent: "jget m k = None \<Longrightarrow> jdel k m = m"
  by (induction m) (auto split: if_splits)

lemma jset_key_in: "(k, v) \<in> set (jset k v m)"
  by (induction m) auto

lemma jset_others_in: "(d, s) \<in> set m \<Longrightarrow> d \<noteq> k \<Longrightarrow> (d, s) \<in> set (jset k v m)"
  by (induction m) (auto split: if_splits)

lemma jdel_others_in: "(d, s) \<in> set m \<Longrightarrow> d \<noteq> k \<Longrightarrow> (d, s) \<in> set (jdel k m)"
  by (simp add: jdel_filter)

lemma jset_values_cover:
  "jwf m \<Longrightarrow> jget m k = Some v0 \<Longrightarrow> (d, s) \<in> set m \<Longrightarrow> x \<in> g s \<Longrightarrow>
    x \<in> g v0 \<or> (\<exists>(d, s)\<in>set (jset k v m). x \<in> g s)"
  by (cases "d = k") (auto dest: jget_in_wf intro: jset_others_in [of d s m k v])

lemma jdel_values_cover:
  "jwf m \<Longrightarrow> jget m k = Some v0 \<Longrightarrow> (d, s) \<in> set m \<Longrightarrow> x \<in> g s \<Longrightarrow>
    x \<in> g v0 \<or> (\<exists>(d, s)\<in>set (jdel k m). x \<in> g s)"
  by (cases "d = k") (auto dest: jget_in_wf intro: jdel_others_in [of d s m k])

lemma jdel_distinct_values:
  assumes "jwf m" "jget m k = Some v0" "distinct (map (\<lambda>x. f (snd x)) m)"
  shows "distinct (map (\<lambda>x. f (snd x)) (jdel k m)) \<and>
    set (map (\<lambda>x. f (snd x)) (jdel k m)) = set (map (\<lambda>x. f (snd x)) m) - {f v0}"
proof
  show "distinct (map (\<lambda>x. f (snd x)) (jdel k m))"
    using assms(3) by (simp add: jdel_filter distinct_map_filter)
  have v0: "(k, v0) \<in> set m" by (rule jget_Some_in [OF assms(2)])
  have inj: "x = y" if "x \<in> set m" "y \<in> set m" "f (snd x) = f (snd y)" for x y
    using assms(3) that by (auto simp: distinct_map inj_on_def)
  have "fst x \<noteq> k \<longleftrightarrow> f (snd x) \<noteq> f v0" if "x \<in> set m" for x
    using inj [OF that v0] jget_in_wf [OF assms(1), of "fst x" "snd x"] assms(2) that by (cases x) auto
  then show "set (map (\<lambda>x. f (snd x)) (jdel k m)) = set (map (\<lambda>x. f (snd x)) m) - {f v0}"
    by (auto simp: jdel_filter)
qed

section \<open>Results\<close>

text \<open>A function that may throw returns \<open>Inl\<close> the error or \<open>Inr\<close> the value; \<open>and_then\<close> is sequencing.\<close>

definition and_then :: "'e + 'a \<Rightarrow> ('a \<Rightarrow> 'e + 'b) \<Rightarrow> 'e + 'b" where
  "and_then r f = (case r of Inl e \<Rightarrow> Inl e | Inr a \<Rightarrow> f a)"

definition require :: "bool \<Rightarrow> 'e \<Rightarrow> 'e + unit" where
  "require b e = (if b then Inr () else Inl e)"

fun map_result :: "('a \<Rightarrow> 'e + 'b) \<Rightarrow> 'a list \<Rightarrow> 'e + 'b list" where
  "map_result f [] = Inr []"
| "map_result f (x # xs) = and_then (f x) (\<lambda>y. and_then (map_result f xs) (\<lambda>ys. Inr (y # ys)))"

lemma and_then_simps [simp]: "and_then (Inl e) f = Inl e" "and_then (Inr a) f = f a"
  by (simp_all add: and_then_def)

lemma and_then_Inr: "and_then r f = Inr b \<longleftrightarrow> (\<exists>a. r = Inr a \<and> f a = Inr b)"
  by (cases r) simp_all

lemma and_then_Inl: "and_then r f = Inl e \<longleftrightarrow> r = Inl e \<or> (\<exists>a. r = Inr a \<and> f a = Inl e)"
  by (cases r) simp_all

lemma require_Inr [simp]: "require b e = Inr u \<longleftrightarrow> b"
  by (simp add: require_def)

lemma require_Inl [simp]: "require b e = Inl e' \<longleftrightarrow> \<not> b \<and> e' = e"
  by (auto simp: require_def)

lemma map_result_Inr: "map_result f xs = Inr ys \<longleftrightarrow> list_all2 (\<lambda>x y. f x = Inr y) xs ys"
  by (induction xs arbitrary: ys) (auto simp: and_then_Inr list_all2_Cons1)

lemma map_result_total: "(\<exists>ys. map_result f xs = Inr ys) \<longleftrightarrow> (\<forall>x\<in>set xs. \<exists>y. f x = Inr y)"
  by (induction xs) (auto simp: and_then_Inr)

end
