(* ===== verification/Js_Values.thy ===== *)
theory Js_Values
  imports Prelude Complex_Main
begin

text \<open>
  The JavaScript values the packages compute with, as far as they use them: numbers, the values
  \<open>JSON.parse\<close> yields, and the character classes of the regular expressions.

  A string is an Isabelle \<open>string\<close>, one character per UTF-16 code unit below 256. A number is a
  rational, an infinity or NaN; the rounding of double arithmetic is not modelled (no operation
  of the model adds or multiplies wire numbers). A text frame of a WebSocket is represented by
  what \<open>JSON.parse\<close> makes of it: a \<open>json\<close> value, or \<open>None\<close> where it throws.
\<close>

section \<open>Numbers\<close>

datatype jsnum = Fin rat | PosInf | NegInf | NaN

definition num :: "int \<Rightarrow> jsnum" where
  "num n = Fin (of_int n)"

fun is_finite_num :: "jsnum \<Rightarrow> bool" where
  "is_finite_num (Fin q) = True"
| "is_finite_num _ = False"

fun is_integer_num :: "jsnum \<Rightarrow> bool" where
  "is_integer_num (Fin q) = (of_int \<lfloor>q\<rfloor> = q)"
| "is_integer_num _ = False"

definition trunc_rat :: "rat \<Rightarrow> int" where
  "trunc_rat q = (if 0 \<le> q then \<lfloor>q\<rfloor> else \<lceil>q\<rceil>)"

text \<open>\<open>ToUint32\<close> (the operator \<open>>>> 0\<close>) and \<open>ToUint16\<close> (\<open>setUint16\<close>), as naturals.\<close>

fun to_uint :: "nat \<Rightarrow> jsnum \<Rightarrow> nat" where
  "to_uint w (Fin q) = nat (trunc_rat q mod 2 ^ w)"
| "to_uint w _ = 0"

lemma is_finite_num_iff: "is_finite_num x \<longleftrightarrow> (\<exists>q. x = Fin q)"
  by (cases x) auto

lemma num_simps [simp]: "is_finite_num (num n)" "is_integer_num (num n)"
  by (simp_all add: num_def)

lemma num_inject [simp]: "num a = num b \<longleftrightarrow> a = b"
  by (simp add: num_def)

lemma is_integer_num_iff: "is_integer_num x \<longleftrightarrow> (\<exists>n. x = num n)"
proof (cases x)
  case (Fin q)
  then show ?thesis by (auto simp: num_def)
qed (auto simp: num_def)

lemma trunc_rat_of_int [simp]: "trunc_rat (of_int n) = n"
  by (simp add: trunc_rat_def)

lemma to_uint_num [simp]: "to_uint w (num n) = nat (n mod 2 ^ w)"
  by (simp add: num_def)

lemma to_uint_less: "to_uint w x < 2 ^ w"
proof (cases x)
  case (Fin q)
  have "trunc_rat q mod 2 ^ w < 2 ^ w" by simp
  then have "nat (trunc_rat q mod 2 ^ w) < nat (2 ^ w)"
    by (subst nat_mono_iff) simp_all
  also have "nat (2 ^ w) = 2 ^ w" by (simp add: nat_power_eq)
  finally show ?thesis by (simp add: Fin)
qed simp_all

section \<open>JSON documents\<close>

datatype json =
    JNull
  | JBool bool
  | JNum jsnum
  | JStr string
  | JArr "json list"
  | JObj "(string \<times> json) list"

text \<open>
  A property read after \<open>asRecord\<close>: the value under the key, \<open>None\<close> for \<open>undefined\<close>. An array
  passes \<open>typeof value === 'object'\<close>, and every property the parsers read from it is undefined.
\<close>

fun asRecord :: "json \<Rightarrow> (string, json) jsmap option" where
  "asRecord (JObj fields) = Some fields"
| "asRecord (JArr _) = Some []"
| "asRecord _ = None"

fun is_string :: "json option \<Rightarrow> bool" where
  "is_string (Some (JStr _)) = True"
| "is_string _ = False"

fun is_array :: "json option \<Rightarrow> bool" where
  "is_array (Some (JArr _)) = True"
| "is_array _ = False"

fun str_of :: "json \<Rightarrow> string option" where
  "str_of (JStr s) = Some s"
| "str_of _ = None"

fun elems_of :: "json option \<Rightarrow> json list" where
  "elems_of (Some (JArr xs)) = xs"
| "elems_of _ = []"

text \<open>\<open>JSON.stringify\<close> of a number: a non-finite number is written as \<open>null\<close>.\<close>

definition json_num :: "jsnum \<Rightarrow> json" where
  "json_num x = (if is_finite_num x then JNum x else JNull)"

definition json_strs :: "string list \<Rightarrow> json" where
  "json_strs xs = JArr (map JStr xs)"

lemma is_string_iff: "is_string v \<longleftrightarrow> (\<exists>s. v = Some (JStr s))"
  by (cases v rule: is_string.cases) auto

lemma is_array_iff: "is_array v \<longleftrightarrow> (\<exists>xs. v = Some (JArr xs))"
  by (cases v rule: is_array.cases) auto

lemma str_of_Some [simp]: "str_of j = Some s \<longleftrightarrow> j = JStr s"
  by (cases j) auto

lemma those_str_of [simp]: "those (map (str_of \<circ> JStr) xs) = Some xs"
  by (induction xs) simp_all

lemma elems_json_strs [simp]: "elems_of (Some (json_strs xs)) = map JStr xs"
  by (simp add: json_strs_def)

lemma is_array_json_strs [simp]: "is_array (Some (json_strs xs))"
  by (simp add: json_strs_def)

section \<open>Character classes\<close>

definition code :: "char \<Rightarrow> nat" where
  "code c = (of_char c :: nat)"

definition is_alnum :: "char \<Rightarrow> bool" where
  "is_alnum c \<longleftrightarrow>
    (48 \<le> code c \<and> code c \<le> 57) \<or> (65 \<le> code c \<and> code c \<le> 90) \<or> (97 \<le> code c \<and> code c \<le> 122)"

text \<open>\<open>/^[...]{1,n}$/\<close> without flags: \<open>$\<close> matches at the end of the input only.\<close>

definition matches_class :: "(char \<Rightarrow> bool) \<Rightarrow> nat \<Rightarrow> string \<Rightarrow> bool" where
  "matches_class cls n s \<longleftrightarrow> s \<noteq> [] \<and> length s \<le> n \<and> list_all cls s"

definition starts_with :: "string \<Rightarrow> string \<Rightarrow> bool" where
  "starts_with p s \<longleftrightarrow> take (length p) s = p"

lemma matches_class_mono:
  "matches_class c n s \<Longrightarrow> (\<And>x. c x \<Longrightarrow> d x) \<Longrightarrow> n \<le> m \<Longrightarrow> matches_class d m s"
  by (auto simp: matches_class_def list_all_iff)

lemma is_alnum_ascii: "is_alnum c \<Longrightarrow> code c < 128"
  by (auto simp: is_alnum_def)

lemma starts_with_append [simp]: "starts_with p (p @ s)"
  by (simp add: starts_with_def)

lemma starts_with_iff: "starts_with p s \<longleftrightarrow> (\<exists>t. s = p @ t)"
  by (auto simp: starts_with_def) (metis append_take_drop_id)

end
