(* ===== verification/Js_Text.thy ===== *)
theory Js_Text
  imports Js_Values
begin

text \<open>
  The string functions of the standard library the packages use: \<open>trim\<close>, \<open>split\<close>, \<open>join\<close>,
  \<open>String(n)\<close> of an integer, and \<open>Number(text)\<close> with the whole numeric literal grammar
  (white space, signs, decimal fractions, exponents, \<open>Infinity\<close>, the 0x, 0o and 0b prefixes).
\<close>

section \<open>Trimming, splitting, joining\<close>

definition is_ws :: "char \<Rightarrow> bool" where
  "is_ws c \<longleftrightarrow> code c \<in> {9, 10, 11, 12, 13, 32, 160}"

definition trim_start :: "string \<Rightarrow> string" where
  "trim_start s = dropWhile is_ws s"

definition trim :: "string \<Rightarrow> string" where
  "trim s = rev (dropWhile is_ws (rev (dropWhile is_ws s)))"

fun split_on :: "char \<Rightarrow> string \<Rightarrow> string list" where
  "split_on d [] = [[]]"
| "split_on d (c # cs) =
    (if c = d then [] # split_on d cs
     else case split_on d cs of [] \<Rightarrow> [[c]] | p # ps \<Rightarrow> (c # p) # ps)"

fun join :: "string \<Rightarrow> string list \<Rightarrow> string" where
  "join sep [] = []"
| "join sep [p] = p"
| "join sep (p # q # ps) = p @ sep @ join sep (q # ps)"

lemma split_on_not_Nil [simp]: "split_on d s \<noteq> []"
  by (induction s) (auto split: list.splits)

lemma split_on_none: "d \<notin> set s \<Longrightarrow> split_on d s = [s]"
  by (induction s) auto

lemma split_on_append: "d \<notin> set p \<Longrightarrow> split_on d (p @ d # s) = p # split_on d s"
  by (induction p) auto

lemma split_on_join: "ps \<noteq> [] \<Longrightarrow> list_all (\<lambda>p. d \<notin> set p) ps \<Longrightarrow> split_on d (join [d] ps) = ps"
  by (induction "[d]" ps rule: join.induct) (simp_all add: split_on_none split_on_append)

lemma join_split_on: "join [d] (split_on d s) = s"
proof (induction s)
  case (Cons c cs)
  show ?case
  proof (cases "split_on d cs")
    case (Cons p ps)
    with Cons.IH show ?thesis by (cases ps) auto
  qed simp
qed simp

lemma split_on_parts: "p \<in> set (split_on d s) \<Longrightarrow> d \<notin> set p"
  by (induction s arbitrary: p) (auto split: list.splits if_splits)

lemma trim_Nil [simp]: "trim [] = []"
  by (simp add: trim_def)

lemma dropWhile_no_head: "(s = [] \<or> \<not> P (hd s)) \<Longrightarrow> dropWhile P s = s"
  by (cases s) simp_all

lemma hd_dropWhile_not: "dropWhile P s = [] \<or> \<not> P (hd (dropWhile P s))"
  using hd_dropWhile by blast

lemma trim_trim [simp]: "trim (trim s) = trim s"
proof -
  obtain t where t: "t = dropWhile is_ws s" by simp
  obtain r where r: "r = dropWhile is_ws (rev t)" by simp
  obtain k where "rev t = k @ r" using takeWhile_dropWhile_id [of is_ws "rev t"] r by metis
  then have split: "t = rev r @ rev k" by (metis rev_append rev_rev_ident)
  have "t = [] \<or> \<not> is_ws (hd t)" unfolding t by (rule hd_dropWhile_not)
  then have "rev r = [] \<or> \<not> is_ws (hd (rev r))"
    by (metis split append_is_Nil_conv hd_append2)
  then have "dropWhile is_ws (rev r) = rev r" by (rule dropWhile_no_head)
  moreover have "dropWhile is_ws r = r" unfolding r by (rule dropWhile_no_head) (rule hd_dropWhile_not)
  ultimately show ?thesis by (simp add: trim_def t [symmetric] r [symmetric])
qed

section \<open>Numbers as text\<close>

definition digit_char :: "nat \<Rightarrow> char" where
  "digit_char d = char_of (48 + d)"

fun nat_text :: "nat \<Rightarrow> string" where
  "nat_text n = (if n < 10 then [digit_char n] else nat_text (n div 10) @ [digit_char (n mod 10)])"

declare nat_text.simps [simp del]

definition int_text :: "int \<Rightarrow> string" where
  "int_text n = (if n < 0 then CHR ''-'' # nat_text (nat (- n)) else nat_text (nat n))"

definition digit_val :: "char \<Rightarrow> nat option" where
  "digit_val c =
    (if 48 \<le> code c \<and> code c \<le> 57 then Some (code c - 48)
     else if 97 \<le> code c \<and> code c \<le> 102 then Some (code c - 87)
     else if 65 \<le> code c \<and> code c \<le> 70 then Some (code c - 55)
     else None)"

text \<open>The longest run of digits: its value, its length and the rest.\<close>

fun scan_digits :: "nat \<Rightarrow> nat \<Rightarrow> nat \<Rightarrow> string \<Rightarrow> nat \<times> nat \<times> string" where
  "scan_digits b acc n [] = (acc, n, [])"
| "scan_digits b acc n (c # cs) =
    (case digit_val c of
      Some d \<Rightarrow> if d < b then scan_digits b (acc * b + d) (Suc n) cs else (acc, n, c # cs)
    | None \<Rightarrow> (acc, n, c # cs))"

text \<open>Magnitudes from \<open>2\<^sup>1\<^sup>0\<^sup>2\<^sup>4 - 2\<^sup>9\<^sup>7\<^sup>0\<close> up round to infinity.\<close>

definition to_double :: "rat \<Rightarrow> jsnum" where
  "to_double q =
    (if q \<ge> 2 ^ 1024 - 2 ^ 970 then PosInf else if q \<le> - (2 ^ 1024 - 2 ^ 970) then NegInf else Fin q)"

definition radix_literal :: "nat \<Rightarrow> string \<Rightarrow> jsnum" where
  "radix_literal b s =
    (case scan_digits b 0 0 s of (v, n, r) \<Rightarrow> if n > 0 \<and> r = [] then to_double (of_nat v) else NaN)"

definition exponent_part :: "string \<Rightarrow> int option" where
  "exponent_part s =
    (case s of
      [] \<Rightarrow> Some 0
    | c # cs \<Rightarrow>
        if c \<noteq> CHR ''e'' \<and> c \<noteq> CHR ''E'' then None
        else let neg = (cs \<noteq> [] \<and> hd cs = CHR ''-'');
                 ds = (if cs \<noteq> [] \<and> (hd cs = CHR ''-'' \<or> hd cs = CHR ''+'') then tl cs else cs)
             in case scan_digits 10 0 0 ds of
                  (v, n, r) \<Rightarrow> if n > 0 \<and> r = [] then Some (if neg then - int v else int v) else None)"

definition scale10 :: "rat \<Rightarrow> int \<Rightarrow> rat" where
  "scale10 q e = (if 0 \<le> e then q * 10 ^ nat e else q / 10 ^ nat (- e))"

definition decimal_literal :: "bool \<Rightarrow> string \<Rightarrow> jsnum" where
  "decimal_literal neg s =
    (if s = ''Infinity'' then (if neg then NegInf else PosInf)
     else case scan_digits 10 0 0 s of (i, ni, r1) \<Rightarrow>
       (case (if r1 \<noteq> [] \<and> hd r1 = CHR ''.'' then scan_digits 10 0 0 (tl r1) else (0, 0, r1)) of (f, nf, r2) \<Rightarrow>
         if ni + nf = 0 then NaN
         else case exponent_part r2 of
           None \<Rightarrow> NaN
         | Some e \<Rightarrow>
             let m = scale10 (of_nat i + of_nat f / 10 ^ nf) e
             in to_double (if neg then - m else m)))"

definition js_Number :: "string \<Rightarrow> jsnum" where
  "js_Number text =
    (case trim text of
      [] \<Rightarrow> num 0
    | s \<Rightarrow>
        if take 2 s = ''0x'' \<or> take 2 s = ''0X'' then radix_literal 16 (drop 2 s)
        else if take 2 s = ''0o'' \<or> take 2 s = ''0O'' then radix_literal 8 (drop 2 s)
        else if take 2 s = ''0b'' \<or> take 2 s = ''0B'' then radix_literal 2 (drop 2 s)
        else if hd s = CHR ''-'' then decimal_literal True (tl s)
        else if hd s = CHR ''+'' then decimal_literal False (tl s)
        else decimal_literal False s)"

text \<open>Comparison of numbers; NaN compares false with everything.\<close>

fun js_less :: "jsnum \<Rightarrow> jsnum \<Rightarrow> bool" where
  "js_less (Fin a) (Fin b) = (a < b)"
| "js_less NegInf (Fin _) = True"
| "js_less (Fin _) PosInf = True"
| "js_less NegInf PosInf = True"
| "js_less _ _ = False"

fun js_leq :: "jsnum \<Rightarrow> jsnum \<Rightarrow> bool" where
  "js_leq NaN _ = False"
| "js_leq _ NaN = False"
| "js_leq a b = (\<not> js_less b a)"

lemma js_less_num [simp]: "js_less (num a) (num b) \<longleftrightarrow> a < b"
  by (simp add: num_def)

lemma js_leq_num [simp]: "js_leq (num a) (num b) \<longleftrightarrow> a \<le> b"
  by (simp add: num_def not_less)

section \<open>Reading back what was written\<close>

lemma digit_val_char: "d < 10 \<Longrightarrow> digit_val (digit_char d) = Some d"
  by (simp add: digit_val_def digit_char_def code_def)

lemma scan_digits_append:
  "scan_digits b acc n (s @ t) =
    (case scan_digits b acc n s of (v, k, r) \<Rightarrow> if r = [] then scan_digits b v k t else (v, k, r @ t))"
  by (induction s arbitrary: acc n) (auto split: option.splits prod.splits)

lemma scan_nat_text: "\<exists>k>0. \<forall>acc n. scan_digits 10 acc n (nat_text v) = (acc * 10 ^ k + v, n + k, [])"
proof (induction v rule: nat_text.induct)
  case (1 v)
  show ?case
  proof (cases "v < 10")
    case True
    then have "\<forall>acc n. scan_digits 10 acc n (nat_text v) = (acc * 10 ^ 1 + v, n + 1, [])"
      by (simp add: nat_text.simps [of v] digit_val_char)
    then show ?thesis by blast
  next
    case False
    with 1 obtain k where k: "\<forall>acc n. scan_digits 10 acc n (nat_text (v div 10)) = (acc * 10 ^ k + v div 10, n + k, [])"
      by blast
    have "\<forall>acc n. scan_digits 10 acc n (nat_text v) = (acc * 10 ^ Suc k + v, n + Suc k, [])"
      using False k by (simp add: nat_text.simps [of v] scan_digits_append digit_val_char algebra_simps)
    then show ?thesis by blast
  qed
qed

lemma scan_nat_text_0: "\<exists>k>0. scan_digits 10 0 0 (nat_text v) = (v, k, [])"
  using scan_nat_text [of v] by auto

text \<open>\<open>simp add: literal_defs\<close> evaluates \<open>js_Number\<close> on a decimal literal.\<close>

lemmas decimal_literal_defs [literal_defs] = js_Number_def trim_def is_ws_def code_def decimal_literal_def digit_val_def
  exponent_part_def scale10_def to_double_def num_def

end
