(* ===== verification/Bytes.thy ===== *)
theory Bytes
  imports Prelude "HOL-Library.Word"
begin

text \<open>
  Bytes as \<open>8 word\<close> and the big-endian fields of the binary formats: what \<open>DataView.setUint16\<close>,
  \<open>setUint32\<close>, \<open>getUint16\<close>, \<open>Buffer.readUInt32BE\<close> and their kin write and read. A field value is a
  natural number below the field's range.
\<close>

type_synonym u8 = "8 word"
type_synonym bytes = "u8 list"

definition be16 :: "nat \<Rightarrow> bytes" where
  "be16 n = [of_nat (n div 256), of_nat (n mod 256)]"

definition be32 :: "nat \<Rightarrow> bytes" where
  "be32 n = be16 (n div 65536) @ be16 (n mod 65536)"

definition rd16 :: "bytes \<Rightarrow> nat \<Rightarrow> nat" where
  "rd16 bs i = unat (bs ! i) * 256 + unat (bs ! (i + 1))"

definition rd32 :: "bytes \<Rightarrow> nat \<Rightarrow> nat" where
  "rd32 bs i = rd16 bs i * 65536 + rd16 bs (i + 2)"

lemma unat_u8: "n < 256 \<Longrightarrow> unat (of_nat n :: u8) = n"
  by (simp add: unat_of_nat take_bit_eq_mod)

lemma unat_u8_less: "unat (b :: u8) < 256"
proof -
  have "unat b < 2 ^ LENGTH(8)" by (rule unsigned_less)
  then show ?thesis by simp
qed

lemma length_be [simp]: "length (be16 n) = 2" "length (be32 n) = 4"
  by (simp_all add: be16_def be32_def)

lemma rd16_be16: "n < 65536 \<Longrightarrow> rd16 (be16 n @ bs) 0 = n"
  by (simp add: rd16_def be16_def unat_u8)

lemma rd32_be32: "n < 2 ^ 32 \<Longrightarrow> rd32 (be32 n @ bs) 0 = n"
proof -
  assume n: "n < 2 ^ 32"
  then have hi: "n div 65536 < 65536" by simp
  have lo: "n mod 65536 < 65536" by simp
  have "rd16 (be32 n @ bs) 0 = n div 65536"
    using rd16_be16 [OF hi, of "be16 (n mod 65536) @ bs"] by (simp add: be32_def)
  moreover have "rd16 (be32 n @ bs) 2 = n mod 65536"
    using rd16_be16 [OF lo, of bs] by (simp add: be32_def be16_def rd16_def)
  ultimately show ?thesis by (simp add: rd32_def numeral_2_eq_2 [symmetric])
qed

lemma rd16_append: "i = length xs + j \<Longrightarrow> rd16 (xs @ ys) i = rd16 ys j"
  by (simp add: rd16_def nth_append)

lemma rd32_append: "i = length xs + j \<Longrightarrow> rd32 (xs @ ys) i = rd32 ys j"
  by (simp add: rd32_def rd16_append [of _ xs] rd16_append [of _ xs "j + 2"])

lemma rd16_less: "rd16 bs i < 65536"
proof -
  have "unat (bs ! i) < 256" and "unat (bs ! (i + 1)) < 256" by (rule unat_u8_less)+
  then show ?thesis by (simp add: rd16_def)
qed

lemma rd32_less: "rd32 bs i < 2 ^ 32"
proof -
  have "rd16 bs i < 65536" and "rd16 bs (i + 2) < 65536" by (rule rd16_less)+
  then show ?thesis by (simp add: rd32_def)
qed

text \<open>A read only looks at the bytes it covers: what stands after them does not matter.\<close>

lemma rd16_local: "i + 1 < length xs \<Longrightarrow> rd16 (xs @ ys) i = rd16 xs i"
  by (simp add: rd16_def nth_append)

lemma rd32_local: "i + 3 < length xs \<Longrightarrow> rd32 (xs @ ys) i = rd32 xs i"
  by (simp add: rd32_def rd16_local)

end
