(* ===== verification/Shared_Protocol.thy ===== *)
theory Shared_Protocol
  imports Js_Values
begin

text \<open>
  \<open>packages/shared\<close>: the actions (actions.ts), the device types (device.ts), the tunnel messages
  and their builders (messages.ts) and the parsers of the trust boundary (parsers.ts).
  A parser takes what \<open>JSON.parse\<close> made of the text (\<open>None\<close>: it threw).
\<close>

section \<open>Actions and devices\<close>

datatype hardware_button = Home | Back

datatype device_action =
    Tap jsnum jsnum
  | Swipe jsnum jsnum jsnum jsnum jsnum
  | TypeText string
  | UiDump
  | Screenshot
  | PressButton hardware_button

datatype device_platform = Ios | Android

record register_device =
  rd_id :: string
  rd_name :: string
  rd_platform :: device_platform
  rd_osVersion :: string
  rd_tags :: "string list"

fun button_name :: "hardware_button \<Rightarrow> string" where
  "button_name Home = ''home''"
| "button_name Back = ''back''"

fun platform_name :: "device_platform \<Rightarrow> string" where
  "platform_name Ios = ''ios''"
| "platform_name Android = ''android''"

definition hardware_buttons :: "string list" where
  "hardware_buttons = [''home'', ''back'']"

definition device_platforms :: "string list" where
  "device_platforms = [''ios'', ''android'']"

definition isHardwareButton :: "json option \<Rightarrow> bool" where
  "isHardwareButton v = (case v of Some (JStr s) \<Rightarrow> s \<in> set hardware_buttons | _ \<Rightarrow> False)"

definition isDevicePlatform :: "json option \<Rightarrow> bool" where
  "isDevicePlatform v = (case v of Some (JStr s) \<Rightarrow> s \<in> set device_platforms | _ \<Rightarrow> False)"

fun action_kind :: "device_action \<Rightarrow> string" where
  "action_kind (Tap _ _) = ''tap''"
| "action_kind (Swipe _ _ _ _ _) = ''swipe''"
| "action_kind (TypeText _) = ''typeText''"
| "action_kind UiDump = ''uiDump''"
| "action_kind Screenshot = ''screenshot''"
| "action_kind (PressButton _) = ''pressButton''"

definition device_action_kinds :: "string list" where
  "device_action_kinds =
    [''tap'', ''swipe'', ''typeText'', ''uiDump'', ''screenshot'', ''pressButton'']"

text \<open>The result of a command: \<open>result\<close> may be missing (\<open>undefined\<close>) on success.\<close>

datatype command_outcome = Succeeded "json option" | Failed string

definition command_error_timeout :: string where
  "command_error_timeout = ''timeout''"

definition command_error_agent_disconnected :: string where
  "command_error_agent_disconnected = ''agent_disconnected''"

definition command_error_unsupported :: string where
  "command_error_unsupported = ''unsupported_action''"

definition command_error_occupation_ended :: string where
  "command_error_occupation_ended = ''occupation_ended''"

lemmas command_error_defs =
  command_error_timeout_def command_error_agent_disconnected_def
  command_error_unsupported_def command_error_occupation_ended_def

section \<open>Messages\<close>

datatype agent_message =
    Register "register_device list" "string list option"
  | Heartbeat "string list"
  | CommandResult string command_outcome

datatype server_message =
    Command string string string device_action
  | OccupancyEnded string string
  | StreamDemand "string list"

text \<open>
  The builders of messages.ts: the object literal each returns, as \<open>JSON.stringify\<close> writes it
  (an \<open>undefined\<close> property is dropped).
\<close>

definition json_of_device :: "register_device \<Rightarrow> json" where
  "json_of_device d = JObj
    [(''id'', JStr (rd_id d)), (''name'', JStr (rd_name d)),
     (''platform'', JStr (platform_name (rd_platform d))),
     (''osVersion'', JStr (rd_osVersion d)), (''tags'', json_strs (rd_tags d))]"

fun json_of_action :: "device_action \<Rightarrow> json" where
  "json_of_action (Tap x y) = JObj [(''kind'', JStr ''tap''), (''x'', json_num x), (''y'', json_num y)]"
| "json_of_action (Swipe fx fy tx ty d) = JObj
    [(''kind'', JStr ''swipe''), (''fromX'', json_num fx), (''fromY'', json_num fy),
     (''toX'', json_num tx), (''toY'', json_num ty), (''durationMs'', json_num d)]"
| "json_of_action (TypeText t) = JObj [(''kind'', JStr ''typeText''), (''text'', JStr t)]"
| "json_of_action UiDump = JObj [(''kind'', JStr ''uiDump'')]"
| "json_of_action Screenshot = JObj [(''kind'', JStr ''screenshot'')]"
| "json_of_action (PressButton b) =
    JObj [(''kind'', JStr ''pressButton''), (''button'', JStr (button_name b))]"

fun json_of_outcome :: "command_outcome \<Rightarrow> json" where
  "json_of_outcome (Succeeded None) = JObj [(''ok'', JBool True)]"
| "json_of_outcome (Succeeded (Some v)) = JObj [(''ok'', JBool True), (''result'', v)]"
| "json_of_outcome (Failed e) = JObj [(''ok'', JBool False), (''error'', JStr e)]"

definition buildRegisterMessage :: "register_device list \<Rightarrow> string list option \<Rightarrow> json" where
  "buildRegisterMessage devices capabilities = (case capabilities of
      None \<Rightarrow> JObj [(''type'', JStr ''register''), (''devices'', JArr (map json_of_device devices))]
    | Some caps \<Rightarrow> JObj [(''type'', JStr ''register''), (''devices'', JArr (map json_of_device devices)),
                         (''capabilities'', json_strs caps)])"

definition buildHeartbeatMessage :: "string list \<Rightarrow> json" where
  "buildHeartbeatMessage ids = JObj [(''type'', JStr ''heartbeat''), (''deviceIds'', json_strs ids)]"

definition buildCommandMessage :: "string \<Rightarrow> string \<Rightarrow> string \<Rightarrow> device_action \<Rightarrow> json" where
  "buildCommandMessage requestId deviceId occupantId action = JObj
    [(''type'', JStr ''command''), (''requestId'', JStr requestId), (''deviceId'', JStr deviceId),
     (''occupantId'', JStr occupantId), (''action'', json_of_action action)]"

definition buildStreamDemandMessage :: "string list \<Rightarrow> json" where
  "buildStreamDemandMessage ids = JObj [(''type'', JStr ''streamDemand''), (''deviceIds'', json_strs ids)]"

definition buildOccupancyEndedMessage :: "string \<Rightarrow> string \<Rightarrow> json" where
  "buildOccupancyEndedMessage deviceId occupantId = JObj
    [(''type'', JStr ''occupancyEnded''), (''deviceId'', JStr deviceId), (''occupantId'', JStr occupantId)]"

definition buildCommandResultMessage :: "string \<Rightarrow> command_outcome \<Rightarrow> json" where
  "buildCommandResultMessage requestId outcome = JObj
    [(''type'', JStr ''commandResult''), (''requestId'', JStr requestId),
     (''outcome'', json_of_outcome outcome)]"

fun json_of_agent_message :: "agent_message \<Rightarrow> json" where
  "json_of_agent_message (Register ds caps) = buildRegisterMessage ds caps"
| "json_of_agent_message (Heartbeat ids) = buildHeartbeatMessage ids"
| "json_of_agent_message (CommandResult r out) = buildCommandResultMessage r out"

fun json_of_server_message :: "server_message \<Rightarrow> json" where
  "json_of_server_message (Command r d occ a) = buildCommandMessage r d occ a"
| "json_of_server_message (OccupancyEnded d occ) = buildOccupancyEndedMessage d occ"
| "json_of_server_message (StreamDemand ids) = buildStreamDemandMessage ids"

section \<open>Parsers\<close>

definition parseJson :: "json option \<Rightarrow> (string, json) jsmap option" where
  "parseJson parsed = (case parsed of None \<Rightarrow> None | Some v \<Rightarrow> asRecord v)"

definition device_id_char :: "char \<Rightarrow> bool" where
  "device_id_char c \<longleftrightarrow> is_alnum c \<or> c \<in> {CHR ''.'', CHR ''_'', CHR ''-''}"

definition is_device_id :: "string \<Rightarrow> bool" where
  "is_device_id s = matches_class device_id_char 128 s"

definition isDeviceId :: "json option \<Rightarrow> bool" where
  "isDeviceId v = (case v of Some (JStr s) \<Rightarrow> is_device_id s | _ \<Rightarrow> False)"

definition request_id_char :: "char \<Rightarrow> bool" where
  "request_id_char c \<longleftrightarrow> is_alnum c \<or> c = CHR ''-''"

definition is_request_id :: "string \<Rightarrow> bool" where
  "is_request_id s = matches_class request_id_char 64 s"

definition isRequestId :: "json option \<Rightarrow> bool" where
  "isRequestId v = (case v of Some (JStr s) \<Rightarrow> is_request_id s | _ \<Rightarrow> False)"

definition is_occupant_id :: "string \<Rightarrow> bool" where
  "is_occupant_id s = matches_class request_id_char 64 s"

definition isOccupantId :: "json option \<Rightarrow> bool" where
  "isOccupantId v = (case v of Some (JStr s) \<Rightarrow> is_occupant_id s | _ \<Rightarrow> False)"

definition isRegisterDevice :: "json \<Rightarrow> bool" where
  "isRegisterDevice value = (case asRecord value of
      None \<Rightarrow> False
    | Some r \<Rightarrow>
        isDeviceId (jget r ''id'') \<and>
        is_string (jget r ''name'') \<and>
        isDevicePlatform (jget r ''platform'') \<and>
        is_string (jget r ''osVersion'') \<and>
        is_array (jget r ''tags'') \<and>
        list_all (\<lambda>t. is_string (Some t)) (elems_of (jget r ''tags'')))"

definition isCommandOutcome :: "json option \<Rightarrow> bool" where
  "isCommandOutcome value = (case Option.bind value asRecord of
      None \<Rightarrow> False
    | Some r \<Rightarrow> if jget r ''ok'' = Some (JBool True) then True
               else jget r ''ok'' = Some (JBool False) \<and> is_string (jget r ''error''))"

fun isFiniteNumber :: "json option \<Rightarrow> bool" where
  "isFiniteNumber (Some (JNum x)) = is_finite_num x"
| "isFiniteNumber _ = False"

definition isDeviceAction :: "json option \<Rightarrow> bool" where
  "isDeviceAction value = (case Option.bind value asRecord of
      None \<Rightarrow> False
    | Some r \<Rightarrow>
        if jget r ''kind'' = Some (JStr ''tap'')
        then isFiniteNumber (jget r ''x'') \<and> isFiniteNumber (jget r ''y'')
        else if jget r ''kind'' = Some (JStr ''swipe'')
        then isFiniteNumber (jget r ''fromX'') \<and> isFiniteNumber (jget r ''fromY'') \<and>
             isFiniteNumber (jget r ''toX'') \<and> isFiniteNumber (jget r ''toY'') \<and>
             isFiniteNumber (jget r ''durationMs'')
        else if jget r ''kind'' = Some (JStr ''typeText'') then is_string (jget r ''text'')
        else if jget r ''kind'' = Some (JStr ''screenshot'') then True
        else if jget r ''kind'' = Some (JStr ''pressButton'') then isHardwareButton (jget r ''button'')
        else jget r ''kind'' = Some (JStr ''uiDump''))"

text \<open>
  The type assertions (\<open>as RegisterDeviceInput\<close> and the narrowing of the guards): the typed view of
  a document that passed its guard. The defaults are never reached under the guard.
\<close>

definition str_at :: "(string, json) jsmap \<Rightarrow> string \<Rightarrow> string" where
  "str_at r k = (case jget r k of Some (JStr s) \<Rightarrow> s | _ \<Rightarrow> [])"

definition num_at :: "(string, json) jsmap \<Rightarrow> string \<Rightarrow> jsnum" where
  "num_at r k = (case jget r k of Some (JNum x) \<Rightarrow> x | _ \<Rightarrow> NaN)"

definition strs_at :: "(string, json) jsmap \<Rightarrow> string \<Rightarrow> string list" where
  "strs_at r k = List.map_filter str_of (elems_of (jget r k))"

definition fields_of :: "json option \<Rightarrow> (string, json) jsmap" where
  "fields_of value = (case Option.bind value asRecord of Some r \<Rightarrow> r | None \<Rightarrow> [])"

definition cast_device :: "json \<Rightarrow> register_device" where
  "cast_device value = (let r = fields_of (Some value) in
    \<lparr>rd_id = str_at r ''id'', rd_name = str_at r ''name'',
     rd_platform = (if str_at r ''platform'' = ''ios'' then Ios else Android),
     rd_osVersion = str_at r ''osVersion'', rd_tags = strs_at r ''tags''\<rparr>)"

definition cast_outcome :: "json option \<Rightarrow> command_outcome" where
  "cast_outcome value = (let r = fields_of value in
    if jget r ''ok'' = Some (JBool True) then Succeeded (jget r ''result'')
    else Failed (str_at r ''error''))"

definition cast_action :: "json option \<Rightarrow> device_action" where
  "cast_action value = (let r = fields_of value; k = str_at r ''kind'' in
    if k = ''tap'' then Tap (num_at r ''x'') (num_at r ''y'')
    else if k = ''swipe''
    then Swipe (num_at r ''fromX'') (num_at r ''fromY'') (num_at r ''toX'') (num_at r ''toY'') (num_at r ''durationMs'')
    else if k = ''typeText'' then TypeText (str_at r ''text'')
    else if k = ''screenshot'' then Screenshot
    else if k = ''pressButton'' then PressButton (if str_at r ''button'' = ''home'' then Home else Back)
    else UiDump)"

definition parseAgentMessage :: "json option \<Rightarrow> agent_message option" where
  "parseAgentMessage raw = (case parseJson raw of
      None \<Rightarrow> None
    | Some m \<Rightarrow>
        if jget m ''type'' = Some (JStr ''register'') \<and> is_array (jget m ''devices'')
        then if \<not> list_all isRegisterDevice (elems_of (jget m ''devices'')) then None
             else if jget m ''capabilities'' = None
             then Some (Register (map cast_device (elems_of (jget m ''devices''))) None)
             else if \<not> is_array (jget m ''capabilities'') \<or>
                     \<not> list_all (\<lambda>k. is_string (Some k)) (elems_of (jget m ''capabilities''))
             then None
             else Some (Register (map cast_device (elems_of (jget m ''devices'')))
                         (Some (strs_at m ''capabilities'')))
        else if jget m ''type'' = Some (JStr ''heartbeat'') \<and> is_array (jget m ''deviceIds'') \<and>
                list_all (\<lambda>i. is_string (Some i)) (elems_of (jget m ''deviceIds''))
        then Some (Heartbeat (strs_at m ''deviceIds''))
        else if jget m ''type'' = Some (JStr ''commandResult'') \<and> isRequestId (jget m ''requestId'') \<and>
                isCommandOutcome (jget m ''outcome'')
        then Some (CommandResult (str_at m ''requestId'') (cast_outcome (jget m ''outcome'')))
        else None)"

definition parseServerMessage :: "json option \<Rightarrow> server_message option" where
  "parseServerMessage raw = (case parseJson raw of
      None \<Rightarrow> None
    | Some m \<Rightarrow>
        if jget m ''type'' = Some (JStr ''command'') \<and> isRequestId (jget m ''requestId'') \<and>
           isDeviceId (jget m ''deviceId'') \<and> isOccupantId (jget m ''occupantId'') \<and>
           isDeviceAction (jget m ''action'')
        then Some (Command (str_at m ''requestId'') (str_at m ''deviceId'') (str_at m ''occupantId'')
                    (cast_action (jget m ''action'')))
        else if jget m ''type'' = Some (JStr ''streamDemand'') \<and> is_array (jget m ''deviceIds'') \<and>
                list_all (\<lambda>i. isDeviceId (Some i)) (elems_of (jget m ''deviceIds''))
        then Some (StreamDemand (strs_at m ''deviceIds''))
        else if jget m ''type'' = Some (JStr ''occupancyEnded'') \<and> isDeviceId (jget m ''deviceId'') \<and>
                isOccupantId (jget m ''occupantId'')
        then Some (OccupancyEnded (str_at m ''deviceId'') (str_at m ''occupantId''))
        else None)"

section \<open>What a well-formed message is\<close>

fun finite_action :: "device_action \<Rightarrow> bool" where
  "finite_action (Tap x y) = (is_finite_num x \<and> is_finite_num y)"
| "finite_action (Swipe a b c d e) =
    (is_finite_num a \<and> is_finite_num b \<and> is_finite_num c \<and> is_finite_num d \<and> is_finite_num e)"
| "finite_action _ = True"

fun wf_agent_message :: "agent_message \<Rightarrow> bool" where
  "wf_agent_message (Register ds caps) = list_all (\<lambda>d. is_device_id (rd_id d)) ds"
| "wf_agent_message (Heartbeat ids) = True"
| "wf_agent_message (CommandResult r out) = is_request_id r"

fun wf_server_message :: "server_message \<Rightarrow> bool" where
  "wf_server_message (Command r d occ a) =
    (is_request_id r \<and> is_device_id d \<and> is_occupant_id occ \<and> finite_action a)"
| "wf_server_message (OccupancyEnded d occ) = (is_device_id d \<and> is_occupant_id occ)"
| "wf_server_message (StreamDemand ids) = list_all is_device_id ids"

section \<open>Round trips\<close>

lemma isDeviceId_JStr [simp]: "isDeviceId (Some (JStr s)) = is_device_id s"
  by (simp add: isDeviceId_def)

lemma isRequestId_JStr [simp]: "isRequestId (Some (JStr s)) = is_request_id s"
  by (simp add: isRequestId_def)

lemma isOccupantId_JStr [simp]: "isOccupantId (Some (JStr s)) = is_occupant_id s"
  by (simp add: isOccupantId_def)

lemma guard_JStr:
  "isDeviceId v \<Longrightarrow> \<exists>s. v = Some (JStr s) \<and> is_device_id s"
  "isRequestId v \<Longrightarrow> \<exists>s. v = Some (JStr s) \<and> is_request_id s"
  "isOccupantId v \<Longrightarrow> \<exists>s. v = Some (JStr s) \<and> is_occupant_id s"
  by (auto simp: isDeviceId_def isRequestId_def isOccupantId_def split: option.splits json.splits)

lemma map_filter_str_of_JStr [simp]: "List.map_filter str_of (map JStr xs) = xs"
  by (induction xs) (simp_all add: List.map_filter_def)

lemma platform_name_cases [simp]: "platform_name p \<in> set device_platforms"
  by (cases p) (simp_all add: device_platforms_def)

lemma button_name_cases [simp]: "button_name b \<in> set hardware_buttons"
  by (cases b) (simp_all add: hardware_buttons_def)

lemma isRegisterDevice_json: "isRegisterDevice (json_of_device d) \<longleftrightarrow> is_device_id (rd_id d)"
  by (auto simp: isRegisterDevice_def json_of_device_def isDevicePlatform_def list_all_iff)

lemma cast_device_json [simp]: "cast_device (json_of_device d) = d"
  by (cases "rd_platform d")
    (simp_all add: cast_device_def json_of_device_def fields_of_def str_at_def strs_at_def)

lemma cast_device_map_json [simp]: "map cast_device (map json_of_device ds) = ds"
  by (induction ds) simp_all

lemma isCommandOutcome_json [simp]: "isCommandOutcome (Some (json_of_outcome out))"
  by (cases out rule: json_of_outcome.cases) (simp_all add: isCommandOutcome_def)

lemma cast_outcome_json [simp]: "cast_outcome (Some (json_of_outcome out)) = out"
  by (cases out rule: json_of_outcome.cases) (simp_all add: cast_outcome_def fields_of_def str_at_def)

lemma isDeviceAction_json [simp]: "isDeviceAction (Some (json_of_action a)) \<longleftrightarrow> finite_action a"
  by (cases a) (auto simp: isDeviceAction_def isHardwareButton_def json_num_def)

lemma cast_action_json [simp]: "finite_action a \<Longrightarrow> cast_action (Some (json_of_action a)) = a"
proof (cases a)
  case (PressButton b)
  then show ?thesis by (cases b) (simp_all add: cast_action_def fields_of_def str_at_def)
qed (simp_all add: cast_action_def fields_of_def str_at_def num_at_def json_num_def)

lemmas builder_defs =
  buildRegisterMessage_def buildHeartbeatMessage_def buildCommandMessage_def
  buildStreamDemandMessage_def buildOccupancyEndedMessage_def buildCommandResultMessage_def

text \<open>
  what the Agent builds with the message builders, the server's parser reads back unchanged,
  exactly when the identifiers in it are well formed. A register message with one device whose
  id breaks the pattern is rejected as a whole.
\<close>

theorem agent_message_roundtrip:
  "parseAgentMessage (Some (json_of_agent_message m)) =
    (if wf_agent_message m then Some m else None)"
proof (cases m)
  case (Register ds caps)
  have "list_all isRegisterDevice (map json_of_device ds) \<longleftrightarrow> list_all (\<lambda>d. is_device_id (rd_id d)) ds"
    by (simp add: list_all_iff isRegisterDevice_json)
  then show ?thesis
    by (cases caps)
      (simp_all add: Register builder_defs parseAgentMessage_def parseJson_def strs_at_def
        list_all_iff map_idI json_strs_def del: map_map)
next
  case (Heartbeat ids)
  then show ?thesis
    by (simp add: builder_defs parseAgentMessage_def parseJson_def strs_at_def list_all_iff)
next
  case (CommandResult r out)
  then show ?thesis
    by (simp add: builder_defs parseAgentMessage_def parseJson_def str_at_def)
qed

text \<open>
  C27: what the server builds, the Agent's parser reads back unchanged, exactly when its ids are
  well formed and its coordinates finite.
\<close>

theorem server_message_roundtrip:
  "parseServerMessage (Some (json_of_server_message m)) =
    (if wf_server_message m then Some m else None)"
proof (cases m)
  case (Command r d occ a)
  then show ?thesis
    by (simp add: builder_defs parseServerMessage_def parseJson_def str_at_def)
next
  case (OccupancyEnded d occ)
  then show ?thesis
    by (simp add: builder_defs parseServerMessage_def parseJson_def str_at_def)
next
  case (StreamDemand ids)
  then show ?thesis
    by (simp add: builder_defs parseServerMessage_def parseJson_def strs_at_def list_all_iff)
qed

section \<open>Soundness of the parsers on arbitrary input\<close>

lemma is_string_str_at: "is_string (jget r k) \<Longrightarrow> jget r k = Some (JStr (str_at r k))"
  by (auto simp: is_string_iff str_at_def)

lemma isRegisterDevice_cast: "isRegisterDevice v \<Longrightarrow> is_device_id (rd_id (cast_device v))"
  by (auto simp: isRegisterDevice_def cast_device_def fields_of_def str_at_def Let_def
      dest!: guard_JStr split: option.splits)

lemma isFiniteNumber_num_at: "isFiniteNumber (jget r k) \<Longrightarrow> is_finite_num (num_at r k)"
  by (cases "jget r k" rule: isFiniteNumber.cases) (auto simp: num_at_def)

lemma isDeviceAction_cast: "isDeviceAction v \<Longrightarrow> finite_action (cast_action v)"
  by (auto simp: isDeviceAction_def cast_action_def fields_of_def str_at_def Let_def isFiniteNumber_num_at
      split: option.splits if_splits)

lemma strs_at_device_ids:
  "is_array (jget m k) \<Longrightarrow> list_all (\<lambda>i. isDeviceId (Some i)) (elems_of (jget m k)) \<Longrightarrow>
    list_all is_device_id (strs_at m k)"
  by (auto simp: strs_at_def is_array_iff list_all_iff List.map_filter_def dest!: guard_JStr)

lemma guard_str_at:
  "isDeviceId (jget m k) \<Longrightarrow> is_device_id (str_at m k)"
  "isRequestId (jget m k) \<Longrightarrow> is_request_id (str_at m k)"
  "isOccupantId (jget m k) \<Longrightarrow> is_occupant_id (str_at m k)"
  by (auto simp: str_at_def dest!: guard_JStr)

text \<open>
  whatever text the server sends, a message the Agent's parser accepts is well formed: the
  request, device and occupant ids match their patterns (no path separator, no control character)
  and every coordinate is a finite number.
\<close>

theorem parseServerMessage_sound:
  assumes "parseServerMessage raw = Some m"
  shows "wf_server_message m"
  using assms
  by (auto simp: parseServerMessage_def guard_str_at strs_at_device_ids isDeviceAction_cast
      split: option.splits if_splits)

theorem parseServerMessage_sound_witness:
  "wf_server_message (StreamDemand [''A1''])"
  by (rule parseServerMessage_sound [of "Some (JObj [(''type'', JStr ''streamDemand''),
        (''deviceIds'', JArr [JStr ''A1''])])"])
    (simp add: parseServerMessage_def parseJson_def strs_at_def is_device_id_def matches_class_def
      device_id_char_def is_alnum_def code_def List.map_filter_def)

text \<open>
  whatever text an Agent sends, a message the server's parser accepts is well formed: every
  registered device has an id that matches the pattern and every command result a request id that
  matches its own.
\<close>

theorem parseAgentMessage_sound:
  assumes "parseAgentMessage raw = Some m"
  shows "wf_agent_message m"
  using assms
  by (auto simp: parseAgentMessage_def guard_str_at isRegisterDevice_cast list_all_iff
      split: option.splits if_splits)

theorem parseAgentMessage_sound_witness:
  "wf_agent_message (CommandResult ''r-1'' (Failed ''x''))"
  by (rule parseAgentMessage_sound [of "Some (JObj [(''type'', JStr ''commandResult''),
        (''requestId'', JStr ''r-1''), (''outcome'', JObj [(''ok'', JBool False), (''error'', JStr ''x'')])])"])
    (simp add: parseAgentMessage_def parseJson_def str_at_def is_request_id_def matches_class_def
      request_id_char_def is_alnum_def code_def isCommandOutcome_def cast_outcome_def fields_of_def)

text \<open>An id that passes a guard is text without path separators, quotes or control characters.\<close>

lemma device_id_char_printable: "device_id_char c \<Longrightarrow> 45 \<le> code c \<and> code c \<le> 122 \<and> c \<noteq> CHR ''/''"
  by (auto simp: device_id_char_def is_alnum_def code_def)

lemma is_device_id_no_separator: "is_device_id s \<Longrightarrow> CHR ''/'' \<notin> set s"
  by (auto simp: is_device_id_def matches_class_def list_all_iff dest: device_id_char_printable)

lemma is_occupant_id_is_device_id: "is_occupant_id s \<Longrightarrow> is_device_id s"
  unfolding is_occupant_id_def is_device_id_def
  by (erule matches_class_mono) (auto simp: request_id_char_def device_id_char_def)

end
