(* ===== verification/Frame_Codec.thy ===== *)
theory Frame_Codec
  imports Bytes Shared_Protocol
begin

text \<open>
  \<open>packages/shared/src/frame-codec.ts\<close>: the binary codec of mirroring frames, Agent to server
  (with the device id) and server to viewer. A thrown error is \<open>Inl\<close>, a \<open>null\<close> is \<open>None\<close>.

  \<open>TextEncoder\<close> writes a code unit below 128 as one byte and one from 128 to 255 as two.
  \<open>TextDecoder\<close> drops a leading byte order mark; bytes from 128 up decode to characters outside
  ASCII (or to the replacement character), which \<open>isDeviceId\<close> refuses, so the model decodes ASCII
  text only and yields \<open>None\<close> where any other character would come out.
\<close>

section \<open>Frames and their parts\<close>

definition frame_format_h264 :: nat where
  "frame_format_h264 = 2"

record agent_frame =
  af_deviceId :: string
  af_format :: nat
  af_isKey :: bool
  af_width :: jsnum
  af_height :: jsnum
  af_stampMs :: jsnum
  af_payload :: bytes

record viewer_frame =
  vf_format :: nat
  vf_isKey :: bool
  vf_width :: jsnum
  vf_height :: jsnum
  vf_stampMs :: jsnum
  vf_payload :: bytes

datatype frame_error = DeviceIdLength nat | FrameDimension | StampNotFinite

definition max_device_id_bytes :: nat where
  "max_device_id_bytes = 255"

definition max_dimension :: int where
  "max_dimension = 65535"

definition isFrameFormat :: "nat \<Rightarrow> bool" where
  "isFrameFormat value \<longleftrightarrow> value = frame_format_h264"

fun isValidDimension :: "jsnum \<Rightarrow> bool" where
  "isValidDimension (Fin q) = (is_integer_num (Fin q) \<and> q > 0 \<and> q \<le> of_int max_dimension)"
| "isValidDimension _ = False"

definition text_encode :: "string \<Rightarrow> bytes" where
  "text_encode s = concat (map (\<lambda>c.
    if code c < 128 then [of_nat (code c)]
    else [of_nat (192 + code c div 64), of_nat (128 + code c mod 64)]) s)"

definition text_decode :: "bytes \<Rightarrow> string option" where
  "text_decode bs =
    (let text = (if take 3 bs = [0xEF, 0xBB, 0xBF] then drop 3 bs else bs)
     in if list_all (\<lambda>b. unat b < 128) text then Some (map (\<lambda>b. char_of (unat b)) text) else None)"

section \<open>Encoding and decoding\<close>

text \<open>
  The encoder on what \<open>TextEncoder\<close> made of the id, \<open>idBytes\<close>: that may be any text, also one this model has no
  \<open>string\<close> for.
\<close>

definition encodeWithIdBytes :: "bytes \<Rightarrow> agent_frame \<Rightarrow> frame_error + bytes" where
  "encodeWithIdBytes idBytes f =
    (if length idBytes = 0 \<or> length idBytes > max_device_id_bytes then Inl (DeviceIdLength (length idBytes))
     else if \<not> isValidDimension (af_width f) \<or> \<not> isValidDimension (af_height f) then Inl FrameDimension
     else if \<not> is_finite_num (af_stampMs f) then Inl StampNotFinite
     else Inr (of_nat (length idBytes) # idBytes @
               [of_nat (af_format f), if af_isKey f then 1 else 0] @
               be16 (to_uint 16 (af_width f)) @ be16 (to_uint 16 (af_height f)) @
               be32 (to_uint 32 (af_stampMs f)) @ af_payload f))"

definition encodeAgentFrame :: "agent_frame \<Rightarrow> frame_error + bytes" where
  "encodeAgentFrame f = encodeWithIdBytes (text_encode (af_deviceId f)) f"

definition decodeAgentFrame :: "bytes \<Rightarrow> agent_frame option" where
  "decodeAgentFrame data =
    (if length data < 12 then None
     else let idLength = unat (data ! 0) in
       if idLength = 0 \<or> length data < 1 + idLength + 10 + 1 then None
       else case text_decode (take idLength (drop 1 data)) of
         None \<Rightarrow> None
       | Some deviceId \<Rightarrow>
           if \<not> is_device_id deviceId then None
           else let format = unat (data ! (1 + idLength)) in
             if \<not> isFrameFormat format then None
             else let width = num (int (rd16 data (3 + idLength)));
                      height = num (int (rd16 data (5 + idLength))) in
               if \<not> isValidDimension width \<or> \<not> isValidDimension height then None
               else Some \<lparr>af_deviceId = deviceId, af_format = format,
                          af_isKey = (data ! (2 + idLength) = 1),
                          af_width = width, af_height = height,
                          af_stampMs = num (int (rd32 data (7 + idLength))),
                          af_payload = drop (11 + idLength) data\<rparr>)"

definition encodeViewerFrame :: "viewer_frame \<Rightarrow> frame_error + bytes" where
  "encodeViewerFrame f =
    (if \<not> isValidDimension (vf_width f) \<or> \<not> isValidDimension (vf_height f) then Inl FrameDimension
     else Inr ([of_nat (vf_format f), if vf_isKey f then 1 else 0] @
               be16 (to_uint 16 (vf_width f)) @ be16 (to_uint 16 (vf_height f)) @
               be32 (to_uint 32 (vf_stampMs f)) @ vf_payload f))"

definition decodeViewerFrame :: "bytes \<Rightarrow> viewer_frame option" where
  "decodeViewerFrame data =
    (if length data < 11 then None
     else let format = unat (data ! 0) in
       if \<not> isFrameFormat format then None
       else let width = num (int (rd16 data 2)); height = num (int (rd16 data 4)) in
         if \<not> isValidDimension width \<or> \<not> isValidDimension height then None
         else Some \<lparr>vf_format = format, vf_isKey = (data ! 1 = 1), vf_width = width, vf_height = height,
                    vf_stampMs = num (int (rd32 data 6)), vf_payload = drop 10 data\<rparr>)"

section \<open>Dimensions and text\<close>

lemma isValidDimension_num [simp]: "isValidDimension (num n) \<longleftrightarrow> 0 < n \<and> n \<le> max_dimension"
  by (simp add: num_def)

lemma isValidDimension_iff: "isValidDimension x \<longleftrightarrow> (\<exists>n. x = num n \<and> 0 < n \<and> n \<le> max_dimension)"
proof
  assume "isValidDimension x"
  moreover from this have "is_integer_num x" by (cases x) auto
  ultimately show "\<exists>n. x = num n \<and> 0 < n \<and> n \<le> max_dimension"
    by (metis is_integer_num_iff isValidDimension_num)
next
  assume "\<exists>n. x = num n \<and> 0 < n \<and> n \<le> max_dimension"
  then show "isValidDimension x" by auto
qed

lemma dimension_field: "isValidDimension x \<Longrightarrow> num (int (to_uint 16 x)) = x \<and> to_uint 16 x < 65536"
  by (auto simp: isValidDimension_iff max_dimension_def)

lemma dimension_field_num [simp]: "isValidDimension x \<Longrightarrow> num (int (to_uint 16 x)) = x"
  by (simp add: dimension_field)

lemma stamp_field: "to_uint 32 x < 2 ^ 32"
  by (rule to_uint_less)

lemma code_less_256: "code c < 256"
  by (simp add: code_def)

lemma char_of_code [simp]: "char_of (code c) = c"
  by (simp add: code_def)

lemma text_encode_ascii:
  "list_all (\<lambda>c. code c < 128) s \<Longrightarrow> text_encode s = map (\<lambda>c. of_nat (code c)) s"
  by (induction s) (simp_all add: text_encode_def)

lemma device_id_char_ascii: "device_id_char c \<Longrightarrow> code c < 128"
  by (auto dest: device_id_char_printable)

lemma is_device_id_ascii: "is_device_id s \<Longrightarrow> list_all (\<lambda>c. code c < 128) s"
  by (auto simp: is_device_id_def matches_class_def list_all_iff device_id_char_ascii)

lemma text_encode_device_id: "is_device_id s \<Longrightarrow> text_encode s = map (\<lambda>c. of_nat (code c)) s"
  by (simp add: text_encode_ascii is_device_id_ascii)

lemma text_encode_Cons:
  "text_encode (c # s) =
    (if code c < 128 then [of_nat (code c)]
     else [of_nat (192 + code c div 64), of_nat (128 + code c mod 64)]) @ text_encode s"
  by (simp add: text_encode_def)

lemma text_encode_Nil [simp]: "text_encode [] = []"
  by (simp add: text_encode_def)

lemma text_encode_bytes: "b \<in> set (text_encode s) \<Longrightarrow> unat b < 196"
proof (induction s)
  case (Cons c s)
  have "code c div 64 < 4" using code_less_256 [of c] by simp
  with Cons show ?case by (auto simp: text_encode_Cons unat_u8 simp del: of_nat_add split: if_splits)
qed simp

lemma text_encode_no_bom: "take 3 (text_encode s) \<noteq> [0xEF, 0xBB, 0xBF]"
proof
  assume "take 3 (text_encode s) = [0xEF, 0xBB, 0xBF]"
  then have "0xEF \<in> set (text_encode s)"
    by (metis in_set_takeD list.set_intros(1))
  then have "unat (0xEF :: u8) < 196" by (rule text_encode_bytes)
  then show False by simp
qed

lemma text_encode_all_ascii:
  "list_all (\<lambda>b. unat b < 128) (text_encode s) \<longleftrightarrow> list_all (\<lambda>c. code c < 128) s"
proof (induction s)
  case (Cons c s)
  have "code c div 64 < 4" using code_less_256 [of c] by simp
  with Cons show ?case by (auto simp: text_encode_Cons unat_u8 simp del: of_nat_add)
qed simp

lemma text_decode_encode:
  "text_decode (text_encode s) = (if list_all (\<lambda>c. code c < 128) s then Some s else None)"
proof (cases "list_all (\<lambda>c. code c < 128) s")
  case True
  then have "map (\<lambda>b. char_of (unat b)) (text_encode s) = s"
    by (simp add: text_encode_ascii) (auto simp: list_all_iff unat_u8 intro!: map_idI)
  with True show ?thesis
    by (simp add: text_decode_def text_encode_no_bom text_encode_all_ascii)
next
  case False
  then show ?thesis by (simp add: text_decode_def text_encode_no_bom text_encode_all_ascii)
qed

section \<open>Round trips\<close>

lemma encodeWithIdBytes_Inr:
  assumes "encodeWithIdBytes idBytes f = Inr bs"
  shows "bs = of_nat (length idBytes) # idBytes @
              [of_nat (af_format f), if af_isKey f then 1 else 0] @
              be16 (to_uint 16 (af_width f)) @ be16 (to_uint 16 (af_height f)) @
              be32 (to_uint 32 (af_stampMs f)) @ af_payload f"
    and "0 < length idBytes" "length idBytes \<le> 255"
    and "isValidDimension (af_width f)" "isValidDimension (af_height f)"
  using assms by (auto simp: encodeWithIdBytes_def max_device_id_bytes_def split: if_splits)

lemma encodeAgentFrame_Inr:
  assumes "encodeAgentFrame f = Inr bs"
  shows "bs = of_nat (length (text_encode (af_deviceId f))) # text_encode (af_deviceId f) @
              [of_nat (af_format f), if af_isKey f then 1 else 0] @
              be16 (to_uint 16 (af_width f)) @ be16 (to_uint 16 (af_height f)) @
              be32 (to_uint 32 (af_stampMs f)) @ af_payload f"
    and "0 < length (text_encode (af_deviceId f))" "length (text_encode (af_deviceId f)) \<le> 255"
    and "isValidDimension (af_width f)" "isValidDimension (af_height f)"
  using encodeWithIdBytes_Inr [of "text_encode (af_deviceId f)" f bs] assms by (simp_all add: encodeAgentFrame_def)

text \<open>The fields of a frame behind the device id, read at the offsets the decoder uses.\<close>

lemma header_fields:
  fixes fmt :: nat and pre :: bytes
  assumes "w < 65536" "h < 65536" "t < 2 ^ 32"
    and "data = pre @ [of_nat fmt, k] @ be16 w @ be16 h @ be32 t @ payload"
    and "n = length pre"
  shows "data ! n = of_nat fmt" "data ! (n + 1) = k"
    "rd16 data (n + 2) = w" "rd16 data (n + 4) = h" "rd32 data (n + 6) = t"
    "drop (n + 10) data = payload"
proof -
  have "rd16 data (n + 2) = rd16 (be16 w @ be16 h @ be32 t @ payload) 0"
    using rd16_append [of "n + 2" "pre @ [of_nat fmt, k]" 0] assms(4,5) by simp
  then show "rd16 data (n + 2) = w" using assms(1) by (simp add: rd16_be16)
  have "rd16 data (n + 4) = rd16 (be16 h @ be32 t @ payload) 0"
    using rd16_append [of "n + 4" "pre @ [of_nat fmt, k] @ be16 w" 0] assms(4,5) by simp
  then show "rd16 data (n + 4) = h" using assms(2) by (simp add: rd16_be16)
  have "rd32 data (n + 6) = rd32 (be32 t @ payload) 0"
    using rd32_append [of "n + 6" "pre @ [of_nat fmt, k] @ be16 w @ be16 h" 0] assms(4,5) by simp
  then show "rd32 data (n + 6) = t" using assms(3) by (simp add: rd32_be32)
qed (simp_all add: assms(4,5) nth_append)

lemma decodeAgentFrame_parts:
  assumes "L = length idb" "0 < L" "L \<le> 255"
    and "data = of_nat L # idb @ [of_nat fmt, k] @ be16 w @ be16 h @ be32 t @ payload"
    and "w < 65536" "h < 65536" "t < 2 ^ 32" "fmt < 256"
  shows "decodeAgentFrame data =
    (case text_decode idb of
      None \<Rightarrow> None
    | Some d \<Rightarrow>
        if payload = [] \<or> \<not> is_device_id d \<or> fmt \<noteq> frame_format_h264 \<or>
           \<not> isValidDimension (num (int w)) \<or> \<not> isValidDimension (num (int h)) then None
        else Some \<lparr>af_deviceId = d, af_format = fmt, af_isKey = (k = 1), af_width = num (int w),
                   af_height = num (int h), af_stampMs = num (int t), af_payload = payload\<rparr>)"
proof -
  let ?pre = "of_nat L # idb"
  have len: "length data = L + 11 + length payload" using assms(1,4) by simp
  have hd: "unat (data ! 0) = L" using assms(2,3,4) by (simp add: unat_u8)
  have id: "take L (drop 1 data) = idb" using assms(1,4) by simp
  have pre: "data = ?pre @ [of_nat fmt, k] @ be16 w @ be16 h @ be32 t @ payload" "L + 1 = length ?pre"
    using assms(1,4) by simp_all
  note f = header_fields [OF assms(5,6,7) pre]
  have ix: "L + 1 + 1 = 2 + L" "L + 1 + 2 = 3 + L" "L + 1 + 4 = 5 + L" "L + 1 + 6 = 7 + L"
    "L + 1 + 10 = 11 + L" by simp_all
  have fmt: "unat (data ! (1 + L)) = fmt" using f(1) assms(8) by (simp add: unat_u8)
  have k: "data ! (2 + L) = k" using f(2) unfolding ix .
  have w: "rd16 data (3 + L) = w" using f(3) unfolding ix .
  have h: "rd16 data (5 + L) = h" using f(4) unfolding ix .
  have t: "rd32 data (7 + L) = t" using f(5) unfolding ix .
  have p: "drop (11 + L) data = payload" using f(6) unfolding ix .
  show ?thesis
    unfolding decodeAgentFrame_def Let_def hd id fmt k w h t p len
    using assms(2) by (cases payload) (auto simp: isFrameFormat_def split: option.splits)
qed

lemma text_encode_ascii_bytes:
  "list_all (\<lambda>b. unat b < 128) bs \<Longrightarrow> text_encode (map (\<lambda>b. char_of (unat b)) bs) = bs"
  by (induction bs) (simp_all add: text_encode_Cons code_def)

text \<open>Which bytes the decoder reads as a given device id: its text, with or without a byte order mark before it.\<close>

lemma text_decode_device_id:
  assumes "is_device_id d"
  shows "text_decode bs = Some d \<longleftrightarrow> bs = text_encode d \<or> bs = [0xEF, 0xBB, 0xBF] @ text_encode d"
proof
  assume dec: "text_decode bs = Some d"
  define body where "body = (if take 3 bs = [0xEF, 0xBB, 0xBF] then drop 3 bs else bs)"
  have d: "list_all (\<lambda>b. unat b < 128) body" "d = map (\<lambda>b. char_of (unat b)) body"
    using dec by (auto simp: text_decode_def body_def [symmetric] Let_def split: if_splits)
  have "body = text_encode d" unfolding d(2) by (rule text_encode_ascii_bytes [OF d(1), symmetric])
  then show "bs = text_encode d \<or> bs = [0xEF, 0xBB, 0xBF] @ text_encode d"
    unfolding body_def by (metis append_take_drop_id)
next
  have "list_all (\<lambda>c. code c < 128) d" by (rule is_device_id_ascii [OF assms])
  then have plain: "text_decode (text_encode d) = Some d" by (simp add: text_decode_encode)
  moreover have "text_decode ([0xEF, 0xBB, 0xBF] @ text_encode d) = text_decode (text_encode d)"
    by (simp add: text_decode_def text_encode_no_bom)
  moreover assume "bs = text_encode d \<or> bs = [0xEF, 0xBB, 0xBF] @ text_encode d"
  ultimately show "text_decode bs = Some d" by auto
qed


definition sample_frame :: agent_frame where
  "sample_frame = \<lparr>af_deviceId = ''A1'', af_format = 2, af_isKey = True, af_width = num 1290,
    af_height = num 2796, af_stampMs = num 4294967297, af_payload = [0, 0, 0, 1]\<rparr>"

lemma sample_encodes:
  "encodeAgentFrame sample_frame =
    Inr [2, 65, 49, 2, 1, 5, 10, 10, 236, 0, 0, 0, 1, 0, 0, 0, 1]"
  by (simp add: encodeAgentFrame_def encodeWithIdBytes_def sample_frame_def text_encode_def code_def max_device_id_bytes_def
      max_dimension_def be16_def be32_def num_def trunc_rat_def)


lemma viewer_frame_codec:
  assumes "encodeViewerFrame f = Inr bs" and "vf_format f = frame_format_h264"
  shows "decodeViewerFrame bs =
    (if vf_payload f = [] then None
     else Some (f\<lparr>vf_stampMs := num (int (to_uint 32 (vf_stampMs f)))\<rparr>))"
proof -
  from assms(1) have dims: "isValidDimension (vf_width f)" "isValidDimension (vf_height f)"
    and bs: "bs = [] @ [of_nat (vf_format f), if vf_isKey f then 1 else 0] @
      be16 (to_uint 16 (vf_width f)) @ be16 (to_uint 16 (vf_height f)) @
      be32 (to_uint 32 (vf_stampMs f)) @ vf_payload f"
    by (auto simp: encodeViewerFrame_def split: if_splits)
  note d = dimension_field [OF dims(1)] dimension_field [OF dims(2)]
  have fields: "bs ! 0 = of_nat (vf_format f)" "bs ! 1 = (if vf_isKey f then 1 else 0)"
    "rd16 bs 2 = to_uint 16 (vf_width f)" "rd16 bs 4 = to_uint 16 (vf_height f)"
    "rd32 bs 6 = to_uint 32 (vf_stampMs f)" "drop 10 bs = vf_payload f"
    using header_fields [OF _ _ stamp_field bs, of 0] d by (simp_all add: numeral_2_eq_2)
  have len: "length bs = 10 + length (vf_payload f)" by (simp add: bs)
  have frame: "\<lparr>vf_format = 2, vf_isKey = vf_isKey f, vf_width = vf_width f, vf_height = vf_height f,
      vf_stampMs = num (int (to_uint 32 (vf_stampMs f))), vf_payload = vf_payload f\<rparr> =
    f\<lparr>vf_stampMs := num (int (to_uint 32 (vf_stampMs f)))\<rparr>"
    using assms(2) by (intro viewer_frame.equality) (simp_all add: frame_format_h264_def)
  show ?thesis
    unfolding decodeViewerFrame_def Let_def fields len
    using d dims assms(2) frame
    by (cases "vf_payload f") (simp_all add: isFrameFormat_def frame_format_h264_def)
qed

text \<open>
  a viewer frame that encodes decodes to the same frame with the stamp reduced to its low 32
  bits, unless its payload is empty.
\<close>

theorem viewer_frame_roundtrip:
  assumes "encodeViewerFrame f = Inr bs" and "vf_format f = frame_format_h264"
  shows "decodeViewerFrame bs =
    (if vf_payload f = [] then None
     else Some (f\<lparr>vf_stampMs := num (int (to_uint 32 (vf_stampMs f)))\<rparr>))"
  by (rule viewer_frame_codec [OF assms])

theorem viewer_frame_roundtrip_witness:
  "decodeViewerFrame [2, 1, 5, 10, 10, 236, 0, 0, 0, 1, 9] =
    Some \<lparr>vf_format = 2, vf_isKey = True, vf_width = num 1290, vf_height = num 2796,
      vf_stampMs = num 1, vf_payload = [9]\<rparr>"
  using viewer_frame_roundtrip [of "\<lparr>vf_format = 2, vf_isKey = True, vf_width = num 1290,
      vf_height = num 2796, vf_stampMs = num 1, vf_payload = [9]\<rparr>"]
  by (simp add: encodeViewerFrame_def frame_format_h264_def max_dimension_def be16_def be32_def
      num_def trunc_rat_def)

section \<open>What a decoder accepts\<close>

lemma decodeAgentFrame_Some:
  assumes "decodeAgentFrame data = Some f"
  shows "is_device_id (af_deviceId f)" "af_format f = frame_format_h264"
    "isValidDimension (af_width f)" "isValidDimension (af_height f)" "is_finite_num (af_stampMs f)"
    "af_payload f \<noteq> []"
  using assms
  by (auto simp: decodeAgentFrame_def Let_def isFrameFormat_def split: if_splits option.splits)

lemma decodeAgentFrame_stamp:
  "decodeAgentFrame data = Some f \<Longrightarrow> num (int (to_uint 32 (af_stampMs f))) = af_stampMs f"
proof -
  assume "decodeAgentFrame data = Some f"
  then obtain n where "af_stampMs f = num (int (rd32 data n))"
    by (auto simp: decodeAgentFrame_def Let_def split: if_splits option.splits)
  moreover have "rd32 data n < 2 ^ 32" for n using rd32_less [of data n] by simp
  ultimately show ?thesis by (simp add: nat_mod_distrib)
qed

end
