(* ===== verification/Devices.thy ===== *)
theory Devices
  imports Shared_Protocol "HOL-Library.List_Lexorder" "HOL-Library.Char_ord"
begin

text \<open>
  \<open>packages/server/src/devices\<close>: the device record (device.types.ts) and the SQLite registry
  (sqlite-devices.repository.ts) behind the interface of devices.repository.ts.

  The table is the list of its rows in rowid order (rows are never deleted, a conflicting insert
  updates in place, a scan without an index walks the rowids). A statement \<open>UPDATE ... WHERE\<close> is
  \<open>update_where\<close>. better-sqlite3 is synchronous on one connection, so a transaction is one step.
  ISO timestamps are instants in milliseconds: \<open>toISOString\<close> writes fixed-width text for the years
  0 to 9999, so SQLite's text comparison orders them as the instants. The tags column holds the
  document whose JSON text is stored.
\<close>

section \<open>The domain types\<close>

datatype device_status = Online | Offline

record device =
  d_id :: string
  d_name :: string
  d_platform :: device_platform
  d_osVersion :: string
  d_tags :: "string list"
  d_status :: device_status
  d_agentId :: "string option"
  d_occupantId :: "string option"
  d_occupiedAt :: "ms option"
  d_lastHeartbeatAt :: "ms option"
  d_lastActivityAt :: "ms option"

record public_device =
  pd_id :: string
  pd_name :: string
  pd_platform :: device_platform
  pd_osVersion :: string
  pd_tags :: "string list"
  pd_status :: device_status
  pd_agentId :: "string option"
  pd_occupiedAt :: "ms option"
  pd_lastHeartbeatAt :: "ms option"
  pd_lastActivityAt :: "ms option"
  pd_isOccupied :: bool

definition toPublicDevice :: "device \<Rightarrow> public_device" where
  "toPublicDevice d =
    \<lparr>pd_id = d_id d, pd_name = d_name d, pd_platform = d_platform d, pd_osVersion = d_osVersion d,
     pd_tags = d_tags d, pd_status = d_status d, pd_agentId = d_agentId d,
     pd_occupiedAt = d_occupiedAt d, pd_lastHeartbeatAt = d_lastHeartbeatAt d,
     pd_lastActivityAt = d_lastActivityAt d, pd_isOccupied = (d_occupantId d \<noteq> None)\<rparr>"

record occupy_filter =
  of_platform :: "device_platform option"
  of_tags :: "string list option"
  of_deviceId :: "string option"

datatype occupation_failure = Not_found | Not_occupied | Forbidden_occupant

datatype release_result = Released | ReleaseFailed occupation_failure
datatype renew_result = Renewed | RenewFailed occupation_failure

record ended_occupation =
  eo_deviceId :: string
  eo_occupantId :: string

record stale_device =
  sd_deviceId :: string
  sd_occupantId :: "string option"

section \<open>The table\<close>

record device_row =
  r_id :: string
  r_name :: string
  r_platform :: device_platform
  r_os_version :: string
  r_tags :: json
  r_status :: device_status
  r_agent_id :: "string option"
  r_occupant_id :: "string option"
  r_occupied_at :: "ms option"
  r_last_heartbeat_at :: "ms option"
  r_last_activity_at :: "ms option"

type_synonym device_table = "device_row list"

definition toDevice :: "device_row \<Rightarrow> device" where
  "toDevice row =
    \<lparr>d_id = r_id row, d_name = r_name row, d_platform = r_platform row,
     d_osVersion = r_os_version row, d_tags = List.map_filter str_of (elems_of (Some (r_tags row))),
     d_status = r_status row, d_agentId = r_agent_id row, d_occupantId = r_occupant_id row,
     d_occupiedAt = r_occupied_at row, d_lastHeartbeatAt = r_last_heartbeat_at row,
     d_lastActivityAt = r_last_activity_at row\<rparr>"

definition hasAllTags :: "string list \<Rightarrow> string list \<Rightarrow> bool" where
  "hasAllTags deviceTags requiredTags \<longleftrightarrow> list_all (\<lambda>tag. tag \<in> set deviceTags) requiredTags"

definition update_where :: "(device_row \<Rightarrow> bool) \<Rightarrow> (device_row \<Rightarrow> device_row) \<Rightarrow> device_table \<Rightarrow> device_table" where
  "update_where cond upd = map (\<lambda>row. if cond row then upd row else row)"

definition older_than :: "ms \<Rightarrow> ms option \<Rightarrow> bool" where
  "older_than cutoff t = (case t of None \<Rightarrow> True | Some x \<Rightarrow> x < cutoff)"

text \<open>Truthiness of a \<open>string | null\<close>.\<close>

definition truthy :: "string option \<Rightarrow> bool" where
  "truthy v \<longleftrightarrow> v \<noteq> None \<and> v \<noteq> Some []"

section \<open>The repository operations\<close>

definition upsert :: "string \<Rightarrow> ms \<Rightarrow> register_device \<Rightarrow> device_table \<Rightarrow> device_table" where
  "upsert agentId nowIso item db =
    (if rd_id item \<in> r_id ` set db
     then update_where (\<lambda>row. r_id row = rd_id item)
       (\<lambda>row. row\<lparr>r_name := rd_name item, r_platform := rd_platform item,
                  r_os_version := rd_osVersion item, r_tags := json_strs (rd_tags item),
                  r_status := Online, r_agent_id := Some agentId,
                  r_last_heartbeat_at := Some nowIso\<rparr>) db
     else db @ [\<lparr>r_id = rd_id item, r_name = rd_name item, r_platform = rd_platform item,
                 r_os_version = rd_osVersion item, r_tags = json_strs (rd_tags item),
                 r_status = Online, r_agent_id = Some agentId, r_occupant_id = None,
                 r_occupied_at = None, r_last_heartbeat_at = Some nowIso,
                 r_last_activity_at = None\<rparr>])"

definition upsertMany :: "register_device list \<Rightarrow> string \<Rightarrow> ms \<Rightarrow> device_table \<Rightarrow> device_table" where
  "upsertMany devices agentId nowIso db = fold (upsert agentId nowIso) devices db"

definition findAll :: "device_table \<Rightarrow> device list" where
  "findAll db = map toDevice (sort_key r_name db)"

definition findById :: "device_table \<Rightarrow> string \<Rightarrow> device option" where
  "findById db i = map_option toDevice (List.find (\<lambda>row. r_id row = i) db)"

definition filter_matches :: "occupy_filter \<Rightarrow> device \<Rightarrow> bool" where
  "filter_matches f d \<longleftrightarrow>
    (\<not> truthy (of_deviceId f) \<or> of_deviceId f = Some (d_id d)) \<and>
    (of_platform f = None \<or> of_platform f = Some (d_platform d)) \<and>
    hasAllTags (d_tags d) (case of_tags f of None \<Rightarrow> [] | Some ts \<Rightarrow> ts)"

definition tryOccupy :: "occupy_filter \<Rightarrow> string \<Rightarrow> ms \<Rightarrow> device_table \<Rightarrow> device_table \<times> device option" where
  "tryOccupy f occupantId nowIso db =
    (case List.find (filter_matches f)
        (map toDevice (filter (\<lambda>row. r_status row = Online \<and> r_occupant_id row = None) db)) of
      None \<Rightarrow> (db, None)
    | Some candidate \<Rightarrow>
        let cond = (\<lambda>row. r_id row = d_id candidate \<and> r_occupant_id row = None \<and> r_status row = Online);
            db' = update_where cond
              (\<lambda>row. row\<lparr>r_occupant_id := Some occupantId, r_occupied_at := Some nowIso,
                         r_last_activity_at := Some nowIso\<rparr>) db
        in if length (filter cond db) \<noteq> 1 then (db', None)
           else (db', findById db' (d_id candidate)))"

definition clear_occupation :: "device_row \<Rightarrow> device_row" where
  "clear_occupation row = row\<lparr>r_occupant_id := None, r_occupied_at := None, r_last_activity_at := None\<rparr>"

definition release :: "string \<Rightarrow> string \<Rightarrow> device_table \<Rightarrow> device_table \<times> release_result" where
  "release deviceId occupantId db =
    (case findById db deviceId of
      None \<Rightarrow> (db, ReleaseFailed Not_found)
    | Some d \<Rightarrow>
        if \<not> truthy (d_occupantId d) then (db, ReleaseFailed Not_occupied)
        else if d_occupantId d \<noteq> Some occupantId then (db, ReleaseFailed Forbidden_occupant)
        else (update_where (\<lambda>row. r_id row = deviceId) clear_occupation db, Released))"

definition renewOccupation :: "string \<Rightarrow> string \<Rightarrow> ms \<Rightarrow> device_table \<Rightarrow> device_table \<times> renew_result" where
  "renewOccupation deviceId occupantId nowIso db =
    (case findById db deviceId of
      None \<Rightarrow> (db, RenewFailed Not_found)
    | Some d \<Rightarrow>
        if \<not> truthy (d_occupantId d) then (db, RenewFailed Not_occupied)
        else if d_occupantId d \<noteq> Some occupantId then (db, RenewFailed Forbidden_occupant)
        else (update_where (\<lambda>row. r_id row = deviceId \<and> r_occupant_id row = Some occupantId)
               (\<lambda>row. row\<lparr>r_last_activity_at := Some nowIso\<rparr>) db, Renewed))"

definition expireIdleOccupations :: "ms \<Rightarrow> device_table \<Rightarrow> device_table \<times> ended_occupation list" where
  "expireIdleOccupations cutoffIso db =
    (let rows = filter (\<lambda>row. r_occupant_id row \<noteq> None \<and> older_than cutoffIso (r_last_activity_at row)) db
     in if rows = [] then (db, [])
        else let ended = map (\<lambda>row. \<lparr>eo_deviceId = r_id row, eo_occupantId = the (r_occupant_id row)\<rparr>) rows
             in (fold (\<lambda>occ. update_where (\<lambda>row. r_id row = eo_deviceId occ) clear_occupation) ended db,
                 ended))"

definition heartbeat :: "string list \<Rightarrow> string \<Rightarrow> ms \<Rightarrow> device_table \<Rightarrow> device_table" where
  "heartbeat deviceIds agentId nowIso db =
    fold (\<lambda>i. update_where (\<lambda>row. r_id row = i \<and> r_agent_id row = Some agentId)
      (\<lambda>row. row\<lparr>r_last_heartbeat_at := Some nowIso, r_status := Online\<rparr>)) deviceIds db"

definition markAgentOffline :: "string \<Rightarrow> device_table \<Rightarrow> device_table" where
  "markAgentOffline agentId =
    update_where (\<lambda>row. r_agent_id row = Some agentId) (\<lambda>row. row\<lparr>r_status := Offline, r_agent_id := None\<rparr>)"

definition markStaleOffline :: "ms \<Rightarrow> device_table \<Rightarrow> device_table \<times> stale_device list" where
  "markStaleOffline cutoffIso db =
    (let rows = filter (\<lambda>row. (r_status row = Online \<or> r_occupant_id row \<noteq> None) \<and>
                             older_than cutoffIso (r_last_heartbeat_at row)) db
     in if rows = [] then (db, [])
        else let devices = map (\<lambda>row. \<lparr>sd_deviceId = r_id row, sd_occupantId = r_occupant_id row\<rparr>) rows
             in (fold (\<lambda>d. update_where (\<lambda>row. r_id row = sd_deviceId d)
                   (\<lambda>row. (clear_occupation row)\<lparr>r_status := Offline\<rparr>)) devices db,
                 devices))"

section \<open>Statements on the table\<close>

definition row_of :: "device_table \<Rightarrow> string \<Rightarrow> device_row option" where
  "row_of db i = List.find (\<lambda>row. r_id row = i) db"

lemma row_of_Nil [simp]: "row_of [] i = None"
  by (simp add: row_of_def)

lemma row_of_Cons [simp]: "row_of (r # db) i = (if r_id r = i then Some r else row_of db i)"
  by (simp add: row_of_def)

lemma row_of_append: "row_of (a @ b) i = (case row_of a i of None \<Rightarrow> row_of b i | Some r \<Rightarrow> Some r)"
  by (induction a) simp_all

lemma row_of_Some: "row_of db i = Some r \<Longrightarrow> r \<in> set db \<and> r_id r = i"
  by (induction db) (auto split: if_splits)

lemma row_of_None_iff: "row_of db i = None \<longleftrightarrow> i \<notin> r_id ` set db"
  by (induction db) auto

lemma row_of_in: "distinct (map r_id db) \<Longrightarrow> r \<in> set db \<Longrightarrow> row_of db (r_id r) = Some r"
  by (induction db) (auto simp: rev_image_eqI)

lemma findById_row_of: "findById db i = map_option toDevice (row_of db i)"
  by (simp add: findById_def row_of_def)

lemma d_id_toDevice [simp]: "d_id (toDevice r) = r_id r"
  by (simp add: toDevice_def)

lemma d_fields_toDevice [simp]:
  "d_status (toDevice r) = r_status r" "d_occupantId (toDevice r) = r_occupant_id r"
  "d_agentId (toDevice r) = r_agent_id r" "d_lastActivityAt (toDevice r) = r_last_activity_at r"
  "d_lastHeartbeatAt (toDevice r) = r_last_heartbeat_at r" "d_occupiedAt (toDevice r) = r_occupied_at r"
  by (simp_all add: toDevice_def)

lemma findById_Some_id: "findById db i = Some d \<Longrightarrow> d_id d = i"
  by (auto simp: findById_row_of dest: row_of_Some)

lemma update_where_Nil [simp]: "update_where c u [] = []"
  by (simp add: update_where_def)

lemma update_where_ids: "(\<And>r. r_id (u r) = r_id r) \<Longrightarrow> map r_id (update_where c u db) = map r_id db"
  by (induction db) (simp_all add: update_where_def)

lemma row_of_update_where:
  "(\<And>r. r_id (u r) = r_id r) \<Longrightarrow>
    row_of (update_where c u db) i = map_option (\<lambda>r. if c r then u r else r) (row_of db i)"
  by (induction db) (simp_all add: update_where_def)

lemma update_where_cong:
  "(\<And>r. r \<in> set db \<Longrightarrow> c r = c' r) \<Longrightarrow> update_where c u db = update_where c' u db"
  by (simp add: update_where_def)

lemma update_where_never: "(\<And>r. r \<in> set db \<Longrightarrow> \<not> c r) \<Longrightarrow> update_where c u db = db"
  by (simp add: update_where_def map_idI)

text \<open>A loop of the same idempotent update is one statement over the disjunction of the conditions.\<close>

lemma fold_update_where:
  assumes "\<And>r. u (u r) = u r" and "\<And>k r. c k (u r) = c k r"
  shows "fold (\<lambda>k. update_where (c k) u) ks db = update_where (\<lambda>r. \<exists>k\<in>set ks. c k r) u db"
proof (induction ks arbitrary: db)
  case Nil
  then show ?case by (simp add: update_where_def)
next
  case (Cons k ks)
  have "update_where (\<lambda>r. \<exists>j\<in>set ks. c j r) u (update_where (c k) u db) =
      update_where (\<lambda>r. \<exists>j\<in>set (k # ks). c j r) u db"
    using assms by (auto simp: update_where_def)
  with Cons.IH show ?case by simp
qed

lemma clear_occupation_simps [simp]:
  "r_id (clear_occupation r) = r_id r" "r_occupant_id (clear_occupation r) = None"
  "r_status (clear_occupation r) = r_status r" "r_agent_id (clear_occupation r) = r_agent_id r"
  "r_last_activity_at (clear_occupation r) = None" "r_occupied_at (clear_occupation r) = None"
  "r_last_heartbeat_at (clear_occupation r) = r_last_heartbeat_at r"
  "clear_occupation (clear_occupation r) = clear_occupation r"
  by (simp_all add: clear_occupation_def)

definition idle_row :: "ms \<Rightarrow> device_row \<Rightarrow> bool" where
  "idle_row cutoff r \<longleftrightarrow> r_occupant_id r \<noteq> None \<and> older_than cutoff (r_last_activity_at r)"

definition stale_row :: "ms \<Rightarrow> device_row \<Rightarrow> bool" where
  "stale_row cutoff r \<longleftrightarrow>
    (r_status r = Online \<or> r_occupant_id r \<noteq> None) \<and> older_than cutoff (r_last_heartbeat_at r)"

lemma distinct_id_filter:
  "distinct (map r_id db) \<Longrightarrow> r \<in> set db \<Longrightarrow> r_id r \<in> r_id ` set (filter P db) \<longleftrightarrow> P r"
  by (induction db) (auto simp: rev_image_eqI)

lemma expireIdle_eq:
  assumes "distinct (map r_id db)"
  shows "expireIdleOccupations cutoff db =
    (update_where (idle_row cutoff) clear_occupation db,
     map (\<lambda>row. \<lparr>eo_deviceId = r_id row, eo_occupantId = the (r_occupant_id row)\<rparr>)
       (filter (idle_row cutoff) db))"
proof -
  let ?e = "map (\<lambda>row. \<lparr>eo_deviceId = r_id row, eo_occupantId = the (r_occupant_id row)\<rparr>)
       (filter (idle_row cutoff) db)"
  have "fold (\<lambda>occ. update_where (\<lambda>row. r_id row = eo_deviceId occ) clear_occupation) ?e db =
      update_where (\<lambda>r. \<exists>e\<in>set ?e. r_id r = eo_deviceId e) clear_occupation db"
    by (rule fold_update_where) simp_all
  also have "\<dots> = update_where (idle_row cutoff) clear_occupation db"
    using distinct_id_filter [OF assms] by (intro update_where_cong) (auto simp: image_iff)
  finally have f: "fold (\<lambda>occ. update_where (\<lambda>row. r_id row = eo_deviceId occ) clear_occupation) ?e db =
      update_where (idle_row cutoff) clear_occupation db" .
  have idle: "(\<lambda>row. r_occupant_id row \<noteq> None \<and> older_than cutoff (r_last_activity_at row)) = idle_row cutoff"
    by (simp add: idle_row_def fun_eq_iff)
  show ?thesis
  proof (cases "filter (idle_row cutoff) db = []")
    case True
    then have "update_where (idle_row cutoff) clear_occupation db = db"
      by (intro update_where_never) (auto simp: filter_empty_conv)
    then show ?thesis unfolding expireIdleOccupations_def Let_def idle using True by simp
  next
    case False
    then show ?thesis unfolding expireIdleOccupations_def Let_def idle f by simp
  qed
qed

lemma markStale_eq:
  assumes "distinct (map r_id db)"
  shows "markStaleOffline cutoff db =
    (update_where (stale_row cutoff) (\<lambda>r. (clear_occupation r)\<lparr>r_status := Offline\<rparr>) db,
     map (\<lambda>row. \<lparr>sd_deviceId = r_id row, sd_occupantId = r_occupant_id row\<rparr>)
       (filter (stale_row cutoff) db))"
proof -
  let ?u = "\<lambda>r. (clear_occupation r)\<lparr>r_status := Offline\<rparr>"
  let ?e = "map (\<lambda>row. \<lparr>sd_deviceId = r_id row, sd_occupantId = r_occupant_id row\<rparr>)
       (filter (stale_row cutoff) db)"
  have "fold (\<lambda>d. update_where (\<lambda>row. r_id row = sd_deviceId d) ?u) ?e db =
      update_where (\<lambda>r. \<exists>e\<in>set ?e. r_id r = sd_deviceId e) ?u db"
    by (rule fold_update_where) (simp_all add: clear_occupation_def)
  also have "\<dots> = update_where (stale_row cutoff) ?u db"
    using distinct_id_filter [OF assms] by (intro update_where_cong) (auto simp: image_iff)
  finally have f: "fold (\<lambda>d. update_where (\<lambda>row. r_id row = sd_deviceId d) ?u) ?e db =
      update_where (stale_row cutoff) ?u db" .
  have stale: "(\<lambda>row. (r_status row = Online \<or> r_occupant_id row \<noteq> None) \<and>
      older_than cutoff (r_last_heartbeat_at row)) = stale_row cutoff"
    by (simp add: stale_row_def fun_eq_iff)
  show ?thesis
  proof (cases "filter (stale_row cutoff) db = []")
    case True
    then have "update_where (stale_row cutoff) ?u db = db"
      by (intro update_where_never) (auto simp: filter_empty_conv)
    then show ?thesis unfolding markStaleOffline_def Let_def stale using True by simp
  next
    case False
    then show ?thesis unfolding markStaleOffline_def Let_def stale f by simp
  qed
qed

lemma heartbeat_eq:
  "heartbeat ids agentId now db =
    update_where (\<lambda>r. r_id r \<in> set ids \<and> r_agent_id r = Some agentId)
      (\<lambda>r. r\<lparr>r_last_heartbeat_at := Some now, r_status := Online\<rparr>) db"
proof -
  have "heartbeat ids agentId now db =
    update_where (\<lambda>r. \<exists>i\<in>set ids. r_id r = i \<and> r_agent_id r = Some agentId)
      (\<lambda>r. r\<lparr>r_last_heartbeat_at := Some now, r_status := Online\<rparr>) db"
    unfolding heartbeat_def by (rule fold_update_where) simp_all
  also have "\<dots> = update_where (\<lambda>r. r_id r \<in> set ids \<and> r_agent_id r = Some agentId)
      (\<lambda>r. r\<lparr>r_last_heartbeat_at := Some now, r_status := Online\<rparr>) db"
    by (rule update_where_cong) auto
  finally show ?thesis .
qed

section \<open>The table invariant\<close>

definition row_inv :: "device_row \<Rightarrow> bool" where
  "row_inv r \<longleftrightarrow>
    (r_occupied_at r = None \<longleftrightarrow> r_occupant_id r = None) \<and>
    (r_last_activity_at r = None \<longleftrightarrow> r_occupant_id r = None) \<and>
    r_occupant_id r \<noteq> Some [] \<and>
    (r_status r = Online \<longrightarrow> r_agent_id r \<noteq> None \<and> r_last_heartbeat_at r \<noteq> None)"

definition table_inv :: "device_table \<Rightarrow> bool" where
  "table_inv db \<longleftrightarrow> distinct (map r_id db) \<and> (\<forall>r\<in>set db. row_inv r)"

lemma table_inv_Nil [simp]: "table_inv []"
  by (simp add: table_inv_def)

lemma table_inv_row: "table_inv db \<Longrightarrow> row_of db i = Some r \<Longrightarrow> row_inv r"
  by (auto simp: table_inv_def dest: row_of_Some)

lemma table_inv_distinct: "table_inv db \<Longrightarrow> distinct (map r_id db)"
  by (simp add: table_inv_def)

lemma table_inv_update_where:
  assumes "table_inv db" and "\<And>r. r_id (u r) = r_id r" and "\<And>r. row_inv r \<Longrightarrow> c r \<Longrightarrow> row_inv (u r)"
  shows "table_inv (update_where c u db)"
proof -
  have "map r_id (update_where c u db) = map r_id db" by (rule update_where_ids) (rule assms(2))
  then have "distinct (map r_id (update_where c u db))" using assms(1) by (simp only: table_inv_def)
  moreover have "\<forall>r\<in>set (update_where c u db). row_inv r"
    using assms(1, 3) by (auto simp: table_inv_def update_where_def)
  ultimately show ?thesis by (simp only: table_inv_def simp_thms)
qed

lemma table_inv_upsert: "table_inv db \<Longrightarrow> table_inv (upsert agentId now item db)"
proof -
  assume inv: "table_inv db"
  show ?thesis
  proof (cases "rd_id item \<in> r_id ` set db")
    case True
    with inv show ?thesis
      unfolding upsert_def by simp (rule table_inv_update_where, auto simp: row_inv_def)
  next
    case False
    with inv show ?thesis by (auto simp: upsert_def table_inv_def row_inv_def)
  qed
qed

lemma table_inv_upsertMany: "table_inv db \<Longrightarrow> table_inv (upsertMany items agentId now db)"
  unfolding upsertMany_def by (induction items arbitrary: db) (simp_all add: table_inv_upsert)

lemma table_inv_heartbeat: "table_inv db \<Longrightarrow> table_inv (heartbeat ids agentId now db)"
  unfolding heartbeat_eq by (rule table_inv_update_where) (auto simp: row_inv_def)

lemma table_inv_markAgentOffline: "table_inv db \<Longrightarrow> table_inv (markAgentOffline agentId db)"
  unfolding markAgentOffline_def by (rule table_inv_update_where) (auto simp: row_inv_def)

lemma table_inv_expireIdle: "table_inv db \<Longrightarrow> table_inv (fst (expireIdleOccupations cutoff db))"
  by (auto simp: expireIdle_eq table_inv_distinct row_inv_def intro!: table_inv_update_where)

lemma table_inv_markStale: "table_inv db \<Longrightarrow> table_inv (fst (markStaleOffline cutoff db))"
  by (auto simp: markStale_eq table_inv_distinct row_inv_def intro!: table_inv_update_where)

lemma table_inv_release: "table_inv db \<Longrightarrow> table_inv (fst (release i occ db))"
  by (auto simp: release_def row_inv_def intro!: table_inv_update_where split: option.splits)

lemma table_inv_renew: "table_inv db \<Longrightarrow> table_inv (fst (renewOccupation i occ now db))"
  by (auto simp: renewOccupation_def row_inv_def intro!: table_inv_update_where split: option.splits)

lemma table_inv_tryOccupy: "table_inv db \<Longrightarrow> occ \<noteq> [] \<Longrightarrow> table_inv (fst (tryOccupy f occ now db))"
  by (auto simp: tryOccupy_def Let_def row_inv_def intro!: table_inv_update_where split: option.splits)

section \<open>The abstract registry: a map from ids to devices\<close>

type_synonym registry = "string \<Rightarrow> device option"

definition vacated :: "device \<Rightarrow> device" where
  "vacated d = d\<lparr>d_occupantId := None, d_occupiedAt := None, d_lastActivityAt := None\<rparr>"

definition idle_device :: "ms \<Rightarrow> device \<Rightarrow> bool" where
  "idle_device cutoff d \<longleftrightarrow> d_occupantId d \<noteq> None \<and> older_than cutoff (d_lastActivityAt d)"

definition stale_held :: "ms \<Rightarrow> device \<Rightarrow> bool" where
  "stale_held cutoff d \<longleftrightarrow>
    (d_status d = Online \<or> d_occupantId d \<noteq> None) \<and> older_than cutoff (d_lastHeartbeatAt d)"

definition spec_register :: "string \<Rightarrow> ms \<Rightarrow> register_device \<Rightarrow> registry \<Rightarrow> registry" where
  "spec_register agentId now item R =
    R(rd_id item \<mapsto>
      (case R (rd_id item) of
        None \<Rightarrow> \<lparr>d_id = rd_id item, d_name = rd_name item, d_platform = rd_platform item,
                 d_osVersion = rd_osVersion item, d_tags = rd_tags item, d_status = Online,
                 d_agentId = Some agentId, d_occupantId = None, d_occupiedAt = None,
                 d_lastHeartbeatAt = Some now, d_lastActivityAt = None\<rparr>
      | Some d \<Rightarrow> d\<lparr>d_name := rd_name item, d_platform := rd_platform item,
                 d_osVersion := rd_osVersion item, d_tags := rd_tags item, d_status := Online,
                 d_agentId := Some agentId, d_lastHeartbeatAt := Some now\<rparr>))"

definition occupied_by :: "string \<Rightarrow> ms \<Rightarrow> device \<Rightarrow> device" where
  "occupied_by occ now d =
    d\<lparr>d_occupantId := Some occ, d_occupiedAt := Some now, d_lastActivityAt := Some now\<rparr>"

definition spec_holder :: "string \<Rightarrow> string \<Rightarrow> registry \<Rightarrow> occupation_failure option" where
  "spec_holder i occ R =
    (case R i of
      None \<Rightarrow> Some Not_found
    | Some d \<Rightarrow> (case d_occupantId d of
          None \<Rightarrow> Some Not_occupied
        | Some h \<Rightarrow> if h = occ then None else Some Forbidden_occupant))"

definition spec_update :: "string \<Rightarrow> (device \<Rightarrow> device) \<Rightarrow> registry \<Rightarrow> registry" where
  "spec_update i u R = R(i := map_option u (R i))"

definition spec_map :: "(device \<Rightarrow> bool) \<Rightarrow> (device \<Rightarrow> device) \<Rightarrow> registry \<Rightarrow> registry" where
  "spec_map c u R = (\<lambda>i. map_option (\<lambda>d. if c d then u d else d) (R i))"

lemmas spec_defs = spec_register_def spec_holder_def spec_update_def spec_map_def vacated_def
  occupied_by_def idle_device_def stale_held_def

lemma idle_vacated [simp]: "\<not> idle_device c (vacated d)"
  by (simp add: idle_device_def vacated_def)

lemma stale_vacated [simp]: "\<not> stale_held c (vacated d\<lparr>d_status := Offline\<rparr>)"
  by (simp add: stale_held_def vacated_def)

lemma vacated_holder [simp]: "d_occupantId (vacated d) = None"
  by (simp add: vacated_def)

text \<open>
  The contract of \<open>DevicesRepository\<close>: seen through \<open>findById\<close> every operation acts on the map as
  its documentation says. The lemmas about occupation are proved from the contract alone.
\<close>

locale devices_repository =
  fixes find :: "'db \<Rightarrow> registry"
    and register :: "register_device list \<Rightarrow> string \<Rightarrow> ms \<Rightarrow> 'db \<Rightarrow> 'db"
    and occupy :: "occupy_filter \<Rightarrow> string \<Rightarrow> ms \<Rightarrow> 'db \<Rightarrow> 'db \<times> device option"
    and rel :: "string \<Rightarrow> string \<Rightarrow> 'db \<Rightarrow> 'db \<times> release_result"
    and renew :: "string \<Rightarrow> string \<Rightarrow> ms \<Rightarrow> 'db \<Rightarrow> 'db \<times> renew_result"
    and expire :: "ms \<Rightarrow> 'db \<Rightarrow> 'db \<times> ended_occupation list"
    and hb :: "string list \<Rightarrow> string \<Rightarrow> ms \<Rightarrow> 'db \<Rightarrow> 'db"
    and agent_off :: "string \<Rightarrow> 'db \<Rightarrow> 'db"
    and stale :: "ms \<Rightarrow> 'db \<Rightarrow> 'db \<times> stale_device list"
    and inv :: "'db \<Rightarrow> bool"
  assumes find_id: "inv db \<Longrightarrow> find db i = Some d \<Longrightarrow> d_id d = i"
    and find_holder: "inv db \<Longrightarrow> find db i = Some d \<Longrightarrow> d_occupantId d \<noteq> Some []"
    and find_register: "inv db \<Longrightarrow> find (register items a t db) = fold (spec_register a t) items (find db)"
    and occupy_None: "inv db \<Longrightarrow> occupy f occ t db = (db', None) \<Longrightarrow> find db' = find db \<and>
          (\<forall>i d. find db i = Some d \<longrightarrow> \<not> (d_status d = Online \<and> d_occupantId d = None \<and> filter_matches f d))"
    and occupy_Some: "inv db \<Longrightarrow> occupy f occ t db = (db', Some d) \<Longrightarrow>
          \<exists>d0. find db (d_id d0) = Some d0 \<and> d_status d0 = Online \<and> d_occupantId d0 = None \<and>
            filter_matches f d0 \<and> d = occupied_by occ t d0 \<and> find db' = (find db)(d_id d0 \<mapsto> d)"
    and find_rel: "inv db \<Longrightarrow> find (fst (rel i occ db)) =
          (if spec_holder i occ (find db) = None then spec_update i vacated (find db) else find db)"
    and rel_result: "inv db \<Longrightarrow> snd (rel i occ db) =
          (case spec_holder i occ (find db) of None \<Rightarrow> Released | Some e \<Rightarrow> ReleaseFailed e)"
    and find_renew: "inv db \<Longrightarrow> find (fst (renew i occ t db)) =
          (if spec_holder i occ (find db) = None
           then spec_update i (\<lambda>d. d\<lparr>d_lastActivityAt := Some t\<rparr>) (find db) else find db)"
    and renew_result: "inv db \<Longrightarrow> snd (renew i occ t db) =
          (case spec_holder i occ (find db) of None \<Rightarrow> Renewed | Some e \<Rightarrow> RenewFailed e)"
    and find_expire: "inv db \<Longrightarrow> find (fst (expire c db)) = spec_map (idle_device c) vacated (find db)"
    and expire_result: "inv db \<Longrightarrow> set (snd (expire c db)) =
          {e. \<exists>d. find db (eo_deviceId e) = Some d \<and> idle_device c d \<and> d_occupantId d = Some (eo_occupantId e)}"
    and find_hb: "inv db \<Longrightarrow> find (hb ids a t db) =
          spec_map (\<lambda>d. d_id d \<in> set ids \<and> d_agentId d = Some a)
            (\<lambda>d. d\<lparr>d_lastHeartbeatAt := Some t, d_status := Online\<rparr>) (find db)"
    and find_off: "inv db \<Longrightarrow> find (agent_off a db) =
          spec_map (\<lambda>d. d_agentId d = Some a) (\<lambda>d. d\<lparr>d_status := Offline, d_agentId := None\<rparr>) (find db)"
    and find_stale: "inv db \<Longrightarrow> find (fst (stale c db)) =
          spec_map (stale_held c) (\<lambda>d. (vacated d)\<lparr>d_status := Offline\<rparr>) (find db)"
    and stale_result: "inv db \<Longrightarrow> set (snd (stale c db)) =
          {e. \<exists>d. find db (sd_deviceId e) = Some d \<and> stale_held c d \<and> d_occupantId d = sd_occupantId e}"
begin

definition holder :: "'db \<Rightarrow> string \<Rightarrow> string option" where
  "holder db i = Option.bind (find db i) d_occupantId"

lemma holder_find: "find db i = Some d \<Longrightarrow> holder db i = d_occupantId d"
  by (simp add: holder_def)

lemma holder_spec_register [simp]:
  "Option.bind (spec_register a t item R i) d_occupantId = Option.bind (R i) d_occupantId"
  by (auto simp: spec_register_def split: option.splits)

lemma holder_register: "inv db \<Longrightarrow> holder (register items a t db) i = holder db i"
proof -
  have "Option.bind (fold (spec_register a t) items R i) d_occupantId = Option.bind (R i) d_occupantId" for R
    by (induction items arbitrary: R) simp_all
  then show "inv db \<Longrightarrow> ?thesis" by (simp add: holder_def find_register)
qed

lemma holder_hb: "inv db \<Longrightarrow> holder (hb ids a t db) i = holder db i"
  by (cases "find db i") (simp_all add: holder_def find_hb spec_map_def)

lemma holder_off: "inv db \<Longrightarrow> holder (agent_off a db) i = holder db i"
  by (cases "find db i") (simp_all add: holder_def find_off spec_map_def)

lemma holder_renew: "inv db \<Longrightarrow> holder (fst (renew j occ t db)) i = holder db i"
  by (cases "find db j") (auto simp: holder_def find_renew spec_update_def)

lemma holder_rel:
  "inv db \<Longrightarrow> holder (fst (rel j occ db)) i = (if i = j \<and> holder db j = Some occ then None else holder db i)"
  by (auto simp: holder_def find_rel spec_defs split: option.splits)

lemma holder_expire:
  "inv db \<Longrightarrow> holder (fst (expire c db)) i =
    (case find db i of None \<Rightarrow> None | Some d \<Rightarrow> if idle_device c d then None else d_occupantId d)"
  by (auto simp: holder_def find_expire spec_map_def vacated_def split: option.splits)

lemma holder_stale:
  "inv db \<Longrightarrow> holder (fst (stale c db)) i =
    (case find db i of None \<Rightarrow> None | Some d \<Rightarrow> if stale_held c d then None else d_occupantId d)"
  by (auto simp: holder_def find_stale spec_map_def vacated_def split: option.splits)

lemma holder_occupy:
  assumes "inv db"
  shows "holder (fst (occupy f occ t db)) i =
    (case snd (occupy f occ t db) of
      Some d \<Rightarrow> if i = d_id d then Some occ else holder db i
    | None \<Rightarrow> holder db i)"
proof (cases "occupy f occ t db")
  case (Pair db' r)
  then show ?thesis
    using occupy_None [OF assms, of f occ t db'] occupy_Some [OF assms, of f occ t db']
    by (cases r) (fastforce simp: holder_def occupied_by_def)+
qed

lemma occupy_target_free:
  assumes "inv db" and "occupy f occ t db = (db', Some d)"
  shows "holder db (d_id d) = None" and "holder db' (d_id d) = Some occ" and "filter_matches f d"
    and "d_status d = Online"
  using occupy_Some [OF assms] by (auto simp: holder_def occupied_by_def filter_matches_def)

lemma expire_none_idle:
  "inv db \<Longrightarrow> find (fst (expire c db)) i = Some d \<Longrightarrow> \<not> idle_device c d"
  by (auto simp: find_expire spec_map_def split: if_splits) (metis idle_vacated)

lemma stale_none_left:
  "inv db \<Longrightarrow> find (fst (stale c db)) i = Some d \<Longrightarrow> \<not> stale_held c d"
  by (auto simp: find_stale spec_map_def split: if_splits) (metis stale_vacated)

lemma expire_reports:
  "inv db \<Longrightarrow> holder db i = Some occ \<and> holder (fst (expire c db)) i = None \<longleftrightarrow>
    \<lparr>eo_deviceId = i, eo_occupantId = occ\<rparr> \<in> set (snd (expire c db))"
  by (cases "find db i") (auto simp: holder_expire holder_find expire_result idle_device_def holder_def [of db i])

lemma stale_reports:
  "inv db \<Longrightarrow> holder db i = Some occ \<and> holder (fst (stale c db)) i = None \<longleftrightarrow>
    \<lparr>sd_deviceId = i, sd_occupantId = Some occ\<rparr> \<in> set (snd (stale c db))"
  by (cases "find db i") (auto simp: holder_stale holder_find stale_result stale_held_def holder_def [of db i])

end

section \<open>The SQLite registry keeps the contract\<close>

lemma toDevice_json_strs [simp]: "List.map_filter str_of (elems_of (Some (json_strs ts))) = ts"
  by (simp add: json_strs_def List.map_filter_def comp_def)

lemma findById_update_where:
  assumes "\<And>r. r_id (u r) = r_id r" and "\<And>r. toDevice (u r) = v (toDevice r)"
    and "\<And>r. c r = k (toDevice r)"
  shows "findById (update_where c u db) = spec_map k v (findById db)"
  using assms by (auto simp: fun_eq_iff findById_row_of row_of_update_where spec_map_def option.map_comp comp_def
      intro!: option.map_cong)

lemma findById_update_id:
  assumes "\<And>r. r_id (u r) = r_id r" and "\<And>r. toDevice (u r) = v (toDevice r)"
  shows "findById (update_where (\<lambda>r. r_id r = i) u db) = spec_update i v (findById db)"
proof -
  have "row_of db j = Some r \<Longrightarrow> r_id r = j" for j r by (simp add: row_of_Some)
  with assms show ?thesis
    by (auto simp: fun_eq_iff findById_row_of row_of_update_where spec_update_def option.map_comp comp_def
        intro!: option.map_cong)
qed

lemma toDevice_clear [simp]: "toDevice (clear_occupation r) = vacated (toDevice r)"
  by (simp add: toDevice_def clear_occupation_def vacated_def)

lemma findById_upsert: "findById (upsert a t item db) = spec_register a t item (findById db)"
proof (cases "rd_id item \<in> r_id ` set db")
  case True
  then obtain r where r: "row_of db (rd_id item) = Some r"
    by (cases "row_of db (rd_id item)") (simp_all add: row_of_None_iff)
  have "findById (upsert a t item db) = spec_update (rd_id item)
      (\<lambda>d. d\<lparr>d_name := rd_name item, d_platform := rd_platform item,
                 d_osVersion := rd_osVersion item, d_tags := rd_tags item, d_status := Online,
                 d_agentId := Some a, d_lastHeartbeatAt := Some t\<rparr>) (findById db)"
    unfolding upsert_def if_P [OF True] by (rule findById_update_id) (simp_all add: toDevice_def)
  with r show ?thesis by (simp add: spec_update_def spec_register_def findById_row_of)
next
  case False
  then have "row_of db (rd_id item) = None" by (simp add: row_of_None_iff)
  with False show ?thesis
    by (auto simp: upsert_def fun_eq_iff findById_row_of row_of_append spec_register_def toDevice_def
        split: option.splits)
qed

lemma findById_upsertMany: "findById (upsertMany items a t db) = fold (spec_register a t) items (findById db)"
  unfolding upsertMany_def by (induction items arbitrary: db) (simp_all add: findById_upsert)

lemma findById_holder: "table_inv db \<Longrightarrow> findById db i = Some d \<Longrightarrow> d_occupantId d \<noteq> Some []"
  by (auto simp: findById_row_of dest: table_inv_row simp: row_inv_def)

lemma spec_holder_of:
  "table_inv db \<Longrightarrow> findById db i = Some d \<Longrightarrow> spec_holder i occ (findById db) =
    (if \<not> truthy (d_occupantId d) then Some Not_occupied
     else if d_occupantId d \<noteq> Some occ then Some Forbidden_occupant else None)"
  using findById_holder [of db i d] by (auto simp: spec_holder_def truthy_def split: option.splits)

lemma release_spec:
  assumes "table_inv db"
  shows "release i occ db =
    (if spec_holder i occ (findById db) = None then update_where (\<lambda>r. r_id r = i) clear_occupation db else db,
     case spec_holder i occ (findById db) of None \<Rightarrow> Released | Some e \<Rightarrow> ReleaseFailed e)"
proof (cases "findById db i")
  case None
  then show ?thesis by (simp add: release_def spec_holder_def)
next
  case (Some d)
  then show ?thesis by (simp add: release_def spec_holder_of [OF assms])
qed

lemma renew_spec:
  assumes "table_inv db"
  shows "renewOccupation i occ t db =
    (if spec_holder i occ (findById db) = None
     then update_where (\<lambda>r. r_id r = i) (\<lambda>r. r\<lparr>r_last_activity_at := Some t\<rparr>) db else db,
     case spec_holder i occ (findById db) of None \<Rightarrow> Renewed | Some e \<Rightarrow> RenewFailed e)"
proof (cases "findById db i")
  case None
  then show ?thesis by (simp add: renewOccupation_def spec_holder_def)
next
  case (Some d)
  then obtain row where row: "row_of db i = Some row" "d = toDevice row"
    by (auto simp: findById_row_of)
  have "r_id r = i \<and> r_occupant_id r = Some occ \<longleftrightarrow> r_id r = i"
    if "r \<in> set db" "d_occupantId d = Some occ" for r
    using that row row_of_in [OF table_inv_distinct [OF assms] that(1)] by auto
  then have "d_occupantId d = Some occ \<Longrightarrow>
    update_where (\<lambda>r. r_id r = i \<and> r_occupant_id r = Some occ) (\<lambda>r. r\<lparr>r_last_activity_at := Some t\<rparr>) db =
    update_where (\<lambda>r. r_id r = i) (\<lambda>r. r\<lparr>r_last_activity_at := Some t\<rparr>) db"
    by (intro update_where_cong) blast
  with Some show ?thesis by (simp add: renewOccupation_def spec_holder_of [OF assms])
qed

definition free_rows :: "device_table \<Rightarrow> device_row list" where
  "free_rows db = filter (\<lambda>row. r_status row = Online \<and> r_occupant_id row = None) db"

lemma filter_one_row:
  "distinct (map r_id db) \<Longrightarrow> r \<in> set db \<Longrightarrow> P r \<Longrightarrow> filter (\<lambda>row. r_id row = r_id r \<and> P row) db = [r]"
proof (induction db)
  case (Cons a db)
  have "filter (\<lambda>row. r_id row = r_id a \<and> P row) db = []" if "r_id a \<notin> r_id ` set db"
    using that by (auto simp: filter_empty_conv image_iff)
  with Cons show ?case by (auto simp: image_iff)
qed simp

lemma tryOccupy_spec:
  assumes "distinct (map r_id db)"
  shows "tryOccupy f occ t db =
    (case List.find (\<lambda>r. filter_matches f (toDevice r)) (free_rows db) of
      None \<Rightarrow> (db, None)
    | Some r \<Rightarrow>
        (update_where (\<lambda>row. r_id row = r_id r)
          (\<lambda>row. row\<lparr>r_occupant_id := Some occ, r_occupied_at := Some t, r_last_activity_at := Some t\<rparr>) db,
         Some (occupied_by occ t (toDevice r))))"
proof -
  let ?u = "\<lambda>row. row\<lparr>r_occupant_id := Some occ, r_occupied_at := Some t, r_last_activity_at := Some t\<rparr>"
  have find_map: "List.find P (map toDevice rs) = map_option toDevice (List.find (\<lambda>r. P (toDevice r)) rs)" for P rs
    by (induction rs) simp_all
  show ?thesis
  proof (cases "List.find (\<lambda>r. filter_matches f (toDevice r)) (free_rows db)")
    case None
    then show ?thesis by (simp add: tryOccupy_def find_map free_rows_def [symmetric])
  next
    case (Some r)
    let ?c = "\<lambda>row. r_id row = r_id r \<and> r_occupant_id row = None \<and> r_status row = Online"
    from Some have r: "r \<in> set db" "r_occupant_id r = None" "r_status r = Online"
      using find_Some_iff_in [OF Some] by (auto simp: free_rows_def)
    have one: "filter ?c db = [r]"
      using filter_one_row [OF assms r(1), of "\<lambda>row. r_occupant_id row = None \<and> r_status row = Online"] r by simp
    have uniq: "row = r" if "row \<in> set db" "r_id row = r_id r" for row
      using row_of_in [OF assms that(1)] row_of_in [OF assms r(1)] that(2) by (metis option.inject)
    have upd: "update_where ?c ?u db = update_where (\<lambda>row. r_id row = r_id r) ?u db"
    proof (rule update_where_cong)
      fix row
      assume "row \<in> set db"
      then show "?c row = (r_id row = r_id r)"
        using uniq [of row] r by (cases "r_id row = r_id r") simp_all
    qed
    have "findById (update_where (\<lambda>row. r_id row = r_id r) ?u db) (r_id r) = Some (occupied_by occ t (toDevice r))"
      using row_of_in [OF assms r(1)]
      by (simp add: findById_row_of row_of_update_where occupied_by_def toDevice_def)
    with Some one upd show ?thesis
      unfolding tryOccupy_def by (simp add: find_map free_rows_def [symmetric])
  qed
qed

lemma tryOccupy_Some:
  assumes inv: "table_inv db" and occ: "tryOccupy f occ t db = (db', Some d)"
  shows "\<exists>d0. findById db (d_id d0) = Some d0 \<and> d_status d0 = Online \<and> d_occupantId d0 = None \<and>
    filter_matches f d0 \<and> d = occupied_by occ t d0 \<and> findById db' = (findById db)(d_id d0 \<mapsto> d)"
proof -
  note dist = table_inv_distinct [OF inv]
  from occ obtain r where r: "List.find (\<lambda>r. filter_matches f (toDevice r)) (free_rows db) = Some r"
    and d: "d = occupied_by occ t (toDevice r)"
    and db': "db' = update_where (\<lambda>row. r_id row = r_id r)
          (\<lambda>row. row\<lparr>r_occupant_id := Some occ, r_occupied_at := Some t, r_last_activity_at := Some t\<rparr>) db"
    by (auto simp: tryOccupy_spec [OF dist] split: option.splits)
  from find_Some_iff_in [OF r] have mem: "r \<in> set db" "r_occupant_id r = None" "r_status r = Online"
    "filter_matches f (toDevice r)" by (auto simp: free_rows_def)
  have row: "findById db (r_id r) = Some (toDevice r)"
    using row_of_in [OF dist mem(1)] by (simp add: findById_row_of)
  have "findById db' = spec_update (r_id r) (occupied_by occ t) (findById db)"
    unfolding db' by (rule findById_update_id) (simp_all add: toDevice_def occupied_by_def)
  with row d have "findById db' = (findById db)(r_id r \<mapsto> d)" by (simp add: spec_update_def)
  with mem row d show ?thesis by (intro exI [of _ "toDevice r"]) simp
qed

lemma tryOccupy_None:
  assumes inv: "table_inv db" and occ: "tryOccupy f occ t db = (db', None)"
  shows "findById db' = findById db \<and>
    (\<forall>i d. findById db i = Some d \<longrightarrow> \<not> (d_status d = Online \<and> d_occupantId d = None \<and> filter_matches f d))"
proof -
  from occ have none: "List.find (\<lambda>r. filter_matches f (toDevice r)) (free_rows db) = None" "db' = db"
    by (auto simp: tryOccupy_spec [OF table_inv_distinct [OF inv]] split: option.splits)
  have "\<not> filter_matches f (toDevice r)" if "row_of db i = Some r" "r_status r = Online" "r_occupant_id r = None" for i r
    using find_None_all [OF none(1), of r] that by (auto simp: free_rows_def dest: row_of_Some)
  with none(2) show ?thesis by (auto simp: findById_row_of)
qed

lemma findById_iff:
  "distinct (map r_id db) \<Longrightarrow> findById db i = Some d \<longleftrightarrow> (\<exists>r\<in>set db. r_id r = i \<and> toDevice r = d)"
  by (auto simp: findById_row_of row_of_in dest: row_of_Some)

lemma idle_toDevice [simp]: "idle_device c (toDevice r) = idle_row c r"
  by (simp add: idle_device_def idle_row_def)

lemma stale_toDevice [simp]: "stale_held c (toDevice r) = stale_row c r"
  by (simp add: stale_held_def stale_row_def)

lemma idle_row_occupied: "idle_row c r \<Longrightarrow> r_occupant_id r = Some occ \<longleftrightarrow> the (r_occupant_id r) = occ"
  by (auto simp: idle_row_def)

lemma expire_entries:
  assumes "table_inv db"
  shows "set (snd (expireIdleOccupations c db)) =
    {e. \<exists>d. findById db (eo_deviceId e) = Some d \<and> idle_device c d \<and> d_occupantId d = Some (eo_occupantId e)}"
    (is "?L = ?R")
proof -
  have "e \<in> ?L \<longleftrightarrow> (\<exists>r\<in>set db. idle_row c r \<and> r_id r = eo_deviceId e \<and> r_occupant_id r = Some (eo_occupantId e))" for e
    by (cases e) (auto simp: expireIdle_eq [OF table_inv_distinct [OF assms]] image_iff idle_row_occupied)
  moreover have "e \<in> ?R \<longleftrightarrow> (\<exists>r\<in>set db. idle_row c r \<and> r_id r = eo_deviceId e \<and> r_occupant_id r = Some (eo_occupantId e))" for e
    by (auto simp: findById_iff [OF table_inv_distinct [OF assms]])
  ultimately show ?thesis by blast
qed

lemma stale_entries:
  assumes "table_inv db"
  shows "set (snd (markStaleOffline c db)) =
    {e. \<exists>d. findById db (sd_deviceId e) = Some d \<and> stale_held c d \<and> d_occupantId d = sd_occupantId e}"
    (is "?L = ?R")
proof -
  have "e \<in> ?L \<longleftrightarrow> (\<exists>r\<in>set db. stale_row c r \<and> r_id r = sd_deviceId e \<and> r_occupant_id r = sd_occupantId e)" for e
    by (cases e) (auto simp: markStale_eq [OF table_inv_distinct [OF assms]])
  moreover have "e \<in> ?R \<longleftrightarrow> (\<exists>r\<in>set db. stale_row c r \<and> r_id r = sd_deviceId e \<and> r_occupant_id r = sd_occupantId e)" for e
    by (auto simp: findById_iff [OF table_inv_distinct [OF assms]])
  ultimately show ?thesis by blast
qed

interpretation repo: devices_repository findById upsertMany tryOccupy release renewOccupation
  expireIdleOccupations heartbeat markAgentOffline markStaleOffline table_inv
proof unfold_locales
  fix db :: device_table and i d f occ t db'
  show "findById db i = Some d \<Longrightarrow> d_id d = i" by (rule findById_Some_id)
  show "table_inv db \<Longrightarrow> findById db i = Some d \<Longrightarrow> d_occupantId d \<noteq> Some []" by (rule findById_holder)
  show "table_inv db \<Longrightarrow> tryOccupy f occ t db = (db', None) \<Longrightarrow> findById db' = findById db \<and>
      (\<forall>i d. findById db i = Some d \<longrightarrow> \<not> (d_status d = Online \<and> d_occupantId d = None \<and> filter_matches f d))"
    by (rule tryOccupy_None)
  show "table_inv db \<Longrightarrow> tryOccupy f occ t db = (db', Some d) \<Longrightarrow>
      \<exists>d0. findById db (d_id d0) = Some d0 \<and> d_status d0 = Online \<and> d_occupantId d0 = None \<and>
        filter_matches f d0 \<and> d = occupied_by occ t d0 \<and> findById db' = (findById db)(d_id d0 \<mapsto> d)"
    by (rule tryOccupy_Some)
next
  fix db :: device_table and i occ t c a ids items
  assume inv: "table_inv db"
  show "findById (upsertMany items a t db) = fold (spec_register a t) items (findById db)"
    by (rule findById_upsertMany)
  show "findById (fst (release i occ db)) =
      (if spec_holder i occ (findById db) = None then spec_update i vacated (findById db) else findById db)"
    using findById_update_id [of clear_occupation vacated i db] by (simp add: release_spec [OF inv])
  show "snd (release i occ db) =
      (case spec_holder i occ (findById db) of None \<Rightarrow> Released | Some e \<Rightarrow> ReleaseFailed e)"
    by (simp add: release_spec [OF inv])
  show "findById (fst (renewOccupation i occ t db)) =
      (if spec_holder i occ (findById db) = None
       then spec_update i (\<lambda>d. d\<lparr>d_lastActivityAt := Some t\<rparr>) (findById db) else findById db)"
    using findById_update_id [of "\<lambda>r. r\<lparr>r_last_activity_at := Some t\<rparr>" "\<lambda>d. d\<lparr>d_lastActivityAt := Some t\<rparr>" i db]
    by (simp add: renew_spec [OF inv] toDevice_def)
  show "snd (renewOccupation i occ t db) =
      (case spec_holder i occ (findById db) of None \<Rightarrow> Renewed | Some e \<Rightarrow> RenewFailed e)"
    by (simp add: renew_spec [OF inv])
  show "findById (fst (expireIdleOccupations c db)) = spec_map (idle_device c) vacated (findById db)"
    unfolding expireIdle_eq [OF table_inv_distinct [OF inv]] fst_conv
    by (rule findById_update_where) (simp_all add: idle_row_def idle_device_def)
  show "set (snd (expireIdleOccupations c db)) =
      {e. \<exists>d. findById db (eo_deviceId e) = Some d \<and> idle_device c d \<and> d_occupantId d = Some (eo_occupantId e)}"
    by (rule expire_entries [OF inv])
  show "findById (heartbeat ids a t db) =
      spec_map (\<lambda>d. d_id d \<in> set ids \<and> d_agentId d = Some a)
        (\<lambda>d. d\<lparr>d_lastHeartbeatAt := Some t, d_status := Online\<rparr>) (findById db)"
    unfolding heartbeat_eq by (rule findById_update_where) (simp_all add: toDevice_def)
  show "findById (markAgentOffline a db) =
      spec_map (\<lambda>d. d_agentId d = Some a) (\<lambda>d. d\<lparr>d_status := Offline, d_agentId := None\<rparr>) (findById db)"
    unfolding markAgentOffline_def by (rule findById_update_where) (simp_all add: toDevice_def)
  show "findById (fst (markStaleOffline c db)) =
      spec_map (stale_held c) (\<lambda>d. (vacated d)\<lparr>d_status := Offline\<rparr>) (findById db)"
    unfolding markStale_eq [OF table_inv_distinct [OF inv]] fst_conv
    by (rule findById_update_where)
      (simp_all add: stale_row_def stale_held_def toDevice_def clear_occupation_def vacated_def)
  show "set (snd (markStaleOffline c db)) =
      {e. \<exists>d. findById db (sd_deviceId e) = Some d \<and> stale_held c d \<and> d_occupantId d = sd_occupantId e}"
    by (rule stale_entries [OF inv])
qed

section \<open>Histories of the registry\<close>

text \<open>One call of the repository, and the table it leaves.\<close>

datatype repo_op =
    UpsertMany "register_device list" string ms
  | TryOccupy occupy_filter string ms
  | Release string string
  | RenewOccupation string string ms
  | ExpireIdle ms
  | RecordHeartbeat "string list" string ms
  | MarkAgentOffline string
  | MarkStaleOffline ms

fun repo_step :: "repo_op \<Rightarrow> device_table \<Rightarrow> device_table" where
  "repo_step (UpsertMany items a t) db = upsertMany items a t db"
| "repo_step (TryOccupy f occ t) db = fst (tryOccupy f occ t db)"
| "repo_step (Release i occ) db = fst (release i occ db)"
| "repo_step (RenewOccupation i occ t) db = fst (renewOccupation i occ t db)"
| "repo_step (ExpireIdle c) db = fst (expireIdleOccupations c db)"
| "repo_step (RecordHeartbeat ids a t) db = heartbeat ids a t db"
| "repo_step (MarkAgentOffline a) db = markAgentOffline a db"
| "repo_step (MarkStaleOffline c) db = fst (markStaleOffline c db)"

definition repo_run :: "repo_op list \<Rightarrow> device_table \<Rightarrow> device_table" where
  "repo_run ops db = fold repo_step ops db"

text \<open>The occupant ids are fresh UUIDs, in particular not empty.\<close>

fun op_ok :: "repo_op \<Rightarrow> bool" where
  "op_ok (TryOccupy _ occ _) \<longleftrightarrow> occ \<noteq> []"
| "op_ok _ \<longleftrightarrow> True"

definition holder_of :: "device_table \<Rightarrow> string \<Rightarrow> string option" where
  "holder_of db i = Option.bind (findById db i) d_occupantId"

lemma holder_of_repo: "holder_of = repo.holder"
  by (simp add: fun_eq_iff holder_of_def repo.holder_def)

lemma table_inv_step: "table_inv db \<Longrightarrow> op_ok op \<Longrightarrow> table_inv (repo_step op db)"
  by (cases op)
    (simp_all add: table_inv_upsertMany table_inv_tryOccupy table_inv_release table_inv_renew
      table_inv_expireIdle table_inv_heartbeat table_inv_markAgentOffline table_inv_markStale)

lemma table_inv_run: "table_inv db \<Longrightarrow> list_all op_ok ops \<Longrightarrow> table_inv (repo_run ops db)"
  unfolding repo_run_def by (induction ops arbitrary: db) (simp_all add: table_inv_step)

lemmas holder_steps = repo.holder_register repo.holder_hb repo.holder_off repo.holder_renew repo.holder_rel
  repo.holder_expire repo.holder_stale repo.holder_occupy

text \<open>
  C5: Whatever calls the registry receives, starting from an empty table, every row keeps a unique id,
  the three occupation columns are set or null together, a stored occupant is never the empty text,
  and an online row names its Agent and has a heartbeat time.
\<close>

theorem repository_invariant:
  assumes "list_all op_ok ops"
  shows "table_inv (repo_run ops [])"
  using assms by (intro table_inv_run) simp_all

definition sample_item :: register_device where
  "sample_item = \<lparr>rd_id = ''d1'', rd_name = ''Pixel'', rd_platform = Android, rd_osVersion = ''14'',
     rd_tags = [''usb'']\<rparr>"

definition any_filter :: occupy_filter where
  "any_filter = \<lparr>of_platform = None, of_tags = None, of_deviceId = None\<rparr>"

definition sample_ops :: "repo_op list" where
  "sample_ops = [UpsertMany [sample_item] ''agent'' 5, TryOccupy any_filter ''occ'' 10]"

theorem repository_invariant_witness: "table_inv (repo_run sample_ops [])"
  by (rule repository_invariant) (simp add: sample_ops_def)

lemma sample_run_inv: "table_inv (repo_run sample_ops [])"
  by (rule table_inv_run) (simp_all add: sample_ops_def)

lemma sample_run:
  "repo_run sample_ops [] =
    [\<lparr>r_id = ''d1'', r_name = ''Pixel'', r_platform = Android, r_os_version = ''14'',
      r_tags = json_strs [''usb''], r_status = Online, r_agent_id = Some ''agent'',
      r_occupant_id = Some ''occ'', r_occupied_at = Some 10, r_last_heartbeat_at = Some 5,
      r_last_activity_at = Some 10\<rparr>]"
  by (simp add: repo_run_def sample_ops_def upsertMany_def upsert_def sample_item_def tryOccupy_def
      filter_matches_def any_filter_def truthy_def hasAllTags_def update_where_def Let_def toDevice_def)

text \<open>
  C6: An occupation never passes from one occupant to another: a step that changes the holder of a
  device leaves it free, and it is either the holder's own release, or the idle sweep on a device
  whose last activity is before the cutoff, or the heartbeat sweep on one whose last heartbeat is.
\<close>

theorem occupation_ends_only_by:
  assumes "table_inv db" and "holder_of db i = Some a" and "holder_of (repo_step op db) i \<noteq> Some a"
  shows "holder_of (repo_step op db) i = None \<and>
    (op = Release i a \<or>
     (\<exists>c d. op = ExpireIdle c \<and> findById db i = Some d \<and> older_than c (d_lastActivityAt d)) \<or>
     (\<exists>c d. op = MarkStaleOffline c \<and> findById db i = Some d \<and> older_than c (d_lastHeartbeatAt d)))"
proof (cases op)
  case (TryOccupy f occ t)
  with assms repo.occupy_target_free(1) [OF assms(1), of f occ t "fst (tryOccupy f occ t db)"]
  show ?thesis by (cases "snd (tryOccupy f occ t db)")
      (auto simp: holder_of_repo repo.holder_occupy prod_eq_iff split: if_splits)
next
  case (ExpireIdle c)
  with assms show ?thesis
    by (cases "findById db i")
      (auto simp: holder_of_repo repo.holder_expire idle_device_def repo.holder_def [of db] split: if_splits)
next
  case (MarkStaleOffline c)
  with assms show ?thesis
    by (cases "findById db i")
      (auto simp: holder_of_repo repo.holder_stale stale_held_def repo.holder_def [of db] split: if_splits)
qed (use assms in \<open>auto simp: holder_of_repo holder_steps split: if_splits\<close>)

theorem occupation_ends_only_by_witness:
  "holder_of (repo_step (Release ''d1'' ''occ'') (repo_run sample_ops [])) ''d1'' = None"
proof -
  have "holder_of (repo_run sample_ops []) ''d1'' = Some ''occ''"
    by (simp add: sample_run holder_of_def findById_row_of)
  moreover have "holder_of (repo_step (Release ''d1'' ''occ'') (repo_run sample_ops [])) ''d1'' \<noteq> Some ''occ''"
    by (simp add: holder_of_repo repo.holder_rel sample_run_inv)
  ultimately show ?thesis using occupation_ends_only_by [OF sample_run_inv] by blast
qed

text \<open>
  C7: A free device gets an occupant only by \<open>tryOccupy\<close>, only while it is online, only when it
  meets the filter of the request, and the new occupant is the one of that request.
\<close>

theorem occupation_starts_only_by:
  assumes "table_inv db" and "holder_of db i = None" and "holder_of (repo_step op db) i = Some a"
  shows "\<exists>f t d. op = TryOccupy f a t \<and> findById db i = Some d \<and> d_status d = Online \<and>
    d_occupantId d = None \<and> filter_matches f d"
proof (cases op)
  case (TryOccupy f occ t)
  show ?thesis
  proof (cases "snd (tryOccupy f occ t db)")
    case None
    with TryOccupy assms show ?thesis by (simp add: holder_of_repo repo.holder_occupy)
  next
    case (Some d)
    then have "tryOccupy f occ t db = (fst (tryOccupy f occ t db), Some d)" by (simp add: prod_eq_iff)
    from repo.occupy_Some [OF assms(1) this] Some TryOccupy assms show ?thesis
      by (auto simp: holder_of_repo repo.holder_occupy occupied_by_def split: if_splits)
  qed
next
  case (ExpireIdle c)
  with assms show ?thesis
    by (auto simp: holder_of_repo repo.holder_expire repo.holder_find split: option.splits if_splits)
next
  case (MarkStaleOffline c)
  with assms show ?thesis
    by (auto simp: holder_of_repo repo.holder_stale repo.holder_find split: option.splits if_splits)
qed (use assms in \<open>auto simp: holder_of_repo holder_steps split: if_splits\<close>)

definition registered_db :: device_table where
  "registered_db = repo_run [UpsertMany [sample_item] ''agent'' 5] []"

lemma registered_db_eq:
  "registered_db =
    [\<lparr>r_id = ''d1'', r_name = ''Pixel'', r_platform = Android, r_os_version = ''14'',
      r_tags = json_strs [''usb''], r_status = Online, r_agent_id = Some ''agent'',
      r_occupant_id = None, r_occupied_at = None, r_last_heartbeat_at = Some 5,
      r_last_activity_at = None\<rparr>]"
  by (simp add: registered_db_def repo_run_def upsertMany_def upsert_def sample_item_def)

lemma registered_db_inv: "table_inv registered_db"
  unfolding registered_db_def by (rule table_inv_run) simp_all

lemma registered_occupy:
  "repo_step (TryOccupy any_filter ''occ'' 10) registered_db = repo_run sample_ops []"
  by (simp add: registered_db_def repo_run_def sample_ops_def)

theorem occupation_starts_only_by_witness:
  "\<exists>f t d. TryOccupy any_filter ''occ'' 10 = TryOccupy f ''occ'' t \<and> findById registered_db ''d1'' = Some d \<and>
    d_status d = Online \<and> d_occupantId d = None \<and> filter_matches f d"
proof (rule occupation_starts_only_by [OF registered_db_inv])
  show "holder_of registered_db ''d1'' = None"
    by (simp add: registered_db_eq holder_of_def findById_row_of)
  show "holder_of (repo_step (TryOccupy any_filter ''occ'' 10) registered_db) ''d1'' = Some ''occ''"
    unfolding registered_occupy sample_run by (simp add: holder_of_def findById_row_of)
qed

text \<open>
  C28: Occupying is all or nothing: the request fails exactly when no online free device meets the
  filter; otherwise it returns one that did, now held by the requester from this instant on, and no
  other device changes.
\<close>

theorem tryOccupy_outcome:
  assumes "table_inv db"
  shows "case tryOccupy f occ t db of
      (db', None) \<Rightarrow> findById db' = findById db \<and>
        \<not> (\<exists>i d. findById db i = Some d \<and> d_status d = Online \<and> d_occupantId d = None \<and> filter_matches f d)
    | (db', Some d) \<Rightarrow>
        (\<exists>d0. findById db (d_id d0) = Some d0 \<and> d_status d0 = Online \<and> d_occupantId d0 = None \<and>
          filter_matches f d0 \<and> d = occupied_by occ t d0 \<and> findById db' = (findById db)(d_id d0 \<mapsto> d))"
  using tryOccupy_None [OF assms] tryOccupy_Some [OF assms] by (auto split: prod.split option.split)

theorem tryOccupy_outcome_witness:
  "snd (tryOccupy any_filter ''occ'' 10 registered_db) = map_option (occupied_by ''occ'' 10) (findById registered_db ''d1'')"
proof -
  have none: "findById registered_db i = Some d \<Longrightarrow> i = ''d1''" for i d
    by (simp add: registered_db_eq findById_row_of split: if_splits)
  have some: "snd (tryOccupy any_filter ''occ'' 10 registered_db) \<noteq> None"
    by (simp add: registered_db_eq tryOccupy_spec free_rows_def filter_matches_def any_filter_def truthy_def
        hasAllTags_def)
  from some obtain db' d where step: "tryOccupy any_filter ''occ'' 10 registered_db = (db', Some d)"
    by (cases "tryOccupy any_filter ''occ'' 10 registered_db") auto
  from tryOccupy_outcome [OF registered_db_inv, of any_filter "''occ''" 10]
  obtain d0 where d0: "findById registered_db (d_id d0) = Some d0" "d = occupied_by ''occ'' 10 d0"
    unfolding step prod.case option.case by blast
  from none [OF d0(1)] d0 step show ?thesis by simp
qed

lemma release_and_renew_outcome_parts:
  assumes "table_inv db"
  shows "snd (release i occ db) =
      (case spec_holder i occ (findById db) of None \<Rightarrow> Released | Some e \<Rightarrow> ReleaseFailed e)"
    and "findById (fst (release i occ db)) =
      (if holder_of db i = Some occ then spec_update i vacated (findById db) else findById db)"
    and "snd (renewOccupation i occ t db) =
      (case spec_holder i occ (findById db) of None \<Rightarrow> Renewed | Some e \<Rightarrow> RenewFailed e)"
    and "findById (fst (renewOccupation i occ t db)) =
      (if holder_of db i = Some occ
       then spec_update i (\<lambda>d. d\<lparr>d_lastActivityAt := Some t\<rparr>) (findById db) else findById db)"
proof -
  have h: "spec_holder i occ (findById db) = None \<longleftrightarrow> holder_of db i = Some occ"
    by (auto simp: spec_holder_def holder_of_def split: option.splits)
  show "snd (release i occ db) =
      (case spec_holder i occ (findById db) of None \<Rightarrow> Released | Some e \<Rightarrow> ReleaseFailed e)"
    by (rule repo.rel_result [OF assms])
  show "snd (renewOccupation i occ t db) =
      (case spec_holder i occ (findById db) of None \<Rightarrow> Renewed | Some e \<Rightarrow> RenewFailed e)"
    by (rule repo.renew_result [OF assms])
  show "findById (fst (release i occ db)) =
      (if holder_of db i = Some occ then spec_update i vacated (findById db) else findById db)"
    using repo.find_rel [OF assms, of i occ] unfolding h .
  show "findById (fst (renewOccupation i occ t db)) =
      (if holder_of db i = Some occ
       then spec_update i (\<lambda>d. d\<lparr>d_lastActivityAt := Some t\<rparr>) (findById db) else findById db)"
    using repo.find_renew [OF assms, of i occ t] unfolding h .
qed

text \<open>
  C29: Releasing and renewing check the caller in the same order: unknown device, free device,
  somebody else's device; only the holder gets through, and then exactly that device is freed
  (or has its activity time moved).
\<close>

theorem release_and_renew_outcome:
  assumes "table_inv db"
  shows "(snd (release i occ db) =
      (case spec_holder i occ (findById db) of None \<Rightarrow> Released | Some e \<Rightarrow> ReleaseFailed e)) \<and>
    (findById (fst (release i occ db)) =
      (if holder_of db i = Some occ then spec_update i vacated (findById db) else findById db)) \<and>
    (snd (renewOccupation i occ t db) =
      (case spec_holder i occ (findById db) of None \<Rightarrow> Renewed | Some e \<Rightarrow> RenewFailed e)) \<and>
    (findById (fst (renewOccupation i occ t db)) =
      (if holder_of db i = Some occ
       then spec_update i (\<lambda>d. d\<lparr>d_lastActivityAt := Some t\<rparr>) (findById db) else findById db))"
  by (rule conjI, rule release_and_renew_outcome_parts(1) [OF assms],
    rule conjI, rule release_and_renew_outcome_parts(2) [OF assms],
    rule conjI, rule release_and_renew_outcome_parts(3) [OF assms],
    rule release_and_renew_outcome_parts(4) [OF assms])

theorem release_and_renew_outcome_witness:
  "snd (release ''d1'' ''intruder'' (repo_run sample_ops [])) = ReleaseFailed Forbidden_occupant"
  unfolding release_and_renew_outcome [OF sample_run_inv, THEN conjunct1]
  by (simp add: sample_run spec_holder_def findById_row_of)

lemma sweeps_report_what_they_end_parts:
  assumes "table_inv db"
  shows "\<lparr>eo_deviceId = i, eo_occupantId = occ\<rparr> \<in> set (snd (expireIdleOccupations c db)) \<longleftrightarrow>
      holder_of db i = Some occ \<and> holder_of (fst (expireIdleOccupations c db)) i = None"
    and "\<lparr>sd_deviceId = i, sd_occupantId = Some occ\<rparr> \<in> set (snd (markStaleOffline c db)) \<longleftrightarrow>
      holder_of db i = Some occ \<and> holder_of (fst (markStaleOffline c db)) i = None"
    and "\<not> (\<exists>d. findById (fst (expireIdleOccupations c db)) i = Some d \<and> idle_device c d)"
    and "\<not> (\<exists>d. findById (fst (markStaleOffline c db)) i = Some d \<and> stale_held c d)"
  using repo.expire_reports [OF assms] repo.stale_reports [OF assms]
    repo.expire_none_idle [OF assms] repo.stale_none_left [OF assms]
  by (auto simp: holder_of_repo)

text \<open>
  The idle sweep and the heartbeat sweep report exactly the occupations they end, and leave no
  device behind that the sweep should have taken.
\<close>

theorem sweeps_report_what_they_end:
  assumes "table_inv db"
  shows "(\<lparr>eo_deviceId = i, eo_occupantId = occ\<rparr> \<in> set (snd (expireIdleOccupations c db)) \<longleftrightarrow>
      holder_of db i = Some occ \<and> holder_of (fst (expireIdleOccupations c db)) i = None) \<and>
    (\<lparr>sd_deviceId = i, sd_occupantId = Some occ\<rparr> \<in> set (snd (markStaleOffline c db)) \<longleftrightarrow>
      holder_of db i = Some occ \<and> holder_of (fst (markStaleOffline c db)) i = None) \<and>
    (\<not> (\<exists>d. findById (fst (expireIdleOccupations c db)) i = Some d \<and> idle_device c d)) \<and>
    (\<not> (\<exists>d. findById (fst (markStaleOffline c db)) i = Some d \<and> stale_held c d))"
  by (rule conjI, rule sweeps_report_what_they_end_parts(1) [OF assms],
    rule conjI, rule sweeps_report_what_they_end_parts(2) [OF assms],
    rule conjI, rule sweeps_report_what_they_end_parts(3) [OF assms],
    rule sweeps_report_what_they_end_parts(4) [OF assms])

theorem sweeps_report_what_they_end_witness:
  "\<lparr>eo_deviceId = ''d1'', eo_occupantId = ''occ''\<rparr> \<in>
    set (snd (expireIdleOccupations 11 (repo_run sample_ops []))) \<and>
   \<lparr>eo_deviceId = ''d1'', eo_occupantId = ''occ''\<rparr> \<notin>
    set (snd (expireIdleOccupations 10 (repo_run sample_ops [])))"
  unfolding sweeps_report_what_they_end [OF sample_run_inv, THEN conjunct1]
  by (simp add: holder_of_repo repo.holder_expire sample_run_inv)
    (simp add: sample_run repo.holder_def findById_row_of idle_device_def older_than_def)

end
