(* ===== verification/Server_Config.thy ===== *)
theory Server_Config
  imports Js_Text Frame_Codec Devices
begin

text \<open>
  The server's configuration and its gatekeepers: constants.ts, env.validation.ts, token.guard.ts,
  connection-rate-limiter.ts and the schema migration of database.service.ts. The environment maps
  a name to its text (\<open>None\<close>: \<open>undefined\<close>); a time is the \<open>Date.now()\<close> passed in.
\<close>

section \<open>Constants\<close>

definition heartbeat_timeout_ms :: int where "heartbeat_timeout_ms = 90000"
definition min_heartbeat_timeout_ms :: int where "min_heartbeat_timeout_ms = 10000"
definition sweep_interval_ms :: int where "sweep_interval_ms = 30000"
definition min_sweep_interval_ms :: int where "min_sweep_interval_ms = 1000"
definition occupation_ttl_ms :: int where "occupation_ttl_ms = 600000"
definition min_occupation_ttl_ms :: int where "min_occupation_ttl_ms = 60000"
definition default_port :: int where "default_port = 3000"
definition rate_limit_per_minute :: int where "rate_limit_per_minute = 120"
definition command_timeout_ms :: int where "command_timeout_ms = 15000"
definition viewer_close_occupation_ended :: int where "viewer_close_occupation_ended = 4408"

type_synonym env = "string \<Rightarrow> string option"

definition resolveMsEnv :: "string option \<Rightarrow> int \<Rightarrow> jsnum" where
  "resolveMsEnv raw fallback = (case raw of None \<Rightarrow> num fallback | Some t \<Rightarrow> js_Number t)"

text \<open>\<open>Number(process.env.X) || fallback\<close>: zero and NaN fall back.\<close>

definition number_or :: "string option \<Rightarrow> int \<Rightarrow> jsnum" where
  "number_or raw fallback =
    (let n = (case raw of None \<Rightarrow> NaN | Some t \<Rightarrow> js_Number t)
     in if n = NaN \<or> n = num 0 then num fallback else n)"

definition throttler_limit :: "env \<Rightarrow> jsnum" where
  "throttler_limit env = number_or (env ''NEBULA_RATE_LIMIT_PER_MINUTE'') rate_limit_per_minute"

definition listen_port :: "env \<Rightarrow> jsnum" where
  "listen_port env = number_or (env ''PORT'') default_port"

section \<open>Validation of the environment\<close>

definition required_token_keys :: "string list" where
  "required_token_keys = [''NEBULA_CLIENT_TOKEN'', ''NEBULA_AGENT_TOKEN'']"

definition min_token_length :: nat where "min_token_length = 24"

definition placeholder_prefix :: string where "placeholder_prefix = ''change-me''"

datatype token_problem = Token_missing | Token_placeholder | Token_too_short
datatype int_problem = Not_integer | Below int
datatype env_problem = Token_problem string token_problem | Int_problem string int_problem | Same_tokens

definition tokenProblem :: "string option \<Rightarrow> token_problem option" where
  "tokenProblem value = (case value of
      None \<Rightarrow> Some Token_missing
    | Some v \<Rightarrow>
        if length (trim v) = 0 then Some Token_missing
        else if starts_with placeholder_prefix v then Some Token_placeholder
        else if length v < min_token_length then Some Token_too_short
        else None)"

definition optionalIntProblem :: "string option \<Rightarrow> int \<Rightarrow> int_problem option" where
  "optionalIntProblem value minimum = (case value of
      None \<Rightarrow> None
    | Some v \<Rightarrow> let parsed = js_Number v in
        if \<not> is_integer_num parsed then Some Not_integer
        else if js_less parsed (num minimum) then Some (Below minimum)
        else None)"

definition optional_int_keys :: "(string \<times> int) list" where
  "optional_int_keys =
    [(''NEBULA_OCCUPATION_TTL_MS'', min_occupation_ttl_ms),
     (''NEBULA_RATE_LIMIT_PER_MINUTE'', 1),
     (''NEBULA_SWEEP_INTERVAL_MS'', min_sweep_interval_ms),
     (''NEBULA_HEARTBEAT_TIMEOUT_MS'', min_heartbeat_timeout_ms)]"

definition validateEnv :: "env \<Rightarrow> env_problem list + env" where
  "validateEnv config =
    (let problems =
           List.map_filter (\<lambda>key. map_option (Token_problem key) (tokenProblem (config key))) required_token_keys @
           List.map_filter (\<lambda>(key, minimum). map_option (Int_problem key) (optionalIntProblem (config key) minimum))
             optional_int_keys;
         problems' =
           (if problems = [] \<and> config ''NEBULA_CLIENT_TOKEN'' = config ''NEBULA_AGENT_TOKEN''
            then problems @ [Same_tokens] else problems)
     in if problems' \<noteq> [] then Inl problems' else Inr config)"

section \<open>Tokens\<close>

definition isTokenEqual :: "string \<Rightarrow> string \<Rightarrow> bool" where
  "isTokenEqual expected actual =
    (let expectedBuf = text_encode expected; actualBuf = text_encode actual
     in if length expectedBuf \<noteq> length actualBuf then False else expectedBuf = actualBuf)"

definition extractBearerToken :: "string option \<Rightarrow> string option" where
  "extractBearerToken authorization =
    (if \<not> truthy authorization then None
     else let parts = split_on (CHR '' '') (the authorization);
              token = (if length parts > 1 then Some (parts ! 1) else None)
          in if hd parts \<noteq> ''Bearer'' \<or> \<not> truthy token then None else token)"

text \<open>\<open>TokenGuard.canActivate\<close>: \<open>False\<close> is the thrown \<open>UnauthorizedException\<close>.\<close>

definition canActivate :: "env \<Rightarrow> bool \<Rightarrow> string option \<Rightarrow> bool" where
  "canActivate config isPublic authorization =
    (if isPublic then True
     else let token = extractBearerToken authorization; expected = config ''NEBULA_CLIENT_TOKEN''
          in truthy token \<and> truthy expected \<and> isTokenEqual (the expected) (the token))"

section \<open>The limiter of failed handshakes\<close>

definition window_ms :: int where "window_ms = 60000"
definition max_failures_per_window :: nat where "max_failures_per_window = 10"
definition cleanup_threshold :: nat where "cleanup_threshold = 1000"

record failure_window =
  fw_count :: nat
  fw_windowStartMs :: ms

type_synonym limiter = "(string, failure_window) jsmap"

definition toKey :: "string option \<Rightarrow> string" where
  "toKey ip = (case ip of None \<Rightarrow> ''unknown'' | Some i \<Rightarrow> i)"

definition isBlocked :: "limiter \<Rightarrow> string option \<Rightarrow> ms \<Rightarrow> bool" where
  "isBlocked failures ip nowMs = (case jget failures (toKey ip) of
      None \<Rightarrow> False
    | Some entry \<Rightarrow>
        if nowMs - fw_windowStartMs entry \<ge> window_ms then False
        else fw_count entry \<ge> max_failures_per_window)"

definition cleanupIfNeeded :: "ms \<Rightarrow> limiter \<Rightarrow> limiter" where
  "cleanupIfNeeded nowMs failures =
    (if length failures < cleanup_threshold then failures
     else filter (\<lambda>(key, entry). \<not> (nowMs - fw_windowStartMs entry \<ge> window_ms)) failures)"

definition recordFailure :: "string option \<Rightarrow> ms \<Rightarrow> limiter \<Rightarrow> limiter" where
  "recordFailure ip nowMs failures =
    (let failures = cleanupIfNeeded nowMs failures; key = toKey ip in
     case jget failures key of
       None \<Rightarrow> jset key \<lparr>fw_count = 1, fw_windowStartMs = nowMs\<rparr> failures
     | Some entry \<Rightarrow>
         if nowMs - fw_windowStartMs entry \<ge> window_ms
         then jset key \<lparr>fw_count = 1, fw_windowStartMs = nowMs\<rparr> failures
         else jset key (entry\<lparr>fw_count := fw_count entry + 1\<rparr>) failures)"

section \<open>The database file\<close>

record database =
  db_columns :: "string list"
  db_rows :: device_table

definition device_columns :: "string list" where
  "device_columns = [''id'', ''name'', ''platform'', ''os_version'', ''tags'', ''status'', ''agent_id'',
     ''occupant_id'', ''occupied_at'', ''last_heartbeat_at'', ''last_activity_at'']"

definition ensureDeviceColumns :: "database \<Rightarrow> database" where
  "ensureDeviceColumns db =
    (if ''last_activity_at'' \<in> set (db_columns db) then db
     else let added = map (\<lambda>row. row\<lparr>r_last_activity_at := None\<rparr>) (db_rows db)
          in \<lparr>db_columns = db_columns db @ [''last_activity_at''],
              db_rows = update_where (\<lambda>row. r_occupant_id row \<noteq> None)
                (\<lambda>row. row\<lparr>r_last_activity_at := r_occupied_at row\<rparr>) added\<rparr>)"

definition initSchema :: "database option \<Rightarrow> database" where
  "initSchema file = (case file of
      None \<Rightarrow> \<lparr>db_columns = device_columns, db_rows = []\<rparr>
    | Some db \<Rightarrow> db)"

definition open_database :: "database option \<Rightarrow> database" where
  "open_database file = ensureDeviceColumns (initSchema file)"

section \<open>Lemmas\<close>

lemma text_encode_simps:
  "text_encode [] = []"
  "text_encode (c # s) = (if code c < 128 then [of_nat (code c)]
    else [of_nat (192 + code c div 64), of_nat (128 + code c mod 64)]) @ text_encode s"
  by (simp_all add: text_encode_def)

lemma code_inject [simp]: "code c = code d \<longleftrightarrow> c = d"
  by (simp add: code_def)

lemma unat_u8_of: "n < 256 \<Longrightarrow> unat (of_nat n :: u8) = n"
  by (simp add: unat_of_nat)

lemma text_encode_inject: "text_encode s = text_encode t \<longleftrightarrow> s = t"
proof (induction s arbitrary: t)
  case Nil
  then show ?case by (cases t) (simp_all add: text_encode_simps)
next
  case (Cons c s)
  show ?case
  proof (cases t)
    case Nil
    then show ?thesis by (simp add: text_encode_simps)
  next
    case (Cons d t')
    have eq: "(of_nat a :: u8) = of_nat b \<longleftrightarrow> a = b" if "a < 256" "b < 256" for a b
      using unat_u8_of that by metis
    have lead: "192 + code x div 64 < 256" "128 + code x mod 64 < 256" for x
      using code_less_256 [of x] by simp_all
    have mix: "code x div 64 = code y div 64 \<and> code x mod 64 = code y mod 64 \<longleftrightarrow> x = y" for x y
      by (metis code_inject div_mult_mod_eq)
    have less: "code x < 256" "code x < 128 \<Longrightarrow> code x \<noteq> 192 + y" for x y
      using code_less_256 [of x] by simp_all
    note less(2) [THEN not_sym, simp]
    show ?thesis
      unfolding Cons text_encode_simps
      by (cases "code c < 128"; cases "code d < 128")
        (auto simp: Cons.IH eq lead less simp del: of_nat_add dest: mix [THEN iffD1, OF conjI])
  qed
qed

lemma isTokenEqual_iff: "isTokenEqual a b \<longleftrightarrow> a = b"
  by (auto simp: isTokenEqual_def Let_def text_encode_inject)

section \<open>What validation lets through\<close>

lemma map_filter_Nil_iff: "List.map_filter f xs = [] \<longleftrightarrow> (\<forall>x\<in>set xs. f x = None)"
  by (induction xs) (auto simp: List.map_filter_def split: option.splits)

lemma tokenProblem_None:
  "tokenProblem v = None \<Longrightarrow>
    \<exists>t. v = Some t \<and> length t \<ge> min_token_length \<and> \<not> starts_with placeholder_prefix t \<and> trim t \<noteq> []"
  by (auto simp: tokenProblem_def not_less split: option.splits if_splits)

lemma optionalIntProblem_None:
  "optionalIntProblem v m = None \<Longrightarrow> v = None \<or> (\<exists>t n. v = Some t \<and> js_Number t = num n \<and> m \<le> n)"
  by (auto simp: optionalIntProblem_def Let_def is_integer_num_iff not_less split: option.splits if_splits)

lemma validateEnv_Inr:
  assumes "validateEnv config = Inr config'"
  shows "config' = config"
    and "tokenProblem (config ''NEBULA_CLIENT_TOKEN'') = None"
    and "tokenProblem (config ''NEBULA_AGENT_TOKEN'') = None"
    and "config ''NEBULA_CLIENT_TOKEN'' \<noteq> config ''NEBULA_AGENT_TOKEN''"
    and "\<And>k m. (k, m) \<in> set optional_int_keys \<Longrightarrow> optionalIntProblem (config k) m = None"
  using assms
  by (auto simp: validateEnv_def Let_def map_filter_Nil_iff required_token_keys_def split: if_splits
      simp del: List.map_filter_simps)

lemma ms_env_bound:
  assumes "validateEnv config = Inr config'" and "(k, m) \<in> set optional_int_keys" and "m \<le> fallback"
  shows "\<exists>n. resolveMsEnv (config' k) fallback = num n \<and> m \<le> n"
  using optionalIntProblem_None [OF validateEnv_Inr(5) [OF assms(1, 2)]] assms(3)
  by (auto simp: resolveMsEnv_def validateEnv_Inr(1) [OF assms(1)])

lemma validated_env_parts:
  assumes "validateEnv config = Inr config'"
  shows "\<exists>c a. config' ''NEBULA_CLIENT_TOKEN'' = Some c \<and> config' ''NEBULA_AGENT_TOKEN'' = Some a \<and>
      c \<noteq> a \<and> length c \<ge> 24 \<and> length a \<ge> 24 \<and>
      \<not> starts_with placeholder_prefix c \<and> \<not> starts_with placeholder_prefix a"
    and "\<exists>n. resolveMsEnv (config' ''NEBULA_OCCUPATION_TTL_MS'') occupation_ttl_ms = num n \<and> 60000 \<le> n"
    and "\<exists>n. resolveMsEnv (config' ''NEBULA_SWEEP_INTERVAL_MS'') sweep_interval_ms = num n \<and> 1000 \<le> n"
    and "\<exists>n. resolveMsEnv (config' ''NEBULA_HEARTBEAT_TIMEOUT_MS'') heartbeat_timeout_ms = num n \<and> 10000 \<le> n"
proof -
  note v = validateEnv_Inr [OF assms]
  from tokenProblem_None [OF v(2)] tokenProblem_None [OF v(3)] v(1, 4)
  show "\<exists>c a. config' ''NEBULA_CLIENT_TOKEN'' = Some c \<and> config' ''NEBULA_AGENT_TOKEN'' = Some a \<and>
      c \<noteq> a \<and> length c \<ge> 24 \<and> length a \<ge> 24 \<and>
      \<not> starts_with placeholder_prefix c \<and> \<not> starts_with placeholder_prefix a"
    by (auto simp: min_token_length_def)
  note b = ms_env_bound [OF assms, unfolded optional_int_keys_def]
  show "\<exists>n. resolveMsEnv (config' ''NEBULA_OCCUPATION_TTL_MS'') occupation_ttl_ms = num n \<and> 60000 \<le> n"
    using b [of "''NEBULA_OCCUPATION_TTL_MS''" min_occupation_ttl_ms occupation_ttl_ms]
    by (auto simp: min_occupation_ttl_ms_def occupation_ttl_ms_def)
  show "\<exists>n. resolveMsEnv (config' ''NEBULA_SWEEP_INTERVAL_MS'') sweep_interval_ms = num n \<and> 1000 \<le> n"
    using b [of "''NEBULA_SWEEP_INTERVAL_MS''" min_sweep_interval_ms sweep_interval_ms]
    by (auto simp: min_sweep_interval_ms_def sweep_interval_ms_def)
  show "\<exists>n. resolveMsEnv (config' ''NEBULA_HEARTBEAT_TIMEOUT_MS'') heartbeat_timeout_ms = num n \<and> 10000 \<le> n"
    using b [of "''NEBULA_HEARTBEAT_TIMEOUT_MS''" min_heartbeat_timeout_ms heartbeat_timeout_ms]
    by (auto simp: min_heartbeat_timeout_ms_def heartbeat_timeout_ms_def)
qed

text \<open>
  An environment that passes validation has two different tokens of at least 24 characters,
  neither a placeholder, and every period the services resolve from it is an integer not below its
  minimum, whether it was set or defaulted; in particular an occupation lives at least as long as
  a minute and no sweep runs more often than once a second.
\<close>

theorem validated_env:
  assumes "validateEnv config = Inr config'"
  shows "(\<exists>c a. config' ''NEBULA_CLIENT_TOKEN'' = Some c \<and> config' ''NEBULA_AGENT_TOKEN'' = Some a \<and>
      c \<noteq> a \<and> length c \<ge> 24 \<and> length a \<ge> 24 \<and>
      \<not> starts_with placeholder_prefix c \<and> \<not> starts_with placeholder_prefix a) \<and>
    (\<exists>n. resolveMsEnv (config' ''NEBULA_OCCUPATION_TTL_MS'') occupation_ttl_ms = num n \<and> 60000 \<le> n) \<and>
    (\<exists>n. resolveMsEnv (config' ''NEBULA_SWEEP_INTERVAL_MS'') sweep_interval_ms = num n \<and> 1000 \<le> n) \<and>
    (\<exists>n. resolveMsEnv (config' ''NEBULA_HEARTBEAT_TIMEOUT_MS'') heartbeat_timeout_ms = num n \<and> 10000 \<le> n)"
  by (rule conjI, rule validated_env_parts(1) [OF assms],
    rule conjI, rule validated_env_parts(2) [OF assms],
    rule conjI, rule validated_env_parts(3) [OF assms],
    rule validated_env_parts(4) [OF assms])

definition sample_env :: env where
  "sample_env = map_of
    [(''NEBULA_CLIENT_TOKEN'', ''0123456789abcdef01234567''),
     (''NEBULA_AGENT_TOKEN'', ''fedcba9876543210fedcba98''),
     (''NEBULA_SWEEP_INTERVAL_MS'', '' 5e3 '')]"

lemma js_Number_5e3: "js_Number '' 5e3 '' = num 5000"
  by (simp add: literal_defs)

lemma sample_env_valid: "validateEnv sample_env = Inr sample_env"
  by (simp add: validateEnv_def required_token_keys_def optional_int_keys_def tokenProblem_def
      optionalIntProblem_def sample_env_def List.map_filter_def trim_def is_ws_def code_def starts_with_def
      placeholder_prefix_def min_token_length_def js_Number_5e3 min_sweep_interval_ms_def)

theorem validated_env_witness:
  "\<exists>n. resolveMsEnv (sample_env ''NEBULA_SWEEP_INTERVAL_MS'') sweep_interval_ms = num n \<and> 1000 \<le> n"
  by (rule validated_env [OF sample_env_valid, THEN conjunct2, THEN conjunct2, THEN conjunct1])

section \<open>What the guard lets through\<close>

lemma split_space_Bearer:
  assumes "hd (split_on c s) = p" and "length (split_on c s) > 1"
  shows "\<exists>r. s = p @ c # r \<and> split_on c s = p # split_on c r"
  using assms
proof (induction s arbitrary: p)
  case (Cons a s)
  show ?case
  proof (cases "a = c")
    case False
    obtain q qs where q: "split_on c s = q # qs" by (cases "split_on c s") simp_all
    with Cons.prems False have "length (split_on c s) > 1" "p = a # q" by simp_all
    with Cons.IH [of q] q False show ?thesis by auto
  qed (use Cons.prems in auto)
qed simp

lemma extractBearerToken_Some:
  assumes "extractBearerToken h = Some t"
  shows "t \<noteq> []" and "CHR '' '' \<notin> set t" and "\<exists>rest. h = Some (''Bearer '' @ t @ rest)"
proof -
  from assms obtain s where s: "h = Some s" "hd (split_on (CHR '' '') s) = ''Bearer''"
    "length (split_on (CHR '' '') s) > 1" "t = split_on (CHR '' '') s ! 1" "t \<noteq> []"
    by (auto simp: extractBearerToken_def Let_def truthy_def split: if_splits)
  from split_space_Bearer [OF s(2, 3)] obtain r where
    r: "s = ''Bearer'' @ CHR '' '' # r" "split_on (CHR '' '') s = ''Bearer'' # split_on (CHR '' '') r" by blast
  obtain q qs where q: "split_on (CHR '' '') r = q # qs" by (cases "split_on (CHR '' '') r") simp_all
  with s(4) r(2) have tq: "t = q" by simp
  show "t \<noteq> []" by (rule s(5))
  show "CHR '' '' \<notin> set t" using split_on_parts [of q "CHR '' ''" r] q tq by simp
  have "\<exists>rest. r = q @ rest"
    using join_split_on [of "CHR '' ''" r] unfolding q by (cases qs) auto
  then show "\<exists>rest. h = Some (''Bearer '' @ t @ rest)" using s(1) r(1) tq by auto
qed

lemma extractBearerToken_of:
  "t \<noteq> [] \<Longrightarrow> CHR '' '' \<notin> set t \<Longrightarrow> extractBearerToken (Some (''Bearer '' @ t)) = Some t"
  by (simp add: extractBearerToken_def truthy_def split_on_none)

section \<open>The failure window\<close>

definition live :: "limiter \<Rightarrow> string \<Rightarrow> ms \<Rightarrow> failure_window option" where
  "live L k now = (case jget L k of
      None \<Rightarrow> None
    | Some e \<Rightarrow> if now - fw_windowStartMs e \<ge> window_ms then None else Some e)"

lemma isBlocked_live:
  "isBlocked L ip now \<longleftrightarrow> (\<exists>e. live L (toKey ip) now = Some e \<and> fw_count e \<ge> max_failures_per_window)"
  by (auto simp: isBlocked_def live_def split: option.splits)

lemma jwf_cleanup: "jwf L \<Longrightarrow> jwf (cleanupIfNeeded t L)"
  by (auto simp: cleanupIfNeeded_def)

lemma jwf_recordFailure: "jwf L \<Longrightarrow> jwf (recordFailure ip t L)"
  by (auto simp: recordFailure_def Let_def jwf_cleanup split: option.splits)

lemma live_cleanup: "jwf L \<Longrightarrow> t \<le> now \<Longrightarrow> live (cleanupIfNeeded t L) k now = live L k now"
  by (auto simp: live_def cleanupIfNeeded_def jget_filter split: option.splits)

lemma live_recordFailure:
  assumes "jwf L" and "t \<le> now" and "now < t + window_ms" and "\<And>e. live L k now = Some e \<Longrightarrow> fw_windowStartMs e \<le> now"
  shows "live (recordFailure ip t L) k now =
    (if k \<noteq> toKey ip then live L k now
     else case live L k t of
       None \<Rightarrow> Some \<lparr>fw_count = 1, fw_windowStartMs = t\<rparr>
     | Some e \<Rightarrow> if now - fw_windowStartMs e \<ge> window_ms then None else Some (e\<lparr>fw_count := fw_count e + 1\<rparr>))"
proof -
  have same: "live (cleanupIfNeeded t L) k t = live L k t" "live (cleanupIfNeeded t L) k now = live L k now"
    using live_cleanup [OF assms(1)] assms(2) by simp_all
  show ?thesis
    using assms(3) same unfolding recordFailure_def Let_def
    by (auto simp: live_def split: option.splits if_splits)
qed

lemma jget_recordFailure:
  assumes "jwf L"
  shows "jget (recordFailure ip t L) k =
    (if k = toKey ip
     then Some (case live L k t of None \<Rightarrow> \<lparr>fw_count = 1, fw_windowStartMs = t\<rparr>
                | Some e \<Rightarrow> e\<lparr>fw_count := fw_count e + 1\<rparr>)
     else jget (cleanupIfNeeded t L) k)"
  using live_cleanup [OF assms order_refl, of t k]
  unfolding recordFailure_def Let_def by (auto simp: live_def split: option.splits if_splits)

lemma jget_cleanup_live:
  "jwf L \<Longrightarrow> jget L k = Some e \<Longrightarrow> t - fw_windowStartMs e < window_ms \<Longrightarrow> jget (cleanupIfNeeded t L) k = Some e"
  by (simp add: cleanupIfNeeded_def jget_filter)

definition record_all :: "(string option \<times> ms) list \<Rightarrow> limiter \<Rightarrow> limiter" where
  "record_all events L = fold (\<lambda>(ip, t). recordFailure ip t) events L"

definition failures_of :: "string \<Rightarrow> (string option \<times> ms) list \<Rightarrow> nat" where
  "failures_of k events = length (filter (\<lambda>(ip, _). toKey ip = k) events)"

definition counted :: "string \<Rightarrow> ms \<Rightarrow> ms \<Rightarrow> nat \<Rightarrow> limiter \<Rightarrow> bool" where
  "counted k t0 now c L \<longleftrightarrow> jwf L \<and>
    (if c = 0 then \<forall>t. t0 \<le> t \<and> t \<le> now \<longrightarrow> live L k t = None
     else \<exists>e. jget L k = Some e \<and> fw_count e = c \<and> t0 \<le> fw_windowStartMs e \<and> fw_windowStartMs e \<le> now)"

lemma counted_step:
  assumes "counted k t0 now c L" and "t0 \<le> t" "t \<le> now" "now < t0 + window_ms"
  shows "counted k t0 now (if toKey ip = k then Suc c else c) (recordFailure ip t L)"
proof (cases "c = 0")
  case True
  have jwf: "jwf L" and none: "\<And>t. t0 \<le> t \<Longrightarrow> t \<le> now \<Longrightarrow> live L k t = None"
    using assms(1) True by (auto simp: counted_def)
  show ?thesis
  proof (cases "toKey ip = k")
    case True
    with assms none [OF assms(2, 3)] \<open>c = 0\<close> jwf show ?thesis
      by (auto simp: counted_def jwf_recordFailure jget_recordFailure)
  next
    case False
    have "live (recordFailure ip t L) k t' = None" if "t0 \<le> t'" "t' \<le> now" for t'
      using none [OF that] jwf False
      by (auto simp: live_def jget_recordFailure cleanupIfNeeded_def jget_filter split: option.splits if_splits)
    with False \<open>c = 0\<close> jwf show ?thesis by (auto simp: counted_def jwf_recordFailure)
  qed
next
  case False
  then obtain e where e: "jwf L" "jget L k = Some e" "fw_count e = c" "t0 \<le> fw_windowStartMs e"
    "fw_windowStartMs e \<le> now" using assms(1) by (auto simp: counted_def)
  then have "t - fw_windowStartMs e < window_ms" using assms(3, 4) by linarith
  moreover from this have "live L k t = Some e" using e by (simp add: live_def)
  ultimately show ?thesis using e False
    by (auto simp: counted_def jwf_recordFailure jget_recordFailure jget_cleanup_live)
qed

lemma counted_run:
  assumes "list_all (\<lambda>(_, t). t0 \<le> t \<and> t \<le> now) events" and "now < t0 + window_ms"
  shows "counted k t0 now c L \<Longrightarrow> counted k t0 now (c + failures_of k events) (record_all events L)"
  using assms(1)
proof (induction events arbitrary: c L)
  case (Cons ev events)
  obtain ip t where ev: "ev = (ip, t)" by (cases ev)
  from counted_step [OF Cons.prems(1) _ _ assms(2), of t ip] Cons.prems(2) ev
  have "counted k t0 now (if toKey ip = k then Suc c else c) (recordFailure ip t L)" by simp
  from Cons.IH [OF this] Cons.prems(2) ev show ?case
    by (simp add: record_all_def failures_of_def split: if_splits)
qed (simp add: record_all_def failures_of_def)

lemma limiter_counts_failures_parts:
  assumes "jwf L" and "live L (toKey ip) t0 = None"
    and "list_all (\<lambda>(_, t). t0 \<le> t \<and> t \<le> now) events" and "t0 \<le> now" and "now < t0 + window_ms"
  shows "isBlocked (record_all events L) ip now \<longleftrightarrow> failures_of (toKey ip) events \<ge> 10"
    and "\<not> isBlocked (record_all events L) ip (now + window_ms)"
proof -
  have "counted (toKey ip) t0 now 0 L"
    using assms(1, 2) by (auto simp: counted_def live_def split: option.splits)
  from counted_run [OF assms(3, 5) this]
  have c: "counted (toKey ip) t0 now (failures_of (toKey ip) events) (record_all events L)" by simp
  show "isBlocked (record_all events L) ip now \<longleftrightarrow> failures_of (toKey ip) events \<ge> 10"
    using c assms(4, 5)
    by (auto simp: counted_def isBlocked_live max_failures_per_window_def live_def split: if_splits option.splits)
  show "\<not> isBlocked (record_all events L) ip (now + window_ms)"
    using c assms(4)
    by (fastforce simp: counted_def isBlocked_live live_def window_ms_def split: if_splits option.splits)
qed

text \<open>
  C30: Within one window an address is refused exactly when it has failed ten times, whatever other
  addresses did in between and however often the table was cleaned up, and it is admitted again one
  window later.
\<close>

theorem limiter_counts_failures:
  assumes "jwf L" and "live L (toKey ip) t0 = None"
    and "list_all (\<lambda>(_, t). t0 \<le> t \<and> t \<le> now) events" and "t0 \<le> now" and "now < t0 + window_ms"
  shows "(isBlocked (record_all events L) ip now \<longleftrightarrow> failures_of (toKey ip) events \<ge> 10) \<and>
    (\<not> isBlocked (record_all events L) ip (now + window_ms))"
  by (rule conjI, rule limiter_counts_failures_parts(1) [OF assms],
    rule limiter_counts_failures_parts(2) [OF assms])

theorem limiter_counts_failures_witness:
  "isBlocked (record_all (replicate 10 (Some ''10.0.0.1'', 5)) []) (Some ''10.0.0.1'') 7 \<and>
   \<not> isBlocked (record_all (replicate 9 (Some ''10.0.0.1'', 5)) []) (Some ''10.0.0.1'') 7"
  using limiter_counts_failures [of "[]" "Some ''10.0.0.1''" 0 7 "replicate 10 (Some ''10.0.0.1'', 5)", THEN conjunct1]
    limiter_counts_failures [of "[]" "Some ''10.0.0.1''" 0 7 "replicate 9 (Some ''10.0.0.1'', 5)", THEN conjunct1]
  by (simp add: live_def window_ms_def failures_of_def list_all_iff)



section \<open>The migration\<close>

text \<open>A row of the schema before the activity column: occupant and time go together.\<close>

definition legacy_row_inv :: "device_row \<Rightarrow> bool" where
  "legacy_row_inv r \<longleftrightarrow> row_inv (r\<lparr>r_last_activity_at := r_occupied_at r\<rparr>)"

lemma migration_parts:
  shows "open_database (Some (open_database file)) = open_database file"
    and "''last_activity_at'' \<in> set (db_columns (open_database file))"
    and "\<lbrakk>''last_activity_at'' \<notin> set (db_columns db); distinct (map r_id (db_rows db));
          \<forall>r\<in>set (db_rows db). legacy_row_inv r\<rbrakk> \<Longrightarrow>
        table_inv (db_rows (open_database (Some db))) \<and>
        map r_occupant_id (db_rows (open_database (Some db))) = map r_occupant_id (db_rows db)"
proof -
  show "open_database (Some (open_database file)) = open_database file"
    by (simp add: open_database_def ensureDeviceColumns_def initSchema_def Let_def)
  show "''last_activity_at'' \<in> set (db_columns (open_database file))"
    by (simp add: open_database_def ensureDeviceColumns_def Let_def)
  assume old: "''last_activity_at'' \<notin> set (db_columns db)" "distinct (map r_id (db_rows db))"
    "\<forall>r\<in>set (db_rows db). legacy_row_inv r"
  let ?up = "\<lambda>r. r\<lparr>r_last_activity_at := if r_occupant_id r = None then None else r_occupied_at r\<rparr>"
  have rows: "db_rows (open_database (Some db)) = map ?up (db_rows db)"
    using old(1) by (auto simp: open_database_def ensureDeviceColumns_def initSchema_def Let_def update_where_def)
  have ids: "map r_id (map ?up (db_rows db)) = map r_id (db_rows db)" by simp
  have "row_inv (?up r)" if "legacy_row_inv r" for r
    using that by (auto simp: legacy_row_inv_def row_inv_def)
  moreover have "distinct (map r_id (map ?up (db_rows db)))" unfolding ids by (rule old(2))
  moreover have "map r_occupant_id (map ?up (db_rows db)) = map r_occupant_id (db_rows db)" by simp
  ultimately show "table_inv (db_rows (open_database (Some db))) \<and>
        map r_occupant_id (db_rows (open_database (Some db))) = map r_occupant_id (db_rows db)"
    unfolding rows table_inv_def using old(3) by (simp del: map_map)
qed

text \<open>
  Opening a database twice is opening it once, and a table of the old schema comes out of the
  migration with the invariant of the current one, no occupation lost.
\<close>

theorem migration:
  shows "(open_database (Some (open_database file)) = open_database file) \<and>
    (''last_activity_at'' \<in> set (db_columns (open_database file))) \<and>
    ((''last_activity_at'' \<notin> set (db_columns db)) \<longrightarrow> (distinct (map r_id (db_rows db))) \<longrightarrow> (\<forall>r\<in>set (db_rows db). legacy_row_inv r) \<longrightarrow>
      (table_inv (db_rows (open_database (Some db))) \<and>
        map r_occupant_id (db_rows (open_database (Some db))) = map r_occupant_id (db_rows db)))"
  by (rule conjI, rule migration_parts(1),
    rule conjI, rule migration_parts(2),
    rule impI, rule impI, rule impI, rule migration_parts(3), assumption+)

definition legacy_database :: database where
  "legacy_database = \<lparr>db_columns = butlast device_columns, db_rows =
     [\<lparr>r_id = ''d1'', r_name = ''Pixel'', r_platform = Android, r_os_version = ''14'',
      r_tags = json_strs [], r_status = Offline, r_agent_id = None, r_occupant_id = Some ''occ'',
      r_occupied_at = Some 10, r_last_heartbeat_at = Some 5, r_last_activity_at = None\<rparr>]\<rparr>"

theorem migration_witness: "table_inv (db_rows (open_database (Some legacy_database)))"
  by (rule migration [THEN conjunct2, THEN conjunct2, rule_format, THEN conjunct1])
    (simp_all add: legacy_database_def device_columns_def legacy_row_inv_def row_inv_def)

end
