(* ===== verification/Streams.thy ===== *)
theory Streams
  imports Server_Config
begin

text \<open>
  \<open>packages/server/src/streams\<close>: the frame relay (streams-relay.service.ts) and the viewers'
  WebSocket gateway (streams.gateway.ts).

  A socket is a number standing for the object's identity. What the code reads from the socket
  objects (\<open>readyState === OPEN\<close>, \<open>bufferedAmount\<close>) is the environment \<open>wire\<close> of the step; what it
  does to them is the list of effects of the step, in order. The demand listeners are called at the
  end of an operation, after all its changes, so an operation returns the device ids it notifies.
\<close>

section \<open>Sockets\<close>

type_synonym socket = nat

record wire =
  is_open :: "socket \<Rightarrow> bool"
  buffered :: "socket \<Rightarrow> nat"

datatype effect =
    Close socket int string
  | SendBytes socket bytes
  | SendText socket json
  | Terminate socket
  | Resolve string command_outcome

text \<open>\<open>Resolve rid outcome\<close> resolves the promise of the command sent under that request id.\<close>

section \<open>The relay\<close>

definition viewer_backpressure_bytes :: nat where "viewer_backpressure_bytes = 2 * 1024 * 1024"
definition viewer_terminate_bytes :: nat where "viewer_terminate_bytes = 16 * 1024 * 1024"

text \<open>Device id to the sockets viewing it, each with the occupation it connected under.\<close>

type_synonym viewers = "(string, (socket, string) jsmap) jsmap"

definition viewedDeviceIds :: "viewers \<Rightarrow> string list" where
  "viewedDeviceIds viewers = jkeys viewers"

definition addViewer :: "string \<Rightarrow> string \<Rightarrow> socket \<Rightarrow> viewers \<Rightarrow> viewers \<times> string list" where
  "addViewer deviceId occupantId socket viewers = (case jget viewers deviceId of
      Some existing \<Rightarrow> (jset deviceId (jset socket occupantId existing) viewers, [])
    | None \<Rightarrow> (jset deviceId [(socket, occupantId)] viewers, [deviceId]))"

definition removeViewer :: "string \<Rightarrow> socket \<Rightarrow> viewers \<Rightarrow> viewers \<times> string list" where
  "removeViewer deviceId socket viewers = (case jget viewers deviceId of
      None \<Rightarrow> (viewers, [])
    | Some sockets \<Rightarrow>
        let sockets = jdel socket sockets in
        if length sockets > 0 then (jset deviceId sockets viewers, [])
        else (jdel deviceId viewers, [deviceId]))"

text \<open>The loop over the sockets of one device: the sockets left and the closing effects.\<close>

fun close_loop :: "wire \<Rightarrow> string \<Rightarrow> int \<Rightarrow> string \<Rightarrow> (socket \<times> string) list \<Rightarrow> (socket, string) jsmap \<Rightarrow>
    (socket, string) jsmap \<times> effect list" where
  "close_loop w occupantId closeCode reason [] sockets = (sockets, [])"
| "close_loop w occupantId closeCode reason ((socket, viewerOccupantId) # rest) sockets =
    (if viewerOccupantId \<noteq> occupantId then close_loop w occupantId closeCode reason rest sockets
     else let sockets = jdel socket sockets;
              (left, effs) = close_loop w occupantId closeCode reason rest sockets
          in if \<not> is_open w socket then (left, effs) else (left, Close socket closeCode reason # effs))"

definition closeViewers :: "wire \<Rightarrow> string \<Rightarrow> string \<Rightarrow> int \<Rightarrow> string \<Rightarrow> viewers \<Rightarrow>
    viewers \<times> effect list \<times> string list" where
  "closeViewers w deviceId occupantId closeCode reason viewers = (case jget viewers deviceId of
      None \<Rightarrow> (viewers, [], [])
    | Some sockets \<Rightarrow>
        let (left, effs) = close_loop w occupantId closeCode reason sockets sockets in
        if length left > 0 then (jset deviceId left viewers, effs, [])
        else (jdel deviceId viewers, effs, [deviceId]))"

definition viewer_of_agent_frame :: "agent_frame \<Rightarrow> viewer_frame" where
  "viewer_of_agent_frame f =
    \<lparr>vf_format = af_format f, vf_isKey = af_isKey f, vf_width = af_width f, vf_height = af_height f,
     vf_stampMs = af_stampMs f, vf_payload = af_payload f\<rparr>"

definition deliver :: "wire \<Rightarrow> bool \<Rightarrow> bytes \<Rightarrow> socket \<Rightarrow> effect list" where
  "deliver w isKey payload socket =
    (if \<not> is_open w socket then []
     else if buffered w socket > viewer_terminate_bytes then [Terminate socket]
     else if \<not> isKey \<and> buffered w socket > viewer_backpressure_bytes then []
     else [SendBytes socket payload])"

definition broadcast :: "wire \<Rightarrow> agent_frame \<Rightarrow> viewers \<Rightarrow> frame_error + effect list" where
  "broadcast w frame viewers = (case jget viewers (af_deviceId frame) of
      None \<Rightarrow> Inr []
    | Some sockets \<Rightarrow> (case encodeViewerFrame (viewer_of_agent_frame frame) of
          Inl e \<Rightarrow> Inl e
        | Inr payload \<Rightarrow> Inr (concat (map (deliver w (af_isKey frame) payload) (jkeys sockets)))))"

section \<open>The gateway of the viewers\<close>

text \<open>
  The request of a handshake as the handler reads it: the peer's address and the query parameters
  of the parsed URL (\<open>searchParams.get\<close>: the first value or \<open>null\<close>).
\<close>

record handshake =
  hs_remoteIp :: "string option"
  hs_query :: "(string \<times> string) list"
  hs_authorization :: "string option"

definition query_param :: "handshake \<Rightarrow> string \<Rightarrow> string option" where
  "query_param request key = map_of (hs_query request) key"

record streams_state =
  st_viewers :: viewers
  st_limiter :: limiter
  st_attached :: "(socket, string) jsmap"

definition getById :: "device_table \<Rightarrow> string \<Rightarrow> device option" where
  "getById db i = findById db i"

definition isOccupant :: "device_table \<Rightarrow> string \<Rightarrow> string \<Rightarrow> bool" where
  "isOccupant db deviceId occupantId = (case getById db deviceId of
      None \<Rightarrow> False
    | Some d \<Rightarrow> d_occupantId d = Some occupantId)"

definition viewer_connect :: "env \<Rightarrow> device_table \<Rightarrow> ms \<Rightarrow> socket \<Rightarrow> handshake \<Rightarrow> streams_state \<Rightarrow>
    streams_state \<times> effect list \<times> string list" where
  "viewer_connect config db now client request st =
    (let ip = hs_remoteIp request;
         token = query_param request ''token'';
         deviceId = query_param request ''deviceId'';
         occupantId = query_param request ''occupantId'';
         expected = config ''NEBULA_CLIENT_TOKEN''
     in
     if isBlocked (st_limiter st) ip now then (st, [Close client 4429 ''rate limited''], [])
     else if \<not> truthy token \<or> \<not> truthy expected \<or> \<not> isTokenEqual (the expected) (the token)
     then (st\<lparr>st_limiter := recordFailure ip now (st_limiter st)\<rparr>, [Close client 4401 ''unauthorized''], [])
     else if \<not> truthy deviceId \<or> \<not> truthy occupantId
     then (st, [Close client 4400 ''deviceId and occupantId required''], [])
     else if \<not> isOccupant db (the deviceId) (the occupantId)
     then (st\<lparr>st_limiter := recordFailure ip now (st_limiter st)\<rparr>, [Close client 4403 ''not occupant''], [])
     else let (viewers, notified) = addViewer (the deviceId) (the occupantId) client (st_viewers st)
          in (st\<lparr>st_viewers := viewers, st_attached := jset client (the deviceId) (st_attached st)\<rparr>,
              [], notified))"

definition viewer_disconnect :: "socket \<Rightarrow> streams_state \<Rightarrow> streams_state \<times> string list" where
  "viewer_disconnect client st = (case jget (st_attached st) client of
      None \<Rightarrow> (st, [])
    | Some deviceId \<Rightarrow>
        if deviceId = [] then (st, [])
        else let (viewers, notified) = removeViewer deviceId client (st_viewers st)
             in (st\<lparr>st_viewers := viewers\<rparr>, notified))"

section \<open>The viewers as a map, and their invariant\<close>

definition viewing :: "viewers \<Rightarrow> string \<Rightarrow> socket \<Rightarrow> string option" where
  "viewing viewers i s = Option.bind (jget viewers i) (\<lambda>m. jget m s)"

definition viewers_inv :: "viewers \<Rightarrow> bool" where
  "viewers_inv viewers \<longleftrightarrow> jwf viewers \<and> (\<forall>(i, m)\<in>set viewers. m \<noteq> [] \<and> jwf m)"

lemma viewers_inv_Nil [simp]: "viewers_inv []"
  by (simp add: viewers_inv_def)

lemma viewers_inv_get: "viewers_inv v \<Longrightarrow> jget v i = Some m \<Longrightarrow> m \<noteq> [] \<and> jwf m"
  by (auto simp: viewers_inv_def dest: jget_Some_in)

lemma set_jset_subset: "set (jset k x m) \<subseteq> insert (k, x) (set m)"
  by (induction m) (auto split: if_splits)

lemma set_jdel_subset: "set (jdel k m) \<subseteq> set m"
  by (auto simp: jdel_filter)

lemma viewers_inv_jset: "viewers_inv v \<Longrightarrow> m \<noteq> [] \<Longrightarrow> jwf m \<Longrightarrow> viewers_inv (jset i m v)"
  using set_jset_subset [of i m v] by (fastforce simp: viewers_inv_def)

lemma viewers_inv_jdel: "viewers_inv v \<Longrightarrow> viewers_inv (jdel i v)"
  using set_jdel_subset [of i v] by (fastforce simp: viewers_inv_def)

lemma jset_not_Nil [simp]: "jset k x m \<noteq> []"
  by (cases m) (auto split: if_splits)

lemma jwf_single [simp]: "jwf [(a, b)]"
  by (simp add: jwf_def)

lemma viewers_inv_addViewer: "viewers_inv v \<Longrightarrow> viewers_inv (fst (addViewer i occ s v))"
  by (auto simp: addViewer_def intro!: viewers_inv_jset dest: viewers_inv_get split: option.splits)

lemma viewers_inv_removeViewer: "viewers_inv v \<Longrightarrow> viewers_inv (fst (removeViewer i s v))"
  by (auto simp: removeViewer_def Let_def intro!: viewers_inv_jset viewers_inv_jdel dest: viewers_inv_get
      split: option.splits)

lemma close_loop_eq:
  "close_loop w occ ccode reason todo sockets =
    (filter (\<lambda>p. (fst p, occ) \<notin> set todo) sockets,
     map (\<lambda>p. Close (fst p) ccode reason) (filter (\<lambda>p. snd p = occ \<and> is_open w (fst p)) todo))"
proof (induction todo arbitrary: sockets)
  case (Cons p todo)
  obtain s g where p: "p = (s, g)" by (cases p)
  show ?case
    by (auto simp: p Cons.IH jdel_filter conj_commute intro!: filter_cong)
qed simp

lemma close_loop_self:
  assumes "jwf sockets"
  shows "fst (close_loop w occ ccode reason sockets sockets) = filter (\<lambda>p. snd p \<noteq> occ) sockets"
  unfolding close_loop_eq fst_conv
proof (intro filter_cong)
  fix p
  assume p: "p \<in> set sockets"
  have "(fst p, occ) \<in> set sockets \<longleftrightarrow> snd p = occ"
    using jget_in_wf [OF assms, of "fst p"] p by (metis option.inject prod.collapse)
  then show "((fst p, occ) \<notin> set sockets) = (snd p \<noteq> occ)" by simp
qed simp

lemma jget_Nil_iff: "m = [] \<longleftrightarrow> (\<forall>k. jget m k = None)"
proof (cases m)
  case (Cons p m')
  then show ?thesis by (cases p) auto
qed simp

lemma viewers_inv_closeViewers: "viewers_inv v \<Longrightarrow> viewers_inv (fst (closeViewers w i occ ccode reason v))"
proof (cases "jget v i")
  case None
  then show "viewers_inv v \<Longrightarrow> ?thesis" by (simp add: closeViewers_def)
next
  case (Some m)
  assume inv: "viewers_inv v"
  with Some have m: "jwf m" by (blast dest: viewers_inv_get)
  obtain left effs where c: "close_loop w occ ccode reason m m = (left, effs)"
    by (cases "close_loop w occ ccode reason m m") auto
  have "left = filter (\<lambda>p. snd p \<noteq> occ) m"
    using close_loop_self [OF m, of w occ ccode reason] c by simp
  with m have "jwf left" by (simp add: jwf_filter)
  with inv c Some show ?thesis
    by (auto simp: closeViewers_def intro!: viewers_inv_jset viewers_inv_jdel)
qed

lemma viewing_addViewer:
  "viewing (fst (addViewer i occ s v)) j t = (if j = i \<and> t = s then Some occ else viewing v j t)"
  by (auto simp: viewing_def addViewer_def split: option.splits)

lemma viewing_removeViewer:
  "viewing (fst (removeViewer i s v)) j t = (if j = i \<and> t = s then None else viewing v j t)"
proof (cases "jget v i")
  case (Some m)
  have "jdel s m = [] \<Longrightarrow> t \<noteq> s \<Longrightarrow> jget m t = None" for t
    unfolding jget_Nil_iff by (metis jm.get_del)
  with Some show ?thesis
    by (auto simp: viewing_def removeViewer_def Let_def)
qed (auto simp: viewing_def removeViewer_def)

lemma closeViewers_parts:
  assumes "viewers_inv v" and "jget v i = Some m"
  shows "closeViewers w i occ ccode reason v =
    (let left = filter (\<lambda>p. snd p \<noteq> occ) m;
         effs = map (\<lambda>p. Close (fst p) ccode reason) (filter (\<lambda>p. snd p = occ \<and> is_open w (fst p)) m)
     in if left \<noteq> [] then (jset i left v, effs, []) else (jdel i v, effs, [i]))"
proof -
  have m: "jwf m" using assms by (blast dest: viewers_inv_get)
  have "close_loop w occ ccode reason m m =
    (filter (\<lambda>p. snd p \<noteq> occ) m,
     map (\<lambda>p. Close (fst p) ccode reason) (filter (\<lambda>p. snd p = occ \<and> is_open w (fst p)) m))"
    using close_loop_self [OF m, of w occ ccode reason] by (simp add: close_loop_eq)
  with assms(2) show ?thesis by (simp add: closeViewers_def)
qed

lemma viewing_closeViewers:
  assumes "viewers_inv v"
  shows "viewing (fst (closeViewers w i occ ccode reason v)) j t =
    (if j = i \<and> viewing v i t = Some occ then None else viewing v j t)"
proof (cases "jget v i")
  case None
  then show ?thesis by (simp add: closeViewers_def viewing_def)
next
  case (Some m)
  then have m: "jwf m" using assms by (blast dest: viewers_inv_get)
  let ?left = "filter (\<lambda>p. snd p \<noteq> occ) m"
  have left: "jget ?left t = (if jget m t = Some occ then None else jget m t)" for t
    by (simp add: jget_filter [OF m] split: option.split)
  show ?thesis
  proof (cases "?left = []")
    case True
    then have "jget m t \<noteq> Some occ \<Longrightarrow> jget m t = None" for t
      using left [of t] by (auto split: if_splits)
    then show ?thesis
      using True by (auto simp: closeViewers_parts [OF assms Some] viewing_def Some Let_def) metis
  next
    case False
    then show ?thesis
      by (auto simp: closeViewers_parts [OF assms Some] viewing_def Some Let_def left simp del: filter_empty_conv)
  qed
qed

lemma viewed_iff: "viewers_inv v \<Longrightarrow> i \<in> set (viewedDeviceIds v) \<longleftrightarrow> (\<exists>s. viewing v i s \<noteq> None)"
proof -
  assume inv: "viewers_inv v"
  show ?thesis
  proof (cases "jget v i")
    case None
    then show ?thesis by (simp add: viewedDeviceIds_def jkeys_iff viewing_def)
  next
    case (Some m)
    with inv have "m \<noteq> []" by (blast dest: viewers_inv_get)
    with Some show ?thesis by (simp add: viewedDeviceIds_def jkeys_iff viewing_def jget_Nil_iff)
  qed
qed

text \<open>Demand is notified exactly when a device starts or stops being viewed.\<close>

lemma notified_addViewer:
  "j \<in> set (snd (addViewer i occ s v)) \<longleftrightarrow>
    (j \<in> set (viewedDeviceIds v)) \<noteq> (j \<in> set (viewedDeviceIds (fst (addViewer i occ s v))))"
  by (auto simp: addViewer_def viewedDeviceIds_def jkeys_iff split: option.splits)

lemma notified_removeViewer:
  "j \<in> set (snd (removeViewer i s v)) \<longleftrightarrow>
    (j \<in> set (viewedDeviceIds v)) \<noteq> (j \<in> set (viewedDeviceIds (fst (removeViewer i s v))))"
  by (auto simp: removeViewer_def viewedDeviceIds_def jkeys_iff Let_def split: option.splits if_splits)

lemma notified_closeViewers:
  "j \<in> set (snd (snd (closeViewers w i occ ccode reason v))) \<longleftrightarrow>
    (j \<in> set (viewedDeviceIds v)) \<noteq> (j \<in> set (viewedDeviceIds (fst (closeViewers w i occ ccode reason v))))"
  by (auto simp: closeViewers_def viewedDeviceIds_def jkeys_iff split: option.splits if_splits prod.splits)

section \<open>Properties of the relay\<close>

lemma viewer_encode_of_agent:
  assumes "decodeAgentFrame data = Some f"
  shows "\<exists>payload. encodeViewerFrame (viewer_of_agent_frame f) = Inr payload \<and>
    decodeViewerFrame payload = Some (viewer_of_agent_frame f)"
proof -
  note d = decodeAgentFrame_Some [OF assms]
  obtain payload where p: "encodeViewerFrame (viewer_of_agent_frame f) = Inr payload"
    using d by (simp add: encodeViewerFrame_def viewer_of_agent_frame_def)
  from viewer_frame_codec [OF p] d decodeAgentFrame_stamp [OF assms]
  have "decodeViewerFrame payload = Some (viewer_of_agent_frame f)"
    by (simp add: viewer_of_agent_frame_def)
  with p show ?thesis by blast
qed

lemma deliver_in:
  "SendBytes s b \<in> set (deliver w k payload t) \<longleftrightarrow> s = t \<and> b = payload \<and> is_open w t \<and>
    buffered w t \<le> viewer_terminate_bytes \<and> (k \<or> buffered w t \<le> viewer_backpressure_bytes)"
  "Terminate s \<in> set (deliver w k payload t) \<longleftrightarrow> s = t \<and> is_open w t \<and> buffered w t > viewer_terminate_bytes"
  by (auto simp: deliver_def split: if_splits)

text \<open>
  C23: A frame the server accepts from an Agent is relayed without an error, and what a viewer receives
  decodes to the Agent's frame. It goes to exactly the open sockets viewing that device whose queue is
  at most 16 MiB, and for a frame that is no key frame at most 2 MiB; a socket beyond 16 MiB is cut off.
\<close>

theorem relay_end_to_end:
  assumes "decodeAgentFrame data = Some f"
  shows "\<exists>effs payload. broadcast w f v = Inr effs \<and>
    decodeViewerFrame payload = Some (viewer_of_agent_frame f) \<and>
    (\<forall>s b. SendBytes s b \<in> set effs \<longleftrightarrow> b = payload \<and> viewing v (af_deviceId f) s \<noteq> None \<and> is_open w s \<and>
       buffered w s \<le> 16777216 \<and> (af_isKey f \<or> buffered w s \<le> 2097152)) \<and>
    (\<forall>s. Terminate s \<in> set effs \<longleftrightarrow> viewing v (af_deviceId f) s \<noteq> None \<and> is_open w s \<and> buffered w s > 16777216)"
proof -
  from viewer_encode_of_agent [OF assms] obtain payload where
    p: "encodeViewerFrame (viewer_of_agent_frame f) = Inr payload"
    "decodeViewerFrame payload = Some (viewer_of_agent_frame f)" by blast
  show ?thesis
  proof (cases "jget v (af_deviceId f)")
    case None
    with p(2) show ?thesis by (auto simp: broadcast_def viewing_def)
  next
    case (Some m)
    have keys: "s \<in> set (jkeys m) \<longleftrightarrow> viewing v (af_deviceId f) s \<noteq> None" for s
      using Some by (simp add: viewing_def jkeys_iff)
    have b: "broadcast w f v = Inr (concat (map (deliver w (af_isKey f) payload) (jkeys m)))"
      using Some p(1) by (simp add: broadcast_def)
    show ?thesis
      using p(2) keys
      by (intro exI [of _ "concat (map (deliver w (af_isKey f) payload) (jkeys m))"] exI [of _ payload])
        (auto simp: b deliver_in viewer_terminate_bytes_def viewer_backpressure_bytes_def)
  qed
qed

definition sample_wire :: wire where
  "sample_wire = \<lparr>is_open = (\<lambda>s. s < 3), buffered = (\<lambda>s. if s = 1 then 3000000 else 0)\<rparr>"

definition sample_viewers :: viewers where
  "sample_viewers = [(''A1'', [(1, ''occ''), (2, ''occ'')])]"

definition sample_data :: bytes where
  "sample_data = [2, 65, 49, 2, 0, 5, 10, 10, 236, 0, 0, 0, 1, 9]"

definition sample_delta :: agent_frame where
  "sample_delta = \<lparr>af_deviceId = ''A1'', af_format = 2, af_isKey = False, af_width = num 1290,
    af_height = num 2796, af_stampMs = num 1, af_payload = [9]\<rparr>"

lemma sample_data_decodes: "decodeAgentFrame sample_data = Some sample_delta"
  by (simp add: sample_data_def sample_delta_def decodeAgentFrame_def text_decode_def is_device_id_def
      matches_class_def device_id_char_def is_alnum_def code_def isFrameFormat_def frame_format_h264_def
      rd16_def rd32_def num_def max_dimension_def char_of_eq_iff)

theorem relay_end_to_end_witness:
  "\<exists>effs payload. broadcast sample_wire sample_delta sample_viewers = Inr effs \<and>
    SendBytes 2 payload \<in> set effs \<and> SendBytes 1 payload \<notin> set effs"
proof -
  from relay_end_to_end [OF sample_data_decodes, of sample_wire sample_viewers]
  obtain effs payload where e: "broadcast sample_wire sample_delta sample_viewers = Inr effs"
    "\<forall>s b. SendBytes s b \<in> set effs \<longleftrightarrow> b = payload \<and> viewing sample_viewers (af_deviceId sample_delta) s \<noteq> None \<and>
       is_open sample_wire s \<and> buffered sample_wire s \<le> 16777216 \<and>
       (af_isKey sample_delta \<or> buffered sample_wire s \<le> 2097152)" by blast
  then have "SendBytes 2 payload \<in> set effs \<and> SendBytes 1 payload \<notin> set effs"
    by (simp add: sample_wire_def sample_viewers_def sample_delta_def viewing_def)
  with e(1) show ?thesis by blast
qed

lemma closing_an_occupation_parts:
  fixes w :: wire and i occ reason :: string and ccode :: int
  assumes "viewers_inv v"
  defines "r \<equiv> closeViewers w i occ ccode reason v"
  shows "viewers_inv (fst r)"
    and "viewing (fst r) j s = (if j = i \<and> viewing v i s = Some occ then None else viewing v j s)"
    and "e \<in> set (fst (snd r)) \<longleftrightarrow> (\<exists>s. e = Close s ccode reason \<and> viewing v i s = Some occ \<and> is_open w s)"
    and "snd (snd r) = (if (\<exists>s. viewing v i s \<noteq> None) \<and> (\<forall>s. viewing (fst r) i s = None) then [i] else [])"
proof -
  show inv: "viewers_inv (fst r)" unfolding r_def by (rule viewers_inv_closeViewers [OF assms(1)])
  show "viewing (fst r) j s = (if j = i \<and> viewing v i s = Some occ then None else viewing v j s)"
    unfolding r_def by (rule viewing_closeViewers [OF assms(1)])
  show "e \<in> set (fst (snd r)) \<longleftrightarrow> (\<exists>s. e = Close s ccode reason \<and> viewing v i s = Some occ \<and> is_open w s)"
  proof (cases "jget v i")
    case None
    then show ?thesis by (simp add: r_def closeViewers_def viewing_def)
  next
    case (Some m)
    then have m: "jwf m" using assms(1) by (blast dest: viewers_inv_get)
    have mem: "(s, occ) \<in> set m \<longleftrightarrow> viewing v i s = Some occ" for s
      using Some jget_in_wf [OF m] jget_Some_in [of m s occ] by (auto simp: viewing_def)
    have "fst (snd r) = map (\<lambda>p. Close (fst p) ccode reason) (filter (\<lambda>p. snd p = occ \<and> is_open w (fst p)) m)"
      by (simp add: r_def closeViewers_parts [OF assms(1) Some] Let_def)
    then show ?thesis by (auto simp: mem [symmetric] image_iff)
  qed
  have "i \<in> set (snd (snd r)) \<longleftrightarrow> (i \<in> set (viewedDeviceIds v)) \<noteq> (i \<in> set (viewedDeviceIds (fst r)))"
    unfolding r_def by (rule notified_closeViewers)
  moreover have "snd (snd r) = [] \<or> snd (snd r) = [i]"
    by (auto simp: r_def closeViewers_def split: option.splits prod.splits)
  moreover have "(\<exists>s. viewing (fst r) i s \<noteq> None) \<longrightarrow> (\<exists>s. viewing v i s \<noteq> None)"
    by (auto simp: r_def viewing_closeViewers [OF assms(1)] split: if_splits)
  ultimately show "snd (snd r) = (if (\<exists>s. viewing v i s \<noteq> None) \<and> (\<forall>s. viewing (fst r) i s = None) then [i] else [])"
    unfolding viewed_iff [OF assms(1)] viewed_iff [OF inv] by auto
qed

text \<open>
  When an occupation ends, closing its viewers removes exactly the sockets that connected under it,
  sends the close code to those of them that are open and to nobody else, and reports the device to the
  demand listeners exactly when no viewer is left.
\<close>

theorem closing_an_occupation:
  fixes w :: wire and i occ reason :: string and ccode :: int
  assumes "viewers_inv v"
  defines "r \<equiv> closeViewers w i occ ccode reason v"
  shows "(viewers_inv (fst r)) \<and>
    (viewing (fst r) j s = (if j = i \<and> viewing v i s = Some occ then None else viewing v j s)) \<and>
    (e \<in> set (fst (snd r)) \<longleftrightarrow> (\<exists>s. e = Close s ccode reason \<and> viewing v i s = Some occ \<and> is_open w s)) \<and>
    (snd (snd r) = (if (\<exists>s. viewing v i s \<noteq> None) \<and> (\<forall>s. viewing (fst r) i s = None) then [i] else []))"
  unfolding r_def
  by (rule conjI, rule closing_an_occupation_parts(1) [OF assms(1)],
    rule conjI, rule closing_an_occupation_parts(2) [OF assms(1)],
    rule conjI, rule closing_an_occupation_parts(3) [OF assms(1)],
    rule closing_an_occupation_parts(4) [OF assms(1)])

theorem closing_an_occupation_witness:
  "viewing (fst (closeViewers sample_wire ''A1'' ''occ'' 4408 ''occupation released'' sample_viewers)) ''A1'' 2 = None"
  using closing_an_occupation [of sample_viewers sample_wire "''A1''" "''occ''" 4408 "''occupation released''" "''A1''" 2, THEN conjunct2, THEN conjunct1]
  by (simp add: sample_viewers_def viewers_inv_def jwf_def viewing_def)

definition may_view :: "env \<Rightarrow> device_table \<Rightarrow> ms \<Rightarrow> handshake \<Rightarrow> streams_state \<Rightarrow> bool" where
  "may_view config db now request st \<longleftrightarrow>
    \<not> isBlocked (st_limiter st) (hs_remoteIp request) now \<and>
    (\<exists>t. query_param request ''token'' = Some t \<and> t \<noteq> [] \<and> config ''NEBULA_CLIENT_TOKEN'' = Some t) \<and>
    (\<exists>i occ. query_param request ''deviceId'' = Some i \<and> i \<noteq> [] \<and>
       query_param request ''occupantId'' = Some occ \<and> occ \<noteq> [] \<and> holder_of db i = Some occ)"

lemma truthy_iff: "truthy v \<longleftrightarrow> (\<exists>t. v = Some t \<and> t \<noteq> [])"
  by (cases v) (auto simp: truthy_def)

lemma isOccupant_iff: "isOccupant db i occ \<longleftrightarrow> holder_of db i = Some occ"
  by (auto simp: isOccupant_def getById_def holder_of_def split: option.splits)

text \<open>
  A handshake becomes a viewer of the device it names exactly when its address is not blocked, it
  carries the client token, and the occupant it names holds the device at this moment; it is then
  registered under that occupation. Every other handshake is closed with one close code and leaves the
  viewers as they were.
\<close>

theorem viewer_admission:
  "case viewer_connect config db now s request st of (st', effs, notified) \<Rightarrow>
    if may_view config db now request st
    then effs = [] \<and> (\<forall>j t. viewing (st_viewers st') j t =
      (if Some j = query_param request ''deviceId'' \<and> t = s then query_param request ''occupantId''
       else viewing (st_viewers st) j t))
    else st_viewers st' = st_viewers st \<and> st_attached st' = st_attached st \<and> notified = [] \<and>
      (\<exists>ccode reason. effs = [Close s ccode reason] \<and> ccode \<in> {4429, 4401, 4400, 4403})"
proof (cases "may_view config db now request st")
  case True
  then obtain t i occ where q: "\<not> isBlocked (st_limiter st) (hs_remoteIp request) now"
    "query_param request ''token'' = Some t" "t \<noteq> []" "config ''NEBULA_CLIENT_TOKEN'' = Some t"
    "query_param request ''deviceId'' = Some i" "i \<noteq> []" "query_param request ''occupantId'' = Some occ"
    "occ \<noteq> []" "holder_of db i = Some occ" by (auto simp: may_view_def)
  with True viewing_addViewer [of i occ s "st_viewers st"] show ?thesis
    by (cases "addViewer i occ s (st_viewers st)")
      (simp add: viewer_connect_def Let_def truthy_def isTokenEqual_iff isOccupant_iff)
next
  case False
  let ?token = "query_param request ''token''" and ?exp = "config ''NEBULA_CLIENT_TOKEN''"
  let ?i = "query_param request ''deviceId''" and ?occ = "query_param request ''occupantId''"
  let ?unauth = "\<not> truthy ?token \<or> \<not> truthy ?exp \<or> \<not> isTokenEqual (the ?exp) (the ?token)"
  let ?missing = "\<not> truthy ?i \<or> \<not> truthy ?occ"
  have "isBlocked (st_limiter st) (hs_remoteIp request) now \<or> ?unauth \<or> ?missing \<or>
      \<not> isOccupant db (the ?i) (the ?occ)"
    using False by (auto simp: may_view_def truthy_iff isTokenEqual_iff isOccupant_iff)
  then have "st_viewers (fst (viewer_connect config db now s request st)) = st_viewers st \<and>
      st_attached (fst (viewer_connect config db now s request st)) = st_attached st \<and>
      snd (snd (viewer_connect config db now s request st)) = [] \<and>
      (\<exists>ccode reason. fst (snd (viewer_connect config db now s request st)) = [Close s ccode reason] \<and>
        ccode \<in> {4429, 4401, 4400, 4403})"
    unfolding viewer_connect_def Let_def
    by (cases "isBlocked (st_limiter st) (hs_remoteIp request) now"; cases ?unauth; cases ?missing) simp_all
  with False show ?thesis by (simp add: split_def)
qed

end
