(* ===== verification/Agents_Gateway.thy ===== *)
theory Agents_Gateway
  imports Streams
begin

text \<open>
  \<open>packages/server/src/agents/agents.gateway.ts\<close>: the server end of the Agents' tunnels.

  A handler reads the registry \<open>db\<close> and the viewers of the relay and returns what it changed and the
  effects in order. A command's promise is named by its request id; its timer is armed while the id is
  in \<open>gw_timers\<close>. A random UUID is an argument of the handler that draws it. \<open>None\<close> for the parsed
  text of a message: \<open>JSON.parse\<close> threw.
\<close>

section \<open>State\<close>

record pending_command =
  pc_agentId :: string
  pc_deviceId :: string
  pc_occupantId :: string

record gateway =
  gw_sockets :: "(string, socket) jsmap"
  gw_pending :: "(string, pending_command) jsmap"
  gw_capabilities :: "(string, string list) jsmap"
  gw_limiter :: limiter
  gw_attached :: "(socket, string) jsmap"
  gw_timers :: "string list"

definition gateway_init :: gateway where
  "gateway_init = \<lparr>gw_sockets = [], gw_pending = [], gw_capabilities = [], gw_limiter = [],
     gw_attached = [], gw_timers = []\<rparr>"

definition agent_id_char :: "char \<Rightarrow> bool" where
  "agent_id_char c \<longleftrightarrow> is_alnum c \<or> c = CHR ''_'' \<or> c = CHR ''-''"

definition is_agent_id :: "string \<Rightarrow> bool" where
  "is_agent_id s \<longleftrightarrow> matches_class agent_id_char 64 s"

definition legacy_action_kinds :: "string list" where
  "legacy_action_kinds = filter (\<lambda>kind. kind \<noteq> ''pressButton'') device_action_kinds"

section \<open>Stream demand\<close>

definition agentIdOfDevice :: "device_table \<Rightarrow> string \<Rightarrow> string option" where
  "agentIdOfDevice db deviceId = (case getById db deviceId of None \<Rightarrow> None | Some d \<Rightarrow> d_agentId d)"

definition demanded_ids :: "device_table \<Rightarrow> viewers \<Rightarrow> string \<Rightarrow> string list" where
  "demanded_ids db viewers agentId =
    map d_id (filter (\<lambda>d. d_agentId d = Some agentId \<and> d_id d \<in> set (viewedDeviceIds viewers)) (findAll db))"

definition sendStreamDemandFor ::
    "wire \<Rightarrow> device_table \<Rightarrow> viewers \<Rightarrow> string option \<Rightarrow> gateway \<Rightarrow> effect list" where
  "sendStreamDemandFor w db viewers agentId gw =
    (if \<not> truthy agentId then []
     else case jget (gw_sockets gw) (the agentId) of
       None \<Rightarrow> []
     | Some socket \<Rightarrow>
         if \<not> is_open w socket then []
         else [SendText socket (buildStreamDemandMessage (demanded_ids db viewers (the agentId)))])"

text \<open>The listener \<open>onApplicationBootstrap\<close> registers with the relay, on the ids the relay notified.\<close>

definition demand_listener ::
    "wire \<Rightarrow> device_table \<Rightarrow> viewers \<Rightarrow> gateway \<Rightarrow> string list \<Rightarrow> effect list" where
  "demand_listener w db viewers gw notified =
    concat (map (\<lambda>deviceId. sendStreamDemandFor w db viewers (agentIdOfDevice db deviceId) gw) notified)"

section \<open>Connections\<close>

definition isAuthorized :: "env \<Rightarrow> handshake \<Rightarrow> bool" where
  "isAuthorized config request =
    (let expected = config ''NEBULA_AGENT_TOKEN'' in
     if \<not> truthy expected then False
     else let headerToken = extractBearerToken (hs_authorization request);
              queryToken = query_param request ''token'';
              token = (case headerToken of Some t \<Rightarrow> Some t | None \<Rightarrow> queryToken)
          in token \<noteq> None \<and> isTokenEqual (the expected) (the token))"

definition resolveAgentId :: "string \<Rightarrow> handshake \<Rightarrow> string option" where
  "resolveAgentId uuid request = (case query_param request ''agentId'' of
      None \<Rightarrow> Some (''agent-'' @ uuid)
    | Some a \<Rightarrow> if is_agent_id a then Some a else None)"

definition agent_connect ::
    "env \<Rightarrow> ms \<Rightarrow> string \<Rightarrow> socket \<Rightarrow> handshake \<Rightarrow> gateway \<Rightarrow> gateway \<times> effect list" where
  "agent_connect config now uuid client request gw =
    (let ip = hs_remoteIp request in
     if isBlocked (gw_limiter gw) ip now then (gw, [Close client 4429 ''rate limited''])
     else if \<not> isAuthorized config request
     then (gw\<lparr>gw_limiter := recordFailure ip now (gw_limiter gw)\<rparr>, [Close client 4401 ''unauthorized''])
     else case resolveAgentId uuid request of
       None \<Rightarrow> (gw, [Close client 4400 ''invalid agentId''])
     | Some agentId \<Rightarrow>
         (gw\<lparr>gw_attached := jset client agentId (gw_attached gw),
             gw_sockets := jset agentId client (gw_sockets gw)\<rparr>,
          case jget (gw_sockets gw) agentId of
            Some existing \<Rightarrow> if existing \<noteq> client then [Close existing 4409 ''superseded''] else []
          | None \<Rightarrow> []))"

definition ownsDevice :: "device_table \<Rightarrow> string \<Rightarrow> string \<Rightarrow> bool" where
  "ownsDevice db agentId deviceId =
    (case getById db deviceId of None \<Rightarrow> False | Some d \<Rightarrow> d_agentId d = Some agentId)"

definition handleFrame ::
    "wire \<Rightarrow> device_table \<Rightarrow> viewers \<Rightarrow> string \<Rightarrow> bytes \<Rightarrow> frame_error + effect list" where
  "handleFrame w db viewers agentId data = (case decodeAgentFrame data of
      None \<Rightarrow> Inr []
    | Some frame \<Rightarrow>
        if \<not> ownsDevice db agentId (af_deviceId frame) then Inr []
        else broadcast w frame viewers)"

section \<open>Pending commands\<close>

text \<open>
  The loops over \<open>pendingCommands\<close>: every entry that matches is deleted, its timer cleared and its
  promise resolved with the failure.
\<close>

definition fail_matching :: "(pending_command \<Rightarrow> bool) \<Rightarrow> string \<Rightarrow> gateway \<Rightarrow> gateway \<times> effect list" where
  "fail_matching matching err gw =
    (let hit = map fst (filter (\<lambda>(rid, pending). matching pending) (gw_pending gw))
     in (gw\<lparr>gw_pending := fold jdel hit (gw_pending gw),
            gw_timers := filter (\<lambda>rid. rid \<notin> set hit) (gw_timers gw)\<rparr>,
         map (\<lambda>rid. Resolve rid (Failed err)) hit))"

definition failPendingCommands :: "string \<Rightarrow> gateway \<Rightarrow> gateway \<times> effect list" where
  "failPendingCommands agentId =
    fail_matching (\<lambda>pending. pc_agentId pending = agentId) command_error_agent_disconnected"

definition failPendingByOccupation :: "string \<Rightarrow> string \<Rightarrow> gateway \<Rightarrow> gateway \<times> effect list" where
  "failPendingByOccupation deviceId occupantId =
    fail_matching (\<lambda>pending. pc_deviceId pending = deviceId \<and> pc_occupantId pending = occupantId)
      command_error_occupation_ended"

definition agent_disconnect ::
    "socket \<Rightarrow> device_table \<Rightarrow> gateway \<Rightarrow> device_table \<times> gateway \<times> effect list" where
  "agent_disconnect client db gw = (case jget (gw_attached gw) client of
      None \<Rightarrow> (db, gw, [])
    | Some agentId \<Rightarrow>
        if agentId = [] \<or> jget (gw_sockets gw) agentId \<noteq> Some client then (db, gw, [])
        else let gw = gw\<lparr>gw_sockets := jdel agentId (gw_sockets gw),
                        gw_capabilities := jdel agentId (gw_capabilities gw)\<rparr>;
                 db = markAgentOffline agentId db;
                 (gw, effs) = failPendingCommands agentId gw
             in (db, gw, effs))"

definition revokeOccupancy ::
    "wire \<Rightarrow> string \<Rightarrow> string \<Rightarrow> string option \<Rightarrow> gateway \<Rightarrow> gateway \<times> effect list" where
  "revokeOccupancy w deviceId occupantId agentId gw =
    (let (gw, effs) = failPendingByOccupation deviceId occupantId gw in
     if \<not> truthy agentId then (gw, effs)
     else case jget (gw_sockets gw) (the agentId) of
       None \<Rightarrow> (gw, effs)
     | Some socket \<Rightarrow>
         if \<not> is_open w socket then (gw, effs)
         else (gw, effs @ [SendText socket (buildOccupancyEndedMessage deviceId occupantId)]))"

text \<open>What \<open>sendCommand\<close> does before it returns: it throws, has an outcome at once, or waits.\<close>

datatype send_result = AgentNotConnected | Immediate command_outcome | Awaiting

definition capabilities_of :: "gateway \<Rightarrow> string \<Rightarrow> string list" where
  "capabilities_of gw agentId =
    (case jget (gw_capabilities gw) agentId of Some caps \<Rightarrow> caps | None \<Rightarrow> legacy_action_kinds)"

definition sendCommand ::
    "wire \<Rightarrow> string \<Rightarrow> string \<Rightarrow> string \<Rightarrow> string \<Rightarrow> device_action \<Rightarrow> gateway \<Rightarrow> gateway \<times> effect list \<times> send_result"
    where
  "sendCommand w requestId agentId deviceId occupantId action gw =
    (case jget (gw_sockets gw) agentId of
      None \<Rightarrow> (gw, [], AgentNotConnected)
    | Some socket \<Rightarrow>
        if \<not> is_open w socket then (gw, [], AgentNotConnected)
        else if action_kind action \<notin> set (capabilities_of gw agentId)
        then (gw, [], Immediate (Failed command_error_unsupported))
        else (gw\<lparr>gw_timers := requestId # gw_timers gw,
                 gw_pending := jset requestId
                   \<lparr>pc_agentId = agentId, pc_deviceId = deviceId, pc_occupantId = occupantId\<rparr> (gw_pending gw)\<rparr>,
              [SendText socket (buildCommandMessage requestId deviceId occupantId action)], Awaiting))"

text \<open>The callback of the timer; a cleared timer does not fire.\<close>

definition command_timer_fires :: "string \<Rightarrow> gateway \<Rightarrow> gateway \<times> effect list" where
  "command_timer_fires requestId gw =
    (if requestId \<notin> set (gw_timers gw) then (gw, [])
     else (gw\<lparr>gw_pending := jdel requestId (gw_pending gw),
              gw_timers := filter (\<lambda>rid. rid \<noteq> requestId) (gw_timers gw)\<rparr>,
           [Resolve requestId (Failed command_error_timeout)]))"

definition resolveCommand :: "string \<Rightarrow> string \<Rightarrow> command_outcome \<Rightarrow> gateway \<Rightarrow> gateway \<times> effect list" where
  "resolveCommand agentId requestId outcome gw = (case jget (gw_pending gw) requestId of
      None \<Rightarrow> (gw, [])
    | Some pending \<Rightarrow>
        if pc_agentId pending \<noteq> agentId then (gw, [])
        else (gw\<lparr>gw_pending := jdel requestId (gw_pending gw),
                 gw_timers := filter (\<lambda>rid. rid \<noteq> requestId) (gw_timers gw)\<rparr>,
              [Resolve requestId outcome]))"

definition handleMessage ::
    "wire \<Rightarrow> ms \<Rightarrow> viewers \<Rightarrow> string \<Rightarrow> json option \<Rightarrow> device_table \<Rightarrow> gateway \<Rightarrow> device_table \<times> gateway \<times> effect list"
    where
  "handleMessage w now viewers agentId raw db gw = (case parseAgentMessage raw of
      None \<Rightarrow> (db, gw, [])
    | Some (Register devices capabilities) \<Rightarrow>
        let db = upsertMany devices agentId now db;
            gw = gw\<lparr>gw_capabilities :=
              jset agentId (case capabilities of Some caps \<Rightarrow> caps | None \<Rightarrow> legacy_action_kinds)
                (gw_capabilities gw)\<rparr>
        in (db, gw, sendStreamDemandFor w db viewers (Some agentId) gw)
    | Some (Heartbeat deviceIds) \<Rightarrow> (heartbeat deviceIds agentId now db, gw, [])
    | Some (CommandResult requestId outcome) \<Rightarrow>
        let (gw, effs) = resolveCommand agentId requestId outcome gw in (db, gw, effs))"

text \<open>The \<open>message\<close> listener of a connected socket.\<close>

datatype tunnel_data = Text "json option" | Binary bytes

definition agent_receive ::
    "wire \<Rightarrow> ms \<Rightarrow> viewers \<Rightarrow> socket \<Rightarrow> tunnel_data \<Rightarrow> device_table \<Rightarrow> gateway \<Rightarrow>
      frame_error + (device_table \<times> gateway \<times> effect list)" where
  "agent_receive w now viewers client data db gw = (case jget (gw_attached gw) client of
      None \<Rightarrow> Inr (db, gw, [])
    | Some agentId \<Rightarrow>
        if jget (gw_sockets gw) agentId \<noteq> Some client then Inr (db, gw, [])
        else case data of
          Binary bs \<Rightarrow> (case handleFrame w db viewers agentId bs of
              Inl e \<Rightarrow> Inl e
            | Inr effs \<Rightarrow> Inr (db, gw, effs))
        | Text raw \<Rightarrow> Inr (handleMessage w now viewers agentId raw db gw))"

section \<open>Every command is answered once\<close>

definition pending_ids :: "gateway \<Rightarrow> string set" where
  "pending_ids gw = set (jkeys (gw_pending gw))"

definition pend_inv :: "gateway \<Rightarrow> bool" where
  "pend_inv gw \<longleftrightarrow> jwf (gw_pending gw) \<and> set (gw_timers gw) = pending_ids gw"

fun resolved_id :: "effect \<Rightarrow> string option" where
  "resolved_id (Resolve rid _) = Some rid"
| "resolved_id _ = None"

definition resolved :: "effect list \<Rightarrow> string list" where
  "resolved effs = List.map_filter resolved_id effs"

lemma resolved_simps [simp]:
  "resolved [] = []"
  "resolved (e # effs) = (case resolved_id e of None \<Rightarrow> resolved effs | Some r \<Rightarrow> r # resolved effs)"
  "resolved (xs @ ys) = resolved xs @ resolved ys"
  by (simp_all add: resolved_def List.map_filter_def split: option.split)

lemma resolved_map_Resolve [simp]: "resolved (map (\<lambda>rid. Resolve rid (f rid)) rids) = rids"
  by (induction rids) simp_all

lemma resolved_iff: "rid \<in> set (resolved effs) \<longleftrightarrow> (\<exists>out. Resolve rid out \<in> set effs)"
proof (induction effs)
  case (Cons e effs)
  then show ?case by (cases e) auto
qed simp

lemma resolved_none: "(\<And>e. e \<in> set effs \<Longrightarrow> resolved_id e = None) \<Longrightarrow> resolved effs = []"
  by (induction effs) simp_all

text \<open>
  What every operation promises about the promises: those it resolves were pending, are resolved once,
  and are pending no longer; all others, and the newly issued ones, stay pending.
\<close>

definition settles :: "gateway \<Rightarrow> gateway \<Rightarrow> effect list \<Rightarrow> string set \<Rightarrow> bool" where
  "settles gw gw' effs new \<longleftrightarrow> pend_inv gw' \<and> distinct (resolved effs) \<and>
    set (resolved effs) \<inter> pending_ids gw' = {} \<and>
    set (resolved effs) \<union> pending_ids gw' = pending_ids gw \<union> new"

lemma pending_ids_jget: "rid \<in> pending_ids gw \<longleftrightarrow> jget (gw_pending gw) rid \<noteq> None"
  by (simp add: pending_ids_def jkeys_iff)

lemma settles_same:
  "pend_inv gw \<Longrightarrow> gw_pending gw' = gw_pending gw \<Longrightarrow> gw_timers gw' = gw_timers gw \<Longrightarrow>
    resolved effs = [] \<Longrightarrow> settles gw gw' effs {}"
  by (simp add: settles_def pend_inv_def pending_ids_def)

lemma distinct_map_fst_filter: "jwf m \<Longrightarrow> distinct (map fst (filter P m))"
  unfolding jwf_def by (rule distinct_map_filter)

lemma fail_matching_pending:
  assumes "jwf (gw_pending gw)"
  shows "jget (gw_pending (fst (fail_matching P err gw))) rid =
    (case jget (gw_pending gw) rid of None \<Rightarrow> None | Some p \<Rightarrow> if P p then None else Some p)"
proof -
  have "rid \<in> set (map fst (filter (\<lambda>(rid, p). P p) (gw_pending gw))) \<longleftrightarrow>
      (\<exists>p. jget (gw_pending gw) rid = Some p \<and> P p)"
    using jget_in_wf [OF assms] by (auto dest: jget_Some_in simp: image_iff)
  then show ?thesis
    by (auto simp: fail_matching_def Let_def jm.get_fold_del split: option.split)
qed

lemma fail_matching_effects:
  assumes "jwf (gw_pending gw)"
  shows "e \<in> set (snd (fail_matching P err gw)) \<longleftrightarrow>
    (\<exists>rid p. e = Resolve rid (Failed err) \<and> jget (gw_pending gw) rid = Some p \<and> P p)"
  using jget_in_wf [OF assms]
  by (auto simp: fail_matching_def Let_def image_iff) (metis jget_Some_in)

lemma fail_matching_settles:
  assumes "pend_inv gw"
  shows "settles gw (fst (fail_matching P err gw)) (snd (fail_matching P err gw)) {}"
proof -
  define hit where "hit = map fst (filter (\<lambda>(rid, p). P p) (gw_pending gw))"
  have fm: "fail_matching P err gw =
      (gw\<lparr>gw_pending := fold jdel hit (gw_pending gw),
          gw_timers := filter (\<lambda>rid. rid \<notin> set hit) (gw_timers gw)\<rparr>,
       map (\<lambda>rid. Resolve rid (Failed err)) hit)"
    by (simp add: fail_matching_def Let_def hit_def)
  have wf: "jwf (gw_pending gw)" and timers: "set (gw_timers gw) = pending_ids gw"
    using assms by (simp_all add: pend_inv_def)
  have left: "pending_ids (fst (fail_matching P err gw)) = pending_ids gw - set hit"
    by (rule set_eqI) (simp add: fm pending_ids_jget jm.get_fold_del)
  have "set hit \<subseteq> pending_ids gw" by (auto simp: hit_def pending_ids_def jkeys_def)
  moreover have "distinct hit" unfolding hit_def using wf by (rule distinct_map_fst_filter)
  moreover have "pend_inv (fst (fail_matching P err gw))"
    unfolding pend_inv_def left using wf timers by (auto simp: fm jm.wf_fold_del)
  ultimately show ?thesis
    unfolding settles_def left by (auto simp: fm)
qed

lemma settle_one:
  assumes "pend_inv gw" and "rid \<in> pending_ids gw"
  shows "settles gw (gw\<lparr>gw_pending := jdel rid (gw_pending gw), gw_timers := filter (\<lambda>r. r \<noteq> rid) (gw_timers gw)\<rparr>)
    [Resolve rid out] {}"
proof -
  let ?gw' = "gw\<lparr>gw_pending := jdel rid (gw_pending gw), gw_timers := filter (\<lambda>r. r \<noteq> rid) (gw_timers gw)\<rparr>"
  have left: "pending_ids ?gw' = pending_ids gw - {rid}"
    by (rule set_eqI) (simp add: pending_ids_jget)
  have "pend_inv ?gw'" unfolding pend_inv_def left using assms(1) by (auto simp: pend_inv_def)
  then show ?thesis unfolding settles_def left using assms(2) by auto
qed

lemma resolveCommand_settles:
  assumes "pend_inv gw"
  shows "settles gw (fst (resolveCommand a rid out gw)) (snd (resolveCommand a rid out gw)) {}"
proof (cases "\<exists>p. jget (gw_pending gw) rid = Some p \<and> pc_agentId p = a")
  case True
  then have "rid \<in> pending_ids gw" by (auto simp: pending_ids_jget)
  from settle_one [OF assms this, of out] True show ?thesis by (auto simp: resolveCommand_def)
next
  case False
  then have "resolveCommand a rid out gw = (gw, [])"
    by (auto simp: resolveCommand_def split: option.split)
  with assms show ?thesis by (simp add: settles_same)
qed

lemma timer_settles:
  assumes "pend_inv gw"
  shows "settles gw (fst (command_timer_fires rid gw)) (snd (command_timer_fires rid gw)) {}"
proof (cases "rid \<in> set (gw_timers gw)")
  case True
  then have "rid \<in> pending_ids gw" using assms by (simp add: pend_inv_def)
  from settle_one [OF assms this, of "Failed command_error_timeout"] True show ?thesis
    by (simp add: command_timer_fires_def)
next
  case False
  with assms show ?thesis by (simp add: command_timer_fires_def settles_same)
qed

lemma settles_issue:
  assumes "pend_inv gw" and "resolved effs = []"
  shows "settles gw (gw\<lparr>gw_timers := rid # gw_timers gw, gw_pending := jset rid p (gw_pending gw)\<rparr>) effs {rid}"
proof -
  let ?gw' = "gw\<lparr>gw_timers := rid # gw_timers gw, gw_pending := jset rid p (gw_pending gw)\<rparr>"
  have new: "pending_ids ?gw' = insert rid (pending_ids gw)"
    by (rule set_eqI) (simp add: pending_ids_jget)
  have "pend_inv ?gw'" unfolding pend_inv_def new using assms(1) by (auto simp: pend_inv_def)
  then show ?thesis unfolding settles_def new using assms(2) by auto
qed

lemma sendCommand_settles:
  assumes "pend_inv gw"
  shows "settles gw (fst (sendCommand w rid a i occ act gw)) (fst (snd (sendCommand w rid a i occ act gw)))
    (if snd (snd (sendCommand w rid a i occ act gw)) = Awaiting then {rid} else {})"
  using assms settles_issue [OF assms]
  by (auto simp: sendCommand_def split: option.split intro!: settles_same)

lemma revokeOccupancy_settles:
  assumes "pend_inv gw"
  shows "settles gw (fst (revokeOccupancy w i occ a gw)) (snd (revokeOccupancy w i occ a gw)) {}"
proof -
  have s: "settles gw (fst (failPendingByOccupation i occ gw)) (snd (failPendingByOccupation i occ gw)) {}"
    unfolding failPendingByOccupation_def by (rule fail_matching_settles [OF assms])
  have "fst (revokeOccupancy w i occ a gw) = fst (failPendingByOccupation i occ gw)"
    "resolved (snd (revokeOccupancy w i occ a gw)) = resolved (snd (failPendingByOccupation i occ gw))"
    by (auto simp: revokeOccupancy_def Let_def split_def split: option.split)
  with s show ?thesis unfolding settles_def by simp
qed

lemma agent_disconnect_settles:
  assumes "pend_inv gw"
  shows "settles gw (fst (snd (agent_disconnect c db gw))) (snd (snd (agent_disconnect c db gw))) {}"
proof -
  have "settles gw (fst (fail_matching P err (gw\<lparr>gw_sockets := s, gw_capabilities := k\<rparr>)))
      (snd (fail_matching P err (gw\<lparr>gw_sockets := s, gw_capabilities := k\<rparr>))) {}" for P err s k
    using fail_matching_settles [of "gw\<lparr>gw_sockets := s, gw_capabilities := k\<rparr>"] assms
    by (simp add: settles_def pend_inv_def pending_ids_def)
  moreover have "settles gw gw [] {}" using assms by (rule settles_same) simp_all
  ultimately show ?thesis
    by (auto simp: agent_disconnect_def Let_def failPendingCommands_def split_def split: option.split)
qed

lemma sendStreamDemandFor_resolved [simp]: "resolved (sendStreamDemandFor w db v a gw) = []"
  by (auto simp: sendStreamDemandFor_def split: option.split)

lemma demand_listener_resolved [simp]: "resolved (demand_listener w db v gw ids) = []"
  unfolding demand_listener_def by (induction ids) simp_all

lemma handleMessage_settles:
  assumes "pend_inv gw"
  shows "settles gw (fst (snd (handleMessage w now v a raw db gw))) (snd (snd (handleMessage w now v a raw db gw))) {}"
proof (cases "parseAgentMessage raw")
  case None
  with assms show ?thesis by (simp add: handleMessage_def settles_same)
next
  case (Some m)
  with assms resolveCommand_settles [OF assms] show ?thesis
    by (cases m) (auto simp: handleMessage_def Let_def split_def intro!: settles_same)
qed

lemma deliver_resolved: "e \<in> set (deliver w k payload s) \<Longrightarrow> resolved_id e = None"
  by (auto simp: deliver_def split: if_splits)

lemma broadcast_resolved: "broadcast w f v = Inr effs \<Longrightarrow> resolved effs = []"
  by (rule resolved_none) (auto simp: broadcast_def split: option.splits sum.splits dest: deliver_resolved)

lemma handleFrame_total: "\<exists>effs. handleFrame w db v a bs = Inr effs"
  using viewer_encode_of_agent [of bs]
  by (auto simp: handleFrame_def broadcast_def split: option.splits)

lemma handleFrame_resolved: "handleFrame w db v a bs = Inr effs \<Longrightarrow> resolved effs = []"
  by (auto simp: handleFrame_def dest: broadcast_resolved split: option.splits if_splits)

lemma agent_receive_total: "\<exists>r. agent_receive w now v c data db gw = Inr r"
proof (cases data)
  case (Binary bs)
  with handleFrame_total show ?thesis
    by (auto simp: agent_receive_def split: option.split sum.split) (metis Inl_not_Inr sum.inject(1))
qed (auto simp: agent_receive_def simp del: split_paired_Ex split: option.split)

lemma agent_receive_settles:
  assumes "pend_inv gw" and "agent_receive w now v c data db gw = Inr (db', gw', effs)"
  shows "settles gw gw' effs {}"
proof -
  have same: "settles gw gw [] {}" using assms(1) by (rule settles_same) simp_all
  show ?thesis
  proof (cases data)
    case (Text raw)
    with assms(2) handleMessage_settles [OF assms(1), of w now v _ raw db] same show ?thesis
      by (auto simp: agent_receive_def split: option.splits if_splits) (metis fst_conv snd_conv)
  next
    case (Binary bs)
    with assms same show ?thesis
      by (auto simp: agent_receive_def intro!: settles_same handleFrame_resolved
          split: option.splits if_splits sum.splits)
  qed
qed

lemma agent_connect_settles:
  assumes "pend_inv gw"
  shows "settles gw (fst (agent_connect config now u c r gw)) (snd (agent_connect config now u c r gw)) {}"
  using assms
  by (intro settles_same) (auto simp: agent_connect_def Let_def split: option.split)

section \<open>Properties of the tunnel\<close>

lemma receive_authentic:
  assumes "agent_receive w now v c data db gw = Inr (db', gw', effs)"
  shows "Resolve rid out \<in> set effs \<Longrightarrow>
      \<exists>a p raw. jget (gw_attached gw) c = Some a \<and> jget (gw_sockets gw) a = Some c \<and>
        jget (gw_pending gw) rid = Some p \<and> pc_agentId p = a \<and>
        data = Text raw \<and> parseAgentMessage raw = Some (CommandResult rid out)"
    and "SendBytes s b \<in> set effs \<Longrightarrow>
      \<exists>a bs f. jget (gw_attached gw) c = Some a \<and> jget (gw_sockets gw) a = Some c \<and>
        data = Binary bs \<and> decodeAgentFrame bs = Some f \<and> agentIdOfDevice db (af_deviceId f) = Some a \<and>
        viewing v (af_deviceId f) s \<noteq> None"
proof -
  have demand: "Resolve rid out \<notin> set (sendStreamDemandFor w db v a gw)"
    "SendBytes s b \<notin> set (sendStreamDemandFor w db v a gw)" for db a gw
    by (auto simp: sendStreamDemandFor_def split: option.splits if_splits)
  show "Resolve rid out \<in> set effs \<Longrightarrow>
      \<exists>a p raw. jget (gw_attached gw) c = Some a \<and> jget (gw_sockets gw) a = Some c \<and>
        jget (gw_pending gw) rid = Some p \<and> pc_agentId p = a \<and>
        data = Text raw \<and> parseAgentMessage raw = Some (CommandResult rid out)"
  proof (cases data)
    case (Text raw)
    with assms demand show "Resolve rid out \<in> set effs \<Longrightarrow> ?thesis"
      by (auto simp: agent_receive_def handleMessage_def Let_def resolveCommand_def
          split: option.splits if_splits agent_message.splits)
  next
    case (Binary bs)
    with assms have "resolved effs = []"
      by (auto simp: agent_receive_def split: option.splits if_splits sum.splits dest: handleFrame_resolved)
    then show "Resolve rid out \<in> set effs \<Longrightarrow> ?thesis"
      using resolved_iff [of rid effs] by auto
  qed
  show "SendBytes s b \<in> set effs \<Longrightarrow>
      \<exists>a bs f. jget (gw_attached gw) c = Some a \<and> jget (gw_sockets gw) a = Some c \<and>
        data = Binary bs \<and> decodeAgentFrame bs = Some f \<and> agentIdOfDevice db (af_deviceId f) = Some a \<and>
        viewing v (af_deviceId f) s \<noteq> None"
  proof (cases data)
    case (Text raw)
    with assms demand show "SendBytes s b \<in> set effs \<Longrightarrow> ?thesis"
      by (auto simp: agent_receive_def handleMessage_def Let_def resolveCommand_def
          split: option.splits if_splits agent_message.splits)
  next
    case (Binary bs)
    have "\<exists>f. decodeAgentFrame bs = Some f \<and> agentIdOfDevice db (af_deviceId f) = Some a \<and>
        viewing v (af_deviceId f) s \<noteq> None"
      if "handleFrame w db v a bs = Inr effs" "SendBytes s b \<in> set effs" for a
      using that
      by (auto simp: handleFrame_def ownsDevice_def agentIdOfDevice_def broadcast_def viewing_def jkeys_iff
          deliver_in split: option.splits if_splits sum.splits)
    with Binary assms show "SendBytes s b \<in> set effs \<Longrightarrow> ?thesis"
      by (auto simp: agent_receive_def split: option.splits if_splits sum.splits)
  qed
qed

lemma tunnel_authentic_parts:
  assumes "agent_receive w now v c data db gw = Inr (db', gw', effs)"
  shows "Resolve rid out \<in> set effs \<Longrightarrow>
      \<exists>a p raw. jget (gw_attached gw) c = Some a \<and> jget (gw_sockets gw) a = Some c \<and>
        jget (gw_pending gw) rid = Some p \<and> pc_agentId p = a \<and>
        data = Text raw \<and> parseAgentMessage raw = Some (CommandResult rid out)"
    and "SendBytes s b \<in> set effs \<Longrightarrow>
      \<exists>a bs f. jget (gw_attached gw) c = Some a \<and> jget (gw_sockets gw) a = Some c \<and>
        data = Binary bs \<and> decodeAgentFrame bs = Some f \<and> agentIdOfDevice db (af_deviceId f) = Some a \<and>
        viewing v (af_deviceId f) s \<noteq> None"
  by (fact receive_authentic [OF assms])+

text \<open>
  C8: Only the Agent a command was sent to can answer it, over its current connection and with a
  well-formed result for that very request; and a frame reaches viewers only from the current
  connection of the Agent that owns the device in the frame.
\<close>

theorem tunnel_authentic:
  assumes "agent_receive w now v c data db gw = Inr (db', gw', effs)"
  shows "((Resolve rid out \<in> set effs) \<longrightarrow>
      (\<exists>a p raw. jget (gw_attached gw) c = Some a \<and> jget (gw_sockets gw) a = Some c \<and>
        jget (gw_pending gw) rid = Some p \<and> pc_agentId p = a \<and>
        data = Text raw \<and> parseAgentMessage raw = Some (CommandResult rid out))) \<and>
    ((SendBytes s b \<in> set effs) \<longrightarrow>
      (\<exists>a bs f. jget (gw_attached gw) c = Some a \<and> jget (gw_sockets gw) a = Some c \<and>
        data = Binary bs \<and> decodeAgentFrame bs = Some f \<and> agentIdOfDevice db (af_deviceId f) = Some a \<and>
        viewing v (af_deviceId f) s \<noteq> None))"
  by (rule conjI, rule impI, rule tunnel_authentic_parts(1) [OF assms], assumption+,
    rule impI, rule tunnel_authentic_parts(2) [OF assms], assumption+)

definition tunnel_gw :: gateway where
  "tunnel_gw = gateway_init\<lparr>gw_sockets := [(''agent'', 7)], gw_attached := [(7, ''agent''), (5, ''agent'')],
     gw_pending := [(''r1'', \<lparr>pc_agentId = ''agent'', pc_deviceId = ''d1'', pc_occupantId = ''occ''\<rparr>)],
     gw_timers := [''r1'']\<rparr>"

definition result_text :: json where
  "result_text = buildCommandResultMessage ''r1'' (Succeeded None)"

lemma result_text_parses: "parseAgentMessage (Some result_text) = Some (CommandResult ''r1'' (Succeeded None))"
  by (simp add: result_text_def buildCommandResultMessage_def parseAgentMessage_def parseJson_def
      isRequestId_def is_request_id_def matches_class_def request_id_char_def is_alnum_def code_def
      isCommandOutcome_def str_at_def cast_outcome_def fields_of_def)

lemma tunnel_gw_receive:
  "agent_receive sample_wire 0 [] 7 (Text (Some result_text)) [] tunnel_gw =
    Inr ([], tunnel_gw\<lparr>gw_pending := [], gw_timers := []\<rparr>, [Resolve ''r1'' (Succeeded None)])"
  by (simp add: agent_receive_def handleMessage_def result_text_parses resolveCommand_def tunnel_gw_def)

theorem tunnel_authentic_witness:
  "\<exists>p. jget (gw_pending tunnel_gw) ''r1'' = Some p \<and> jget (gw_sockets tunnel_gw) (pc_agentId p) = Some 7"
  using tunnel_authentic [OF tunnel_gw_receive, of "''r1''" "Succeeded None", THEN conjunct1, rule_format] by auto

lemma superseded_socket_is_inert_parts:
  assumes "jget (gw_attached gw) old = Some a" and "jget (gw_sockets gw) a = Some old" and "old \<noteq> new"
    and "\<not> isBlocked (gw_limiter gw) (hs_remoteIp request) now" and "isAuthorized config request"
    and "resolveAgentId uuid request = Some a"
  shows "Close old 4409 ''superseded'' \<in> set (snd (agent_connect config now uuid new request gw))"
    and "agent_receive w t v old data db (fst (agent_connect config now uuid new request gw)) =
      Inr (db, fst (agent_connect config now uuid new request gw), [])"
    and "agent_disconnect old db (fst (agent_connect config now uuid new request gw)) =
      (db, fst (agent_connect config now uuid new request gw), [])"
  using assms
  by (simp_all add: agent_connect_def Let_def agent_receive_def agent_disconnect_def)

text \<open>
  Once an Agent id has reconnected, the replaced socket is told so with 4409 and is inert: whatever
  it still sends, and its late close, changes neither the registry nor the gateway and has no effect.
\<close>

theorem superseded_socket_is_inert:
  assumes "jget (gw_attached gw) old = Some a" and "jget (gw_sockets gw) a = Some old" and "old \<noteq> new"
    and "\<not> isBlocked (gw_limiter gw) (hs_remoteIp request) now" and "isAuthorized config request"
    and "resolveAgentId uuid request = Some a"
  shows "(Close old 4409 ''superseded'' \<in> set (snd (agent_connect config now uuid new request gw))) \<and>
    (agent_receive w t v old data db (fst (agent_connect config now uuid new request gw)) =
      Inr (db, fst (agent_connect config now uuid new request gw), [])) \<and>
    (agent_disconnect old db (fst (agent_connect config now uuid new request gw)) =
      (db, fst (agent_connect config now uuid new request gw), []))"
  by (rule conjI, rule superseded_socket_is_inert_parts(1) [OF assms],
    rule conjI, rule superseded_socket_is_inert_parts(2) [OF assms],
    rule superseded_socket_is_inert_parts(3) [OF assms])

definition reconnect_request :: handshake where
  "reconnect_request = \<lparr>hs_remoteIp = None, hs_query = [(''agentId'', ''agent''),
     (''token'', ''fedcba9876543210fedcba98'')], hs_authorization = None\<rparr>"

theorem superseded_socket_is_inert_witness:
  "agent_disconnect 7 [] (fst (agent_connect sample_env 0 ''u'' 9 reconnect_request tunnel_gw)) =
    ([], fst (agent_connect sample_env 0 ''u'' 9 reconnect_request tunnel_gw), [])"
  by (rule superseded_socket_is_inert [THEN conjunct2, THEN conjunct2])
    (simp_all add: tunnel_gw_def gateway_init_def isBlocked_def isAuthorized_def sample_env_def truthy_def
      reconnect_request_def extractBearerToken_def query_param_def isTokenEqual_iff resolveAgentId_def
      is_agent_id_def matches_class_def agent_id_char_def is_alnum_def code_def)

lemma send_command_outcome_parts:
  shows "SendText s m \<in> set (fst (snd (sendCommand w rid a i occ act gw))) \<longleftrightarrow>
      jget (gw_sockets gw) a = Some s \<and> is_open w s \<and> action_kind act \<in> set (capabilities_of gw a) \<and>
      m = json_of_server_message (Command rid i occ act)"
    and "jget (gw_pending (fst (sendCommand w rid a i occ act gw))) r =
      (if r = rid \<and> fst (snd (sendCommand w rid a i occ act gw)) \<noteq> []
       then Some \<lparr>pc_agentId = a, pc_deviceId = i, pc_occupantId = occ\<rparr> else jget (gw_pending gw) r)"
    and "\<lbrakk>is_request_id rid; is_device_id i; is_occupant_id occ; finite_action act\<rbrakk> \<Longrightarrow>
      parseServerMessage (Some (json_of_server_message (Command rid i occ act))) = Some (Command rid i occ act)"
    and "jget (gw_capabilities gw) a = None \<Longrightarrow>
      action_kind act \<in> set (capabilities_of gw a) \<longleftrightarrow> (\<forall>b. act \<noteq> PressButton b)"
proof -
  show "SendText s m \<in> set (fst (snd (sendCommand w rid a i occ act gw))) \<longleftrightarrow>
      jget (gw_sockets gw) a = Some s \<and> is_open w s \<and> action_kind act \<in> set (capabilities_of gw a) \<and>
      m = json_of_server_message (Command rid i occ act)"
    by (auto simp: sendCommand_def split: option.split)
  show "jget (gw_pending (fst (sendCommand w rid a i occ act gw))) r =
      (if r = rid \<and> fst (snd (sendCommand w rid a i occ act gw)) \<noteq> []
       then Some \<lparr>pc_agentId = a, pc_deviceId = i, pc_occupantId = occ\<rparr> else jget (gw_pending gw) r)"
    by (auto simp: sendCommand_def split: option.split)
  show "\<lbrakk>is_request_id rid; is_device_id i; is_occupant_id occ; finite_action act\<rbrakk> \<Longrightarrow>
      parseServerMessage (Some (json_of_server_message (Command rid i occ act))) = Some (Command rid i occ act)"
    by (simp add: builder_defs parseServerMessage_def parseJson_def str_at_def)
  show "jget (gw_capabilities gw) a = None \<Longrightarrow>
      action_kind act \<in> set (capabilities_of gw a) \<longleftrightarrow> (\<forall>b. act \<noteq> PressButton b)"
    by (cases act) (simp_all add: capabilities_of_def legacy_action_kinds_def device_action_kinds_def)
qed

text \<open>
  C21: A command leaves the server only over the open connection of its Agent and only when the Agent
  supports its kind, and then the Agent's parser reads exactly that command, provided its identifiers
  are well formed and its coordinates finite; an Agent that never announced its capabilities is sent
  every kind except the button press. In every other case nothing is sent and nothing waits.
\<close>

theorem send_command_outcome:
  shows "(SendText s m \<in> set (fst (snd (sendCommand w rid a i occ act gw))) \<longleftrightarrow>
      jget (gw_sockets gw) a = Some s \<and> is_open w s \<and> action_kind act \<in> set (capabilities_of gw a) \<and>
      m = json_of_server_message (Command rid i occ act)) \<and>
    (jget (gw_pending (fst (sendCommand w rid a i occ act gw))) r =
      (if r = rid \<and> fst (snd (sendCommand w rid a i occ act gw)) \<noteq> []
       then Some \<lparr>pc_agentId = a, pc_deviceId = i, pc_occupantId = occ\<rparr> else jget (gw_pending gw) r)) \<and>
    ((is_request_id rid) \<longrightarrow> (is_device_id i) \<longrightarrow> (is_occupant_id occ) \<longrightarrow> (finite_action act) \<longrightarrow>
      (parseServerMessage (Some (json_of_server_message (Command rid i occ act))) = Some (Command rid i occ act))) \<and>
    ((jget (gw_capabilities gw) a = None) \<longrightarrow>
      (action_kind act \<in> set (capabilities_of gw a) \<longleftrightarrow> (\<forall>b. act \<noteq> PressButton b)))"
  by (rule conjI, rule send_command_outcome_parts(1),
    rule conjI, rule send_command_outcome_parts(2),
    rule conjI, rule impI, rule impI, rule impI, rule impI, rule send_command_outcome_parts(3), assumption+,
    rule impI, rule send_command_outcome_parts(4), assumption+)

theorem send_command_outcome_witness:
  "parseServerMessage (Some (json_of_server_message (Command ''r1'' ''d1'' ''occ'' UiDump))) =
    Some (Command ''r1'' ''d1'' ''occ'' UiDump)"
  by (rule send_command_outcome [THEN conjunct2, THEN conjunct2, THEN conjunct1, rule_format])
    (simp_all add: is_request_id_def is_device_id_def is_occupant_id_def matches_class_def request_id_char_def
      device_id_char_def is_alnum_def code_def)

lemma revocation_settles_commands_parts:
  assumes "pend_inv gw"
  shows "jget (gw_pending (fst (revokeOccupancy w i occ a gw))) rid =
      (case jget (gw_pending gw) rid of
        None \<Rightarrow> None
      | Some p \<Rightarrow> if pc_deviceId p = i \<and> pc_occupantId p = occ then None else Some p)"
    and "Resolve rid out \<in> set (snd (revokeOccupancy w i occ a gw)) \<longleftrightarrow>
      out = Failed ''occupation_ended'' \<and>
      (\<exists>p. jget (gw_pending gw) rid = Some p \<and> pc_deviceId p = i \<and> pc_occupantId p = occ)"
    and "a = Some x \<Longrightarrow> x \<noteq> [] \<Longrightarrow> jget (gw_sockets gw) x = Some s \<Longrightarrow> is_open w s \<Longrightarrow>
      last (snd (revokeOccupancy w i occ a gw)) = SendText s (json_of_server_message (OccupancyEnded i occ))"
proof -
  have wf: "jwf (gw_pending gw)" using assms by (simp add: pend_inv_def)
  note f = fail_matching_pending [OF wf] fail_matching_effects [OF wf]
  have fst_r: "fst (revokeOccupancy w i occ a gw) = fst (failPendingByOccupation i occ gw)"
    by (auto simp: revokeOccupancy_def Let_def split_def split: option.split)
  show "jget (gw_pending (fst (revokeOccupancy w i occ a gw))) rid =
      (case jget (gw_pending gw) rid of
        None \<Rightarrow> None
      | Some p \<Rightarrow> if pc_deviceId p = i \<and> pc_occupantId p = occ then None else Some p)"
    unfolding fst_r failPendingByOccupation_def by (simp add: f(1))
  have "Resolve rid out \<in> set (snd (revokeOccupancy w i occ a gw)) \<longleftrightarrow>
      Resolve rid out \<in> set (snd (failPendingByOccupation i occ gw))"
    by (auto simp: revokeOccupancy_def Let_def split_def split: option.split)
  also have "\<dots> \<longleftrightarrow> out = Failed ''occupation_ended'' \<and>
      (\<exists>p. jget (gw_pending gw) rid = Some p \<and> pc_deviceId p = i \<and> pc_occupantId p = occ)"
    unfolding failPendingByOccupation_def by (auto simp: f(2) command_error_occupation_ended_def)
  finally show "Resolve rid out \<in> set (snd (revokeOccupancy w i occ a gw)) \<longleftrightarrow>
      out = Failed ''occupation_ended'' \<and>
      (\<exists>p. jget (gw_pending gw) rid = Some p \<and> pc_deviceId p = i \<and> pc_occupantId p = occ)" .
  have "gw_sockets (fst (failPendingByOccupation i occ gw)) = gw_sockets gw"
    by (simp add: failPendingByOccupation_def fail_matching_def Let_def)
  then show "a = Some x \<Longrightarrow> x \<noteq> [] \<Longrightarrow> jget (gw_sockets gw) x = Some s \<Longrightarrow> is_open w s \<Longrightarrow>
      last (snd (revokeOccupancy w i occ a gw)) = SendText s (json_of_server_message (OccupancyEnded i occ))"
    by (simp add: revokeOccupancy_def Let_def split_def truthy_def)
qed

text \<open>
  C22: Revoking an occupation fails exactly its waiting commands, with \<open>occupation_ended\<close>, before the
  Agent hears of it, and leaves every other waiting command alone; no answer to a command of that
  occupation is delivered afterwards.
\<close>

theorem revocation_settles_commands:
  assumes "pend_inv gw"
  shows "(jget (gw_pending (fst (revokeOccupancy w i occ a gw))) rid =
      (case jget (gw_pending gw) rid of
        None \<Rightarrow> None
      | Some p \<Rightarrow> if pc_deviceId p = i \<and> pc_occupantId p = occ then None else Some p)) \<and>
    (Resolve rid out \<in> set (snd (revokeOccupancy w i occ a gw)) \<longleftrightarrow>
      out = Failed ''occupation_ended'' \<and>
      (\<exists>p. jget (gw_pending gw) rid = Some p \<and> pc_deviceId p = i \<and> pc_occupantId p = occ)) \<and>
    ((a = Some x) \<longrightarrow> (x \<noteq> []) \<longrightarrow> (jget (gw_sockets gw) x = Some s) \<longrightarrow> (is_open w s) \<longrightarrow>
      (last (snd (revokeOccupancy w i occ a gw)) = SendText s (json_of_server_message (OccupancyEnded i occ))))"
  by (rule conjI, rule revocation_settles_commands_parts(1) [OF assms],
    rule conjI, rule revocation_settles_commands_parts(2) [OF assms],
    rule impI, rule impI, rule impI, rule impI, rule revocation_settles_commands_parts(3) [OF assms], assumption+)

theorem revocation_settles_commands_witness:
  "Resolve ''r1'' (Failed ''occupation_ended'') \<in> set (snd (revokeOccupancy sample_wire ''d1'' ''occ'' None tunnel_gw)) \<and>
   Resolve ''r1'' (Failed ''occupation_ended'') \<notin> set (snd (revokeOccupancy sample_wire ''d1'' ''occ2'' None tunnel_gw))"
proof -
  have "pend_inv tunnel_gw"
    by (simp add: pend_inv_def tunnel_gw_def gateway_init_def jwf_def pending_ids_def jkeys_def)
  from revocation_settles_commands [OF this, THEN conjunct2, THEN conjunct1] show ?thesis by (simp add: tunnel_gw_def)
qed

end
