(* ===== verification/Server.thy ===== *)
theory Server
  imports Agents_Gateway
begin

text \<open>
  The server as one state machine: the domain service (devices.service.ts), the occupation events
  with their two listeners (occupancy-events.service.ts, stream- and command-revocation.listener.ts),
  the sweeps (heartbeat.monitor.ts, occupancy-expiry.monitor.ts), the commands (commands.service.ts,
  commands.controller.ts, command-result.guards.ts, action.dtos.ts) and the device routes
  (devices.controller.ts).

  Node runs one handler at a time, so a handler up to its \<open>await\<close> is one step, with \<open>w\<close> what the
  sockets report during it; the continuation of a waiting command is a function of the outcome its
  promise is resolved with. A thrown HTTP exception is a value of \<open>http_error\<close>.
\<close>

section \<open>State\<close>

datatype occupation_end_reason = Reason_released | Reason_idle_expired | Reason_agent_stale

record occupation_ended_event =
  oe_deviceId :: string
  oe_occupantId :: string
  oe_reason :: occupation_end_reason

datatype ended_listener = Stream_revocation | Command_revocation

record server_config =
  cf_env :: env
  cf_occupationTtlMs :: int
  cf_heartbeatTimeoutMs :: int

record server =
  sv_db :: device_table
  sv_streams :: streams_state
  sv_gateway :: gateway
  sv_listeners :: "ended_listener list"

datatype http_error =
    Device_not_found
  | Device_not_occupied
  | Occupant_mismatch
  | No_device_available
  | Not_occupant_of_device
  | Device_offline
  | Agent_tunnel_missing
  | Action_unsupported
  | Device_timed_out
  | Device_command_failed string
  | Bad_ui_dump
  | Bad_screenshot

fun http_status :: "http_error \<Rightarrow> nat" where
  "http_status Device_not_found = 404"
| "http_status Device_not_occupied = 409"
| "http_status Occupant_mismatch = 403"
| "http_status No_device_available = 409"
| "http_status Not_occupant_of_device = 403"
| "http_status Device_offline = 409"
| "http_status Agent_tunnel_missing = 502"
| "http_status Action_unsupported = 400"
| "http_status Device_timed_out = 504"
| "http_status (Device_command_failed _) = 502"
| "http_status Bad_ui_dump = 502"
| "http_status Bad_screenshot = 502"

fun occupation_error :: "occupation_failure \<Rightarrow> http_error" where
  "occupation_error Not_found = Device_not_found"
| "occupation_error Not_occupied = Device_not_occupied"
| "occupation_error Forbidden_occupant = Occupant_mismatch"

section \<open>The end of an occupation\<close>

fun close_reason :: "occupation_end_reason \<Rightarrow> string" where
  "close_reason Reason_released = ''occupation released''"
| "close_reason Reason_idle_expired = ''occupation expired''"
| "close_reason Reason_agent_stale = ''device offline''"

definition notify_demand :: "wire \<Rightarrow> string list \<Rightarrow> server \<Rightarrow> effect list" where
  "notify_demand w notified sv =
    demand_listener w (sv_db sv) (st_viewers (sv_streams sv)) (sv_gateway sv) notified"

definition stream_revoke :: "wire \<Rightarrow> occupation_ended_event \<Rightarrow> server \<Rightarrow> server \<times> effect list" where
  "stream_revoke w event sv =
    (let (viewers, effs, notified) =
           closeViewers w (oe_deviceId event) (oe_occupantId event) viewer_close_occupation_ended
             (close_reason (oe_reason event)) (st_viewers (sv_streams sv));
         sv = sv\<lparr>sv_streams := (sv_streams sv)\<lparr>st_viewers := viewers\<rparr>\<rparr>
     in (sv, effs @ notify_demand w notified sv))"

definition agentIdOf :: "occupation_ended_event \<Rightarrow> server \<Rightarrow> string option" where
  "agentIdOf event sv =
    (case getById (sv_db sv) (oe_deviceId event) of None \<Rightarrow> None | Some d \<Rightarrow> d_agentId d)"

definition command_revoke :: "wire \<Rightarrow> occupation_ended_event \<Rightarrow> server \<Rightarrow> server \<times> effect list" where
  "command_revoke w event sv =
    (let (gw, effs) = revokeOccupancy w (oe_deviceId event) (oe_occupantId event) (agentIdOf event sv) (sv_gateway sv)
     in (sv\<lparr>sv_gateway := gw\<rparr>, effs))"

fun call_listener :: "wire \<Rightarrow> occupation_ended_event \<Rightarrow> ended_listener \<Rightarrow> server \<Rightarrow> server \<times> effect list" where
  "call_listener w event Stream_revocation sv = stream_revoke w event sv"
| "call_listener w event Command_revocation sv = command_revoke w event sv"

text \<open>One handler after the other, their effects in sequence.\<close>

fun in_turn :: "('a \<Rightarrow> 's \<Rightarrow> 's \<times> 'e list) \<Rightarrow> 'a list \<Rightarrow> 's \<Rightarrow> 's \<times> 'e list" where
  "in_turn f [] s = (s, [])"
| "in_turn f (x # xs) s =
    (let (s, effs) = f x s; (s, rest) = in_turn f xs s in (s, effs @ rest))"

definition publishEnded :: "wire \<Rightarrow> occupation_ended_event \<Rightarrow> server \<Rightarrow> server \<times> effect list" where
  "publishEnded w event sv = in_turn (call_listener w event) (sv_listeners sv) sv"

definition onEnded :: "ended_listener \<Rightarrow> server \<Rightarrow> server" where
  "onEnded listener sv = sv\<lparr>sv_listeners := sv_listeners sv @ [listener]\<rparr>"

definition unsubscribeEnded :: "ended_listener \<Rightarrow> server \<Rightarrow> server" where
  "unsubscribeEnded listener sv = sv\<lparr>sv_listeners := filter (\<lambda>l. l \<noteq> listener) (sv_listeners sv)\<rparr>"

section \<open>The domain service\<close>

definition service_getById :: "string \<Rightarrow> server \<Rightarrow> http_error + device" where
  "service_getById i sv = (case findById (sv_db sv) i of None \<Rightarrow> Inl Device_not_found | Some d \<Rightarrow> Inr d)"

definition listAll :: "server \<Rightarrow> device list" where
  "listAll sv = findAll (sv_db sv)"

definition service_occupy ::
    "occupy_filter \<Rightarrow> string \<Rightarrow> ms \<Rightarrow> server \<Rightarrow> server \<times> (http_error + string \<times> device)" where
  "service_occupy f uuid now sv =
    (case tryOccupy f uuid now (sv_db sv) of
      (db, None) \<Rightarrow> (sv\<lparr>sv_db := db\<rparr>, Inl No_device_available)
    | (db, Some d) \<Rightarrow> (sv\<lparr>sv_db := db\<rparr>, Inr (uuid, d)))"

definition service_release ::
    "wire \<Rightarrow> string \<Rightarrow> string \<Rightarrow> server \<Rightarrow> server \<times> effect list \<times> (http_error + device)" where
  "service_release w i occ sv =
    (case release i occ (sv_db sv) of
      (db, ReleaseFailed failure) \<Rightarrow> (sv\<lparr>sv_db := db\<rparr>, [], Inl (occupation_error failure))
    | (db, Released) \<Rightarrow>
        let (sv, effs) = publishEnded w \<lparr>oe_deviceId = i, oe_occupantId = occ, oe_reason = Reason_released\<rparr>
              (sv\<lparr>sv_db := db\<rparr>)
        in (sv, effs, service_getById i sv))"

definition service_renewOccupation ::
    "string \<Rightarrow> string \<Rightarrow> ms \<Rightarrow> server \<Rightarrow> server \<times> (http_error + device)" where
  "service_renewOccupation i occ now sv =
    (case renewOccupation i occ now (sv_db sv) of
      (db, RenewFailed failure) \<Rightarrow> (sv\<lparr>sv_db := db\<rparr>, Inl (occupation_error failure))
    | (db, Renewed) \<Rightarrow> (sv\<lparr>sv_db := db\<rparr>, service_getById i (sv\<lparr>sv_db := db\<rparr>)))"

definition service_expireIdleOccupations ::
    "server_config \<Rightarrow> wire \<Rightarrow> ms \<Rightarrow> server \<Rightarrow> server \<times> effect list \<times> ended_occupation list" where
  "service_expireIdleOccupations cfg w now sv =
    (let (db, ended) = expireIdleOccupations (now - cf_occupationTtlMs cfg) (sv_db sv);
         (sv, effs) = in_turn
           (\<lambda>occupation. publishEnded w
              \<lparr>oe_deviceId = eo_deviceId occupation, oe_occupantId = eo_occupantId occupation,
               oe_reason = Reason_idle_expired\<rparr>)
           ended (sv\<lparr>sv_db := db\<rparr>)
     in (sv, effs, ended))"

definition occupationExpiresAt :: "server_config \<Rightarrow> device \<Rightarrow> ms option" where
  "occupationExpiresAt cfg d =
    (case d_lastActivityAt d of None \<Rightarrow> None | Some t \<Rightarrow> Some (t + cf_occupationTtlMs cfg))"

definition service_expireStaleDevices ::
    "server_config \<Rightarrow> wire \<Rightarrow> ms \<Rightarrow> server \<Rightarrow> server \<times> effect list \<times> stale_device list" where
  "service_expireStaleDevices cfg w now sv =
    (let (db, stale) = markStaleOffline (now - cf_heartbeatTimeoutMs cfg) (sv_db sv);
         (sv, effs) = in_turn
           (\<lambda>d sv. if \<not> truthy (sd_occupantId d) then (sv, [])
                   else publishEnded w
                     \<lparr>oe_deviceId = sd_deviceId d, oe_occupantId = the (sd_occupantId d),
                      oe_reason = Reason_agent_stale\<rparr> sv)
           stale (sv\<lparr>sv_db := db\<rparr>)
     in (sv, effs, stale))"

definition occupancy_sweep :: "server_config \<Rightarrow> wire \<Rightarrow> ms \<Rightarrow> server \<Rightarrow> server \<times> effect list" where
  "occupancy_sweep cfg w now sv =
    (let (sv, effs, expired) = service_expireIdleOccupations cfg w now sv in (sv, effs))"

definition heartbeat_sweep :: "server_config \<Rightarrow> wire \<Rightarrow> ms \<Rightarrow> server \<Rightarrow> server \<times> effect list" where
  "heartbeat_sweep cfg w now sv =
    (let (sv, effs, stale) = service_expireStaleDevices cfg w now sv in (sv, effs))"

section \<open>Device routes\<close>

record occupy_response =
  or_occupantId :: string
  or_device :: public_device
  or_expiresAt :: "ms option"

record keepalive_response =
  kr_device :: public_device
  kr_expiresAt :: "ms option"

definition route_list :: "server \<Rightarrow> public_device list" where
  "route_list sv = map toPublicDevice (listAll sv)"

definition route_occupy :: "server_config \<Rightarrow> occupy_filter \<Rightarrow> string \<Rightarrow> ms \<Rightarrow> server \<Rightarrow>
    server \<times> (http_error + occupy_response)" where
  "route_occupy cfg f uuid now sv =
    (case service_occupy f uuid now sv of
      (sv, Inl e) \<Rightarrow> (sv, Inl e)
    | (sv, Inr (occ, d)) \<Rightarrow>
        (sv, Inr \<lparr>or_occupantId = occ, or_device = toPublicDevice d, or_expiresAt = occupationExpiresAt cfg d\<rparr>))"

definition route_keepalive :: "server_config \<Rightarrow> string \<Rightarrow> string \<Rightarrow> ms \<Rightarrow> server \<Rightarrow>
    server \<times> (http_error + keepalive_response)" where
  "route_keepalive cfg i occ now sv =
    (case service_renewOccupation i occ now sv of
      (sv, Inl e) \<Rightarrow> (sv, Inl e)
    | (sv, Inr d) \<Rightarrow> (sv, Inr \<lparr>kr_device = toPublicDevice d, kr_expiresAt = occupationExpiresAt cfg d\<rparr>))"

definition route_getById :: "string \<Rightarrow> server \<Rightarrow> http_error + public_device" where
  "route_getById i sv = map_sum id toPublicDevice (service_getById i sv)"

definition route_release :: "wire \<Rightarrow> string \<Rightarrow> string \<Rightarrow> server \<Rightarrow>
    server \<times> effect list \<times> (http_error + public_device)" where
  "route_release w i occ sv =
    (let (sv, effs, r) = service_release w i occ sv in (sv, effs, map_sum id toPublicDevice r))"

section \<open>Commands\<close>

text \<open>What \<open>execute\<close> does up to its \<open>await\<close>: it throws, or waits for the outcome.\<close>

datatype execution = Threw http_error | Finished "http_error + json option" | Waiting

definition finish_command :: "command_outcome \<Rightarrow> http_error + json option" where
  "finish_command outcome = (case outcome of
      Failed e \<Rightarrow>
        if e = command_error_unsupported then Inl Action_unsupported
        else if e = command_error_timeout then Inl Device_timed_out
        else Inl (Device_command_failed e)
    | Succeeded result \<Rightarrow> Inr result)"

definition sendToAgent :: "wire \<Rightarrow> string \<Rightarrow> string \<Rightarrow> string \<Rightarrow> string \<Rightarrow> device_action \<Rightarrow> server \<Rightarrow>
    server \<times> effect list \<times> execution" where
  "sendToAgent w rid agentId i occ action sv =
    (case sendCommand w rid agentId i occ action (sv_gateway sv) of
      (gw, effs, AgentNotConnected) \<Rightarrow> (sv\<lparr>sv_gateway := gw\<rparr>, effs, Threw Agent_tunnel_missing)
    | (gw, effs, Immediate outcome) \<Rightarrow> (sv\<lparr>sv_gateway := gw\<rparr>, effs, Finished (finish_command outcome))
    | (gw, effs, Awaiting) \<Rightarrow> (sv\<lparr>sv_gateway := gw\<rparr>, effs, Waiting))"

definition execute :: "wire \<Rightarrow> ms \<Rightarrow> string \<Rightarrow> string \<Rightarrow> string \<Rightarrow> device_action \<Rightarrow> server \<Rightarrow>
    server \<times> effect list \<times> execution" where
  "execute w now rid i occ action sv =
    (case service_getById i sv of
      Inl e \<Rightarrow> (sv, [], Threw e)
    | Inr d \<Rightarrow>
        if d_occupantId d \<noteq> Some occ then (sv, [], Threw Not_occupant_of_device)
        else if d_status d \<noteq> Online \<or> \<not> truthy (d_agentId d) then (sv, [], Threw Device_offline)
        else case service_renewOccupation i occ now sv of
          (sv, Inl e) \<Rightarrow> (sv, [], Threw e)
        | (sv, Inr _) \<Rightarrow> sendToAgent w rid (the (d_agentId d)) i occ action sv)"

definition toUiDumpResult :: "json option \<Rightarrow> http_error + json" where
  "toUiDumpResult result = (case Option.bind result asRecord of
      None \<Rightarrow> Inl Bad_ui_dump
    | Some r \<Rightarrow> (case (jget r ''ok'', jget r ''tree'') of
          (Some (JBool b), Some (JStr tree)) \<Rightarrow> Inr (JObj [(''ok'', JBool b), (''tree'', JStr tree)])
        | _ \<Rightarrow> Inl Bad_ui_dump))"

definition toScreenshotResult :: "json option \<Rightarrow> http_error + json" where
  "toScreenshotResult result = (case Option.bind result asRecord of
      None \<Rightarrow> Inl Bad_screenshot
    | Some r \<Rightarrow> (case (jget r ''ok'', jget r ''jpegBase64'', jget r ''coordWidth'', jget r ''coordHeight'') of
          (Some (JBool b), Some (JStr jpeg), Some (JNum cw), Some (JNum ch)) \<Rightarrow>
            Inr (JObj [(''ok'', JBool b), (''jpegBase64'', JStr jpeg), (''coordWidth'', JNum cw),
                       (''coordHeight'', JNum ch)])
        | _ \<Rightarrow> Inl Bad_screenshot))"

text \<open>
  The bodies of the action routes with the bounds their class-validator decorators state
  (\<open>IsNumber\<close> refuses NaN and infinities; \<open>IsOptional\<close> skips the checks of a missing value).
\<close>

definition max_coordinate :: int where "max_coordinate = 10000"
definition max_text_length :: nat where "max_text_length = 4000"
definition max_swipe_duration_ms :: int where "max_swipe_duration_ms = 5000"
definition default_swipe_duration_ms :: int where "default_swipe_duration_ms = 300"

datatype action_dto =
    TapDto jsnum jsnum
  | SwipeDto jsnum jsnum jsnum jsnum "jsnum option"
  | TypeTextDto string
  | UiDumpDto
  | ScreenshotDto
  | PressButtonDto hardware_button

definition valid_coordinate :: "jsnum \<Rightarrow> bool" where
  "valid_coordinate x \<longleftrightarrow> is_finite_num x \<and> js_leq (num 0) x \<and> js_leq x (num max_coordinate)"

fun valid_dto :: "action_dto \<Rightarrow> bool" where
  "valid_dto (TapDto x y) = (valid_coordinate x \<and> valid_coordinate y)"
| "valid_dto (SwipeDto fx fy tx ty d) =
    (valid_coordinate fx \<and> valid_coordinate fy \<and> valid_coordinate tx \<and> valid_coordinate ty \<and>
     (case d of None \<Rightarrow> True
      | Some n \<Rightarrow> is_integer_num n \<and> js_leq (num 1) n \<and> js_leq n (num max_swipe_duration_ms)))"
| "valid_dto (TypeTextDto t) = (length t \<le> max_text_length)"
| "valid_dto UiDumpDto = True"
| "valid_dto ScreenshotDto = True"
| "valid_dto (PressButtonDto _) = True"

fun action_of_dto :: "action_dto \<Rightarrow> device_action" where
  "action_of_dto (TapDto x y) = Tap x y"
| "action_of_dto (SwipeDto fx fy tx ty d) =
    Swipe fx fy tx ty (case d of Some n \<Rightarrow> n | None \<Rightarrow> num default_swipe_duration_ms)"
| "action_of_dto (TypeTextDto t) = TypeText t"
| "action_of_dto UiDumpDto = UiDump"
| "action_of_dto ScreenshotDto = Screenshot"
| "action_of_dto (PressButtonDto b) = PressButton b"

text \<open>The answer of an action route to a finished command.\<close>

definition route_result :: "action_dto \<Rightarrow> http_error + json option \<Rightarrow> http_error + json option" where
  "route_result dto finished = (case finished of
      Inl e \<Rightarrow> Inl e
    | Inr result \<Rightarrow> (case dto of
          UiDumpDto \<Rightarrow> map_sum id Some (toUiDumpResult result)
        | ScreenshotDto \<Rightarrow> map_sum id Some (toScreenshotResult result)
        | _ \<Rightarrow> Inr result))"

section \<open>What ending occupations does to the rest of the server\<close>

abbreviation sv_viewers :: "server \<Rightarrow> viewers" where
  "sv_viewers sv \<equiv> st_viewers (sv_streams sv)"

abbreviation sv_pending :: "server \<Rightarrow> (string, pending_command) jsmap" where
  "sv_pending sv \<equiv> gw_pending (sv_gateway sv)"

definition base_inv :: "server \<Rightarrow> bool" where
  "base_inv sv \<longleftrightarrow> viewers_inv (sv_viewers sv) \<and> pend_inv (sv_gateway sv)"

lemma base_invD [dest]: "base_inv sv \<Longrightarrow> viewers_inv (sv_viewers sv) \<and> pend_inv (sv_gateway sv)"
  by (simp add: base_inv_def)

text \<open>
  \<open>cleared V C a b effs\<close>: from \<open>a\<close> to \<open>b\<close> exactly the viewers of the occupations in \<open>V\<close> and the
  waiting commands of those in \<open>C\<close> are gone; the registry is untouched and every promise is settled.
\<close>

type_synonym occupation = "string \<times> string"

definition cleared :: "occupation set \<Rightarrow> occupation set \<Rightarrow> server \<Rightarrow> server \<Rightarrow> effect list \<Rightarrow> bool" where
  "cleared V C a b effs \<longleftrightarrow>
    sv_db b = sv_db a \<and> sv_listeners b = sv_listeners a \<and> viewers_inv (sv_viewers b) \<and>
    (\<forall>j t. viewing (sv_viewers b) j t =
      (case viewing (sv_viewers a) j t of None \<Rightarrow> None | Some occ \<Rightarrow> if (j, occ) \<in> V then None else Some occ)) \<and>
    (\<forall>rid. jget (sv_pending b) rid =
      (case jget (sv_pending a) rid of
        None \<Rightarrow> None
      | Some p \<Rightarrow> if (pc_deviceId p, pc_occupantId p) \<in> C then None else Some p)) \<and>
    settles (sv_gateway a) (sv_gateway b) effs {} \<and>
    gw_sockets (sv_gateway b) = gw_sockets (sv_gateway a)"

lemma settles_trans:
  assumes "settles a b e1 {}" and "settles b c e2 {}"
  shows "settles a c (e1 @ e2) {}"
  using assms unfolding settles_def by auto

lemma cleared_refl: "base_inv a \<Longrightarrow> cleared {} {} a a []"
  by (auto simp: cleared_def intro!: settles_same split: option.split)

lemma cleared_trans:
  assumes "cleared V C a b e1" and "cleared V' C' b c e2"
  shows "cleared (V \<union> V') (C \<union> C') a c (e1 @ e2)"
proof -
  have "settles (sv_gateway a) (sv_gateway c) (e1 @ e2) {}"
    using assms settles_trans unfolding cleared_def by blast
  with assms show ?thesis
    unfolding cleared_def by (auto split: option.split if_splits)
qed

lemma cleared_base: "cleared V C a b effs \<Longrightarrow> base_inv b"
  by (auto simp: cleared_def base_inv_def settles_def)

lemma notify_demand_resolved [simp]: "resolved (notify_demand w ids sv) = []"
  by (simp add: notify_demand_def)

lemma close_effects_resolved: "resolved (fst (snd (closeViewers w i occ ccode reason v))) = []"
proof -
  have "resolved (map (\<lambda>p. Close (fst p) ccode reason) xs) = []" for xs :: "(socket \<times> string) list"
    by (induction xs) simp_all
  then show ?thesis
    by (auto simp: closeViewers_def close_loop_eq split: option.split)
qed

lemma stream_revoke_cleared:
  assumes "base_inv sv"
  shows "cleared {(oe_deviceId ev, oe_occupantId ev)} {} sv (fst (stream_revoke w ev sv)) (snd (stream_revoke w ev sv))"
proof -
  let ?c = "closeViewers w (oe_deviceId ev) (oe_occupantId ev) viewer_close_occupation_ended
             (close_reason (oe_reason ev)) (sv_viewers sv)"
  obtain v effs ids where c: "?c = (v, effs, ids)" by (cases ?c) auto
  have inv: "viewers_inv (sv_viewers sv)" using assms by blast
  have "viewers_inv v" using viewers_inv_closeViewers [OF inv] c by (metis fst_conv)
  moreover have "viewing v j t = (if j = oe_deviceId ev \<and> viewing (sv_viewers sv) j t = Some (oe_occupantId ev)
      then None else viewing (sv_viewers sv) j t)" for j t
    using viewing_closeViewers [OF inv, of w "oe_deviceId ev" "oe_occupantId ev" viewer_close_occupation_ended
      "close_reason (oe_reason ev)" j t] c by auto
  moreover have "resolved effs = []"
    using close_effects_resolved [of w "oe_deviceId ev" "oe_occupantId ev" viewer_close_occupation_ended
      "close_reason (oe_reason ev)" "sv_viewers sv"] c by simp
  ultimately show ?thesis
    using assms unfolding stream_revoke_def c
    by (auto simp: cleared_def Let_def intro!: settles_same split: option.split)
qed

lemma command_revoke_cleared:
  assumes "base_inv sv"
  shows "cleared {} {(oe_deviceId ev, oe_occupantId ev)} sv (fst (command_revoke w ev sv)) (snd (command_revoke w ev sv))"
proof -
  let ?a = "agentIdOf ev sv"
  obtain gw effs where r: "revokeOccupancy w (oe_deviceId ev) (oe_occupantId ev) ?a (sv_gateway sv) = (gw, effs)"
    by (cases "revokeOccupancy w (oe_deviceId ev) (oe_occupantId ev) ?a (sv_gateway sv)")
  have pend: "pend_inv (sv_gateway sv)" using assms by blast
  then have wf: "jwf (sv_pending sv)" by (simp add: pend_inv_def)
  have gw: "gw = fst (failPendingByOccupation (oe_deviceId ev) (oe_occupantId ev) (sv_gateway sv))"
    using r by (auto simp: revokeOccupancy_def Let_def split_def split: option.splits if_splits)
  have "settles (sv_gateway sv) gw effs {}"
    using revokeOccupancy_settles [OF pend] r by (metis fst_conv snd_conv)
  moreover have "jget (gw_pending gw) rid = (case jget (sv_pending sv) rid of
        None \<Rightarrow> None
      | Some p \<Rightarrow> if pc_deviceId p = oe_deviceId ev \<and> pc_occupantId p = oe_occupantId ev then None else Some p)" for rid
    unfolding gw failPendingByOccupation_def by (rule fail_matching_pending [OF wf])
  moreover have "gw_sockets gw = gw_sockets (sv_gateway sv)"
    unfolding gw by (simp add: failPendingByOccupation_def fail_matching_def Let_def)
  ultimately show ?thesis
    using assms unfolding command_revoke_def r
    by (auto simp: cleared_def split: option.split)
qed

lemma call_listener_cleared:
  assumes "base_inv sv"
  shows "cleared (if l = Stream_revocation then {(oe_deviceId ev, oe_occupantId ev)} else {})
    (if l = Command_revocation then {(oe_deviceId ev, oe_occupantId ev)} else {})
    sv (fst (call_listener w ev l sv)) (snd (call_listener w ev l sv))"
  using stream_revoke_cleared [OF assms] command_revoke_cleared [OF assms] by (cases l) simp_all

text \<open>Handlers in turn clear the union of what each clears.\<close>

lemma in_turn_cleared:
  assumes "base_inv a"
    and "\<And>x s. x \<in> set xs \<Longrightarrow> base_inv s \<Longrightarrow> sv_listeners s = sv_listeners a \<Longrightarrow>
      cleared (V x) (C x) s (fst (f x s)) (snd (f x s))"
  shows "cleared (\<Union>x\<in>set xs. V x) (\<Union>x\<in>set xs. C x) a (fst (in_turn f xs a)) (snd (in_turn f xs a))"
  using assms
proof (induction xs arbitrary: a)
  case Nil
  then show ?case by (simp add: cleared_refl)
next
  case (Cons x xs)
  obtain b e where b: "f x a = (b, e)" by (cases "f x a")
  from Cons.prems(2) [of x a] Cons.prems(1) b have one: "cleared (V x) (C x) a b e" by simp
  then have "base_inv b" "sv_listeners b = sv_listeners a"
    by (auto simp: cleared_base) (simp add: cleared_def)
  then have "cleared (\<Union>x\<in>set xs. V x) (\<Union>x\<in>set xs. C x) b (fst (in_turn f xs b)) (snd (in_turn f xs b))"
    using Cons.prems(2) by (intro Cons.IH) auto
  from cleared_trans [OF one this] b show ?case by (simp add: split_def Let_def)
qed

lemma publishEnded_cleared:
  assumes "base_inv sv" and "set (sv_listeners sv) = {Stream_revocation, Command_revocation}"
  shows "cleared {(oe_deviceId ev, oe_occupantId ev)} {(oe_deviceId ev, oe_occupantId ev)}
    sv (fst (publishEnded w ev sv)) (snd (publishEnded w ev sv))"
proof -
  let ?p = "(oe_deviceId ev, oe_occupantId ev)"
  have "cleared (\<Union>l\<in>set (sv_listeners sv). if l = Stream_revocation then {?p} else {})
      (\<Union>l\<in>set (sv_listeners sv). if l = Command_revocation then {?p} else {})
      sv (fst (in_turn (call_listener w ev) (sv_listeners sv) sv)) (snd (in_turn (call_listener w ev) (sv_listeners sv) sv))"
    by (rule in_turn_cleared [OF assms(1)]) (rule call_listener_cleared)
  then show ?thesis unfolding publishEnded_def assms(2) by simp
qed

definition ended_pairs :: "ended_occupation list \<Rightarrow> occupation set" where
  "ended_pairs es = (\<lambda>e. (eo_deviceId e, eo_occupantId e)) ` set es"

definition stale_pairs :: "stale_device list \<Rightarrow> occupation set" where
  "stale_pairs ds = {(sd_deviceId d, occ) | d occ. d \<in> set ds \<and> sd_occupantId d = Some occ \<and> occ \<noteq> []}"

lemma idle_sweep_cleared:
  assumes "base_inv sv" and "set (sv_listeners sv) = {Stream_revocation, Command_revocation}"
    and "expireIdleOccupations (now - cf_occupationTtlMs cfg) (sv_db sv) = (db, ended)"
  shows "cleared (ended_pairs ended) (ended_pairs ended) (sv\<lparr>sv_db := db\<rparr>)
    (fst (service_expireIdleOccupations cfg w now sv)) (fst (snd (service_expireIdleOccupations cfg w now sv)))"
proof -
  let ?f = "\<lambda>occupation. publishEnded w
              \<lparr>oe_deviceId = eo_deviceId occupation, oe_occupantId = eo_occupantId occupation,
               oe_reason = Reason_idle_expired\<rparr>"
  have base: "base_inv (sv\<lparr>sv_db := db\<rparr>)" using assms(1) by (simp add: base_inv_def)
  have "cleared (\<Union>e\<in>set ended. {(eo_deviceId e, eo_occupantId e)}) (\<Union>e\<in>set ended. {(eo_deviceId e, eo_occupantId e)})
      (sv\<lparr>sv_db := db\<rparr>) (fst (in_turn ?f ended (sv\<lparr>sv_db := db\<rparr>))) (snd (in_turn ?f ended (sv\<lparr>sv_db := db\<rparr>)))"
  proof (rule in_turn_cleared [OF base])
    fix e s
    assume "base_inv s" "sv_listeners s = sv_listeners (sv\<lparr>sv_db := db\<rparr>)"
    then show "cleared {(eo_deviceId e, eo_occupantId e)} {(eo_deviceId e, eo_occupantId e)} s (fst (?f e s)) (snd (?f e s))"
      using publishEnded_cleared [of s "\<lparr>oe_deviceId = eo_deviceId e, oe_occupantId = eo_occupantId e,
               oe_reason = Reason_idle_expired\<rparr>" w] assms(2) by simp
  qed
  moreover have "(\<Union>e\<in>set ended. {(eo_deviceId e, eo_occupantId e)}) = ended_pairs ended"
    by (auto simp: ended_pairs_def)
  ultimately show ?thesis
    using assms(3) by (simp add: service_expireIdleOccupations_def split_def Let_def)
qed

lemma stale_sweep_cleared:
  assumes "base_inv sv" and "set (sv_listeners sv) = {Stream_revocation, Command_revocation}"
    and "markStaleOffline (now - cf_heartbeatTimeoutMs cfg) (sv_db sv) = (db, stale)"
  shows "cleared (stale_pairs stale) (stale_pairs stale) (sv\<lparr>sv_db := db\<rparr>)
    (fst (service_expireStaleDevices cfg w now sv)) (fst (snd (service_expireStaleDevices cfg w now sv)))"
proof -
  let ?ev = "\<lambda>d. \<lparr>oe_deviceId = sd_deviceId d, oe_occupantId = the (sd_occupantId d), oe_reason = Reason_agent_stale\<rparr>"
  let ?f = "\<lambda>d sv. if \<not> truthy (sd_occupantId d) then (sv, []) else publishEnded w (?ev d) sv"
  let ?P = "\<lambda>d. if truthy (sd_occupantId d) then {(sd_deviceId d, the (sd_occupantId d))} else {}"
  have base: "base_inv (sv\<lparr>sv_db := db\<rparr>)" using assms(1) by (simp add: base_inv_def)
  have "cleared (\<Union>d\<in>set stale. ?P d) (\<Union>d\<in>set stale. ?P d)
      (sv\<lparr>sv_db := db\<rparr>) (fst (in_turn ?f stale (sv\<lparr>sv_db := db\<rparr>))) (snd (in_turn ?f stale (sv\<lparr>sv_db := db\<rparr>)))"
  proof (rule in_turn_cleared [OF base])
    fix d s
    assume s: "base_inv s" "sv_listeners s = sv_listeners (sv\<lparr>sv_db := db\<rparr>)"
    then show "cleared (?P d) (?P d) s (fst (?f d s)) (snd (?f d s))"
      using publishEnded_cleared [of s "?ev d" w] assms(2) cleared_refl [OF s(1)] by simp
  qed
  moreover have "(\<Union>d\<in>set stale. ?P d) = stale_pairs stale"
    by (auto simp: stale_pairs_def truthy_iff split: if_splits)
  ultimately show ?thesis
    using assms(3) by (simp add: service_expireStaleDevices_def split_def Let_def)
qed

section \<open>The server's steps\<close>

text \<open>
  One handler of the running server: a WebSocket event, a timer, a sweep, or an HTTP route. The
  answers of the routes are those of the functions above; here they matter by what they change.
  \<open>None\<close> is an exception nobody catches, which ends the process.
\<close>

datatype server_event =
    Viewer_connects socket handshake ms
  | Viewer_closes socket
  | Agent_connects string socket handshake ms
  | Agent_sends socket tunnel_data ms
  | Agent_closes socket
  | Command_timer string
  | Http_occupy occupy_filter string ms
  | Http_release string string
  | Http_keepalive string string ms
  | Http_command string string string action_dto ms
  | Occupancy_sweep ms
  | Heartbeat_sweep ms

fun server_step :: "server_config \<Rightarrow> wire \<Rightarrow> server_event \<Rightarrow> server \<Rightarrow> (server \<times> effect list) option" where
  "server_step cfg w (Viewer_connects s request now) sv =
    (let (st, effs, notified) = viewer_connect (cf_env cfg) (sv_db sv) now s request (sv_streams sv);
         sv = sv\<lparr>sv_streams := st\<rparr>
     in Some (sv, effs @ notify_demand w notified sv))"
| "server_step cfg w (Viewer_closes s) sv =
    (let (st, notified) = viewer_disconnect s (sv_streams sv);
         sv = sv\<lparr>sv_streams := st\<rparr>
     in Some (sv, notify_demand w notified sv))"
| "server_step cfg w (Agent_connects uuid s request now) sv =
    (let (gw, effs) = agent_connect (cf_env cfg) now uuid s request (sv_gateway sv)
     in Some (sv\<lparr>sv_gateway := gw\<rparr>, effs))"
| "server_step cfg w (Agent_sends s data now) sv =
    (case agent_receive w now (sv_viewers sv) s data (sv_db sv) (sv_gateway sv) of
      Inl e \<Rightarrow> None
    | Inr (db, gw, effs) \<Rightarrow> Some (sv\<lparr>sv_db := db, sv_gateway := gw\<rparr>, effs))"
| "server_step cfg w (Agent_closes s) sv =
    (let (db, gw, effs) = agent_disconnect s (sv_db sv) (sv_gateway sv)
     in Some (sv\<lparr>sv_db := db, sv_gateway := gw\<rparr>, effs))"
| "server_step cfg w (Command_timer rid) sv =
    (let (gw, effs) = command_timer_fires rid (sv_gateway sv) in Some (sv\<lparr>sv_gateway := gw\<rparr>, effs))"
| "server_step cfg w (Http_occupy f uuid now) sv = Some (fst (route_occupy cfg f uuid now sv), [])"
| "server_step cfg w (Http_release i occ) sv =
    (let (sv, effs, r) = route_release w i occ sv in Some (sv, effs))"
| "server_step cfg w (Http_keepalive i occ now) sv = Some (fst (route_keepalive cfg i occ now sv), [])"
| "server_step cfg w (Http_command rid i occ dto now) sv =
    (if \<not> valid_dto dto then Some (sv, [])
     else let (sv, effs, r) = execute w now rid i occ (action_of_dto dto) sv in Some (sv, effs))"
| "server_step cfg w (Occupancy_sweep now) sv = Some (occupancy_sweep cfg w now sv)"
| "server_step cfg w (Heartbeat_sweep now) sv = Some (heartbeat_sweep cfg w now sv)"

text \<open>The server after bootstrap, on the table of the database file.\<close>

definition server_init :: "device_table \<Rightarrow> server" where
  "server_init db =
    onEnded Command_revocation (onEnded Stream_revocation
      \<lparr>sv_db = db, sv_streams = \<lparr>st_viewers = [], st_limiter = [], st_attached = []\<rparr>,
       sv_gateway = gateway_init, sv_listeners = []\<rparr>)"

text \<open>The id of the command a step leaves waiting for its outcome.\<close>

fun issued_by :: "wire \<Rightarrow> server_event \<Rightarrow> server \<Rightarrow> string set" where
  "issued_by w (Http_command rid i occ dto now) sv =
    (if valid_dto dto \<and> snd (snd (execute w now rid i occ (action_of_dto dto) sv)) = Waiting then {rid} else {})"
| "issued_by w _ sv = {}"

text \<open>The UUIDs a handler draws are non-empty, and a request id is not drawn twice.\<close>

fun event_ok :: "string set \<Rightarrow> server_event \<Rightarrow> bool" where
  "event_ok issued (Http_occupy _ uuid _) \<longleftrightarrow> uuid \<noteq> []"
| "event_ok issued (Http_command rid _ _ _ _) \<longleftrightarrow> rid \<notin> issued"
| "event_ok issued _ \<longleftrightarrow> True"

text \<open>Reachable servers, with the commands issued and all effects so far.\<close>

inductive reaches :: "server_config \<Rightarrow> string set \<Rightarrow> effect list \<Rightarrow> server \<Rightarrow> bool" for cfg where
  boot: "table_inv db \<Longrightarrow> reaches cfg {} [] (server_init db)"
| step: "\<lbrakk>reaches cfg issued out sv; event_ok issued ev; server_step cfg w ev sv = Some (sv', effs)\<rbrakk> \<Longrightarrow>
    reaches cfg (issued \<union> issued_by w ev sv) (out @ effs) sv'"

section \<open>The invariant: nobody but the holder\<close>

definition granted_to_holder :: "occupation set \<Rightarrow> server \<Rightarrow> bool" where
  "granted_to_holder E sv \<longleftrightarrow>
    (\<forall>i s occ. viewing (sv_viewers sv) i s = Some occ \<longrightarrow> holder_of (sv_db sv) i = Some occ \<or> (i, occ) \<in> E) \<and>
    (\<forall>rid p. jget (sv_pending sv) rid = Some p \<longrightarrow>
      holder_of (sv_db sv) (pc_deviceId p) = Some (pc_occupantId p) \<or> (pc_deviceId p, pc_occupantId p) \<in> E)"

definition server_inv :: "server \<Rightarrow> bool" where
  "server_inv sv \<longleftrightarrow> table_inv (sv_db sv) \<and> base_inv sv \<and>
    set (sv_listeners sv) = {Stream_revocation, Command_revocation} \<and> granted_to_holder {} sv"

lemma cleared_viewing:
  assumes "cleared V C a b effs" and "viewing (sv_viewers b) j t = Some occ"
  shows "viewing (sv_viewers a) j t = Some occ \<and> (j, occ) \<notin> V"
proof -
  have "viewing (sv_viewers b) j t =
      (case viewing (sv_viewers a) j t of None \<Rightarrow> None | Some occ \<Rightarrow> if (j, occ) \<in> V then None else Some occ)"
    using assms(1) by (simp add: cleared_def)
  with assms(2) show ?thesis by (auto split: option.splits if_splits)
qed

lemma cleared_pending:
  assumes "cleared V C a b effs" and "jget (sv_pending b) rid = Some p"
  shows "jget (sv_pending a) rid = Some p \<and> (pc_deviceId p, pc_occupantId p) \<notin> C"
proof -
  have "jget (sv_pending b) rid = (case jget (sv_pending a) rid of
        None \<Rightarrow> None
      | Some p \<Rightarrow> if (pc_deviceId p, pc_occupantId p) \<in> C then None else Some p)"
    using assms(1) by (simp add: cleared_def)
  with assms(2) show ?thesis by (auto split: option.splits if_splits)
qed

lemma cleared_granted:
  assumes "cleared P P a b effs" and "granted_to_holder P a"
  shows "granted_to_holder {} b"
proof -
  have "sv_db b = sv_db a" using assms(1) by (simp add: cleared_def)
  with assms(2) cleared_viewing [OF assms(1)] cleared_pending [OF assms(1)] show ?thesis
    unfolding granted_to_holder_def by (metis empty_iff)
qed

lemma server_inv_cleared:
  assumes "cleared P P (sv\<lparr>sv_db := db\<rparr>) sv' effs" and "server_inv sv" and "table_inv db"
    and "\<And>i occ. holder_of (sv_db sv) i = Some occ \<Longrightarrow> holder_of db i = Some occ \<or> (i, occ) \<in> P"
  shows "server_inv sv'"
proof -
  have "granted_to_holder P (sv\<lparr>sv_db := db\<rparr>)"
    using assms(2, 4) by (fastforce simp: server_inv_def granted_to_holder_def)
  with assms cleared_granted [OF assms(1)] cleared_base [OF assms(1)] show ?thesis
    by (simp add: server_inv_def cleared_def)
qed

text \<open>Changing the registry without ending an occupation, or the gateway without adding a command.\<close>

lemma server_inv_db:
  assumes "server_inv sv" and "table_inv db" and "\<And>i occ. holder_of (sv_db sv) i = Some occ \<Longrightarrow> holder_of db i = Some occ"
  shows "server_inv (sv\<lparr>sv_db := db\<rparr>)"
  using assms by (fastforce simp: server_inv_def granted_to_holder_def base_inv_def)

lemma server_inv_gateway:
  assumes "server_inv sv" and "settles (sv_gateway sv) gw effs {}"
    and "\<And>rid p. jget (gw_pending gw) rid = Some p \<Longrightarrow> jget (sv_pending sv) rid = Some p"
  shows "server_inv (sv\<lparr>sv_gateway := gw\<rparr>)"
  using assms by (fastforce simp: server_inv_def granted_to_holder_def base_inv_def settles_def)

lemma server_inv_init: "table_inv db \<Longrightarrow> server_inv (server_init db)"
  by (auto simp: server_inv_def server_init_def onEnded_def base_inv_def granted_to_holder_def viewing_def
      gateway_init_def pend_inv_def pending_ids_def jkeys_def)

lemma base_inv_simps [simp]:
  "base_inv (sv\<lparr>sv_db := db\<rparr>) = base_inv sv"
  by (simp add: base_inv_def)

lemma server_invD:
  assumes "server_inv sv"
  shows "table_inv (sv_db sv)" "base_inv sv" "pend_inv (sv_gateway sv)" "viewers_inv (sv_viewers sv)"
    "set (sv_listeners sv) = {Stream_revocation, Command_revocation}"
    "viewing (sv_viewers sv) i s = Some occ \<Longrightarrow> holder_of (sv_db sv) i = Some occ"
    "jget (sv_pending sv) rid = Some p \<Longrightarrow> holder_of (sv_db sv) (pc_deviceId p) = Some (pc_occupantId p)"
  using assms by (auto simp: server_inv_def granted_to_holder_def)

lemma settles_refl: "pend_inv gw \<Longrightarrow> settles gw gw [] {}"
  by (rule settles_same) simp_all

text \<open>Replacing the viewers by others, all of them held by their occupant.\<close>

lemma server_inv_streams:
  assumes "server_inv sv" and "viewers_inv (st_viewers st)"
    and "\<And>i s occ. viewing (st_viewers st) i s = Some occ \<Longrightarrow> holder_of (sv_db sv) i = Some occ"
  shows "server_inv (sv\<lparr>sv_streams := st\<rparr>)"
  using assms by (auto simp: server_inv_def granted_to_holder_def base_inv_def)

lemma inv_viewer_connects:
  assumes "server_inv sv" and "viewer_connect config (sv_db sv) now s request (sv_streams sv) = (st, effs, ids)"
  shows "server_inv (sv\<lparr>sv_streams := st\<rparr>)" and "resolved effs = []"
proof -
  note inv = server_invD [OF assms(1)]
  have "st_viewers st = sv_viewers sv \<or>
    (\<exists>i occ. st_viewers st = fst (addViewer i occ s (sv_viewers sv)) \<and> holder_of (sv_db sv) i = Some occ)"
    using assms(2)
    by (auto simp: viewer_connect_def Let_def isOccupant_iff truthy_iff split: if_splits prod.splits)
  then show "server_inv (sv\<lparr>sv_streams := st\<rparr>)"
    using inv(6) viewers_inv_addViewer [OF inv(4)]
    by (intro server_inv_streams [OF assms(1)]) (auto simp: inv(4) viewing_addViewer split: if_splits)
  show "resolved effs = []"
    using assms(2) by (auto simp: viewer_connect_def Let_def split: if_splits prod.splits)
qed

lemma inv_viewer_closes:
  assumes "server_inv sv" and "viewer_disconnect s (sv_streams sv) = (st, ids)"
  shows "server_inv (sv\<lparr>sv_streams := st\<rparr>)"
proof -
  note inv = server_invD [OF assms(1)]
  have "st_viewers st = sv_viewers sv \<or> (\<exists>i. st_viewers st = fst (removeViewer i s (sv_viewers sv)))"
    using assms(2)
    by (auto simp: viewer_disconnect_def Let_def split: option.splits if_splits prod.splits) (metis fst_conv)
  then show ?thesis
    using inv(6) viewers_inv_removeViewer [OF inv(4)]
    by (intro server_inv_streams [OF assms(1)]) (auto simp: inv(4) viewing_removeViewer split: if_splits)
qed

lemma settles_pending_subset:
  "settles gw gw' effs {} \<Longrightarrow> rid \<in> pending_ids gw' \<Longrightarrow> rid \<in> pending_ids gw"
  by (auto simp: settles_def)

lemma agent_receive_db:
  assumes "table_inv db" and "agent_receive w now v s data db gw = Inr (db', gw', effs)"
  shows "table_inv db'" and "holder_of db' = holder_of db"
    and "jget (gw_pending gw') rid = Some p \<Longrightarrow> jget (gw_pending gw) rid = Some p"
  using assms
  by (auto simp: agent_receive_def handleMessage_def Let_def resolveCommand_def holder_of_repo fun_eq_iff
      table_inv_upsertMany table_inv_heartbeat repo.holder_register repo.holder_hb
      split: option.splits if_splits tunnel_data.splits agent_message.splits sum.splits)

lemma agent_disconnect_db:
  assumes "table_inv db" and "pend_inv gw" and "agent_disconnect s db gw = (db', gw', effs)"
  shows "table_inv db'" and "holder_of db' = holder_of db"
    and "jget (gw_pending gw') rid = Some p \<Longrightarrow> jget (gw_pending gw) rid = Some p"
proof -
  have db: "db' = db \<or> (\<exists>a. db' = markAgentOffline a db)"
    using assms(3) by (auto simp: agent_disconnect_def Let_def split: option.splits if_splits prod.splits)
  then show "table_inv db'" and "holder_of db' = holder_of db"
    using assms(1) by (auto simp: table_inv_markAgentOffline holder_of_repo fun_eq_iff repo.holder_off)
  have wf: "jwf (gw_pending gw)" using assms(2) by (simp add: pend_inv_def)
  have sub: "jget (gw_pending (fst (fail_matching P err (gw\<lparr>gw_sockets := k, gw_capabilities := c\<rparr>)))) rid = Some p \<Longrightarrow>
      jget (gw_pending gw) rid = Some p" for P err k c
    using wf by (subst (asm) fail_matching_pending) (auto split: option.splits if_splits)
  show "jget (gw_pending gw') rid = Some p \<Longrightarrow> jget (gw_pending gw) rid = Some p"
    using assms(3) sub unfolding agent_disconnect_def failPendingCommands_def Let_def split_def
    by (auto split: option.splits if_splits) (metis fst_conv)
qed

lemma inv_occupy:
  assumes "server_inv sv" and "uuid \<noteq> []"
  shows "server_inv (fst (route_occupy cfg f uuid now sv))"
    and "sv_gateway (fst (route_occupy cfg f uuid now sv)) = sv_gateway sv"
proof -
  note inv = server_invD [OF assms(1)]
  obtain db d where t: "tryOccupy f uuid now (sv_db sv) = (db, d)" by (cases "tryOccupy f uuid now (sv_db sv)")
  have r: "fst (route_occupy cfg f uuid now sv) = sv\<lparr>sv_db := db\<rparr>"
    by (cases d) (simp_all add: route_occupy_def service_occupy_def t)
  have "holder_of (sv_db sv) i = Some occ \<Longrightarrow> holder_of db i = Some occ" for i occ
    using repo.holder_occupy [OF inv(1), of f uuid now i] repo.occupy_target_free(1) [OF inv(1), of f uuid now db] t
    by (cases d) (auto simp: holder_of_repo split: if_splits)
  moreover have "table_inv db" using table_inv_tryOccupy [OF inv(1) assms(2), of f now] t by simp
  ultimately show "server_inv (fst (route_occupy cfg f uuid now sv))"
    unfolding r by (intro server_inv_db [OF assms(1)])
  show "sv_gateway (fst (route_occupy cfg f uuid now sv)) = sv_gateway sv" unfolding r by simp
qed

lemma inv_renew:
  assumes "server_inv sv" and "service_renewOccupation i occ now sv = (sv', res)"
  shows "server_inv sv'" and "sv_gateway sv' = sv_gateway sv" and "holder_of (sv_db sv') = holder_of (sv_db sv)"
proof -
  note inv = server_invD [OF assms(1)]
  have db: "sv' = sv\<lparr>sv_db := fst (renewOccupation i occ now (sv_db sv))\<rparr>"
    using assms(2) by (auto simp: service_renewOccupation_def split: prod.splits renew_result.splits)
  show h: "holder_of (sv_db sv') = holder_of (sv_db sv)"
    unfolding db by (simp add: holder_of_repo fun_eq_iff repo.holder_renew [OF inv(1)])
  show "server_inv sv'"
    using table_inv_renew [OF inv(1)] h unfolding db by (intro server_inv_db [OF assms(1)]) simp_all
  show "sv_gateway sv' = sv_gateway sv" by (simp add: db)
qed

lemma inv_execute:
  assumes "server_inv sv" and "execute w now rid i occ act sv = (sv', effs, r)"
  shows "server_inv sv'"
    and "settles (sv_gateway sv) (sv_gateway sv') effs (if r = Waiting then {rid} else {})"
    and "holder_of (sv_db sv') = holder_of (sv_db sv)"
proof -
  note inv = server_invD [OF assms(1)]
  have same: "server_inv sv' \<and> settles (sv_gateway sv) (sv_gateway sv') effs (if r = Waiting then {rid} else {}) \<and>
      holder_of (sv_db sv') = holder_of (sv_db sv)"
    if "sv' = s1" "effs = []" "r = Threw e" "server_inv s1" "sv_gateway s1 = sv_gateway sv"
      "holder_of (sv_db s1) = holder_of (sv_db sv)" for s1 e
    using that settles_refl [OF inv(3)] by simp
  have "server_inv sv' \<and> settles (sv_gateway sv) (sv_gateway sv') effs (if r = Waiting then {rid} else {}) \<and>
      holder_of (sv_db sv') = holder_of (sv_db sv)"
  proof (cases "service_getById i sv")
    case (Inl e)
    with assms same [of sv e] show ?thesis by (simp add: execute_def)
  next
    case (Inr d)
    show ?thesis
    proof (cases "d_occupantId d \<noteq> Some occ \<or> d_status d \<noteq> Online \<or> \<not> truthy (d_agentId d)")
      case True
      with Inr assms same [of sv] show ?thesis by (auto simp: execute_def split: if_splits)
    next
      case False
      obtain s1 res where ren: "service_renewOccupation i occ now sv = (s1, res)"
        by (cases "service_renewOccupation i occ now sv")
      note r1 = inv_renew [OF assms(1) ren]
      show ?thesis
      proof (cases res)
        case (Inl e)
        with Inr False ren assms(2) same [of s1 e] r1 show ?thesis by (simp add: execute_def)
      next
        case (Inr d')
        have send: "sendToAgent w rid (the (d_agentId d)) i occ act s1 = (sv', effs, r)"
          using \<open>service_getById i sv = Inr d\<close> False ren Inr assms(2) by (simp add: execute_def)
        obtain gw e1 sr where g: "sendCommand w rid (the (d_agentId d)) i occ act (sv_gateway s1) = (gw, e1, sr)"
          by (cases "sendCommand w rid (the (d_agentId d)) i occ act (sv_gateway s1)") auto
        have sv': "sv' = s1\<lparr>sv_gateway := gw\<rparr>" "effs = e1" "r = Waiting \<longleftrightarrow> sr = Awaiting"
          using send g by (auto simp: sendToAgent_def split: send_result.splits)
        have pend: "pend_inv (sv_gateway s1)" using r1(2) inv(3) by simp
        have settle: "settles (sv_gateway sv) gw e1 (if sr = Awaiting then {rid} else {})"
          using sendCommand_settles [OF pend, of w rid "the (d_agentId d)" i occ act] g r1(2) by simp
        have hold: "holder_of (sv_db sv) i = Some occ"
          using \<open>service_getById i sv = Inr d\<close> False
          by (auto simp: service_getById_def holder_of_def split: option.splits)
        have gp: "gw_pending gw = gw_pending (sv_gateway s1) \<or>
            gw_pending gw = jset rid \<lparr>pc_agentId = the (d_agentId d), pc_deviceId = i, pc_occupantId = occ\<rparr>
              (gw_pending (sv_gateway s1))"
          using g by (auto simp: sendCommand_def split: option.splits if_splits)
        have "server_inv (s1\<lparr>sv_gateway := gw\<rparr>)"
          using r1(1) settle gp hold r1(3)
          by (auto simp: server_inv_def granted_to_holder_def base_inv_def settles_def split: if_splits)
        with sv' settle r1(3) show ?thesis by simp
      qed
    qed
  qed
  then show "server_inv sv'"
    and "settles (sv_gateway sv) (sv_gateway sv') effs (if r = Waiting then {rid} else {})"
    and "holder_of (sv_db sv') = holder_of (sv_db sv)" by blast+
qed

lemma inv_release:
  assumes "server_inv sv" and "service_release w i occ sv = (sv', effs, r)"
  shows "server_inv sv'" and "settles (sv_gateway sv) (sv_gateway sv') effs {}"
proof -
  note inv = server_invD [OF assms(1)]
  obtain db res where rel: "release i occ (sv_db sv) = (db, res)" by (cases "release i occ (sv_db sv)")
  have tab: "table_inv db" using table_inv_release [OF inv(1), of i occ] rel by simp
  have hold: "holder_of db j = (if j = i \<and> holder_of (sv_db sv) i = Some occ then None else holder_of (sv_db sv) j)" for j
    using repo.holder_rel [OF inv(1), of i occ j] rel by (simp add: holder_of_repo)
  have "server_inv sv' \<and> settles (sv_gateway sv) (sv_gateway sv') effs {}"
  proof (cases res)
    case (ReleaseFailed e)
    have "spec_holder i occ (findById (sv_db sv)) \<noteq> None"
      using repo.rel_result [OF inv(1), of i occ] rel ReleaseFailed by (auto split: option.splits)
    then have "holder_of (sv_db sv) i \<noteq> Some occ"
      by (auto simp: spec_holder_def holder_of_def split: option.splits)
    then have "server_inv (sv\<lparr>sv_db := db\<rparr>)"
      using tab hold by (intro server_inv_db [OF assms(1)]) auto
    with assms(2) rel ReleaseFailed settles_refl [OF inv(3)] show ?thesis
      by (auto simp: service_release_def)
  next
    case Released
    let ?ev = "\<lparr>oe_deviceId = i, oe_occupantId = occ, oe_reason = Reason_released\<rparr>"
    have "base_inv (sv\<lparr>sv_db := db\<rparr>)" using inv(2) by simp
    from publishEnded_cleared [OF this, of ?ev w] inv(5)
    have c: "cleared {(i, occ)} {(i, occ)} (sv\<lparr>sv_db := db\<rparr>) (fst (publishEnded w ?ev (sv\<lparr>sv_db := db\<rparr>)))
        (snd (publishEnded w ?ev (sv\<lparr>sv_db := db\<rparr>)))" by simp
    have sv': "sv' = fst (publishEnded w ?ev (sv\<lparr>sv_db := db\<rparr>))" "effs = snd (publishEnded w ?ev (sv\<lparr>sv_db := db\<rparr>))"
      using assms(2) rel Released by (auto simp: service_release_def split: prod.splits)
    have "holder_of db j = Some b \<or> (j, b) \<in> {(i, occ)}" if "holder_of (sv_db sv) j = Some b" for j b
      using that hold [of j] by (auto split: if_splits)
    then have "server_inv sv'"
      unfolding sv'(1) using server_inv_cleared [OF c assms(1) tab] by blast
    moreover have "settles (sv_gateway sv) (sv_gateway sv') effs {}"
      using c unfolding sv' cleared_def by simp
    ultimately show ?thesis ..
  qed
  then show "server_inv sv'" and "settles (sv_gateway sv) (sv_gateway sv') effs {}" by blast+
qed

lemma inv_occupancy_sweep:
  assumes "server_inv sv" and "occupancy_sweep cfg w now sv = (sv', effs)"
  shows "server_inv sv'" and "settles (sv_gateway sv) (sv_gateway sv') effs {}"
proof -
  note inv = server_invD [OF assms(1)]
  let ?c = "now - cf_occupationTtlMs cfg"
  obtain db ended where e: "expireIdleOccupations ?c (sv_db sv) = (db, ended)"
    by (cases "expireIdleOccupations ?c (sv_db sv)")
  from idle_sweep_cleared [OF inv(2, 5) e, of w]
  have c: "cleared (ended_pairs ended) (ended_pairs ended) (sv\<lparr>sv_db := db\<rparr>) sv' effs"
    using assms(2) by (simp add: occupancy_sweep_def split_def Let_def)
  have "holder_of db i = Some occ \<or> (i, occ) \<in> ended_pairs ended" if "holder_of (sv_db sv) i = Some occ" for i occ
  proof (cases "holder_of db i")
    case None
    then have "\<lparr>eo_deviceId = i, eo_occupantId = occ\<rparr> \<in> set ended"
      using repo.expire_reports [OF inv(1), of i occ ?c] that e by (simp add: holder_of_repo)
    then show ?thesis by (force simp: ended_pairs_def)
  next
    case (Some b)
    then show ?thesis
      using repo.holder_expire [OF inv(1), of ?c i] that e
      by (auto simp: holder_of_repo repo.holder_def split: option.splits if_splits)
  qed
  moreover have "table_inv db" using table_inv_expireIdle [OF inv(1), of ?c] e by simp
  ultimately show "server_inv sv'" using server_inv_cleared [OF c assms(1)] by blast
  show "settles (sv_gateway sv) (sv_gateway sv') effs {}" using c by (simp add: cleared_def)
qed

lemma inv_heartbeat_sweep:
  assumes "server_inv sv" and "heartbeat_sweep cfg w now sv = (sv', effs)"
  shows "server_inv sv'" and "settles (sv_gateway sv) (sv_gateway sv') effs {}"
proof -
  note inv = server_invD [OF assms(1)]
  let ?c = "now - cf_heartbeatTimeoutMs cfg"
  obtain db stale where e: "markStaleOffline ?c (sv_db sv) = (db, stale)"
    by (cases "markStaleOffline ?c (sv_db sv)")
  from stale_sweep_cleared [OF inv(2, 5) e, of w]
  have c: "cleared (stale_pairs stale) (stale_pairs stale) (sv\<lparr>sv_db := db\<rparr>) sv' effs"
    using assms(2) by (simp add: heartbeat_sweep_def split_def Let_def)
  have "holder_of db i = Some occ \<or> (i, occ) \<in> stale_pairs stale" if h: "holder_of (sv_db sv) i = Some occ" for i occ
  proof (cases "holder_of db i")
    case None
    then have "\<lparr>sd_deviceId = i, sd_occupantId = Some occ\<rparr> \<in> set stale"
      using repo.stale_reports [OF inv(1), of i occ ?c] h e by (simp add: holder_of_repo)
    moreover have "occ \<noteq> []" using h findById_holder [OF inv(1)] by (auto simp: holder_of_def bind_eq_Some_conv)
    ultimately show ?thesis by (force simp: stale_pairs_def)
  next
    case (Some b)
    then show ?thesis
      using repo.holder_stale [OF inv(1), of ?c i] h e
      by (auto simp: holder_of_repo repo.holder_def split: option.splits if_splits)
  qed
  moreover have "table_inv db" using table_inv_markStale [OF inv(1), of ?c] e by simp
  ultimately show "server_inv sv'" using server_inv_cleared [OF c assms(1)] by blast
  show "settles (sv_gateway sv) (sv_gateway sv') effs {}" using c by (simp add: cleared_def)
qed

lemma server_step_total: "\<exists>r. server_step cfg w ev sv = Some r"
proof (cases ev)
  case (Agent_sends s data now)
  then show ?thesis
    using agent_receive_total [of w now "sv_viewers sv" s data "sv_db sv" "sv_gateway sv"]
    by (auto split: prod.split)
qed (auto simp: split_def Let_def)

lemma server_inv_db_gateway:
  assumes "server_inv sv" and "table_inv db" and "holder_of db = holder_of (sv_db sv)"
    and "settles (sv_gateway sv) gw effs {}"
    and "\<And>rid p. jget (gw_pending gw) rid = Some p \<Longrightarrow> jget (sv_pending sv) rid = Some p"
  shows "server_inv (sv\<lparr>sv_db := db, sv_gateway := gw\<rparr>)"
proof -
  have "server_inv (sv\<lparr>sv_gateway := gw\<rparr>)" by (rule server_inv_gateway [OF assms(1, 4, 5)])
  with assms(2, 3) have "server_inv (sv\<lparr>sv_gateway := gw\<rparr>\<lparr>sv_db := db\<rparr>)"
    by (intro server_inv_db) simp_all
  moreover have "sv\<lparr>sv_gateway := gw\<rparr>\<lparr>sv_db := db\<rparr> = sv\<lparr>sv_db := db, sv_gateway := gw\<rparr>"
    by (cases sv) simp
  ultimately show ?thesis by metis
qed

lemma settles_gateway_only:
  "pend_inv gw \<Longrightarrow> resolved effs = [] \<Longrightarrow> settles gw gw effs {}"
  by (rule settles_same) simp_all

lemma agent_connect_pending: "gw_pending (fst (agent_connect config now u s r gw)) = gw_pending gw"
  by (auto simp: agent_connect_def Let_def split: option.split)

lemma timer_pending_subset:
  "jget (gw_pending (fst (command_timer_fires rid gw))) r = Some p \<Longrightarrow> jget (gw_pending gw) r = Some p"
  by (auto simp: command_timer_fires_def split: if_splits)

lemma step_keeps_inv:
  assumes "server_inv sv" and "event_ok issued ev" and "server_step cfg w ev sv = Some (sv', effs)"
  shows "server_inv sv' \<and> settles (sv_gateway sv) (sv_gateway sv') effs (issued_by w ev sv)"
proof -
  note inv = server_invD [OF assms(1)]
  show ?thesis
  proof (cases ev)
    case (Viewer_connects s request now)
    obtain st e ids where v: "viewer_connect (cf_env cfg) (sv_db sv) now s request (sv_streams sv) = (st, e, ids)"
      by (cases "viewer_connect (cf_env cfg) (sv_db sv) now s request (sv_streams sv)") auto
    from inv_viewer_connects [OF assms(1) v] assms(3) inv(3) show ?thesis
      by (auto simp: Viewer_connects v Let_def intro!: settles_gateway_only)
  next
    case (Viewer_closes s)
    obtain st ids where v: "viewer_disconnect s (sv_streams sv) = (st, ids)"
      by (cases "viewer_disconnect s (sv_streams sv)")
    from inv_viewer_closes [OF assms(1) v] assms(3) inv(3) show ?thesis
      by (auto simp: Viewer_closes v Let_def intro!: settles_gateway_only)
  next
    case (Agent_connects uuid s request now)
    let ?c = "agent_connect (cf_env cfg) now uuid s request (sv_gateway sv)"
    have set: "settles (sv_gateway sv) (fst ?c) (snd ?c) {}" by (rule agent_connect_settles [OF inv(3)])
    from server_inv_gateway [OF assms(1) this] set assms(3) show ?thesis
      by (auto simp: Agent_connects split_def Let_def agent_connect_pending)
  next
    case (Agent_sends s data now)
    with assms(3) obtain db gw where r:
      "agent_receive w now (sv_viewers sv) s data (sv_db sv) (sv_gateway sv) = Inr (db, gw, effs)"
      "sv' = sv\<lparr>sv_db := db, sv_gateway := gw\<rparr>"
      by (auto split: sum.splits)
    have set: "settles (sv_gateway sv) gw effs {}" by (rule agent_receive_settles [OF inv(3) r(1)])
    from server_inv_db_gateway [OF assms(1) agent_receive_db(1, 2) [OF inv(1) r(1)] set
        agent_receive_db(3) [OF inv(1) r(1)]] set r(2) show ?thesis
      by (simp add: Agent_sends)
  next
    case (Agent_closes s)
    obtain db gw e where r: "agent_disconnect s (sv_db sv) (sv_gateway sv) = (db, gw, e)"
      by (cases "agent_disconnect s (sv_db sv) (sv_gateway sv)") auto
    have set: "settles (sv_gateway sv) gw e {}"
      using agent_disconnect_settles [OF inv(3), of s "sv_db sv"] r by simp
    from server_inv_db_gateway [OF assms(1) agent_disconnect_db(1, 2) [OF inv(1, 3) r] set
        agent_disconnect_db(3) [OF inv(1, 3) r]] set r assms(3) show ?thesis
      by (auto simp: Agent_closes)
  next
    case (Command_timer rid)
    let ?c = "command_timer_fires rid (sv_gateway sv)"
    have set: "settles (sv_gateway sv) (fst ?c) (snd ?c) {}" by (rule timer_settles [OF inv(3)])
    from server_inv_gateway [OF assms(1) this timer_pending_subset] set assms(3) show ?thesis
      by (auto simp: Command_timer split_def Let_def)
  next
    case (Http_occupy f uuid now)
    with assms inv_occupy [OF assms(1)] inv(3) show ?thesis by (auto intro: settles_refl)
  next
    case (Http_release i occ)
    obtain s1 e r where v: "service_release w i occ sv = (s1, e, r)" by (cases "service_release w i occ sv") auto
    from inv_release [OF assms(1) v] assms(3) show ?thesis
      by (auto simp: Http_release route_release_def v Let_def)
  next
    case (Http_keepalive i occ now)
    obtain s1 res where v: "service_renewOccupation i occ now sv = (s1, res)"
      by (cases "service_renewOccupation i occ now sv")
    from inv_renew [OF assms(1) v] inv(3) assms(3) show ?thesis
      by (cases res) (auto simp: Http_keepalive route_keepalive_def v intro: settles_refl)
  next
    case (Http_command rid i occ dto now)
    obtain s1 e r where v: "execute w now rid i occ (action_of_dto dto) sv = (s1, e, r)"
      by (cases "execute w now rid i occ (action_of_dto dto) sv") auto
    from inv_execute [OF assms(1) v] inv(3) assms(1, 3) show ?thesis
      by (auto simp: Http_command v intro: settles_refl split: if_splits)
  next
    case (Occupancy_sweep now)
    with assms(3) inv_occupancy_sweep [OF assms(1), of cfg w now sv' effs] show ?thesis by simp
  next
    case (Heartbeat_sweep now)
    with assms(3) inv_heartbeat_sweep [OF assms(1), of cfg w now sv' effs] show ?thesis by simp
  qed
qed

lemma reaches_inv: "reaches cfg issued out sv \<Longrightarrow> server_inv sv"
proof (induction rule: reaches.induct)
  case (boot db)
  then show ?case by (rule server_inv_init)
next
  case (step issued out sv ev w sv' effs)
  from step_keeps_inv [OF step.IH step.hyps(2, 3)] show ?case by blast
qed

lemma reaches_accounts:
  "reaches cfg issued out sv \<Longrightarrow> distinct (resolved out) \<and>
    set (resolved out) \<inter> pending_ids (sv_gateway sv) = {} \<and>
    set (resolved out) \<union> pending_ids (sv_gateway sv) = issued"
proof (induction rule: reaches.induct)
  case (boot db)
  then show ?case by (simp add: server_init_def onEnded_def gateway_init_def pending_ids_def jkeys_def)
next
  case (step issued out sv ev w sv' effs)
  have new: "issued_by w ev sv \<inter> issued = {}"
    using step.hyps(2) by (cases ev) auto
  from step_keeps_inv [OF reaches_inv [OF step.hyps(1)] step.hyps(2, 3)]
  have s: "distinct (resolved effs)" "set (resolved effs) \<inter> pending_ids (sv_gateway sv') = {}"
    "set (resolved effs) \<union> pending_ids (sv_gateway sv') = pending_ids (sv_gateway sv) \<union> issued_by w ev sv"
    by (simp_all add: settles_def)
  have "set (resolved out) \<inter> set (resolved effs) = {}" and "set (resolved out) \<inter> pending_ids (sv_gateway sv') = {}"
    using s(3) step.IH new by blast+
  with s step.IH show ?case by auto
qed

section \<open>Properties of the server\<close>

lemma access_only_by_holder_parts:
  assumes "reaches cfg issued out sv"
  shows "viewing (st_viewers (sv_streams sv)) i s = Some occ \<Longrightarrow> holder_of (sv_db sv) i = Some occ"
    and "jget (gw_pending (sv_gateway sv)) rid = Some p \<Longrightarrow>
      holder_of (sv_db sv) (pc_deviceId p) = Some (pc_occupantId p)"
    and "table_inv (sv_db sv)"
  using server_invD [OF reaches_inv [OF assms]] by simp_all

text \<open>
  C1: In every reachable server only the current holder of a device has access to it: each registered
  viewer connected under the occupation that holds its device now, and each command waiting for an
  answer was issued under the occupation that holds its device now.
\<close>

theorem access_only_by_holder:
  assumes "reaches cfg issued out sv"
  shows "((viewing (st_viewers (sv_streams sv)) i s = Some occ) \<longrightarrow>
      (holder_of (sv_db sv) i = Some occ)) \<and>
    ((jget (gw_pending (sv_gateway sv)) rid = Some p) \<longrightarrow>
      (holder_of (sv_db sv) (pc_deviceId p) = Some (pc_occupantId p))) \<and>
    (table_inv (sv_db sv))"
  by (rule conjI, rule impI, rule access_only_by_holder_parts(1) [OF assms], assumption+,
    rule conjI, rule impI, rule access_only_by_holder_parts(2) [OF assms], assumption+,
    rule access_only_by_holder_parts(3) [OF assms])

definition sample_cfg :: server_config where
  "sample_cfg = \<lparr>cf_env = sample_env, cf_occupationTtlMs = 600000, cf_heartbeatTimeoutMs = 90000\<rparr>"

definition viewer_request :: handshake where
  "viewer_request = \<lparr>hs_remoteIp = None,
     hs_query = [(''deviceId'', ''d1''), (''occupantId'', ''occ''), (''token'', ''0123456789abcdef01234567'')],
     hs_authorization = None\<rparr>"

definition viewed_server :: server where
  "viewed_server = fst (the (server_step sample_cfg sample_wire (Viewer_connects 2 viewer_request 20)
    (server_init (repo_run sample_ops []))))"

lemma viewed_server_step:
  "server_step sample_cfg sample_wire (Viewer_connects 2 viewer_request 20)
    (server_init (repo_run sample_ops [])) = Some (viewed_server, [])"
  by (simp add: viewed_server_def server_init_def onEnded_def sample_cfg_def viewer_connect_def isBlocked_def
      viewer_request_def query_param_def truthy_def sample_env_def isTokenEqual_iff isOccupant_iff sample_run
      holder_of_def findById_row_of addViewer_def notify_demand_def demand_listener_def sendStreamDemandFor_def
      agentIdOfDevice_def getById_def gateway_init_def)

lemma viewed_server_reached: "reaches sample_cfg {} [] viewed_server"
proof -
  have "reaches sample_cfg {} [] (server_init (repo_run sample_ops []))"
    by (rule reaches.boot) (rule sample_run_inv)
  from reaches.step [OF this _ viewed_server_step] show ?thesis by simp
qed

lemma viewed_server_viewing: "viewing (st_viewers (sv_streams viewed_server)) ''d1'' 2 = Some ''occ''"
proof -
  have "viewed_server = (server_init (repo_run sample_ops []))\<lparr>sv_streams :=
      fst (viewer_connect sample_env (repo_run sample_ops []) 20 2 viewer_request
        (sv_streams (server_init (repo_run sample_ops []))))\<rparr>"
    by (simp add: viewed_server_def split_def Let_def sample_cfg_def server_init_def onEnded_def)
  show ?thesis
    unfolding \<open>viewed_server = _\<close>
    by (simp add: server_init_def onEnded_def viewer_connect_def isBlocked_def
      viewer_request_def query_param_def truthy_def sample_env_def isTokenEqual_iff isOccupant_iff sample_run
      holder_of_def findById_row_of addViewer_def viewing_def)
qed

theorem access_only_by_holder_witness: "holder_of (sv_db viewed_server) ''d1'' = Some ''occ''"
  by (rule access_only_by_holder [OF viewed_server_reached, THEN conjunct1, rule_format, OF viewed_server_viewing])

lemma commands_answered_once_parts:
  assumes "reaches cfg issued out sv"
  shows "distinct (resolved out)"
    and "set (resolved out) \<inter> pending_ids (sv_gateway sv) = {}"
    and "set (resolved out) \<union> pending_ids (sv_gateway sv) = issued"
    and "rid \<in> pending_ids (sv_gateway sv) \<Longrightarrow>
      server_step cfg w (Command_timer rid) sv = Some
        (sv\<lparr>sv_gateway := (sv_gateway sv)\<lparr>gw_pending := jdel rid (gw_pending (sv_gateway sv)),
            gw_timers := filter (\<lambda>r. r \<noteq> rid) (gw_timers (sv_gateway sv))\<rparr>\<rparr>,
         [Resolve rid (Failed ''timeout'')])"
proof -
  from reaches_accounts [OF assms] show "distinct (resolved out)"
    and "set (resolved out) \<inter> pending_ids (sv_gateway sv) = {}"
    and "set (resolved out) \<union> pending_ids (sv_gateway sv) = issued" by simp_all
  assume "rid \<in> pending_ids (sv_gateway sv)"
  then have "rid \<in> set (gw_timers (sv_gateway sv))"
    using server_invD(3) [OF reaches_inv [OF assms]] by (simp add: pend_inv_def)
  then show "server_step cfg w (Command_timer rid) sv = Some
        (sv\<lparr>sv_gateway := (sv_gateway sv)\<lparr>gw_pending := jdel rid (gw_pending (sv_gateway sv)),
            gw_timers := filter (\<lambda>r. r \<noteq> rid) (gw_timers (sv_gateway sv))\<rparr>\<rparr>,
         [Resolve rid (Failed ''timeout'')])"
    by (simp add: command_timer_fires_def command_error_timeout_def)
qed

text \<open>
  C2: Every command the server sends is answered exactly once: the promises resolved so far and the
  commands still waiting together are the commands issued, without overlap and without a promise
  resolved twice; a waiting command has its timer armed, and the timer firing answers it.
\<close>

theorem commands_answered_once:
  assumes "reaches cfg issued out sv"
  shows "(distinct (resolved out)) \<and>
    (set (resolved out) \<inter> pending_ids (sv_gateway sv) = {}) \<and>
    (set (resolved out) \<union> pending_ids (sv_gateway sv) = issued) \<and>
    ((rid \<in> pending_ids (sv_gateway sv)) \<longrightarrow>
      (server_step cfg w (Command_timer rid) sv = Some
        (sv\<lparr>sv_gateway := (sv_gateway sv)\<lparr>gw_pending := jdel rid (gw_pending (sv_gateway sv)),
            gw_timers := filter (\<lambda>r. r \<noteq> rid) (gw_timers (sv_gateway sv))\<rparr>\<rparr>,
         [Resolve rid (Failed ''timeout'')])))"
  by (rule conjI, rule commands_answered_once_parts(1) [OF assms],
    rule conjI, rule commands_answered_once_parts(2) [OF assms],
    rule conjI, rule commands_answered_once_parts(3) [OF assms],
    rule impI, rule commands_answered_once_parts(4) [OF assms], assumption+)

theorem commands_answered_once_witness: "{} \<union> pending_ids (sv_gateway viewed_server) = {}"
  using commands_answered_once [OF viewed_server_reached, THEN conjunct2, THEN conjunct2, THEN conjunct1] by simp

text \<open>
  C4: No event, whatever a peer sends, makes a handler throw out of the process: every event has a
  next state, in which the invariants of registry, viewers and waiting commands hold.
\<close>

theorem server_survives_every_event:
  assumes "reaches cfg issued out sv" and "event_ok issued ev"
  shows "\<exists>sv' effs. server_step cfg w ev sv = Some (sv', effs) \<and>
    table_inv (sv_db sv') \<and> viewers_inv (st_viewers (sv_streams sv')) \<and> pend_inv (sv_gateway sv')"
proof -
  obtain sv' effs where s: "server_step cfg w ev sv = Some (sv', effs)"
    using server_step_total [of cfg w ev sv] by auto
  from step_keeps_inv [OF reaches_inv [OF assms(1)] assms(2) s] s show ?thesis
    using server_invD by blast
qed

theorem server_survives_every_event_witness:
  "\<exists>sv' effs. server_step sample_cfg sample_wire (Agent_sends 7 (Binary sample_data) 30) viewed_server = Some (sv', effs) \<and>
    table_inv (sv_db sv') \<and> viewers_inv (st_viewers (sv_streams sv')) \<and> pend_inv (sv_gateway sv')"
  by (rule server_survives_every_event [OF viewed_server_reached]) simp

text \<open>
  C3: A frame that leaves the server leaves it on a socket registered under the occupation that holds,
  at this moment, the device the frame shows; it came over the current connection of the Agent that
  owns that device, and the viewer decodes what that Agent encoded.
\<close>

theorem frames_reach_only_the_holder:
  assumes "reaches cfg issued out sv" and "server_step cfg w (Agent_sends c (Binary data) now) sv = Some (sv', effs)"
    and "SendBytes s b \<in> set effs"
  shows "\<exists>f occ a. decodeAgentFrame data = Some f \<and>
    viewing (st_viewers (sv_streams sv)) (af_deviceId f) s = Some occ \<and>
    holder_of (sv_db sv) (af_deviceId f) = Some occ \<and>
    jget (gw_sockets (sv_gateway sv)) a = Some c \<and> agentIdOfDevice (sv_db sv) (af_deviceId f) = Some a \<and>
    decodeViewerFrame b = Some (viewer_of_agent_frame f)"
proof -
  from assms(2) obtain db gw where r:
    "agent_receive w now (sv_viewers sv) c (Binary data) (sv_db sv) (sv_gateway sv) = Inr (db, gw, effs)"
    by (auto split: sum.splits)
  from receive_authentic(2) [OF r assms(3)] obtain a f where f:
    "jget (gw_attached (sv_gateway sv)) c = Some a" "jget (gw_sockets (sv_gateway sv)) a = Some c"
    "decodeAgentFrame data = Some f" "agentIdOfDevice (sv_db sv) (af_deviceId f) = Some a"
    "viewing (sv_viewers sv) (af_deviceId f) s \<noteq> None" by auto
  from f(5) obtain occ where occ: "viewing (sv_viewers sv) (af_deviceId f) s = Some occ" by auto
  from server_invD(6) [OF reaches_inv [OF assms(1)] occ]
  have "holder_of (sv_db sv) (af_deviceId f) = Some occ" .
  moreover have "decodeViewerFrame b = Some (viewer_of_agent_frame f)"
  proof -
    from viewer_encode_of_agent [OF f(3)] obtain payload where p:
      "encodeViewerFrame (viewer_of_agent_frame f) = Inr payload"
      "decodeViewerFrame payload = Some (viewer_of_agent_frame f)" by blast
    from r f(1-4) have "broadcast w f (sv_viewers sv) = Inr effs"
      by (auto simp: agent_receive_def handleFrame_def ownsDevice_def agentIdOfDevice_def
          split: option.splits if_splits sum.splits)
    with p assms(3) show ?thesis
      by (auto simp: broadcast_def deliver_in split: option.splits)
  qed
  ultimately show ?thesis using f occ by blast
qed

definition streaming_server :: server where
  "streaming_server = fst (the (server_step sample_cfg sample_wire
    (Agent_connects ''u'' 0 \<lparr>hs_remoteIp = None, hs_query = [(''agentId'', ''agent''),
       (''token'', ''fedcba9876543210fedcba98'')], hs_authorization = None\<rparr> 30) viewed_server))"

definition d1_data :: bytes where
  "d1_data = [2, 100, 49, 2, 1, 5, 10, 10, 236, 0, 0, 0, 1, 9]"

lemma viewed_server_eq:
  "viewed_server =
    \<lparr>sv_db = repo_run sample_ops [],
     sv_streams = \<lparr>st_viewers = [(''d1'', [(2, ''occ'')])], st_limiter = [], st_attached = [(2, ''d1'')]\<rparr>,
     sv_gateway = gateway_init, sv_listeners = [Stream_revocation, Command_revocation]\<rparr>"
  by (simp add: viewed_server_def server_init_def onEnded_def viewer_connect_def isBlocked_def sample_cfg_def
      viewer_request_def query_param_def truthy_def sample_env_def isTokenEqual_iff isOccupant_iff sample_run
      holder_of_def findById_row_of addViewer_def Let_def)

lemma streaming_server_eq:
  "server_step sample_cfg sample_wire
    (Agent_connects ''u'' 0 \<lparr>hs_remoteIp = None, hs_query = [(''agentId'', ''agent''),
       (''token'', ''fedcba9876543210fedcba98'')], hs_authorization = None\<rparr> 30) viewed_server =
    Some (streaming_server, [])"
  "streaming_server = viewed_server\<lparr>sv_gateway :=
     gateway_init\<lparr>gw_sockets := [(''agent'', 0)], gw_attached := [(0, ''agent'')]\<rparr>\<rparr>"
  by (simp_all add: streaming_server_def viewed_server_eq agent_connect_def isBlocked_def gateway_init_def
      isAuthorized_def sample_cfg_def sample_env_def truthy_def extractBearerToken_def query_param_def
      isTokenEqual_iff resolveAgentId_def is_agent_id_def matches_class_def agent_id_char_def is_alnum_def code_def)

theorem frames_reach_only_the_holder_witness: "\<exists>occ. holder_of (sv_db streaming_server) ''d1'' = Some occ"
proof -
  have reach: "reaches sample_cfg {} [] streaming_server"
    using reaches.step [OF viewed_server_reached _ streaming_server_eq(1)] by simp
  define frame where "frame = \<lparr>af_deviceId = ''d1'', af_format = 2, af_isKey = True, af_width = num 1290,
    af_height = num 2796, af_stampMs = num 1, af_payload = [9]\<rparr>"
  have dec: "decodeAgentFrame d1_data = Some frame"
    by (simp add: d1_data_def frame_def decodeAgentFrame_def text_decode_def is_device_id_def
      matches_class_def device_id_char_def is_alnum_def code_def isFrameFormat_def frame_format_h264_def
      rd16_def rd32_def num_def max_dimension_def char_of_eq_iff)
  from viewer_encode_of_agent [OF dec] obtain payload where p:
    "encodeViewerFrame (viewer_of_agent_frame frame) = Inr payload" by blast
  have fields: "af_deviceId frame = ''d1''" "af_isKey frame" by (simp_all add: frame_def)
  have "server_step sample_cfg sample_wire (Agent_sends 0 (Binary d1_data) 40) streaming_server =
      Some (streaming_server, [SendBytes 2 payload])"
    by (simp add: streaming_server_eq(2) viewed_server_eq gateway_init_def agent_receive_def handleFrame_def dec
      ownsDevice_def getById_def sample_run findById_row_of broadcast_def p fields jkeys_def deliver_def
      sample_wire_def viewer_terminate_bytes_def)
  from frames_reach_only_the_holder [OF reach this, of 2 payload] dec
  show ?thesis by (auto simp: frame_def)
qed

lemma execute_outcome_parts:
  assumes "table_inv (sv_db sv)" and "execute w now rid i occ act sv = (sv', effs, r)"
  shows "findById (sv_db sv) i = None \<Longrightarrow> (sv', effs, r) = (sv, [], Threw Device_not_found)"
    and "findById (sv_db sv) i = Some d \<Longrightarrow> d_occupantId d \<noteq> Some occ \<Longrightarrow>
      (sv', effs, r) = (sv, [], Threw Not_occupant_of_device)"
    and "findById (sv_db sv) i = Some d \<Longrightarrow> d_occupantId d = Some occ \<Longrightarrow>
      d_status d \<noteq> Online \<or> \<not> truthy (d_agentId d) \<Longrightarrow> (sv', effs, r) = (sv, [], Threw Device_offline)"
    and "findById (sv_db sv) i = Some d \<Longrightarrow> d_occupantId d = Some occ \<Longrightarrow> d_status d = Online \<Longrightarrow>
      d_agentId d = Some a \<Longrightarrow> a \<noteq> [] \<Longrightarrow>
      findById (sv_db sv') = (findById (sv_db sv))(i \<mapsto> d\<lparr>d_lastActivityAt := Some now\<rparr>) \<and>
      (case jget (gw_sockets (sv_gateway sv)) a of
        None \<Rightarrow> effs = [] \<and> r = Threw Agent_tunnel_missing
      | Some s \<Rightarrow>
          if \<not> is_open w s then effs = [] \<and> r = Threw Agent_tunnel_missing
          else if action_kind act \<notin> set (capabilities_of (sv_gateway sv) a)
          then effs = [] \<and> r = Finished (Inl Action_unsupported)
          else effs = [SendText s (json_of_server_message (Command rid i occ act))] \<and> r = Waiting)"
proof -
  show "findById (sv_db sv) i = None \<Longrightarrow> (sv', effs, r) = (sv, [], Threw Device_not_found)"
    and "findById (sv_db sv) i = Some d \<Longrightarrow> d_occupantId d \<noteq> Some occ \<Longrightarrow>
      (sv', effs, r) = (sv, [], Threw Not_occupant_of_device)"
    and "findById (sv_db sv) i = Some d \<Longrightarrow> d_occupantId d = Some occ \<Longrightarrow>
      d_status d \<noteq> Online \<or> \<not> truthy (d_agentId d) \<Longrightarrow> (sv', effs, r) = (sv, [], Threw Device_offline)"
    using assms(2) by (auto simp: execute_def service_getById_def)
  assume d: "findById (sv_db sv) i = Some d" "d_occupantId d = Some occ" "d_status d = Online"
    "d_agentId d = Some a" "a \<noteq> []"
  have ok: "spec_holder i occ (findById (sv_db sv)) = None"
    using d by (simp add: spec_holder_def)
  obtain db res where ren: "renewOccupation i occ now (sv_db sv) = (db, res)"
    by (cases "renewOccupation i occ now (sv_db sv)")
  have res: "res = Renewed" using repo.renew_result [OF assms(1), of i occ now] ok ren by simp
  have find: "findById db = (findById (sv_db sv))(i \<mapsto> d\<lparr>d_lastActivityAt := Some now\<rparr>)"
    using repo.find_renew [OF assms(1), of i occ now] ok ren d(1) by (simp add: spec_update_def)
  then have serv: "service_renewOccupation i occ now sv =
      (sv\<lparr>sv_db := db\<rparr>, Inr (d\<lparr>d_lastActivityAt := Some now\<rparr>))"
    using ren res by (simp add: service_renewOccupation_def service_getById_def)
  have send: "sendToAgent w rid a i occ act (sv\<lparr>sv_db := db\<rparr>) = (sv', effs, r)"
    using assms(2) d serv by (simp add: execute_def service_getById_def truthy_def)
  then show "findById (sv_db sv') = (findById (sv_db sv))(i \<mapsto> d\<lparr>d_lastActivityAt := Some now\<rparr>) \<and>
      (case jget (gw_sockets (sv_gateway sv)) a of
        None \<Rightarrow> effs = [] \<and> r = Threw Agent_tunnel_missing
      | Some s \<Rightarrow>
          if \<not> is_open w s then effs = [] \<and> r = Threw Agent_tunnel_missing
          else if action_kind act \<notin> set (capabilities_of (sv_gateway sv) a)
          then effs = [] \<and> r = Finished (Inl Action_unsupported)
          else effs = [SendText s (json_of_server_message (Command rid i occ act))] \<and> r = Waiting)"
    using find
    by (auto simp: sendToAgent_def sendCommand_def finish_command_def split: option.splits if_splits)
qed

text \<open>
  What the route that waits for request \<open>rid\<close> answers to the effects of a step: the continuation of
  \<open>execute\<close> and of its route, run when the promise is resolved.
\<close>

definition answers :: "action_dto \<Rightarrow> string \<Rightarrow> effect list \<Rightarrow> (http_error + json option) list" where
  "answers dto rid effs = List.map_filter (\<lambda>e. case e of
      Resolve r out \<Rightarrow> if r = rid then Some (route_result dto (finish_command out)) else None
    | _ \<Rightarrow> None) effs"

lemma answers_Resolve [simp]: "answers dto rid [Resolve rid out] = [route_result dto (finish_command out)]"
  by (simp add: answers_def List.map_filter_def)

lemma answers_Resolves:
  "distinct hit \<Longrightarrow> answers dto rid (map (\<lambda>r. Resolve r out) hit) =
    (if rid \<in> set hit then [route_result dto (finish_command out)] else [])"
  by (induction hit) (auto simp: answers_def List.map_filter_def)

lemma answers_fail_matching:
  assumes "pend_inv gw" and "jget (gw_pending gw) rid = Some p" and "P p"
  shows "answers dto rid (snd (fail_matching P err gw)) = [route_result dto (finish_command (Failed err))]"
proof -
  have "jwf (gw_pending gw)" using assms(1) by (simp add: pend_inv_def)
  moreover have "rid \<in> fst ` {x \<in> set (gw_pending gw). case x of (rid, p) \<Rightarrow> P p}"
    using jget_Some_in [OF assms(2)] assms(3) by force
  ultimately show ?thesis
    by (simp add: fail_matching_def Let_def answers_Resolves distinct_map_fst_filter del: map_map)
qed

text \<open>How a waiting command can end, and what its caller is then told.\<close>

lemma waiting_command_answered:
  assumes "pend_inv gw" and "jget (gw_pending gw) rid = Some \<lparr>pc_agentId = a, pc_deviceId = i, pc_occupantId = occ\<rparr>"
  shows "answers dto rid (snd (command_timer_fires rid gw)) = [Inl Device_timed_out]"
    and "answers dto rid (snd (failPendingCommands a gw)) = [Inl (Device_command_failed ''agent_disconnected'')]"
    and "answers dto rid (snd (failPendingByOccupation i occ gw)) = [Inl (Device_command_failed ''occupation_ended'')]"
    and "answers dto rid (snd (resolveCommand a rid (Failed e) gw)) =
      [Inl (if e = ''unsupported_action'' then Action_unsupported else if e = ''timeout'' then Device_timed_out
            else Device_command_failed e)]"
    and "answers dto rid (snd (resolveCommand a rid (Succeeded v) gw)) = [route_result dto (Inr v)]"
    and "b \<noteq> a \<Longrightarrow> resolveCommand b rid out gw = (gw, [])"
proof -
  have "rid \<in> set (gw_timers gw)" using assms by (simp add: pend_inv_def pending_ids_jget)
  then show "answers dto rid (snd (command_timer_fires rid gw)) = [Inl Device_timed_out]"
    by (simp add: command_timer_fires_def finish_command_def route_result_def command_error_defs)
qed (use assms in \<open>simp_all add: failPendingCommands_def failPendingByOccupation_def answers_fail_matching resolveCommand_def
    finish_command_def route_result_def command_error_defs\<close>)

lemma execute_waits:
  assumes "table_inv (sv_db sv)" and "pend_inv (sv_gateway sv)" and "execute w now rid i occ act sv = (sv', effs, Waiting)"
    and "findById (sv_db sv) i = Some d" and "d_agentId d = Some a"
  shows "pend_inv (sv_gateway sv')"
    and "jget (gw_pending (sv_gateway sv')) rid = Some \<lparr>pc_agentId = a, pc_deviceId = i, pc_occupantId = occ\<rparr>"
proof -
  obtain db where "sendToAgent w rid a i occ act (sv\<lparr>sv_db := db\<rparr>) = (sv', effs, Waiting)"
    using assms(3-5)
    by (auto simp: execute_def service_getById_def service_renewOccupation_def Let_def
        split: if_splits sum.splits prod.splits renew_result.splits)
  then have gw: "sv_gateway sv' = (sv_gateway sv)\<lparr>gw_timers := rid # gw_timers (sv_gateway sv),
      gw_pending := jset rid \<lparr>pc_agentId = a, pc_deviceId = i, pc_occupantId = occ\<rparr> (gw_pending (sv_gateway sv))\<rparr>"
    by (auto simp: sendToAgent_def sendCommand_def split: option.splits if_splits)
  show "pend_inv (sv_gateway sv')"
    unfolding pend_inv_def gw using assms(2) by (auto simp: pend_inv_def pending_ids_jget split: if_splits)
  show "jget (gw_pending (sv_gateway sv')) rid = Some \<lparr>pc_agentId = a, pc_deviceId = i, pc_occupantId = occ\<rparr>"
    by (simp add: gw)
qed

text \<open>
  C9: A command request is checked in this order: unknown device (404), not its occupant (403), device
  offline (409), and each of these leaves the server as it was. A request that passes renews the
  occupation, to this instant and without fail, before anything is sent; then it fails with no connected
  Agent (502), is refused when the Agent lacks the action (400), or is sent to the device's Agent under the
  caller's occupation and waits. A waiting command is answered exactly once by whatever ends it: 504 when its
  timer fires, 502 when its Agent disconnects or its occupation ends, and, when its Agent sends the result,
  that result (502 for a dump or a screenshot of the wrong shape), 400 or 504 where the Agent says so, and
  otherwise 502 with the Agent's error. Another Agent cannot answer it.
\<close>

theorem execute_outcome:
  assumes "table_inv (sv_db sv)" and "pend_inv (sv_gateway sv)" and "execute w now rid i occ act sv = (sv', effs, r)"
  shows "((findById (sv_db sv) i = None) \<longrightarrow>
      ((sv', effs, r) = (sv, [], Threw Device_not_found))) \<and>
    ((findById (sv_db sv) i = Some d) \<longrightarrow> (d_occupantId d \<noteq> Some occ) \<longrightarrow>
      ((sv', effs, r) = (sv, [], Threw Not_occupant_of_device))) \<and>
    ((findById (sv_db sv) i = Some d) \<longrightarrow> (d_occupantId d = Some occ) \<longrightarrow> (d_status d \<noteq> Online \<or> \<not> truthy (d_agentId d)) \<longrightarrow>
      ((sv', effs, r) = (sv, [], Threw Device_offline))) \<and>
    ((findById (sv_db sv) i = Some d) \<longrightarrow> (d_occupantId d = Some occ) \<longrightarrow> (d_status d = Online) \<longrightarrow> (d_agentId d = Some a) \<longrightarrow> (a \<noteq> []) \<longrightarrow>
      (findById (sv_db sv') = (findById (sv_db sv))(i \<mapsto> d\<lparr>d_lastActivityAt := Some now\<rparr>) \<and>
      (case jget (gw_sockets (sv_gateway sv)) a of
        None \<Rightarrow> effs = [] \<and> r = Threw Agent_tunnel_missing
      | Some s \<Rightarrow>
          if \<not> is_open w s then effs = [] \<and> r = Threw Agent_tunnel_missing
          else if action_kind act \<notin> set (capabilities_of (sv_gateway sv) a)
          then effs = [] \<and> r = Finished (Inl Action_unsupported)
          else effs = [SendText s (json_of_server_message (Command rid i occ act))] \<and> r = Waiting))) \<and>
    (findById (sv_db sv) i = Some d \<longrightarrow> d_agentId d = Some a \<longrightarrow> r = Waiting \<longrightarrow> (let gw = sv_gateway sv' in
      answers dto rid (snd (command_timer_fires rid gw)) = [Inl Device_timed_out] \<and>
      answers dto rid (snd (failPendingCommands a gw)) = [Inl (Device_command_failed ''agent_disconnected'')] \<and>
      answers dto rid (snd (failPendingByOccupation i occ gw)) = [Inl (Device_command_failed ''occupation_ended'')] \<and>
      answers dto rid (snd (resolveCommand a rid (Failed e) gw)) =
        [Inl (if e = ''unsupported_action'' then Action_unsupported else if e = ''timeout'' then Device_timed_out
              else Device_command_failed e)] \<and>
      answers dto rid (snd (resolveCommand a rid (Succeeded v) gw)) =
        [case dto of UiDumpDto \<Rightarrow> map_sum id Some (toUiDumpResult v) | ScreenshotDto \<Rightarrow> map_sum id Some (toScreenshotResult v)
         | _ \<Rightarrow> Inr v] \<and>
      (b \<noteq> a \<longrightarrow> resolveCommand b rid out gw = (gw, [])))) \<and>
    map http_status [Device_not_found, Not_occupant_of_device, Device_offline, Agent_tunnel_missing, Action_unsupported,
      Device_timed_out, Device_command_failed e, Bad_ui_dump, Bad_screenshot] = [404, 403, 409, 502, 400, 504, 502, 502, 502]"
proof -
  note parts = execute_outcome_parts [OF assms(1,3)]
  have ended: "let gw = sv_gateway sv' in
      answers dto rid (snd (command_timer_fires rid gw)) = [Inl Device_timed_out] \<and>
      answers dto rid (snd (failPendingCommands a gw)) = [Inl (Device_command_failed ''agent_disconnected'')] \<and>
      answers dto rid (snd (failPendingByOccupation i occ gw)) = [Inl (Device_command_failed ''occupation_ended'')] \<and>
      answers dto rid (snd (resolveCommand a rid (Failed e) gw)) =
        [Inl (if e = ''unsupported_action'' then Action_unsupported else if e = ''timeout'' then Device_timed_out
              else Device_command_failed e)] \<and>
      answers dto rid (snd (resolveCommand a rid (Succeeded v) gw)) =
        [case dto of UiDumpDto \<Rightarrow> map_sum id Some (toUiDumpResult v) | ScreenshotDto \<Rightarrow> map_sum id Some (toScreenshotResult v)
         | _ \<Rightarrow> Inr v] \<and>
      (b \<noteq> a \<longrightarrow> resolveCommand b rid out gw = (gw, []))"
    if "findById (sv_db sv) i = Some d" "d_agentId d = Some a" "r = Waiting"
  proof -
    note waits = execute_waits [OF assms(1,2) assms(3) [unfolded that(3)] that(1,2)]
    show ?thesis
      using waiting_command_answered(1-3) [OF waits, where dto = dto] waiting_command_answered(4) [OF waits, of dto e]
        waiting_command_answered(5) [OF waits, of dto v] waiting_command_answered(6) [OF waits, of b out]
      by (auto simp: Let_def route_result_def split: action_dto.split)
  qed
  show ?thesis
    by (rule conjI, rule impI, rule parts(1), assumption+,
      rule conjI, rule impI, rule impI, rule parts(2), assumption+,
      rule conjI, rule impI, rule impI, rule impI, rule parts(3), assumption+,
      rule conjI, rule impI, rule impI, rule impI, rule impI, rule impI, rule parts(4), assumption+,
      rule conjI, rule impI, rule impI, rule impI, rule ended, assumption+, simp)
qed

lemma execute_intruder:
  "execute sample_wire 20 ''r1'' ''d1'' ''intruder'' UiDump viewed_server =
    (viewed_server, [], Threw Not_occupant_of_device)"
  by (simp add: execute_def service_getById_def viewed_server_eq sample_run findById_row_of)

theorem execute_outcome_witness:
  "snd (snd (execute sample_wire 20 ''r1'' ''d1'' ''intruder'' UiDump viewed_server)) = Threw Not_occupant_of_device"
proof -
  obtain d where d: "findById (sv_db viewed_server) ''d1'' = Some d" "d_occupantId d \<noteq> Some ''intruder''"
    by (simp add: viewed_server_eq sample_run findById_row_of)
  have inv: "table_inv (sv_db viewed_server)" "pend_inv (sv_gateway viewed_server)"
    by (simp_all add: viewed_server_eq sample_run_inv gateway_init_def pend_inv_def pending_ids_def jkeys_def)
  obtain sv' effs r where x: "execute sample_wire 20 ''r1'' ''d1'' ''intruder'' UiDump viewed_server = (sv', effs, r)"
    by (cases "execute sample_wire 20 ''r1'' ''d1'' ''intruder'' UiDump viewed_server") auto
  from execute_outcome [OF inv x, THEN conjunct2, THEN conjunct1, rule_format, OF d] x show ?thesis by simp
qed

lemma valid_coordinate_iff: "valid_coordinate x \<longleftrightarrow> (\<exists>q. x = Fin q \<and> 0 \<le> q \<and> q \<le> 10000)"
  by (cases x) (auto simp: valid_coordinate_def num_def max_coordinate_def)

lemma accepted_body_parsed:
  assumes "valid_dto dto" and "is_request_id rid" and "is_device_id i" and "is_occupant_id occ"
  shows "parseServerMessage (Some (buildCommandMessage rid i occ (action_of_dto dto))) =
      Some (Command rid i occ (action_of_dto dto))"
proof -
  have "finite_action (action_of_dto dto)"
    using assms(1)
    by (cases dto) (auto simp: valid_coordinate_iff is_integer_num_iff split: option.splits)
  with assms show ?thesis
    by (simp add: buildCommandMessage_def parseServerMessage_def parseJson_def str_at_def)
qed

lemma valid_duration_iff:
  "is_integer_num d \<and> js_leq (num 1) d \<and> js_leq d (num max_swipe_duration_ms) \<longleftrightarrow> (\<exists>n. d = num n \<and> 1 \<le> n \<and> n \<le> 5000)"
  by (auto simp: is_integer_num_iff max_swipe_duration_ms_def)

lemma accepted_actions:
  "(\<exists>dto. valid_dto dto \<and> action_of_dto dto = act) \<longleftrightarrow> (case act of
      Tap x y \<Rightarrow> valid_coordinate x \<and> valid_coordinate y
    | Swipe fx fy tx ty dur \<Rightarrow> list_all valid_coordinate [fx, fy, tx, ty] \<and> (\<exists>n. dur = num n \<and> 1 \<le> n \<and> n \<le> 5000)
    | TypeText t \<Rightarrow> length t \<le> 4000
    | _ \<Rightarrow> True)" (is "?accepted \<longleftrightarrow> ?within")
proof
  assume ?accepted
  then obtain dto where "valid_dto dto" "action_of_dto dto = act" by blast
  then show ?within
    by (cases dto) (auto simp: max_text_length_def valid_duration_iff default_swipe_duration_ms_def split: option.splits)
next
  assume ?within
  then show ?accepted
  proof (cases act)
    case (Swipe fx fy tx ty dur)
    then have "valid_dto (SwipeDto fx fy tx ty (Some dur))" using \<open>?within\<close> by (simp add: valid_duration_iff)
    then show ?thesis using Swipe by (intro exI [of _ "SwipeDto fx fy tx ty (Some dur)"]) simp
  qed (auto intro: exI [of _ "TapDto _ _"] exI [of _ "TypeTextDto _"] exI [of _ UiDumpDto] exI [of _ ScreenshotDto]
      exI [of _ "PressButtonDto _"] simp: max_text_length_def)
qed

text \<open>
  C24: The actions the action routes accept are exactly those within the bounds: every coordinate of a tap or
  a swipe between 0 and 10000, a swipe of a whole number of milliseconds from 1 to 5000 (300 when the request
  leaves it out), a text of at most 4000 characters. The action the Agent's parser reads from the command
  message of an accepted body is that action.
\<close>

theorem accepted_body_reaches_the_agent:
  assumes "is_request_id rid" and "is_device_id i" and "is_occupant_id occ"
  shows "(valid_dto dto \<longrightarrow> parseServerMessage (Some (buildCommandMessage rid i occ (action_of_dto dto))) =
      Some (Command rid i occ (action_of_dto dto))) \<and>
    ((\<exists>dto. valid_dto dto \<and> action_of_dto dto = act) \<longleftrightarrow> (case act of
        Tap x y \<Rightarrow> list_all (\<lambda>c. \<exists>q. c = Fin q \<and> 0 \<le> q \<and> q \<le> 10000) [x, y]
      | Swipe fx fy tx ty dur \<Rightarrow> list_all (\<lambda>c. \<exists>q. c = Fin q \<and> 0 \<le> q \<and> q \<le> 10000) [fx, fy, tx, ty] \<and>
          (\<exists>n. dur = num n \<and> 1 \<le> n \<and> n \<le> 5000)
      | TypeText t \<Rightarrow> length t \<le> 4000
      | _ \<Rightarrow> True)) \<and>
    (valid_dto (SwipeDto fx fy tx ty None) \<longleftrightarrow> valid_dto (SwipeDto fx fy tx ty (Some (num 300)))) \<and>
    action_of_dto (SwipeDto fx fy tx ty None) = Swipe fx fy tx ty (num 300)"
  using accepted_body_parsed [OF _ assms, of dto] accepted_actions [of act]
  by (auto simp: valid_coordinate_iff [abs_def] default_swipe_duration_ms_def max_swipe_duration_ms_def
      split: device_action.split)

theorem accepted_body_reaches_the_agent_witness:
  "parseServerMessage (Some (buildCommandMessage ''r1'' ''d1'' ''occ'' (TypeText ''hello''))) =
    Some (Command ''r1'' ''d1'' ''occ'' (TypeText ''hello''))"
  using accepted_body_reaches_the_agent [of "''r1''" "''d1''" "''occ''" "TypeTextDto ''hello''", THEN conjunct1]
  by (simp add: max_text_length_def is_request_id_def is_device_id_def is_occupant_id_def matches_class_def
      request_id_char_def device_id_char_def is_alnum_def code_def)

lemma occupation_lifetime_parts:
  assumes "table_inv (sv_db sv)" and "findById (sv_db sv) i = Some d" and "d_occupantId d = Some occ"
    and "occupationExpiresAt cfg d = Some t"
  shows "holder_of (fst (expireIdleOccupations (now - cf_occupationTtlMs cfg) (sv_db sv))) i = None \<longleftrightarrow> t < now"
    and "case service_renewOccupation i occ now sv of (sv', r) \<Rightarrow>
      \<exists>d'. r = Inr d' \<and> occupationExpiresAt cfg d' = Some (now + cf_occupationTtlMs cfg) \<and>
        findById (sv_db sv') i = Some d'"
proof -
  have "idle_device (now - cf_occupationTtlMs cfg) d \<longleftrightarrow> t < now"
    using assms(3, 4) by (auto simp: idle_device_def older_than_def occupationExpiresAt_def split: option.splits)
  then show "holder_of (fst (expireIdleOccupations (now - cf_occupationTtlMs cfg) (sv_db sv))) i = None \<longleftrightarrow> t < now"
    using repo.holder_expire [OF assms(1), of "now - cf_occupationTtlMs cfg" i] assms(2, 3)
    by (simp add: holder_of_repo)
  have ok: "spec_holder i occ (findById (sv_db sv)) = None" using assms(2, 3) by (simp add: spec_holder_def)
  obtain db res where ren: "renewOccupation i occ now (sv_db sv) = (db, res)"
    by (cases "renewOccupation i occ now (sv_db sv)")
  have res: "res = Renewed" using repo.renew_result [OF assms(1), of i occ now] ok ren by simp
  have find: "findById db i = Some (d\<lparr>d_lastActivityAt := Some now\<rparr>)"
    using repo.find_renew [OF assms(1), of i occ now] ok ren assms(2) by (simp add: spec_update_def)
  then show "case service_renewOccupation i occ now sv of (sv', r) \<Rightarrow>
      \<exists>d'. r = Inr d' \<and> occupationExpiresAt cfg d' = Some (now + cf_occupationTtlMs cfg) \<and>
        findById (sv_db sv') i = Some d'"
    using ren res by (simp add: service_renewOccupation_def service_getById_def occupationExpiresAt_def)
qed

text \<open>
  The expiry time a client is told is exact: the idle sweep at an instant ends an occupation if and
  only if that instant is later than the time reported for the device, and renewing at an instant moves
  the report to that instant plus the time to live.
\<close>

theorem occupation_lifetime:
  assumes "table_inv (sv_db sv)" and "findById (sv_db sv) i = Some d" and "d_occupantId d = Some occ"
    and "occupationExpiresAt cfg d = Some t"
  shows "(holder_of (fst (expireIdleOccupations (now - cf_occupationTtlMs cfg) (sv_db sv))) i = None \<longleftrightarrow> t < now) \<and>
    (case service_renewOccupation i occ now sv of (sv', r) \<Rightarrow>
      \<exists>d'. r = Inr d' \<and> occupationExpiresAt cfg d' = Some (now + cf_occupationTtlMs cfg) \<and>
        findById (sv_db sv') i = Some d')"
  by (rule conjI, rule occupation_lifetime_parts(1) [OF assms],
    rule occupation_lifetime_parts(2) [OF assms])

theorem occupation_lifetime_witness:
  "holder_of (fst (expireIdleOccupations (600010 - 600000) (sv_db viewed_server))) ''d1'' = Some ''occ''"
proof -
  obtain d where d: "findById (sv_db viewed_server) ''d1'' = Some d" "d_occupantId d = Some ''occ''"
    "occupationExpiresAt sample_cfg d = Some 600010"
    by (simp add: viewed_server_eq sample_run findById_row_of occupationExpiresAt_def sample_cfg_def)
  have inv: "table_inv (sv_db viewed_server)" by (simp add: viewed_server_eq sample_run_inv)
  have "holder_of (fst (expireIdleOccupations (600010 - 600000) (sv_db viewed_server))) ''d1'' \<noteq> None"
    using occupation_lifetime [OF inv d, of 600010, THEN conjunct1] by (simp add: sample_cfg_def)
  moreover have "holder_of (sv_db viewed_server) ''d1'' = Some ''occ''" using d by (simp add: holder_of_def)
  ultimately show ?thesis
    using repo.holder_expire [OF inv, of "600010 - 600000" "''d1''"] d
    by (auto simp: holder_of_repo split: if_splits)
qed

end
