(* ===== verification/Client.thy ===== *)
theory Client
  imports Js_Text Shared_Protocol
begin

text \<open>
  \<open>packages/client\<close>: the HTTP SDK the command line tool and the web console share
  (nebula-client.ts, api-error.ts, http-client.ts, platform.ts).

  The transport (\<open>fetchImpl\<close>) is a parameter: it takes the request and either rejects with a message
  or yields a response. A request body is the JSON value whose text is sent, and the body of a
  response is what its text and its JSON reading give (\<open>None\<close>: the promise rejects). The client casts
  the body to its type without looking at it, so the model keeps it as a JSON value and reading a
  property of it is \<open>member\<close>, which throws on \<open>null\<close> and \<open>undefined\<close> as the language does.
\<close>

section \<open>Requests and responses\<close>

record http_request =
  rq_method :: string
  rq_url :: string
  rq_headers :: "(string \<times> string) list"
  rq_body :: "json option"
  rq_timeoutMs :: jsnum

record http_response =
  rs_ok :: bool
  rs_status :: int
  rs_text :: "string option"
  rs_json :: "json option"

type_synonym fetch = "http_request \<Rightarrow> string + http_response"

text \<open>\<open>ApiError\<close> keeps the status; everything else that is thrown is known by its message.\<close>

datatype client_error = Api_error int string | Thrown string

fun toErrorMessage :: "client_error \<Rightarrow> string" where
  "toErrorMessage (Api_error status message) = message"
| "toErrorMessage (Thrown message) = message"

definition platformLabel :: "string \<Rightarrow> string" where
  "platformLabel platform =
    (case jget [(''ios'', ''iOS''), (''android'', ''Android'')] platform of Some l \<Rightarrow> l | None \<Rightarrow> platform)"

definition default_timeout_ms :: int where "default_timeout_ms = 20000"
definition client_swipe_duration_ms :: int where "client_swipe_duration_ms = 300"

section \<open>The standard library\<close>

text \<open>\<open>encodeURIComponent\<close>: the UTF-8 bytes of every character outside the unreserved set.\<close>

definition uri_unreserved :: "char \<Rightarrow> bool" where
  "uri_unreserved c \<longleftrightarrow> is_alnum c \<or> code c \<in> {45, 95, 46, 33, 126, 42, 39, 40, 41}"

definition hex_digit :: "nat \<Rightarrow> char" where
  "hex_digit d = (if d < 10 then char_of (48 + d) else char_of (55 + d))"

definition percent :: "nat \<Rightarrow> string" where
  "percent b = [CHR ''%'', hex_digit (b div 16), hex_digit (b mod 16)]"

definition encode_char :: "char \<Rightarrow> string" where
  "encode_char c =
    (if uri_unreserved c then [c]
     else if code c < 128 then percent (code c)
     else percent (192 + code c div 64) @ percent (128 + code c mod 64))"

definition encodeURIComponent :: "string \<Rightarrow> string" where
  "encodeURIComponent s = concat (map encode_char s)"

text \<open>\<open>JSON.stringify\<close> of an object literal leaves out the properties that are \<open>undefined\<close>.\<close>

fun present :: "(string \<times> json option) list \<Rightarrow> (string \<times> json) list" where
  "present [] = []"
| "present ((k, None) # kvs) = present kvs"
| "present ((k, Some v) # kvs) = (k, v) # present kvs"

text \<open>Reading a property of a value of unknown shape; \<open>None\<close> stands for \<open>undefined\<close>.\<close>

fun member :: "json option \<Rightarrow> string \<Rightarrow> client_error + json option" where
  "member None k = Inl (Thrown ''Cannot read properties of undefined'')"
| "member (Some JNull) k = Inl (Thrown ''Cannot read properties of null'')"
| "member (Some (JObj kvs)) k = Inr (jget kvs k)"
| "member (Some (JArr xs)) k = Inr (if k = ''length'' then Some (JNum (num (int (length xs)))) else None)"
| "member (Some (JStr s)) k = Inr (if k = ''length'' then Some (JNum (num (int (length s)))) else None)"
| "member (Some _) k = Inr None"

section \<open>The client\<close>

record nebula_client =
  nc_baseUrl :: string
  nc_token :: string
  nc_timeoutMs :: jsnum

definition new_client :: "string \<Rightarrow> string \<Rightarrow> jsnum option \<Rightarrow> nebula_client" where
  "new_client baseUrl token timeoutMs =
    \<lparr>nc_baseUrl = baseUrl, nc_token = token,
     nc_timeoutMs = (case timeoutMs of Some t \<Rightarrow> t | None \<Rightarrow> num default_timeout_ms)\<rparr>"

text \<open>\<open>AbortSignal.timeout\<close> takes a 32-bit unsigned integer and throws a \<open>RangeError\<close> on anything else.\<close>

definition abort_timeout_ok :: "jsnum \<Rightarrow> bool" where
  "abort_timeout_ok t \<longleftrightarrow> is_integer_num t \<and> js_leq (num 0) t \<and> js_leq t (num 4294967295)"

text \<open>The first half of \<open>request\<close>, up to its \<open>await\<close>: the request handed to the transport.\<close>

definition client_request :: "nebula_client \<Rightarrow> string \<Rightarrow> string \<Rightarrow> json option \<Rightarrow> client_error + http_request" where
  "client_request c method path body =
    (if \<not> abort_timeout_ok (nc_timeoutMs c) then Inl (Thrown ''The value of delay is out of range'')
     else Inr
      \<lparr>rq_method = method, rq_url = nc_baseUrl c @ path,
       rq_headers = (''authorization'', ''Bearer '' @ nc_token c) #
         (if body \<noteq> None then [(''content-type'', ''application/json'')] else []),
       rq_body = body, rq_timeoutMs = nc_timeoutMs c\<rparr>)"

text \<open>The second half: what the caller gets for what the transport answered.\<close>

definition client_answer :: "string \<Rightarrow> string \<Rightarrow> string + http_response \<Rightarrow> client_error + json" where
  "client_answer method path answer =
    (case answer of
      Inl message \<Rightarrow> Inl (Thrown message)
    | Inr r \<Rightarrow>
        if \<not> rs_ok r then
          (let detail = (case rs_text r of Some t \<Rightarrow> t | None \<Rightarrow> [])
           in Inl (Api_error (rs_status r)
                (method @ '' '' @ path @ '' -> '' @ int_text (rs_status r) @ '' '' @ take 200 detail)))
        else (case rs_json r of
            None \<Rightarrow> Inl (Thrown ''Unexpected end of JSON input'')
          | Some j \<Rightarrow> Inr j))"

text \<open>A call: the requests it hands to the transport and what its promise settles to.\<close>

type_synonym 'a call = "http_request list \<times> (client_error + 'a)"

definition request :: "fetch \<Rightarrow> nebula_client \<Rightarrow> string \<Rightarrow> string \<Rightarrow> json option \<Rightarrow> json call" where
  "request fetch c method path body =
    (case client_request c method path body of
      Inl e \<Rightarrow> ([], Inl e)
    | Inr rq \<Rightarrow> ([rq], client_answer method path (fetch rq)))"

definition call_then :: "'a call \<Rightarrow> ('a \<Rightarrow> client_error + 'b) \<Rightarrow> 'b call" where
  "call_then c f = (fst c, and_then (snd c) f)"

definition device_path :: "string \<Rightarrow> string" where
  "device_path deviceId = ''/devices/'' @ encodeURIComponent deviceId"

section \<open>Its operations\<close>

record occupy_request =
  oq_deviceId :: "string option"
  oq_platform :: "string option"
  oq_tags :: "string list option"

definition client_health :: "fetch \<Rightarrow> nebula_client \<Rightarrow> json call" where
  "client_health fetch c = request fetch c ''GET'' ''/health'' None"

definition client_listDevices :: "fetch \<Rightarrow> nebula_client \<Rightarrow> json call" where
  "client_listDevices fetch c = request fetch c ''GET'' ''/devices'' None"

definition client_getDevice :: "fetch \<Rightarrow> nebula_client \<Rightarrow> string \<Rightarrow> json call" where
  "client_getDevice fetch c deviceId = request fetch c ''GET'' (device_path deviceId) None"

definition client_occupy :: "fetch \<Rightarrow> nebula_client \<Rightarrow> occupy_request \<Rightarrow> json call" where
  "client_occupy fetch c q =
    request fetch c ''POST'' ''/devices/occupy''
      (Some (JObj (present
        [(''deviceId'', map_option JStr (oq_deviceId q)),
         (''platform'', map_option JStr (oq_platform q)),
         (''tags'', map_option json_strs (oq_tags q))])))"

definition client_release :: "fetch \<Rightarrow> nebula_client \<Rightarrow> string \<Rightarrow> string \<Rightarrow> json call" where
  "client_release fetch c deviceId occupantId =
    request fetch c ''POST'' (device_path deviceId @ ''/release'') (Some (JObj [(''occupantId'', JStr occupantId)]))"

definition client_keepalive :: "fetch \<Rightarrow> nebula_client \<Rightarrow> string \<Rightarrow> string \<Rightarrow> json call" where
  "client_keepalive fetch c deviceId occupantId =
    request fetch c ''POST'' (device_path deviceId @ ''/keepalive'') (Some (JObj [(''occupantId'', JStr occupantId)]))"

text \<open>A target is the device and the occupant.\<close>

type_synonym device_target = "string \<times> string"

definition client_action :: "fetch \<Rightarrow> nebula_client \<Rightarrow> device_target \<Rightarrow> string \<Rightarrow> (string \<times> json) list \<Rightarrow> json call" where
  "client_action fetch c target name body =
    request fetch c ''POST'' (device_path (fst target) @ ''/actions/'' @ name)
      (Some (JObj ((''occupantId'', JStr (snd target)) # body)))"

definition client_tap :: "fetch \<Rightarrow> nebula_client \<Rightarrow> device_target \<Rightarrow> jsnum \<Rightarrow> jsnum \<Rightarrow> unit call" where
  "client_tap fetch c target x y =
    call_then (client_action fetch c target ''tap'' [(''x'', json_num x), (''y'', json_num y)]) (\<lambda>_. Inr ())"

definition client_swipe :: "fetch \<Rightarrow> nebula_client \<Rightarrow> device_target \<Rightarrow>
    jsnum \<Rightarrow> jsnum \<Rightarrow> jsnum \<Rightarrow> jsnum \<Rightarrow> jsnum option \<Rightarrow> unit call" where
  "client_swipe fetch c target fromX fromY toX toY durationMs =
    call_then (client_action fetch c target ''swipe''
      [(''fromX'', json_num fromX), (''fromY'', json_num fromY), (''toX'', json_num toX), (''toY'', json_num toY),
       (''durationMs'', json_num (case durationMs of Some d \<Rightarrow> d | None \<Rightarrow> num client_swipe_duration_ms))])
      (\<lambda>_. Inr ())"

definition client_typeText :: "fetch \<Rightarrow> nebula_client \<Rightarrow> device_target \<Rightarrow> string \<Rightarrow> unit call" where
  "client_typeText fetch c target t = call_then (client_action fetch c target ''type'' [(''text'', JStr t)]) (\<lambda>_. Inr ())"

definition client_pressButton :: "fetch \<Rightarrow> nebula_client \<Rightarrow> device_target \<Rightarrow> string \<Rightarrow> unit call" where
  "client_pressButton fetch c target button =
    call_then (client_action fetch c target ''press'' [(''button'', JStr button)]) (\<lambda>_. Inr ())"

definition client_uiDump :: "fetch \<Rightarrow> nebula_client \<Rightarrow> device_target \<Rightarrow> json option call" where
  "client_uiDump fetch c target =
    call_then (client_action fetch c target ''ui-dump'' [])
      (\<lambda>response. and_then (member (Some response) ''result'') (\<lambda>result. member result ''tree''))"

definition client_screenshot :: "fetch \<Rightarrow> nebula_client \<Rightarrow> device_target \<Rightarrow> json option call" where
  "client_screenshot fetch c target =
    call_then (client_action fetch c target ''screenshot'' []) (\<lambda>response. member (Some response) ''result'')"

lemmas client_call_defs =
  client_health_def client_listDevices_def client_getDevice_def client_occupy_def client_release_def
  client_keepalive_def client_tap_def client_swipe_def client_typeText_def client_pressButton_def
  client_uiDump_def client_screenshot_def client_action_def

section \<open>What a call sends and answers\<close>

text \<open>
  A well-behaved call: it sends at most one request, that request goes to the base URL with the token,
  an \<open>ApiError\<close> is a response that is not ok, and success is an ok response with a JSON body.
\<close>

definition call_sound :: "fetch \<Rightarrow> nebula_client \<Rightarrow> 'a call \<Rightarrow> bool" where
  "call_sound fetch c r \<longleftrightarrow>
    (fst r = [] \<and> (\<exists>m. snd r = Inl (Thrown m)) \<or>
     (\<exists>rq path. fst r = [rq] \<and> rq_url rq = nc_baseUrl c @ path \<and>
       (''authorization'', ''Bearer '' @ nc_token c) \<in> set (rq_headers rq) \<and>
       (\<forall>status m. snd r = Inl (Api_error status m) \<longrightarrow>
          (\<exists>a. fetch rq = Inr a \<and> \<not> rs_ok a \<and> rs_status a = status)) \<and>
       (\<forall>v. snd r = Inr v \<longrightarrow> (\<exists>a. fetch rq = Inr a \<and> rs_ok a \<and> rs_json a \<noteq> None)) \<and>
       (\<forall>a. fetch rq = Inr a \<longrightarrow> \<not> rs_ok a \<longrightarrow> (\<exists>m. snd r = Inl (Api_error (rs_status a) m)))))"

lemma member_error: "member v k = Inl e \<Longrightarrow> \<exists>m. e = Thrown m"
  by (induction v k rule: member.induct) auto

lemma request_sound: "call_sound fetch c (request fetch c method path body)"
proof (cases "abort_timeout_ok (nc_timeoutMs c)")
  case True
  then show ?thesis
    by (simp add: call_sound_def request_def client_request_def client_answer_def Let_def split: sum.split option.split)
qed (simp add: call_sound_def request_def client_request_def)

lemma call_then_sound:
  assumes "call_sound fetch c r" "\<And>v e. f v = Inl e \<Longrightarrow> \<exists>m. e = Thrown m"
  shows "call_sound fetch c (call_then r f)"
  using assms(1) unfolding call_sound_def call_then_def
  by (elim disjE; cases "snd r") (force dest: assms(2))+

lemma call_sound_intros:
  "call_sound fetch c (client_health fetch c)"
  "call_sound fetch c (client_listDevices fetch c)"
  "call_sound fetch c (client_getDevice fetch c i)"
  "call_sound fetch c (client_occupy fetch c q)"
  "call_sound fetch c (client_release fetch c i occ)"
  "call_sound fetch c (client_keepalive fetch c i occ)"
  "call_sound fetch c (client_tap fetch c target x y)"
  "call_sound fetch c (client_swipe fetch c target x y x' y' d)"
  "call_sound fetch c (client_typeText fetch c target t)"
  "call_sound fetch c (client_pressButton fetch c target b)"
  "call_sound fetch c (client_uiDump fetch c target)"
  "call_sound fetch c (client_screenshot fetch c target)"
  by (auto simp: client_call_defs and_then_Inl intro!: request_sound call_then_sound dest: member_error)

text \<open>The requests of the calls that carry an occupant, and those that do not.\<close>

definition carries :: "http_request \<Rightarrow> string \<Rightarrow> bool" where
  "carries rq occ \<longleftrightarrow> (\<exists>kvs. rq_body rq = Some (JObj kvs) \<and> jget kvs ''occupantId'' = Some (JStr occ))"

lemma present_lookup: "jget (present kvs) k = Some v \<Longrightarrow> (k, Some v) \<in> set kvs"
  by (induction kvs rule: present.induct) (auto split: if_splits)

lemma request_requests:
  "rq \<in> set (fst (request fetch c method path body)) \<Longrightarrow> rq_url rq = nc_baseUrl c @ path \<and> rq_body rq = body"
  by (auto simp: request_def client_request_def split: if_splits)

lemma fst_call_then [simp]: "fst (call_then r f) = fst r"
  by (simp add: call_then_def)

lemma no_occupant_calls:
  "rq \<in> set (fst (client_health fetch c)) \<Longrightarrow> \<not> carries rq occ"
  "rq \<in> set (fst (client_listDevices fetch c)) \<Longrightarrow> \<not> carries rq occ"
  "rq \<in> set (fst (client_getDevice fetch c i)) \<Longrightarrow> \<not> carries rq occ"
  "rq \<in> set (fst (client_occupy fetch c q)) \<Longrightarrow> \<not> carries rq occ"
  by (auto simp: client_call_defs carries_def dest!: request_requests present_lookup)

definition to_device :: "nebula_client \<Rightarrow> string \<Rightarrow> http_request \<Rightarrow> bool" where
  "to_device c i rq \<longleftrightarrow> (\<exists>op. rq_url rq = nc_baseUrl c @ device_path i @ ''/'' @ op)"

lemma to_deviceI:
  "rq_url rq = nc_baseUrl c @ device_path i @ ''/release'' \<Longrightarrow> to_device c i rq"
  "rq_url rq = nc_baseUrl c @ device_path i @ ''/keepalive'' \<Longrightarrow> to_device c i rq"
  "rq_url rq = nc_baseUrl c @ device_path i @ ''/actions/'' @ name \<Longrightarrow> to_device c i rq"
  by (auto simp: to_device_def)

lemma occupant_calls:
  "rq \<in> set (fst (client_release fetch c i occ)) \<Longrightarrow> carries rq o' \<Longrightarrow> to_device c i rq \<and> o' = occ"
  "rq \<in> set (fst (client_keepalive fetch c i occ)) \<Longrightarrow> carries rq o' \<Longrightarrow> to_device c i rq \<and> o' = occ"
  "rq \<in> set (fst (client_action fetch c (i, occ) name body)) \<Longrightarrow> carries rq o' \<Longrightarrow> to_device c i rq \<and> o' = occ"
  by (auto simp: client_release_def client_keepalive_def client_action_def carries_def
      dest!: request_requests intro: to_deviceI)

section \<open>Paths\<close>

text \<open>
  An encoded segment has no character that ends or splits a path, so the device of a path is the one
  the caller named and two devices never share one.
\<close>

definition segment_char :: "char \<Rightarrow> bool" where
  "segment_char c \<longleftrightarrow> uri_unreserved c \<or> code c = 37"

fun hex_value :: "char \<Rightarrow> nat" where
  "hex_value c = (if code c < 65 then code c - 48 else code c - 55)"

fun decode_segment :: "string \<Rightarrow> string" where
  "decode_segment [] = []"
| "decode_segment (c # cs) =
    (if c \<noteq> CHR ''%'' then c # decode_segment cs
     else case cs of
       a # b # r \<Rightarrow>
         (let x = 16 * hex_value a + hex_value b
          in if x < 128 then char_of x # decode_segment r
             else case r of
               _ # a' # b' # r' \<Rightarrow> char_of (64 * (x - 192) + (16 * hex_value a' + hex_value b' - 128)) # decode_segment r'
             | _ \<Rightarrow> [])
     | _ \<Rightarrow> [])"

lemma hex_round: "d < 16 \<Longrightarrow> hex_value (hex_digit d) = d"
  by (simp add: hex_digit_def code_def)

lemma code_less: "code c < 256"
  by (simp add: code_def)

lemma char_of_code_id [simp]: "char_of (code c) = c"
  by (simp add: code_def)

lemma decode_percent_low:
  assumes "b < 128"
  shows "decode_segment (percent b @ r) = char_of b # decode_segment r"
proof -
  have "b div 16 < 16" "b mod 16 < 16" using assms by simp_all
  moreover have "16 * (b div 16) + b mod 16 = b" by simp
  ultimately show ?thesis using assms by (simp add: percent_def hex_round Let_def del: hex_value.simps)
qed

lemma decode_percent_high:
  assumes "128 \<le> n" "n < 256"
  shows "decode_segment (percent (192 + n div 64) @ percent (128 + n mod 64) @ r) = char_of n # decode_segment r"
proof -
  obtain x where x: "x = 192 + n div 64" by simp
  obtain y where y: "y = 128 + n mod 64" by simp
  have "x div 16 < 16" "y div 16 < 16" using assms x y by (simp_all add: less_mult_imp_div_less)
  moreover have "16 * (x div 16) + x mod 16 = x" "16 * (y div 16) + y mod 16 = y" by simp_all
  moreover have "\<not> x < 128" "64 * (x - 192) + (y - 128) = n" using x y by simp_all
  ultimately show ?thesis
    by (simp add: percent_def hex_round Let_def x [symmetric] y [symmetric] del: hex_value.simps)
qed

lemma percent_not_unreserved: "uri_unreserved c \<Longrightarrow> c \<noteq> CHR ''%''"
  by (auto simp: uri_unreserved_def is_alnum_def code_def)

lemma decode_encode_char: "decode_segment (encode_char c @ r) = c # decode_segment r"
  using decode_percent_low [of "code c" r] decode_percent_high [of "code c" r] code_less [of c]
  by (auto simp: encode_char_def percent_not_unreserved)

lemma decode_encode: "decode_segment (encodeURIComponent s @ r) = s @ decode_segment r"
  unfolding encodeURIComponent_def by (induction s) (simp_all add: decode_encode_char)

lemma decode_segment_encode: "decode_segment (encodeURIComponent s) = s"
  using decode_encode [of s "[]"] by simp

lemma encodeURIComponent_inject: "encodeURIComponent s = encodeURIComponent t \<longleftrightarrow> s = t"
  by (metis decode_segment_encode)

lemma code_hex_digit: "d < 16 \<Longrightarrow> code (hex_digit d) = (if d < 10 then 48 + d else 55 + d)"
  by (simp add: hex_digit_def code_def)

lemma hex_digit_segment: "d < 16 \<Longrightarrow> segment_char (hex_digit d)"
  by (auto simp: segment_char_def uri_unreserved_def is_alnum_def code_hex_digit)

lemma percent_sign_segment: "segment_char CHR ''%''"
  by (simp add: segment_char_def code_def)

lemma percent_segment: "b < 256 \<Longrightarrow> list_all segment_char (percent b)"
  by (simp add: percent_def hex_digit_segment less_mult_imp_div_less percent_sign_segment)

lemma encoded_segment: "list_all segment_char (encodeURIComponent s)"
proof (induction s)
  case (Cons c s)
  have "list_all segment_char (encode_char c)"
    using code_less [of c] percent_segment [of "code c"] percent_segment [of "192 + code c div 64"]
      percent_segment [of "128 + code c mod 64"]
    by (simp add: encode_char_def segment_char_def)
  with Cons show ?case by (simp add: encodeURIComponent_def)
qed (simp add: encodeURIComponent_def)

lemma segment_not_slash: "segment_char c \<Longrightarrow> c \<noteq> CHR ''/''"
  by (auto simp: segment_char_def uri_unreserved_def is_alnum_def code_def)

lemma device_of_path:
  "device_path i @ CHR ''/'' # op = device_path i' @ CHR ''/'' # op' \<Longrightarrow> i = i' \<and> op = op'"
proof -
  let ?e = "encodeURIComponent"
  assume "device_path i @ CHR ''/'' # op = device_path i' @ CHR ''/'' # op'"
  then have eq: "?e i @ CHR ''/'' # op = ?e i' @ CHR ''/'' # op'" by (simp add: device_path_def)
  have free: "takeWhile (\<lambda>c. c \<noteq> CHR ''/'') (?e j @ CHR ''/'' # p) = ?e j" for j p
    using encoded_segment [of j] segment_not_slash by (auto simp: list_all_iff takeWhile_append)
  from eq free [of i op] free [of i' op'] have "?e i = ?e i'" by simp
  with eq show ?thesis by (simp add: encodeURIComponent_inject)
qed

end
