(* ===== verification/Cli_Args.thy ===== *)
theory Cli_Args
  imports Client
begin

text \<open>
  \<open>packages/cli\<close>, the front: the option parser (args.ts, with \<open>parseArgs\<close> of the standard library
  as Node runs it in strict mode) and the exit codes (exit-codes.ts).

  The parser of the standard library is modelled from its behaviour: an argument list becomes tokens
  (a lone \<open>-x\<close> names an option whose name is one letter, \<open>-xyz\<close> is expanded unless \<open>x\<close> takes a value,
  \<open>--name=value\<close>, \<open>--name value\<close>, the terminator \<open>--\<close>), then every token is checked against the
  specification. The messages of usage errors are the constructors of \<open>usage_problem\<close>.
\<close>

section \<open>Exit codes\<close>

definition exit_ok :: nat where "exit_ok = 0"
definition exit_failure :: nat where "exit_failure = 1"
definition exit_usage :: nat where "exit_usage = 2"
definition exit_auth :: nat where "exit_auth = 3"
definition exit_not_found :: nat where "exit_not_found = 4"
definition exit_gateway :: nat where "exit_gateway = 5"

lemmas exit_defs = exit_ok_def exit_failure_def exit_usage_def exit_auth_def exit_not_found_def exit_gateway_def

definition status_exit_codes :: "(int \<times> nat) list" where
  "status_exit_codes =
    [(401, exit_auth), (403, exit_auth), (429, exit_auth), (404, exit_not_found), (409, exit_not_found),
     (502, exit_gateway), (504, exit_gateway)]"

definition statusToExitCode :: "int \<Rightarrow> nat" where
  "statusToExitCode status = (case jget status_exit_codes status of Some c \<Rightarrow> c | None \<Rightarrow> exit_failure)"

section \<open>The option parser of the standard library\<close>

datatype option_type = String_option | Boolean_option

type_synonym option_spec = "(string \<times> option_type) list"

text \<open>A token: an option with its value and whether that was given inline, or a positional.\<close>

datatype arg_token = Opt_token string "string option" bool | Pos_token string

datatype args_problem =
    Unknown_option string
  | Argument_missing string
  | Argument_not_taken string
  | Argument_ambiguous string

definition takes_value :: "option_spec \<Rightarrow> string \<Rightarrow> bool" where
  "takes_value spec name \<longleftrightarrow> jget spec name = Some String_option"

definition is_terminator :: "string \<Rightarrow> bool" where
  "is_terminator arg \<longleftrightarrow> arg = ''--''"

definition is_lone_short :: "string \<Rightarrow> bool" where
  "is_lone_short arg \<longleftrightarrow> length arg = 2 \<and> arg ! 0 = CHR ''-'' \<and> arg ! 1 \<noteq> CHR ''-''"

definition has_short_letters :: "string \<Rightarrow> bool" where
  "has_short_letters arg \<longleftrightarrow> 2 < length arg \<and> arg ! 0 = CHR ''-'' \<and> arg ! 1 \<noteq> CHR ''-''"

definition is_short_group :: "option_spec \<Rightarrow> string \<Rightarrow> bool" where
  "is_short_group spec arg \<longleftrightarrow> has_short_letters arg \<and> \<not> takes_value spec [arg ! 1]"

definition is_short_and_value :: "option_spec \<Rightarrow> string \<Rightarrow> bool" where
  "is_short_and_value spec arg \<longleftrightarrow> has_short_letters arg \<and> takes_value spec [arg ! 1]"

definition is_lone_long :: "string \<Rightarrow> bool" where
  "is_lone_long arg \<longleftrightarrow> 2 < length arg \<and> starts_with ''--'' arg \<and> CHR ''='' \<notin> set (drop 3 arg)"

definition is_long_and_value :: "string \<Rightarrow> bool" where
  "is_long_and_value arg \<longleftrightarrow> 2 < length arg \<and> starts_with ''--'' arg \<and> CHR ''='' \<in> set (drop 3 arg)"

text \<open>The letters of a group as arguments of their own, up to the first that takes a value.\<close>

fun expand_group :: "option_spec \<Rightarrow> string \<Rightarrow> string list" where
  "expand_group spec [] = []"
| "expand_group spec [c] = [[CHR ''-'', c]]"
| "expand_group spec (c # d # cs) =
    (if takes_value spec [c] then [CHR ''-'' # c # d # cs]
     else [CHR ''-'', c] # expand_group spec (d # cs))"

definition arg_weight :: "string \<Rightarrow> nat" where
  "arg_weight arg = 2 * length arg - 3"

lemma expand_group_weight: "cs \<noteq> [] \<Longrightarrow> sum_list (map arg_weight (expand_group spec cs)) \<le> 2 * length cs - 1"
  by (induction spec cs rule: expand_group.induct) (auto simp: arg_weight_def)

lemma group_weight:
  assumes "is_short_group spec arg"
  shows "sum_list (map arg_weight (expand_group spec (tl arg))) < arg_weight arg"
proof -
  from assms obtain a c d cs where arg: "arg = a # c # d # cs" and "\<not> takes_value spec [c]"
    by (cases arg rule: remdups_adj.cases; cases "tl (tl arg)")
      (auto simp: is_short_group_def has_short_letters_def)
  then show ?thesis
    using expand_group_weight [of "d # cs" spec] by (simp add: arg_weight_def)
qed

function arg_tokens :: "option_spec \<Rightarrow> string list \<Rightarrow> arg_token list" where
  "arg_tokens spec [] = []"
| "arg_tokens spec (arg # rest) =
    (if is_terminator arg then map Pos_token rest
     else if is_lone_short arg then
       (if takes_value spec (tl arg) \<and> rest \<noteq> []
        then Opt_token (tl arg) (Some (hd rest)) False # arg_tokens spec (tl rest)
        else Opt_token (tl arg) None False # arg_tokens spec rest)
     else if is_short_group spec arg then arg_tokens spec (expand_group spec (tl arg) @ rest)
     else if is_short_and_value spec arg then Opt_token [arg ! 1] (Some (drop 2 arg)) True # arg_tokens spec rest
     else if is_lone_long arg then
       (if takes_value spec (drop 2 arg) \<and> rest \<noteq> []
        then Opt_token (drop 2 arg) (Some (hd rest)) False # arg_tokens spec (tl rest)
        else Opt_token (drop 2 arg) None False # arg_tokens spec rest)
     else if is_long_and_value arg then
       (let name = takeWhile (\<lambda>c. c \<noteq> CHR ''='') arg
        in Opt_token (drop 2 name) (Some (drop (Suc (length name)) arg)) True # arg_tokens spec rest)
     else Pos_token arg # arg_tokens spec rest)"
  by pat_completeness auto

termination
proof (relation "measures [\<lambda>(spec, args). sum_list (map arg_weight args), \<lambda>(spec, args). length args]", goal_cases)
  case (4 spec arg rest)
  then show ?case using group_weight [of spec arg] by simp
next
  case (2 spec arg rest)
  then show ?case by (cases rest) auto
next
  case (6 spec arg rest)
  then show ?case by (cases rest) auto
qed auto

declare arg_tokens.simps(2) [simp del]

definition option_like :: "string \<Rightarrow> bool" where
  "option_like v \<longleftrightarrow> 1 < length v \<and> hd v = CHR ''-''"

fun check_token :: "option_spec \<Rightarrow> arg_token \<Rightarrow> args_problem + unit" where
  "check_token spec (Pos_token _) = Inr ()"
| "check_token spec (Opt_token name v inline) =
    (case jget spec name of
      None \<Rightarrow> Inl (Unknown_option name)
    | Some String_option \<Rightarrow>
        (case v of
          None \<Rightarrow> Inl (Argument_missing name)
        | Some s \<Rightarrow> if \<not> inline \<and> option_like s then Inl (Argument_ambiguous name) else Inr ())
    | Some Boolean_option \<Rightarrow> (if v \<noteq> None then Inl (Argument_not_taken name) else Inr ()))"

text \<open>The values by option name: \<open>None\<close> for the \<open>true\<close> of a boolean option. The last one wins.\<close>

type_synonym option_values = "(string \<times> string option) list"

fun store_token :: "arg_token \<Rightarrow> option_values \<Rightarrow> option_values" where
  "store_token (Pos_token _) vals = vals"
| "store_token (Opt_token name v _) vals = jset name v vals"

fun positional :: "arg_token \<Rightarrow> string list" where
  "positional (Pos_token p) = [p]"
| "positional (Opt_token _ _ _) = []"

definition parseArgs :: "option_spec \<Rightarrow> string list \<Rightarrow> args_problem + option_values \<times> string list" where
  "parseArgs spec argv =
    (let tokens = arg_tokens spec argv
     in and_then (map_result (check_token spec) tokens)
          (\<lambda>_. Inr (fold store_token tokens [], concat (map positional tokens))))"

section \<open>The command line\<close>

datatype usage_problem =
    Args_error args_problem
  | Not_an_integer string string
  | Tags_empty
  | Flag_required string
  | No_target_device
  | No_target_occupant
  | Unsupported_button string
  | Screenshot_needs_out
  | Unknown_command string
  | No_token

record cli_flags =
  fl_server :: "string option"
  fl_token :: "string option"
  fl_deviceId :: "string option"
  fl_occupantId :: "string option"
  fl_json :: bool
  fl_help :: bool
  fl_clear :: bool
  fl_timeoutMs :: "jsnum option"
  fl_out :: "string option"
  fl_x :: "jsnum option"
  fl_y :: "jsnum option"
  fl_fromX :: "jsnum option"
  fl_fromY :: "jsnum option"
  fl_toX :: "jsnum option"
  fl_toY :: "jsnum option"
  fl_durationMs :: "jsnum option"
  fl_text :: "string option"
  fl_button :: "string option"
  fl_platform :: "string option"
  fl_tags :: "string list option"

definition cli_option_spec :: option_spec where
  "cli_option_spec =
    [(''server'', String_option), (''token'', String_option), (''device-id'', String_option),
     (''occupant-id'', String_option), (''json'', Boolean_option), (''help'', Boolean_option),
     (''clear'', Boolean_option), (''timeout-ms'', String_option), (''out'', String_option),
     (''x'', String_option), (''y'', String_option), (''from-x'', String_option), (''from-y'', String_option),
     (''to-x'', String_option), (''to-y'', String_option), (''duration-ms'', String_option),
     (''text'', String_option), (''button'', String_option), (''platform'', String_option),
     (''tags'', String_option)]"

definition toInteger :: "string option \<Rightarrow> string \<Rightarrow> usage_problem + jsnum option" where
  "toInteger raw name =
    (case raw of
      None \<Rightarrow> Inr None
    | Some s \<Rightarrow> if is_integer_num (js_Number s) then Inr (Some (js_Number s)) else Inl (Not_an_integer name s))"

definition toTags :: "string option \<Rightarrow> usage_problem + string list option" where
  "toTags raw =
    (case raw of
      None \<Rightarrow> Inr None
    | Some s \<Rightarrow>
        (let tags = filter (\<lambda>tag. tag \<noteq> []) (map trim (split_on CHR '','' s))
         in if tags = [] then Inl Tags_empty else Inr (Some tags)))"

definition option_value :: "option_values \<Rightarrow> string \<Rightarrow> string option" where
  "option_value vals name = (case jget vals name of Some (Some s) \<Rightarrow> Some s | _ \<Rightarrow> None)"

definition option_given :: "option_values \<Rightarrow> string \<Rightarrow> bool" where
  "option_given vals name \<longleftrightarrow> jget vals name \<noteq> None"

definition flags_of :: "option_values \<Rightarrow> usage_problem + cli_flags" where
  "flags_of vals =
    (let str = option_value vals; int = (\<lambda>name. toInteger (str name) name) in
     and_then (int ''timeout-ms'') (\<lambda>timeoutMs.
     and_then (int ''x'') (\<lambda>x.
     and_then (int ''y'') (\<lambda>y.
     and_then (int ''from-x'') (\<lambda>fromX.
     and_then (int ''from-y'') (\<lambda>fromY.
     and_then (int ''to-x'') (\<lambda>toX.
     and_then (int ''to-y'') (\<lambda>toY.
     and_then (int ''duration-ms'') (\<lambda>durationMs.
     and_then (toTags (str ''tags'')) (\<lambda>tags.
     Inr \<lparr>fl_server = str ''server'', fl_token = str ''token'', fl_deviceId = str ''device-id'',
          fl_occupantId = str ''occupant-id'', fl_json = option_given vals ''json'',
          fl_help = option_given vals ''help'', fl_clear = option_given vals ''clear'',
          fl_timeoutMs = timeoutMs, fl_out = str ''out'', fl_x = x, fl_y = y, fl_fromX = fromX,
          fl_fromY = fromY, fl_toX = toX, fl_toY = toY, fl_durationMs = durationMs, fl_text = str ''text'',
          fl_button = str ''button'', fl_platform = str ''platform'', fl_tags = tags\<rparr>))))))))))"

definition parseCliArgs :: "string list \<Rightarrow> usage_problem + string list \<times> cli_flags" where
  "parseCliArgs argv =
    (case parseArgs cli_option_spec argv of
      Inl e \<Rightarrow> Inl (Args_error e)
    | Inr (vals, positionals) \<Rightarrow> and_then (flags_of vals) (\<lambda>flags. Inr (positionals, flags)))"

section \<open>What an accepted command line looks like\<close>

definition integer_flag :: "jsnum option \<Rightarrow> bool" where
  "integer_flag v \<longleftrightarrow> (\<forall>n. v = Some n \<longrightarrow> is_integer_num n)"

definition good_tags :: "string list \<Rightarrow> bool" where
  "good_tags ts \<longleftrightarrow> ts \<noteq> [] \<and> (\<forall>t\<in>set ts. t \<noteq> [] \<and> trim t = t \<and> CHR '','' \<notin> set t)"

definition good_flags :: "cli_flags \<Rightarrow> bool" where
  "good_flags f \<longleftrightarrow>
    integer_flag (fl_timeoutMs f) \<and> integer_flag (fl_x f) \<and> integer_flag (fl_y f) \<and>
    integer_flag (fl_fromX f) \<and> integer_flag (fl_fromY f) \<and> integer_flag (fl_toX f) \<and> integer_flag (fl_toY f) \<and>
    integer_flag (fl_durationMs f) \<and>
    (\<forall>ts. fl_tags f = Some ts \<longrightarrow> good_tags ts)"

lemma toInteger_integer: "toInteger raw name = Inr v \<Longrightarrow> integer_flag v"
  by (auto simp: toInteger_def integer_flag_def split: option.splits if_splits)

lemma set_dropWhile_subset: "x \<in> set (dropWhile P s) \<Longrightarrow> x \<in> set s"
  by (metis set_dropWhileD)

lemma set_trim: "x \<in> set (trim s) \<Longrightarrow> x \<in> set s"
  by (auto simp: trim_def dest!: set_dropWhile_subset)

lemma toTags_good: "toTags raw = Inr (Some ts) \<Longrightarrow> good_tags ts"
proof -
  assume "toTags raw = Inr (Some ts)"
  then obtain s where s: "ts = filter (\<lambda>tag. tag \<noteq> []) (map trim (split_on CHR '','' s))" "ts \<noteq> []"
    by (auto simp: toTags_def Let_def split: option.splits if_splits)
  have "t \<noteq> [] \<and> trim t = t \<and> CHR '','' \<notin> set t" if t: "t \<in> set ts" for t
  proof -
    from t s(1) obtain p where p: "p \<in> set (split_on CHR '','' s)" "t = trim p" "t \<noteq> []" by auto
    have "trim t = t" unfolding p(2) by (rule trim_trim)
    moreover have "CHR '','' \<notin> set t" unfolding p(2) using split_on_parts [OF p(1)] set_trim by blast
    ultimately show ?thesis using p(3) by blast
  qed
  with s(2) show ?thesis unfolding good_tags_def by blast
qed

lemma flags_of_good: "flags_of vals = Inr f \<Longrightarrow> good_flags f"
  by (auto simp: flags_of_def Let_def and_then_Inr good_flags_def dest: toTags_good intro: toInteger_integer)

end
