(* ===== verification/Cli.thy ===== *)
theory Cli
  imports Cli_Args
begin

text \<open>
  \<open>packages/cli\<close>, the commands: the session store (session-store.ts), the commands (commands.ts) and
  the router (cli.ts).

  A command is a computation on the state \<open>cli_state\<close> (the session file, what was printed, sent and
  written) that returns a value or throws. The rest of the process is \<open>cli_world\<close>: the environment
  variables, the transport, the clock, whether the file operations succeed, and how the engine prints
  a number that is not an integer. The session file is the JSON value its text denotes, \<open>None\<close> when it
  is missing or cannot be parsed. Nothing else writes the file while the command runs. The texts of
  the messages are not modelled beyond the values they show; a line printed with \<open>--json\<close> is the
  value given to \<open>JSON.stringify\<close>.
\<close>

section \<open>The saved session\<close>

record stored_occupation =
  so_serverUrl :: string
  so_deviceId :: string
  so_occupantId :: string
  so_occupiedAt :: string

definition isStoredOccupation :: "json \<Rightarrow> stored_occupation option" where
  "isStoredOccupation v =
    (case asRecord v of
      None \<Rightarrow> None
    | Some r \<Rightarrow>
        (case (jget r ''serverUrl'', jget r ''deviceId'', jget r ''occupantId'', jget r ''occupiedAt'') of
          (Some (JStr u), Some (JStr d), Some (JStr occ), Some (JStr t)) \<Rightarrow>
            Some \<lparr>so_serverUrl = u, so_deviceId = d, so_occupantId = occ, so_occupiedAt = t\<rparr>
        | _ \<Rightarrow> None))"

definition file_load :: "json option \<Rightarrow> stored_occupation option" where
  "file_load file = Option.bind file isStoredOccupation"

text \<open>What \<open>save\<close> writes of the object literal it is given.\<close>

definition file_write :: "(string \<times> json option) list \<Rightarrow> json option" where
  "file_write kvs = Some (JObj (present kvs))"

definition file_save :: "stored_occupation \<Rightarrow> json option \<Rightarrow> json option" where
  "file_save occ file = file_write
    [(''serverUrl'', Some (JStr (so_serverUrl occ))), (''deviceId'', Some (JStr (so_deviceId occ))),
     (''occupantId'', Some (JStr (so_occupantId occ))), (''occupiedAt'', Some (JStr (so_occupiedAt occ)))]"

definition file_clear :: "json option \<Rightarrow> json option" where
  "file_clear file = None"

definition memory_load :: "stored_occupation option \<Rightarrow> stored_occupation option" where
  "memory_load m = m"

definition memory_save :: "stored_occupation \<Rightarrow> stored_occupation option \<Rightarrow> stored_occupation option" where
  "memory_save occ m = Some occ"

definition memory_clear :: "stored_occupation option \<Rightarrow> stored_occupation option" where
  "memory_clear m = None"

text \<open>The interface both implementations promise: at most one occupation, the last one saved.\<close>

locale session_store =
  fixes load :: "'f \<Rightarrow> stored_occupation option"
    and save :: "stored_occupation \<Rightarrow> 'f \<Rightarrow> 'f"
    and clear :: "'f \<Rightarrow> 'f"
  assumes load_save: "load (save occ f) = Some occ"
    and load_clear: "load (clear f) = None"
begin

lemma last_wins:
  "ops \<noteq> [] \<Longrightarrow> load (fold (\<lambda>op. case op of Some occ \<Rightarrow> save occ | None \<Rightarrow> clear) ops f) = last ops"
proof (induction ops arbitrary: f)
  case (Cons op ops)
  then show ?case by (cases "ops = []") (auto simp: load_save load_clear split: option.split)
qed simp

end

interpretation session_file: session_store file_load file_save file_clear
  by unfold_locales
    (simp_all add: file_load_def file_save_def file_write_def file_clear_def isStoredOccupation_def)

interpretation session_memory: session_store memory_load memory_save memory_clear
  by unfold_locales (simp_all add: memory_load_def memory_save_def memory_clear_def)

section \<open>The process around a command\<close>

record cli_world =
  cw_env :: "string \<Rightarrow> string option"
  cw_fetch :: fetch
  cw_now :: string
  cw_save_ok :: bool
  cw_clear_ok :: bool
  cw_write_ok :: bool
  cw_number :: "rat \<Rightarrow> string"

datatype out_line = Out_text string | Out_json "json option" | Out_usage

datatype err_line = Err_usage usage_problem | Err_hint | Err_message string | Err_session_cleared

datatype file_data = Utf8_bytes string | Base64_bytes string

record cli_state =
  cs_session :: "json option"
  cs_stdout :: "out_line list"
  cs_stderr :: "err_line list"
  cs_requests :: "http_request list"
  cs_files :: "(string \<times> file_data) list"

datatype cli_error = Usage_error usage_problem | Client_error client_error

type_synonym 'a cli = "cli_state \<Rightarrow> (cli_error + 'a) \<times> cli_state"

definition cli_return :: "'a \<Rightarrow> 'a cli" where
  "cli_return a s = (Inr a, s)"

definition cli_throw :: "cli_error \<Rightarrow> 'a cli" where
  "cli_throw e s = (Inl e, s)"

definition cli_bind :: "'a cli \<Rightarrow> ('a \<Rightarrow> 'b cli) \<Rightarrow> 'b cli" where
  "cli_bind m f s = (case m s of (Inl e, t) \<Rightarrow> (Inl e, t) | (Inr a, t) \<Rightarrow> f a t)"

definition cli_get :: "(cli_state \<Rightarrow> 'a) \<Rightarrow> 'a cli" where
  "cli_get f s = (Inr (f s), s)"

definition cli_lift :: "client_error + 'a \<Rightarrow> 'a cli" where
  "cli_lift r s = (case r of Inl e \<Rightarrow> Inl (Client_error e) | Inr a \<Rightarrow> Inr a, s)"

text \<open>Awaiting a call of the client.\<close>

definition cli_call :: "'a call \<Rightarrow> 'a cli" where
  "cli_call c s = cli_lift (snd c) (s\<lparr>cs_requests := cs_requests s @ fst c\<rparr>)"

definition cli_stdout :: "out_line list \<Rightarrow> unit cli" where
  "cli_stdout ls s = (Inr (), s\<lparr>cs_stdout := cs_stdout s @ ls\<rparr>)"

definition session_save :: "cli_world \<Rightarrow> (string \<times> json option) list \<Rightarrow> unit cli" where
  "session_save w kvs s =
    (if cw_save_ok w then (Inr (), s\<lparr>cs_session := file_write kvs\<rparr>)
     else (Inl (Client_error (Thrown ''session file cannot be written'')), s))"

definition session_clear :: "cli_world \<Rightarrow> unit cli" where
  "session_clear w s =
    (if cw_clear_ok w then (Inr (), s\<lparr>cs_session := file_clear (cs_session s)\<rparr>)
     else (Inl (Client_error (Thrown ''session file cannot be removed'')), s))"

definition saveFile :: "cli_world \<Rightarrow> string \<Rightarrow> file_data \<Rightarrow> unit cli" where
  "saveFile w path data s =
    (if cw_write_ok w then (Inr (), s\<lparr>cs_files := cs_files s @ [(path, data)]\<rparr>)
     else (Inl (Client_error (Thrown ''file cannot be written'')), s))"

text \<open>\<open>String(v)\<close>, as template literals use it.\<close>

definition number_text :: "(rat \<Rightarrow> string) \<Rightarrow> jsnum \<Rightarrow> string" where
  "number_text pr n =
    (case n of
      Fin q \<Rightarrow> if of_int \<lfloor>q\<rfloor> = q \<and> \<bar>q\<bar> < 10 ^ 21 then int_text \<lfloor>q\<rfloor> else pr q
    | PosInf \<Rightarrow> ''Infinity'' | NegInf \<Rightarrow> ''-Infinity'' | NaN \<Rightarrow> ''NaN'')"

fun js_String :: "(rat \<Rightarrow> string) \<Rightarrow> json \<Rightarrow> string" where
  "js_String pr JNull = ''null''"
| "js_String pr (JBool b) = (if b then ''true'' else ''false'')"
| "js_String pr (JNum n) = number_text pr n"
| "js_String pr (JStr s) = s"
| "js_String pr (JArr xs) = join '','' (map (\<lambda>x. if x = JNull then [] else js_String pr x) xs)"
| "js_String pr (JObj _) = ''[object Object]''"

definition js_text :: "(rat \<Rightarrow> string) \<Rightarrow> json option \<Rightarrow> string" where
  "js_text pr v = (case v of None \<Rightarrow> ''undefined'' | Some j \<Rightarrow> js_String pr j)"

fun js_truthy :: "json option \<Rightarrow> bool" where
  "js_truthy None = False"
| "js_truthy (Some JNull) = False"
| "js_truthy (Some (JBool b)) = b"
| "js_truthy (Some (JNum n)) = (n \<noteq> num 0 \<and> n \<noteq> NaN)"
| "js_truthy (Some (JStr s)) = (s \<noteq> [])"
| "js_truthy (Some _) = True"

section \<open>The commands\<close>

record command_context =
  cc_client :: nebula_client
  cc_flags :: cli_flags
  cc_serverUrl :: string

definition emit_result :: "command_context \<Rightarrow> string list \<Rightarrow> json option \<Rightarrow> unit cli" where
  "emit_result ctx humanLines jsonValue =
    cli_stdout (if fl_json (cc_flags ctx) then [Out_json jsonValue] else map Out_text humanLines)"

definition finish :: "command_context \<Rightarrow> string list \<Rightarrow> json option \<Rightarrow> nat cli" where
  "finish ctx humanLines jsonValue = cli_bind (emit_result ctx humanLines jsonValue) (\<lambda>_. cli_return exit_ok)"

definition requireFlag :: "'a option \<Rightarrow> string \<Rightarrow> 'a cli" where
  "requireFlag v name = (case v of None \<Rightarrow> cli_throw (Usage_error (Flag_required name)) | Some a \<Rightarrow> cli_return a)"

definition sessionFor :: "command_context \<Rightarrow> json option \<Rightarrow> stored_occupation option" where
  "sessionFor ctx file =
    (case file_load file of
      None \<Rightarrow> None
    | Some stored \<Rightarrow> if so_serverUrl stored \<noteq> cc_serverUrl ctx then None else Some stored)"

definition occupantFromSession :: "stored_occupation option \<Rightarrow> string \<Rightarrow> string option" where
  "occupantFromSession stored deviceId =
    (case stored of
      None \<Rightarrow> None
    | Some o' \<Rightarrow> if so_deviceId o' \<noteq> deviceId then None else Some (so_occupantId o'))"

text \<open>\<open>a ?? b\<close> on optional values, and the check \<open>!value\<close> of an optional text.\<close>

definition nullish :: "'a option \<Rightarrow> 'a option \<Rightarrow> 'a option" where
  "nullish a b = (case a of Some x \<Rightarrow> Some x | None \<Rightarrow> b)"

definition nonempty :: "string option \<Rightarrow> usage_problem \<Rightarrow> string cli" where
  "nonempty v p =
    (case v of
      None \<Rightarrow> cli_throw (Usage_error p)
    | Some s \<Rightarrow> if s = [] then cli_throw (Usage_error p) else cli_return s)"

definition resolveTarget :: "cli_world \<Rightarrow> command_context \<Rightarrow> device_target cli" where
  "resolveTarget w ctx =
    cli_bind (cli_get (\<lambda>s. sessionFor ctx (cs_session s))) (\<lambda>stored.
    cli_bind (nonempty (nullish (fl_deviceId (cc_flags ctx)) (map_option so_deviceId stored)) No_target_device) (\<lambda>deviceId.
    cli_bind (nonempty (nullish (fl_occupantId (cc_flags ctx))
        (nullish (cw_env w ''NEBULA_OCCUPANT_ID'') (occupantFromSession stored deviceId))) No_target_occupant) (\<lambda>occupantId.
    cli_return (deviceId, occupantId))))"

text \<open>The line of a device; the dots and the Korean marks are ASCII constants.\<close>

definition statusDot :: "json option \<Rightarrow> client_error + string" where
  "statusDot device = and_then (member device ''status'')
    (\<lambda>status. Inr (if status = Some (JStr ''online'') then ''*'' else ''o''))"

definition occupiedSuffix :: "json option \<Rightarrow> client_error + string" where
  "occupiedSuffix device = and_then (member device ''isOccupied'')
    (\<lambda>v. Inr (if js_truthy v then '' [occupied]'' else []))"

definition tagsSuffix :: "(rat \<Rightarrow> string) \<Rightarrow> json option \<Rightarrow> client_error + string" where
  "tagsSuffix pr device =
    and_then (member device ''tags'') (\<lambda>tags.
    and_then (member tags ''length'') (\<lambda>len.
      if len = Some (JNum (num 0)) then Inr []
      else case tags of
        Some (JArr xs) \<Rightarrow>
          Inr ('' ('' @ join '', '' (map (\<lambda>x. if x = JNull then [] else js_String pr x) xs) @ '')'')
      | _ \<Rightarrow> Inl (Thrown ''device.tags.join is not a function'')))"

definition deviceLine :: "(rat \<Rightarrow> string) \<Rightarrow> json option \<Rightarrow> client_error + string" where
  "deviceLine pr device =
    and_then (statusDot device) (\<lambda>dot.
    and_then (member device ''id'') (\<lambda>i.
    and_then (member device ''name'') (\<lambda>name.
    and_then (member device ''platform'') (\<lambda>platform.
    and_then (member device ''osVersion'') (\<lambda>osVersion.
    and_then (tagsSuffix pr device) (\<lambda>tags.
    and_then (occupiedSuffix device) (\<lambda>occupied.
      Inr (dot @ '' '' @ js_text pr i @ ''  '' @ js_text pr name @ ''  '' @
           platformLabel (js_text pr platform) @ '' '' @ js_text pr osVersion @ tags @ occupied))))))))"

definition runHealth :: "cli_world \<Rightarrow> command_context \<Rightarrow> nat cli" where
  "runHealth w ctx =
    cli_bind (cli_call (client_health (cw_fetch w) (cc_client ctx))) (\<lambda>result.
    cli_bind (cli_lift (member (Some result) ''status'')) (\<lambda>status.
    finish ctx [js_text (cw_number w) status] (Some result)))"

definition deviceLines :: "(rat \<Rightarrow> string) \<Rightarrow> json \<Rightarrow> client_error + string list" where
  "deviceLines pr devices =
    and_then (member (Some devices) ''length'') (\<lambda>len.
      if len = Some (JNum (num 0)) then Inr [''no devices registered'']
      else case devices of
        JArr xs \<Rightarrow> map_result (\<lambda>x. deviceLine pr (Some x)) xs
      | _ \<Rightarrow> Inl (Thrown ''devices.map is not a function''))"

definition runDevicesList :: "cli_world \<Rightarrow> command_context \<Rightarrow> nat cli" where
  "runDevicesList w ctx =
    cli_bind (cli_call (client_listDevices (cw_fetch w) (cc_client ctx))) (\<lambda>devices.
    cli_bind (cli_lift (deviceLines (cw_number w) devices)) (\<lambda>ls.
    finish ctx ls (Some devices)))"

definition runDevicesGet :: "cli_world \<Rightarrow> command_context \<Rightarrow> nat cli" where
  "runDevicesGet w ctx =
    cli_bind (requireFlag (fl_deviceId (cc_flags ctx)) ''device-id'') (\<lambda>deviceId.
    cli_bind (cli_call (client_getDevice (cw_fetch w) (cc_client ctx) deviceId)) (\<lambda>device.
    cli_bind (cli_lift (deviceLine (cw_number w) (Some device))) (\<lambda>l.
    finish ctx [l] (Some device))))"

text \<open>\<open>value ?? '-'\<close> of a property that may be missing or \<open>null\<close>.\<close>

definition or_dash :: "(rat \<Rightarrow> string) \<Rightarrow> json option \<Rightarrow> string" where
  "or_dash pr v = (if v = None \<or> v = Some JNull then ''-'' else js_text pr v)"

definition runOccupy :: "cli_world \<Rightarrow> command_context \<Rightarrow> nat cli" where
  "runOccupy w ctx =
    cli_bind (cli_call (client_occupy (cw_fetch w) (cc_client ctx)
      \<lparr>oq_deviceId = fl_deviceId (cc_flags ctx), oq_platform = fl_platform (cc_flags ctx),
       oq_tags = fl_tags (cc_flags ctx)\<rparr>)) (\<lambda>result.
    cli_bind (cli_lift (member (Some result) ''device'')) (\<lambda>device.
    cli_bind (cli_lift (member device ''id'')) (\<lambda>i.
    cli_bind (cli_lift (member (Some result) ''occupantId'')) (\<lambda>occupantId.
    cli_bind (session_save w
      [(''serverUrl'', Some (JStr (cc_serverUrl ctx))), (''deviceId'', i), (''occupantId'', occupantId),
       (''occupiedAt'', Some (JStr (cw_now w)))]) (\<lambda>_.
    cli_bind (cli_lift (member device ''name'')) (\<lambda>name.
    cli_bind (cli_lift (member (Some result) ''expiresAt'')) (\<lambda>expiresAt.
    finish ctx
      [''occupied: '' @ js_text (cw_number w) i @ '' ('' @ js_text (cw_number w) name @ '')'',
       ''occupantId: '' @ js_text (cw_number w) occupantId,
       ''expires: '' @ or_dash (cw_number w) expiresAt @ '' (extended by commands and keepalive)'',
       ''session saved; --device-id and --occupant-id may be left out''] (Some result))))))))"

definition clear_stored_target :: "cli_world \<Rightarrow> command_context \<Rightarrow> device_target \<Rightarrow> unit cli" where
  "clear_stored_target w ctx target =
    cli_bind (cli_get (\<lambda>s. sessionFor ctx (cs_session s))) (\<lambda>stored.
      if map_option so_deviceId stored = Some (fst target) then session_clear w else cli_return ())"

definition runRelease :: "cli_world \<Rightarrow> command_context \<Rightarrow> nat cli" where
  "runRelease w ctx =
    cli_bind (resolveTarget w ctx) (\<lambda>target.
    cli_bind (cli_call (client_release (cw_fetch w) (cc_client ctx) (fst target) (snd target))) (\<lambda>device.
    cli_bind (clear_stored_target w ctx target) (\<lambda>_.
    cli_bind (cli_lift (member (Some device) ''id'')) (\<lambda>i.
    finish ctx [''released: '' @ js_text (cw_number w) i] (Some device)))))"

definition runKeepalive :: "cli_world \<Rightarrow> command_context \<Rightarrow> nat cli" where
  "runKeepalive w ctx =
    cli_bind (resolveTarget w ctx) (\<lambda>target.
    cli_bind (cli_call (client_keepalive (cw_fetch w) (cc_client ctx) (fst target) (snd target))) (\<lambda>result.
    cli_bind (cli_lift (member (Some result) ''expiresAt'')) (\<lambda>expiresAt.
    finish ctx [''extended, expires: '' @ or_dash (cw_number w) expiresAt] (Some result))))"

definition show_session :: "command_context \<Rightarrow> json option \<Rightarrow> nat cli" where
  "show_session ctx file =
    (case file_load file of
      None \<Rightarrow> finish ctx [''no saved session''] (Some JNull)
    | Some stored \<Rightarrow>
        finish ctx
          [''device: '' @ so_deviceId stored, ''server: '' @ so_serverUrl stored,
           ''occupied at: '' @ so_occupiedAt stored] file)"

definition runSession :: "cli_world \<Rightarrow> command_context \<Rightarrow> nat cli" where
  "runSession w ctx =
    (if fl_clear (cc_flags ctx)
     then cli_bind (session_clear w) (\<lambda>_. finish ctx [''session deleted''] (Some (JObj [(''cleared'', JBool True)])))
     else cli_bind (cli_get cs_session) (show_session ctx))"

definition finish_ok :: "command_context \<Rightarrow> nat cli" where
  "finish_ok ctx = finish ctx [''ok''] (Some (JObj [(''ok'', JBool True)]))"

definition runTap :: "cli_world \<Rightarrow> command_context \<Rightarrow> nat cli" where
  "runTap w ctx =
    cli_bind (resolveTarget w ctx) (\<lambda>target.
    cli_bind (requireFlag (fl_x (cc_flags ctx)) ''x'') (\<lambda>x.
    cli_bind (requireFlag (fl_y (cc_flags ctx)) ''y'') (\<lambda>y.
    cli_bind (cli_call (client_tap (cw_fetch w) (cc_client ctx) target x y)) (\<lambda>_. finish_ok ctx))))"

definition runSwipe :: "cli_world \<Rightarrow> command_context \<Rightarrow> nat cli" where
  "runSwipe w ctx =
    cli_bind (resolveTarget w ctx) (\<lambda>target.
    cli_bind (requireFlag (fl_fromX (cc_flags ctx)) ''from-x'') (\<lambda>fromX.
    cli_bind (requireFlag (fl_fromY (cc_flags ctx)) ''from-y'') (\<lambda>fromY.
    cli_bind (requireFlag (fl_toX (cc_flags ctx)) ''to-x'') (\<lambda>toX.
    cli_bind (requireFlag (fl_toY (cc_flags ctx)) ''to-y'') (\<lambda>toY.
    cli_bind (cli_call (client_swipe (cw_fetch w) (cc_client ctx) target fromX fromY toX toY
      (fl_durationMs (cc_flags ctx)))) (\<lambda>_. finish_ok ctx))))))"

definition runType :: "cli_world \<Rightarrow> command_context \<Rightarrow> nat cli" where
  "runType w ctx =
    cli_bind (resolveTarget w ctx) (\<lambda>target.
    cli_bind (requireFlag (fl_text (cc_flags ctx)) ''text'') (\<lambda>t.
    cli_bind (cli_call (client_typeText (cw_fetch w) (cc_client ctx) target t)) (\<lambda>_. finish_ok ctx)))"

definition runPress :: "cli_world \<Rightarrow> command_context \<Rightarrow> nat cli" where
  "runPress w ctx =
    cli_bind (resolveTarget w ctx) (\<lambda>target.
    cli_bind (requireFlag (fl_button (cc_flags ctx)) ''button'') (\<lambda>button.
      if button \<noteq> ''home'' \<and> button \<noteq> ''back'' then cli_throw (Usage_error (Unsupported_button button))
      else cli_bind (cli_call (client_pressButton (cw_fetch w) (cc_client ctx) target button)) (\<lambda>_. finish_ok ctx)))"

definition flag_set :: "string option \<Rightarrow> bool" where
  "flag_set v \<longleftrightarrow> v \<noteq> None \<and> v \<noteq> Some []"

definition runUiDump :: "cli_world \<Rightarrow> command_context \<Rightarrow> nat cli" where
  "runUiDump w ctx =
    cli_bind (resolveTarget w ctx) (\<lambda>target.
    cli_bind (cli_call (client_uiDump (cw_fetch w) (cc_client ctx) target)) (\<lambda>tree.
      if flag_set (fl_out (cc_flags ctx)) then
        (let out = the (fl_out (cc_flags ctx)) in
         cli_bind (saveFile w out (Utf8_bytes (case tree of None \<Rightarrow> [] | Some j \<Rightarrow> js_String (cw_number w) j))) (\<lambda>_.
         finish ctx [''saved: '' @ out] (Some (JObj [(''saved'', JStr out)]))))
      else finish ctx [js_text (cw_number w) tree] (Some (JObj (present [(''tree'', tree)])))))"

definition base64_bytes :: "json option \<Rightarrow> client_error + file_data" where
  "base64_bytes v = (case v of Some (JStr s) \<Rightarrow> Inr (Base64_bytes s) | _ \<Rightarrow> Inl (Thrown ''not a string''))"

definition runScreenshot :: "cli_world \<Rightarrow> command_context \<Rightarrow> nat cli" where
  "runScreenshot w ctx =
    cli_bind (resolveTarget w ctx) (\<lambda>target.
    cli_bind (cli_call (client_screenshot (cw_fetch w) (cc_client ctx) target)) (\<lambda>result.
      if flag_set (fl_out (cc_flags ctx)) then
        (let out = the (fl_out (cc_flags ctx)) in
         cli_bind (cli_lift (and_then (member result ''jpegBase64'') base64_bytes)) (\<lambda>bytes.
         cli_bind (saveFile w out bytes) (\<lambda>_.
         cli_bind (cli_lift (member result ''coordWidth'')) (\<lambda>coordWidth.
         cli_bind (cli_lift (member result ''coordHeight'')) (\<lambda>coordHeight.
         finish ctx
           [''saved: '' @ out @ '' ('' @ js_text (cw_number w) coordWidth @ ''x'' @ js_text (cw_number w) coordHeight @ '')'']
           (Some (JObj (present [(''saved'', Some (JStr out)), (''coordWidth'', coordWidth), (''coordHeight'', coordHeight)]))))))))
      else if fl_json (cc_flags ctx) then finish ctx [] result
      else cli_throw (Usage_error Screenshot_needs_out)))"

section \<open>The router\<close>

definition COMMANDS :: "(string \<times> (cli_world \<Rightarrow> command_context \<Rightarrow> nat cli)) list" where
  "COMMANDS =
    [(''health'', runHealth), (''devices list'', runDevicesList), (''devices get'', runDevicesGet),
     (''devices occupy'', runOccupy), (''devices release'', runRelease), (''devices keepalive'', runKeepalive),
     (''devices session'', runSession), (''tap'', runTap), (''swipe'', runSwipe), (''type'', runType),
     (''press'', runPress), (''ui-dump'', runUiDump), (''screenshot'', runScreenshot)]"

definition default_server_url :: string where
  "default_server_url = ''http://localhost:3000''"

definition session_invalid_on_409 :: "string list" where
  "session_invalid_on_409 = [''devices keepalive'', ''devices release'']"

definition toCommandKey :: "string list \<Rightarrow> string" where
  "toCommandKey positionals =
    (case positionals of
      [] \<Rightarrow> []
    | p # ps \<Rightarrow>
        if p = ''devices'' then trim (''devices '' @ (case ps of [] \<Rightarrow> [] | q # _ \<Rightarrow> q)) else p)"

text \<open>
  The lookup \<open>COMMANDS[key]\<close> reads an object literal, so it also finds the members every object
  inherits. Called as a handler, without a receiver, \<open>toString\<close> returns a text and \<open>constructor\<close> the
  context; the others throw a \<open>TypeError\<close>.
\<close>

definition inherited_members :: "string list" where
  "inherited_members =
    [''constructor'', ''toString'', ''toLocaleString'', ''valueOf'', ''hasOwnProperty'', ''isPrototypeOf'',
     ''propertyIsEnumerable'', ''__proto__'', ''__defineGetter__'', ''__defineSetter__'',
     ''__lookupGetter__'', ''__lookupSetter__'']"

datatype run_result = Exit_code nat | Not_an_exit_code string | Run_rejected

definition call_inherited :: "string \<Rightarrow> run_result cli" where
  "call_inherited key =
    (if key = ''toString'' then cli_return (Not_an_exit_code ''[object Undefined]'')
     else if key = ''constructor'' then cli_return (Not_an_exit_code ''[object Object]'')
     else cli_throw (Client_error (Thrown ''Cannot convert undefined or null to object'')))"

definition lookup_handler :: "string \<Rightarrow> (cli_world \<Rightarrow> command_context \<Rightarrow> run_result cli) option" where
  "lookup_handler key =
    (case jget COMMANDS key of
      Some h \<Rightarrow> Some (\<lambda>w ctx. cli_bind (h w ctx) (\<lambda>n. cli_return (Exit_code n)))
    | None \<Rightarrow> if key \<in> set inherited_members then Some (\<lambda>w ctx. call_inherited key) else None)"

definition server_url :: "cli_world \<Rightarrow> cli_flags \<Rightarrow> string" where
  "server_url w flags =
    (case nullish (fl_server flags) (cw_env w ''NEBULA_SERVER_URL'') of Some u \<Rightarrow> u | None \<Rightarrow> default_server_url)"

definition client_token :: "cli_world \<Rightarrow> cli_flags \<Rightarrow> string option" where
  "client_token w flags = nullish (fl_token flags) (cw_env w ''NEBULA_CLIENT_TOKEN'')"

definition context_of :: "cli_world \<Rightarrow> cli_flags \<Rightarrow> command_context" where
  "context_of w flags =
    \<lparr>cc_client = new_client (server_url w flags)
        (case client_token w flags of Some t \<Rightarrow> t | None \<Rightarrow> []) (fl_timeoutMs flags),
     cc_flags = flags, cc_serverUrl = server_url w flags\<rparr>"

definition dispatch :: "cli_world \<Rightarrow> string \<Rightarrow> cli_flags \<Rightarrow> run_result cli" where
  "dispatch w key flags =
    (case lookup_handler key of
      None \<Rightarrow> cli_throw (Usage_error (Unknown_command key))
    | Some h \<Rightarrow>
        if \<not> flag_set (client_token w flags) \<and> key \<noteq> ''health'' then cli_throw (Usage_error No_token)
        else h w (context_of w flags))"

definition cli_stderr :: "err_line \<Rightarrow> cli_state \<Rightarrow> cli_state" where
  "cli_stderr l s = s\<lparr>cs_stderr := cs_stderr s @ [l]\<rparr>"

definition names_other :: "string option \<Rightarrow> string \<Rightarrow> bool" where
  "names_other v stored \<longleftrightarrow> flag_set v \<and> v \<noteq> Some stored"

definition session_invalid :: "string \<Rightarrow> string \<Rightarrow> cli_flags \<Rightarrow> int \<Rightarrow> json option \<Rightarrow> bool" where
  "session_invalid serverUrl key flags status file =
    (case file_load file of
      None \<Rightarrow> False
    | Some stored \<Rightarrow>
        so_serverUrl stored = serverUrl \<and>
        \<not> names_other (fl_deviceId flags) (so_deviceId stored) \<and>
        \<not> names_other (fl_occupantId flags) (so_occupantId stored) \<and>
        (status = 403 \<or> (status = 409 \<and> key \<in> set session_invalid_on_409)))"

definition cleanupInvalidSession :: "cli_world \<Rightarrow> string \<Rightarrow> string \<Rightarrow> cli_flags \<Rightarrow> int \<Rightarrow> unit cli" where
  "cleanupInvalidSession w serverUrl key flags status s =
    (if \<not> session_invalid serverUrl key flags status (cs_session s) then (Inr (), s)
     else cli_bind (session_clear w) (\<lambda>_ s. (Inr (), cli_stderr Err_session_cleared s)) s)"

definition usage_failure :: "usage_problem \<Rightarrow> cli_state \<Rightarrow> run_result \<times> cli_state" where
  "usage_failure p s = (Exit_code exit_usage, cli_stderr Err_hint (cli_stderr (Err_usage p) s))"

definition client_failure ::
  "cli_world \<Rightarrow> string \<Rightarrow> string \<Rightarrow> cli_flags \<Rightarrow> client_error \<Rightarrow> cli_state \<Rightarrow> run_result \<times> cli_state" where
  "client_failure w serverUrl key flags e s =
    (let s = cli_stderr (Err_message (toErrorMessage e)) s in
     case e of
       Thrown _ \<Rightarrow> (Exit_code exit_failure, s)
     | Api_error status _ \<Rightarrow>
         (case cleanupInvalidSession w serverUrl key flags status s of
           (Inl _, s) \<Rightarrow> (Run_rejected, s)
         | (Inr _, s) \<Rightarrow> (Exit_code (statusToExitCode status), s)))"

definition cli_run :: "cli_world \<Rightarrow> string list \<Rightarrow> cli_state \<Rightarrow> run_result \<times> cli_state" where
  "cli_run w argv s =
    (case parseCliArgs argv of
      Inl p \<Rightarrow> usage_failure p s
    | Inr (positionals, flags) \<Rightarrow>
        if fl_help flags \<or> positionals = [] then
          (Exit_code (if fl_help flags then exit_ok else exit_usage), s\<lparr>cs_stdout := cs_stdout s @ [Out_usage]\<rparr>)
        else
          (let key = toCommandKey positionals in
           case dispatch w key flags s of
             (Inr r, s) \<Rightarrow> (r, s)
           | (Inl (Usage_error p), s) \<Rightarrow> usage_failure p s
           | (Inl (Client_error e), s) \<Rightarrow> client_failure w (server_url w flags) key flags e s))"

section \<open>What a command does to the world\<close>

definition not_api :: "cli_error + 'a \<Rightarrow> bool" where
  "not_api r \<longleftrightarrow> (\<forall>status m. r \<noteq> Inl (Client_error (Api_error status m)))"

definition not_usage :: "'a cli \<Rightarrow> bool" where
  "not_usage m \<longleftrightarrow> (\<forall>s p. fst (m s) = Inl (Usage_error p) \<longrightarrow> p = Screenshot_needs_out)"

text \<open>A part of a command that sends nothing and leaves the session file alone.\<close>

definition local_part :: "'a cli \<Rightarrow> bool" where
  "local_part m \<longleftrightarrow> (\<forall>s r s'. m s = (r, s') \<longrightarrow>
    cs_requests s' = cs_requests s \<and> cs_session s' = cs_session s \<and> not_api r)"

lemma cli_bind_eq:
  "cli_bind m f s = (r, s') \<longleftrightarrow>
    (\<exists>e. m s = (Inl e, s') \<and> r = Inl e) \<or> (\<exists>a t. m s = (Inr a, t) \<and> f a t = (r, s'))"
  by (auto simp: cli_bind_def split: prod.splits sum.splits)

lemma local_bind: "local_part m \<Longrightarrow> (\<And>a. local_part (f a)) \<Longrightarrow> local_part (cli_bind m f)"
  unfolding local_part_def cli_bind_eq not_api_def by (metis sum.inject(1))

lemma local_return: "local_part (cli_return a)"
  by (simp add: local_part_def cli_return_def not_api_def)

lemma local_usage: "local_part (cli_throw (Usage_error p))"
  by (simp add: local_part_def cli_throw_def not_api_def)

lemma local_get: "local_part (cli_get f)"
  by (simp add: local_part_def cli_get_def not_api_def)

lemma local_lift: "(\<And>e. r = Inl e \<Longrightarrow> \<exists>m. e = Thrown m) \<Longrightarrow> local_part (cli_lift r)"
  by (auto simp: local_part_def cli_lift_def not_api_def split: sum.split)

lemma local_emit_result: "local_part (emit_result ctx ls v)"
  by (simp add: local_part_def emit_result_def cli_stdout_def not_api_def)

lemma local_saveFile: "local_part (saveFile w path data)"
  by (simp add: local_part_def saveFile_def not_api_def)

lemma local_finish: "local_part (finish ctx ls v)"
  unfolding finish_def by (intro local_bind local_emit_result local_return)

lemma local_finish_ok: "local_part (finish_ok ctx)"
  unfolding finish_ok_def by (rule local_finish)

lemma local_requireFlag: "local_part (requireFlag v name)"
  by (cases v) (simp_all add: requireFlag_def local_return local_usage)

lemma local_nonempty: "local_part (nonempty v p)"
  by (cases v) (simp_all add: nonempty_def local_return local_usage)

lemma local_resolveTarget: "local_part (resolveTarget w ctx)"
  unfolding resolveTarget_def by (intro local_bind local_get local_nonempty local_return)

lemmas local_intros =
  local_bind local_return local_usage local_get local_emit_result local_saveFile local_finish local_finish_ok
  local_requireFlag local_resolveTarget

lemma and_then_thrown:
  "and_then r f = Inl e \<Longrightarrow> (\<And>e. r = Inl e \<Longrightarrow> \<exists>m. e = Thrown m) \<Longrightarrow>
    (\<And>a e. f a = Inl e \<Longrightarrow> \<exists>m. e = Thrown m) \<Longrightarrow> \<exists>m. e = Thrown m"
  by (auto simp: and_then_Inl)

lemma map_result_thrown:
  "map_result f xs = Inl e \<Longrightarrow> (\<And>x e. f x = Inl e \<Longrightarrow> \<exists>m. e = Thrown m) \<Longrightarrow> \<exists>m. e = Thrown m"
  by (induction xs) (auto simp: and_then_Inl)

lemma tagsSuffix_thrown: "tagsSuffix pr d = Inl e \<Longrightarrow> \<exists>m. e = Thrown m"
  unfolding tagsSuffix_def
  by (erule and_then_thrown, erule member_error, erule and_then_thrown, erule member_error)
    (auto split: if_splits option.splits json.splits)

lemma deviceLine_thrown: "deviceLine pr d = Inl e \<Longrightarrow> \<exists>m. e = Thrown m"
  by (auto simp: deviceLine_def statusDot_def occupiedSuffix_def and_then_Inl dest: member_error tagsSuffix_thrown)

lemma deviceLines_thrown: "deviceLines pr j = Inl e \<Longrightarrow> \<exists>m. e = Thrown m"
  unfolding deviceLines_def
  by (erule and_then_thrown, erule member_error)
    (auto split: if_splits json.splits dest: map_result_thrown deviceLine_thrown)

lemma base64_thrown: "base64_bytes v = Inl e \<Longrightarrow> \<exists>m. e = Thrown m"
  by (auto simp: base64_bytes_def split: option.splits json.splits)

lemma local_lifts:
  "local_part (cli_lift (member v k))"
  "local_part (cli_lift (deviceLine pr d))"
  "local_part (cli_lift (deviceLines pr j))"
  "local_part (cli_lift (and_then (member v k) base64_bytes))"
  by (auto intro!: local_lift dest: member_error deviceLine_thrown deviceLines_thrown base64_thrown simp: and_then_Inl)

lemma not_usage_bind: "not_usage m \<Longrightarrow> (\<And>a. not_usage (f a)) \<Longrightarrow> not_usage (cli_bind m f)"
  unfolding not_usage_def cli_bind_def by (simp split: prod.split sum.split) (metis fst_conv)

lemma not_usage_parts:
  "not_usage (cli_return a)" "not_usage (cli_lift r)" "not_usage (cli_get g)" "not_usage (emit_result ctx ls v)"
  "not_usage (saveFile w path data)" "not_usage (session_save w kvs)" "not_usage (session_clear w)"
  "not_usage (cli_throw (Usage_error Screenshot_needs_out))"
  by (auto simp: not_usage_def cli_return_def cli_lift_def cli_get_def emit_result_def cli_stdout_def saveFile_def
      session_save_def session_clear_def cli_throw_def split: sum.splits)

lemma not_usage_finish: "not_usage (finish ctx ls v)" "not_usage (finish_ok ctx)"
  unfolding finish_ok_def finish_def by (intro not_usage_bind not_usage_parts)+

lemmas not_usage_intros = not_usage_bind not_usage_parts not_usage_finish

text \<open>
  Who a request acts for: the device and the occupant are the ones the flags name, the occupant of the
  environment variable, or those of the session saved for this very server and this very device.
\<close>

definition target_ok :: "cli_world \<Rightarrow> command_context \<Rightarrow> json option \<Rightarrow> device_target \<Rightarrow> bool" where
  "target_ok w ctx file target \<longleftrightarrow>
    fst target \<noteq> [] \<and> snd target \<noteq> [] \<and>
    (case fl_deviceId (cc_flags ctx) of
      Some d \<Rightarrow> fst target = d
    | None \<Rightarrow> map_option so_deviceId (sessionFor ctx file) = Some (fst target)) \<and>
    (case fl_occupantId (cc_flags ctx) of
      Some occ \<Rightarrow> snd target = occ
    | None \<Rightarrow> (case cw_env w ''NEBULA_OCCUPANT_ID'' of
        Some occ \<Rightarrow> snd target = occ
      | None \<Rightarrow> (\<exists>stored. sessionFor ctx file = Some stored \<and> so_deviceId stored = fst target \<and>
                    so_occupantId stored = snd target)))"

definition authorised :: "cli_world \<Rightarrow> command_context \<Rightarrow> json option \<Rightarrow> http_request \<Rightarrow> string \<Rightarrow> bool" where
  "authorised w ctx file rq occ \<longleftrightarrow> (\<exists>d. to_device (cc_client ctx) d rq \<and> target_ok w ctx file (d, occ))"

lemma resolveTarget_ok: "resolveTarget w ctx s = (Inr target, s') \<Longrightarrow> s' = s \<and> target_ok w ctx (cs_session s) target"
  by (auto simp: resolveTarget_def cli_bind_eq cli_get_def nonempty_def cli_throw_def cli_return_def target_ok_def
      nullish_def occupantFromSession_def split: option.splits if_splits)

definition sent_ok :: "cli_world \<Rightarrow> command_context \<Rightarrow> json option \<Rightarrow> http_request \<Rightarrow> cli_error + 'a \<Rightarrow> bool" where
  "sent_ok w ctx file rq r \<longleftrightarrow>
    (\<exists>path. rq_url rq = nc_baseUrl (cc_client ctx) @ path) \<and>
    (''authorization'', ''Bearer '' @ nc_token (cc_client ctx)) \<in> set (rq_headers rq) \<and>
    (\<forall>occ. carries rq occ \<longrightarrow> authorised w ctx file rq occ) \<and>
    (\<forall>v. r = Inr v \<longrightarrow> (\<exists>a. cw_fetch w rq = Inr a \<and> rs_ok a)) \<and>
    (\<forall>p. r = Inl (Usage_error p) \<longrightarrow> p = Screenshot_needs_out \<and> (\<exists>a. cw_fetch w rq = Inr a \<and> rs_ok a)) \<and>
    (\<forall>status m. r = Inl (Client_error (Api_error status m)) \<longrightarrow>
      (\<exists>a. cw_fetch w rq = Inr a \<and> \<not> rs_ok a \<and> rs_status a = status)) \<and>
    (\<forall>a. cw_fetch w rq = Inr a \<longrightarrow> \<not> rs_ok a \<longrightarrow> (\<exists>m. r = Inl (Client_error (Api_error (rs_status a) m))))"

text \<open>How a command that sent \<open>rq\<close> may move the session file.\<close>

definition session_move :: "cli_world \<Rightarrow> command_context \<Rightarrow> json option \<Rightarrow> http_request \<Rightarrow> json option \<Rightarrow> bool" where
  "session_move w ctx file rq file' \<longleftrightarrow>
    file' = file \<or>
    (\<exists>a. cw_fetch w rq = Inr a \<and> rs_ok a \<and>
      (rq_url rq = nc_baseUrl (cc_client ctx) @ ''/devices/occupy'' \<and>
         (\<exists>result d i occ. rs_json a = Some result \<and> member (Some result) ''device'' = Inr d \<and>
            member d ''id'' = Inr i \<and> member (Some result) ''occupantId'' = Inr occ \<and>
            file' = file_write [(''serverUrl'', Some (JStr (cc_serverUrl ctx))), (''deviceId'', i), (''occupantId'', occ),
              (''occupiedAt'', Some (JStr (cw_now w)))]) \<or>
       (file' = None \<and> (\<exists>stored. sessionFor ctx file = Some stored \<and>
          rq_url rq = nc_baseUrl (cc_client ctx) @ device_path (so_deviceId stored) @ ''/release''))))"

definition command_effect ::
  "cli_world \<Rightarrow> string \<Rightarrow> command_context \<Rightarrow> cli_state \<Rightarrow> cli_error + 'a \<Rightarrow> cli_state \<Rightarrow> bool" where
  "command_effect w key ctx s r s' \<longleftrightarrow>
    (cs_requests s' = cs_requests s \<and> not_api r \<and>
      ((\<exists>v. r = Inr v) \<longrightarrow> key = ''devices session'') \<and>
      (cs_session s' = cs_session s \<or>
       key = ''devices session'' \<and> fl_clear (cc_flags ctx) \<and> cs_session s' = None)) \<or>
    (\<exists>rq. cs_requests s' = cs_requests s @ [rq] \<and> sent_ok w ctx (cs_session s) rq r \<and>
      session_move w ctx (cs_session s) rq (cs_session s'))"

definition effectful :: "cli_world \<Rightarrow> string \<Rightarrow> command_context \<Rightarrow> cli_state \<Rightarrow> 'a cli \<Rightarrow> bool" where
  "effectful w key ctx s m \<longleftrightarrow> (\<forall>r s'. m s = (r, s') \<longrightarrow> command_effect w key ctx s r s')"

text \<open>A local part may come before; the file and the requests are what they were.\<close>

lemma effectful_before:
  assumes "local_part m"
    and "\<And>a t. m s = (Inr a, t) \<Longrightarrow> cs_session t = cs_session s \<Longrightarrow> effectful w key ctx t (f a)"
  shows "effectful w key ctx s (cli_bind m f)"
  unfolding effectful_def
proof (intro allI impI)
  fix r s' assume "cli_bind m f s = (r, s')"
  then consider e where "m s = (Inl e, s')" "r = Inl e" | a t where "m s = (Inr a, t)" "f a t = (r, s')"
    by (auto simp: cli_bind_eq)
  then show "command_effect w key ctx s r s'"
  proof cases
    case 1
    then show ?thesis using assms(1) by (force simp: local_part_def command_effect_def not_api_def)
  next
    case 2
    then have same: "cs_requests t = cs_requests s" "cs_session t = cs_session s"
      using assms(1) by (auto simp: local_part_def)
    with assms(2) [OF 2(1)] 2(2) have "command_effect w key ctx t r s'" by (auto simp: effectful_def)
    then show ?thesis using same by (simp add: command_effect_def)
  qed
qed

text \<open>The call itself, followed by a local part.\<close>

lemma effectful_call_general:
  assumes sound: "call_sound (cw_fetch w) (cc_client ctx) c"
    and auth: "\<And>rq occ. rq \<in> set (fst c) \<Longrightarrow> carries rq occ \<Longrightarrow> authorised w ctx (cs_session s) rq occ"
    and usage: "\<And>a. not_usage (f a)"
    and rest: "\<And>a rq r s'. snd c = Inr a \<Longrightarrow> fst c = [rq] \<Longrightarrow>
      f a (s\<lparr>cs_requests := cs_requests s @ [rq]\<rparr>) = (r, s') \<Longrightarrow>
      cs_requests s' = cs_requests s @ [rq] \<and> not_api r \<and> session_move w ctx (cs_session s) rq (cs_session s')"
  shows "effectful w key ctx s (cli_bind (cli_call c) f)"
  unfolding effectful_def
proof (intro allI impI)
  fix r s' assume run: "cli_bind (cli_call c) f s = (r, s')"
  from sound consider m where "fst c = []" "snd c = Inl (Thrown m)"
    | rq where "fst c = [rq]" by (auto simp: call_sound_def)
  then show "command_effect w key ctx s r s'"
  proof cases
    case 1
    with run show ?thesis by (auto simp: cli_bind_eq cli_call_def cli_lift_def command_effect_def not_api_def)
  next
    case (2 rq)
    let ?s = "s\<lparr>cs_requests := cs_requests s @ [rq]\<rparr>"
    have sent: "(\<exists>path. rq_url rq = nc_baseUrl (cc_client ctx) @ path)"
      "(''authorization'', ''Bearer '' @ nc_token (cc_client ctx)) \<in> set (rq_headers rq)"
      "\<forall>status m. snd c = Inl (Api_error status m) \<longrightarrow> (\<exists>a. cw_fetch w rq = Inr a \<and> \<not> rs_ok a \<and> rs_status a = status)"
      "\<forall>v. snd c = Inr v \<longrightarrow> (\<exists>a. cw_fetch w rq = Inr a \<and> rs_ok a \<and> rs_json a \<noteq> None)"
      "\<forall>a. cw_fetch w rq = Inr a \<longrightarrow> \<not> rs_ok a \<longrightarrow> (\<exists>m. snd c = Inl (Api_error (rs_status a) m))"
      using sound 2 unfolding call_sound_def by auto
    have occ: "\<forall>occ. carries rq occ \<longrightarrow> authorised w ctx (cs_session s) rq occ" using auth 2 by simp
    show ?thesis
    proof (cases "snd c")
      case (Inl e)
      with run 2 have "r = Inl (Client_error e)" "s' = ?s" by (auto simp: cli_bind_eq cli_call_def cli_lift_def)
      with Inl sent occ have "sent_ok w ctx (cs_session s) rq r" by (auto simp: sent_ok_def)
      moreover have "cs_requests s' = cs_requests s @ [rq]" "session_move w ctx (cs_session s) rq (cs_session s')"
        using \<open>s' = ?s\<close> by (simp_all add: session_move_def)
      ultimately show ?thesis by (auto simp: command_effect_def)
    next
      case (Inr a)
      with run 2 have fa: "f a ?s = (r, s')" by (auto simp: cli_bind_eq cli_call_def cli_lift_def)
      from rest [OF Inr 2 fa] have post: "cs_requests s' = cs_requests s @ [rq]" "not_api r"
        "session_move w ctx (cs_session s) rq (cs_session s')" by simp_all
      have "r = Inl (Usage_error p) \<Longrightarrow> p = Screenshot_needs_out" for p
        using usage [of a] fa by (auto simp: not_usage_def dest: arg_cong [where f = fst])
      with sent occ Inr post have "sent_ok w ctx (cs_session s) rq r"
        by (auto simp: sent_ok_def not_api_def)
      with post show ?thesis by (auto simp: command_effect_def)
    qed
  qed
qed

lemma effectful_call:
  assumes "call_sound (cw_fetch w) (cc_client ctx) c"
    and "\<And>rq occ. rq \<in> set (fst c) \<Longrightarrow> carries rq occ \<Longrightarrow> authorised w ctx (cs_session s) rq occ"
    and "\<And>a. local_part (f a)" "\<And>a. not_usage (f a)"
  shows "effectful w key ctx s (cli_bind (cli_call c) f)"
proof (rule effectful_call_general [OF assms(1,2,4)])
  fix a rq r s' assume "f a (s\<lparr>cs_requests := cs_requests s @ [rq]\<rparr>) = (r, s')"
  then show "cs_requests s' = cs_requests s @ [rq] \<and> not_api r \<and> session_move w ctx (cs_session s) rq (cs_session s')"
    using assms(3) [of a] by (force simp: local_part_def session_move_def)
qed

text \<open>A command on a target: the target was resolved against the file the call is judged by.\<close>

lemma effectful_target:
  assumes "\<And>t target. target_ok w ctx (cs_session t) target \<Longrightarrow> effectful w key ctx t (f target)"
  shows "effectful w key ctx s (cli_bind (resolveTarget w ctx) f)"
  by (rule effectful_before [OF local_resolveTarget]) (auto dest!: resolveTarget_ok intro: assms)

lemma target_authorised:
  "target_ok w ctx file target \<Longrightarrow> rq \<in> set (fst (client_release fetch (cc_client ctx) (fst target) (snd target))) \<Longrightarrow>
    carries rq occ \<Longrightarrow> authorised w ctx file rq occ"
  "target_ok w ctx file target \<Longrightarrow> rq \<in> set (fst (client_keepalive fetch (cc_client ctx) (fst target) (snd target))) \<Longrightarrow>
    carries rq occ \<Longrightarrow> authorised w ctx file rq occ"
  "target_ok w ctx file target \<Longrightarrow> rq \<in> set (fst (client_action fetch (cc_client ctx) target name body)) \<Longrightarrow>
    carries rq occ \<Longrightarrow> authorised w ctx file rq occ"
  unfolding authorised_def
    by (cases target; auto dest: occupant_calls)+

lemma action_authorised:
  assumes "target_ok w ctx file target" "carries rq occ"
  shows "rq \<in> set (fst (client_tap fetch (cc_client ctx) target x y)) \<Longrightarrow> authorised w ctx file rq occ"
    and "rq \<in> set (fst (client_swipe fetch (cc_client ctx) target x y x' y' d)) \<Longrightarrow> authorised w ctx file rq occ"
    and "rq \<in> set (fst (client_typeText fetch (cc_client ctx) target t)) \<Longrightarrow> authorised w ctx file rq occ"
    and "rq \<in> set (fst (client_pressButton fetch (cc_client ctx) target b)) \<Longrightarrow> authorised w ctx file rq occ"
    and "rq \<in> set (fst (client_uiDump fetch (cc_client ctx) target)) \<Longrightarrow> authorised w ctx file rq occ"
    and "rq \<in> set (fst (client_screenshot fetch (cc_client ctx) target)) \<Longrightarrow> authorised w ctx file rq occ"
  unfolding client_tap_def client_swipe_def client_typeText_def client_pressButton_def client_uiDump_def
    client_screenshot_def fst_call_then
  using target_authorised(3) [OF assms(1) _ assms(2)] by blast+

lemma runHealth_effect: "effectful w key ctx s (runHealth w ctx)"
  unfolding runHealth_def
  by (rule effectful_call) (auto intro!: call_sound_intros local_intros local_lifts not_usage_intros dest: no_occupant_calls)

lemma runDevicesList_effect: "effectful w key ctx s (runDevicesList w ctx)"
  unfolding runDevicesList_def
  by (rule effectful_call) (auto intro!: call_sound_intros local_intros local_lifts not_usage_intros dest: no_occupant_calls)

lemma runDevicesGet_effect: "effectful w key ctx s (runDevicesGet w ctx)"
  unfolding runDevicesGet_def
  by (rule effectful_before [OF local_requireFlag], rule effectful_call)
    (auto intro!: call_sound_intros local_intros local_lifts not_usage_intros dest: no_occupant_calls)

lemma runKeepalive_effect: "effectful w key ctx s (runKeepalive w ctx)"
  unfolding runKeepalive_def
  by (rule effectful_target, rule effectful_call)
    (auto intro!: call_sound_intros local_intros local_lifts not_usage_intros intro: target_authorised)

lemma runTap_effect: "effectful w key ctx s (runTap w ctx)"
  unfolding runTap_def
  by (rule effectful_target, (rule effectful_before [OF local_requireFlag])+, rule effectful_call)
    (auto intro!: call_sound_intros local_intros not_usage_intros
      intro: action_authorised)

lemma runSwipe_effect: "effectful w key ctx s (runSwipe w ctx)"
  unfolding runSwipe_def
  by (rule effectful_target, (rule effectful_before [OF local_requireFlag])+, rule effectful_call)
    (auto intro!: call_sound_intros local_intros not_usage_intros
      intro: action_authorised)

lemma runType_effect: "effectful w key ctx s (runType w ctx)"
  unfolding runType_def
  by (rule effectful_target, rule effectful_before [OF local_requireFlag], rule effectful_call)
    (auto intro!: call_sound_intros local_intros not_usage_intros
      intro: action_authorised)

lemma effectful_usage: "effectful w key ctx s (cli_throw (Usage_error p))"
  by (simp add: effectful_def cli_throw_def command_effect_def not_api_def)

lemma effectful_if: "effectful w key ctx s a \<Longrightarrow> effectful w key ctx s b \<Longrightarrow> effectful w key ctx s (if c then a else b)"
  by simp

lemma runPress_effect: "effectful w key ctx s (runPress w ctx)"
  unfolding runPress_def
  by (rule effectful_target, rule effectful_before [OF local_requireFlag], rule effectful_if,
      rule effectful_usage, rule effectful_call)
    (auto intro!: call_sound_intros local_intros not_usage_intros intro: action_authorised)

lemma runUiDump_effect: "effectful w key ctx s (runUiDump w ctx)"
  unfolding runUiDump_def Let_def
  by (rule effectful_target, rule effectful_call)
    (auto intro!: call_sound_intros local_intros not_usage_intros intro: action_authorised)

lemma runScreenshot_effect: "effectful w key ctx s (runScreenshot w ctx)"
  unfolding runScreenshot_def Let_def
  by (rule effectful_target, rule effectful_call)
    (auto intro!: call_sound_intros local_intros local_lifts not_usage_intros intro: action_authorised)

lemma runSession_effect: "effectful w ''devices session'' ctx s (runSession w ctx)"
proof (cases "fl_clear (cc_flags ctx)")
  case True
  then show ?thesis
    by (auto simp: effectful_def runSession_def cli_bind_eq session_clear_def finish_def emit_result_def cli_stdout_def
        cli_return_def command_effect_def not_api_def file_clear_def)
next
  case False
  then show ?thesis
    by (auto simp: effectful_def runSession_def cli_bind_eq cli_get_def show_session_def finish_def emit_result_def
        cli_stdout_def cli_return_def command_effect_def not_api_def split: option.splits)
qed

lemma request_answered:
  "fst (request fetch c method path body) = [rq] \<Longrightarrow> snd (request fetch c method path body) = Inr j \<Longrightarrow>
    rq_url rq = nc_baseUrl c @ path \<and> (\<exists>a. fetch rq = Inr a \<and> rs_ok a \<and> rs_json a = Some j)"
  by (auto simp: request_def client_request_def client_answer_def Let_def split: if_splits sum.splits option.splits)

lemmas cli_steps = cli_bind_eq cli_lift_def cli_get_def cli_return_def finish_def emit_result_def cli_stdout_def

lemma runOccupy_effect: "effectful w key ctx s (runOccupy w ctx)"
  unfolding runOccupy_def
proof (rule effectful_call_general)
  let ?q = "\<lparr>oq_deviceId = fl_deviceId (cc_flags ctx), oq_platform = fl_platform (cc_flags ctx),
       oq_tags = fl_tags (cc_flags ctx)\<rparr>"
  fix a rq r s'
  assume c: "snd (client_occupy (cw_fetch w) (cc_client ctx) ?q) = Inr a"
      "fst (client_occupy (cw_fetch w) (cc_client ctx) ?q) = [rq]"
    and run: "cli_bind (cli_lift (member (Some a) ''device'')) (\<lambda>device.
      cli_bind (cli_lift (member device ''id'')) (\<lambda>i.
      cli_bind (cli_lift (member (Some a) ''occupantId'')) (\<lambda>occupantId.
      cli_bind (session_save w
        [(''serverUrl'', Some (JStr (cc_serverUrl ctx))), (''deviceId'', i), (''occupantId'', occupantId),
         (''occupiedAt'', Some (JStr (cw_now w)))]) (\<lambda>_.
      cli_bind (cli_lift (member device ''name'')) (\<lambda>name.
      cli_bind (cli_lift (member (Some a) ''expiresAt'')) (\<lambda>expiresAt.
      finish ctx
        [''occupied: '' @ js_text (cw_number w) i @ '' ('' @ js_text (cw_number w) name @ '')'',
         ''occupantId: '' @ js_text (cw_number w) occupantId,
         ''expires: '' @ or_dash (cw_number w) expiresAt @ '' (extended by commands and keepalive)'',
         ''session saved; --device-id and --occupant-id may be left out''] (Some a)))))))
      (s\<lparr>cs_requests := cs_requests s @ [rq]\<rparr>) = (r, s')"
  from request_answered [OF c(2) [unfolded client_occupy_def] c(1) [unfolded client_occupy_def]]
  obtain x where x: "rq_url rq = nc_baseUrl (cc_client ctx) @ ''/devices/occupy''" "cw_fetch w rq = Inr x"
      "rs_ok x" "rs_json x = Some a" by blast
  let ?saved = "\<lambda>i occ. file_write [(''serverUrl'', Some (JStr (cc_serverUrl ctx))), (''deviceId'', i),
      (''occupantId'', occ), (''occupiedAt'', Some (JStr (cw_now w)))]"
  from run have "cs_requests s' = cs_requests s @ [rq] \<and> not_api r \<and> (cs_session s' = cs_session s \<or>
      (\<exists>d i occ. member (Some a) ''device'' = Inr d \<and> member d ''id'' = Inr i \<and> member (Some a) ''occupantId'' = Inr occ \<and>
        cs_session s' = ?saved i occ))"
    by (auto simp: cli_steps session_save_def not_api_def split: sum.splits if_splits dest: member_error)
  with x show "cs_requests s' = cs_requests s @ [rq] \<and> not_api r \<and> session_move w ctx (cs_session s) rq (cs_session s')"
    unfolding session_move_def by blast
qed (auto intro!: call_sound_intros not_usage_intros dest: no_occupant_calls)

lemma runRelease_effect: "effectful w key ctx s (runRelease w ctx)"
  unfolding runRelease_def
proof (rule effectful_target)
  fix t :: cli_state and target assume ok: "target_ok w ctx (cs_session t) target"
  let ?c = "client_release (cw_fetch w) (cc_client ctx) (fst target) (snd target)"
  show "effectful w key ctx t (cli_bind (cli_call ?c) (\<lambda>device.
      cli_bind (clear_stored_target w ctx target) (\<lambda>_.
      cli_bind (cli_lift (member (Some device) ''id'')) (\<lambda>i.
      finish ctx [''released: '' @ js_text (cw_number w) i] (Some device)))))"
  proof (rule effectful_call_general)
    fix a rq r s'
    assume c: "snd ?c = Inr a" "fst ?c = [rq]"
      and run: "cli_bind (clear_stored_target w ctx target) (\<lambda>_.
        cli_bind (cli_lift (member (Some a) ''id'')) (\<lambda>i.
        finish ctx [''released: '' @ js_text (cw_number w) i] (Some a)))
        (t\<lparr>cs_requests := cs_requests t @ [rq]\<rparr>) = (r, s')"
    from request_answered [OF c(2) [unfolded client_release_def] c(1) [unfolded client_release_def]]
    obtain x where x: "rq_url rq = nc_baseUrl (cc_client ctx) @ device_path (fst target) @ ''/release''"
        "cw_fetch w rq = Inr x" "rs_ok x" by blast
    from run have "cs_requests s' = cs_requests t @ [rq] \<and> not_api r \<and> (cs_session s' = cs_session t \<or>
        cs_session s' = None \<and> map_option so_deviceId (sessionFor ctx (cs_session t)) = Some (fst target))"
      by (auto simp: cli_steps clear_stored_target_def session_clear_def file_clear_def not_api_def
          split: sum.splits if_splits dest: member_error)
    with x show "cs_requests s' = cs_requests t @ [rq] \<and> not_api r \<and> session_move w ctx (cs_session t) rq (cs_session s')"
      unfolding session_move_def by fastforce
  qed (auto intro!: call_sound_intros not_usage_intros simp: clear_stored_target_def
      intro: target_authorised [OF ok])
qed

lemmas command_effects =
  runHealth_effect runDevicesList_effect runDevicesGet_effect runOccupy_effect runRelease_effect
  runKeepalive_effect runTap_effect runSwipe_effect runType_effect runPress_effect runUiDump_effect
  runScreenshot_effect

lemma commands_effect:
  assumes "jget COMMANDS key = Some h"
  shows "effectful w key ctx s (h w ctx)"
  using assms runSession_effect command_effects
  by (simp add: COMMANDS_def split: if_splits)

text \<open>A handler that returns, returns the code for success.\<close>

definition returns_ok :: "nat cli \<Rightarrow> bool" where
  "returns_ok m \<longleftrightarrow> (\<forall>s n s'. m s = (Inr n, s') \<longrightarrow> n = exit_ok)"

lemma returns_ok_bind: "(\<And>a. returns_ok (f a)) \<Longrightarrow> returns_ok (cli_bind m f)"
  by (auto simp: returns_ok_def cli_bind_eq)

lemma returns_ok_parts: "returns_ok (finish ctx ls v)" "returns_ok (finish_ok ctx)" "returns_ok (cli_throw e)"
  by (auto simp: returns_ok_def finish_ok_def finish_def cli_bind_eq cli_return_def cli_throw_def)

lemma returns_ok_split:
  "returns_ok a \<Longrightarrow> returns_ok b \<Longrightarrow> returns_ok (if c then a else b)"
  "returns_ok (show_session ctx file)"
  by (auto simp: show_session_def returns_ok_parts split: option.split)

lemma commands_return_ok: "jget COMMANDS key = Some h \<Longrightarrow> returns_ok (h w ctx)"
  by (simp add: COMMANDS_def split: if_splits)
    (auto simp: runHealth_def runDevicesList_def runDevicesGet_def runOccupy_def runRelease_def runKeepalive_def
      runSession_def runTap_def runSwipe_def runType_def runPress_def runUiDump_def runScreenshot_def Let_def
      intro!: returns_ok_bind returns_ok_parts returns_ok_split)

text \<open>
  The request of a command: its method and its address, for some device where the command is for one. A
  command sends no other.
\<close>

definition of_command :: "string \<Rightarrow> string \<Rightarrow> http_request \<Rightarrow> bool" where
  "of_command base key rq \<longleftrightarrow>
    (key, rq_method rq, rq_url rq) \<in>
      {(''health'', ''GET'', base @ ''/health''),
       (''devices list'', ''GET'', base @ ''/devices''),
       (''devices occupy'', ''POST'', base @ ''/devices/occupy'')} \<or>
    (\<exists>d. key = ''devices get'' \<and> rq_method rq = ''GET'' \<and> rq_url rq = base @ device_path d) \<or>
    (\<exists>d op. rq_method rq = ''POST'' \<and> rq_url rq = base @ device_path d @ op \<and>
      (key, op) \<in>
        {(''devices release'', ''/release''), (''devices keepalive'', ''/keepalive''), (''tap'', ''/actions/tap''),
         (''swipe'', ''/actions/swipe''), (''type'', ''/actions/type''), (''press'', ''/actions/press''),
         (''ui-dump'', ''/actions/ui-dump''), (''screenshot'', ''/actions/screenshot'')})"

definition sends :: "(http_request \<Rightarrow> bool) \<Rightarrow> 'a cli \<Rightarrow> bool" where
  "sends P m \<longleftrightarrow> (\<forall>s r s'. m s = (r, s') \<longrightarrow> (\<exists>rqs. cs_requests s' = cs_requests s @ rqs \<and> list_all P rqs))"

lemma sends_bind:
  assumes "sends P m" "\<And>a. sends P (f a)"
  shows "sends P (cli_bind m f)"
  unfolding sends_def
proof (intro allI impI)
  fix s r s' assume "cli_bind m f s = (r, s')"
  then consider e where "m s = (Inl e, s')" | a t where "m s = (Inr a, t)" "f a t = (r, s')" by (auto simp: cli_bind_eq)
  then show "\<exists>rqs. cs_requests s' = cs_requests s @ rqs \<and> list_all P rqs"
  proof cases
    case 1
    with assms(1) show ?thesis by (auto simp: sends_def)
  next
    case 2
    obtain xs where xs: "cs_requests t = cs_requests s @ xs" "list_all P xs"
      using assms(1) 2(1) unfolding sends_def by blast
    obtain ys where "cs_requests s' = cs_requests t @ ys" "list_all P ys"
      using assms(2) [of a] 2(2) unfolding sends_def by blast
    with xs show ?thesis by (intro exI [of _ "xs @ ys"]) simp
  qed
qed

lemma sends_local: "local_part m \<Longrightarrow> sends P m"
  by (force simp: local_part_def sends_def)

lemma sends_call: "(\<And>rq. rq \<in> set (fst c) \<Longrightarrow> P rq) \<Longrightarrow> sends P (cli_call c)"
  by (auto simp: sends_def cli_call_def cli_lift_def list_all_iff)

lemma sends_lift: "sends P (cli_lift r)"
  by (auto simp: sends_def cli_lift_def)

lemma sends_file: "sends P (session_save w kvs)" "sends P (session_clear w)"
  by (auto simp: sends_def session_save_def session_clear_def)

lemma sends_split:
  "sends P a \<Longrightarrow> sends P b \<Longrightarrow> sends P (if c then a else b)"
  "sends P (show_session ctx file)"
  by (auto simp: show_session_def sends_local local_intros split: option.split)

lemmas sends_intros =
  sends_bind sends_call sends_lift sends_file sends_split sends_local [OF local_return] sends_local [OF local_usage]
  sends_local [OF local_get] sends_local [OF local_saveFile] sends_local [OF local_finish]
  sends_local [OF local_finish_ok] sends_local [OF local_requireFlag] sends_local [OF local_resolveTarget]

lemma request_method:
  "rq \<in> set (fst (request fetch c method path body)) \<Longrightarrow> rq_method rq = method \<and> rq_url rq = nc_baseUrl c @ path"
  by (auto simp: request_def client_request_def split: if_splits)

lemma commands_send:
  assumes "jget COMMANDS key = Some h"
  shows "sends (of_command (nc_baseUrl (cc_client ctx)) key) (h w ctx)"
proof -
  let ?P = "of_command (nc_baseUrl (cc_client ctx))"
  have "sends (?P ''health'') (runHealth w ctx)"
    unfolding runHealth_def by (intro sends_intros) (auto simp: client_call_defs of_command_def dest!: request_method)
  moreover have "sends (?P ''devices list'') (runDevicesList w ctx)"
    unfolding runDevicesList_def by (intro sends_intros) (auto simp: client_call_defs of_command_def dest!: request_method)
  moreover have "sends (?P ''devices get'') (runDevicesGet w ctx)"
    unfolding runDevicesGet_def by (intro sends_intros) (auto simp: client_call_defs of_command_def dest!: request_method)
  moreover have "sends (?P ''devices occupy'') (runOccupy w ctx)"
    unfolding runOccupy_def by (intro sends_intros) (auto simp: client_call_defs of_command_def dest!: request_method)
  moreover have "sends (?P ''devices release'') (runRelease w ctx)"
    unfolding runRelease_def clear_stored_target_def
    by (intro sends_intros) (auto simp: client_call_defs of_command_def dest!: request_method)
  moreover have "sends (?P ''devices keepalive'') (runKeepalive w ctx)"
    unfolding runKeepalive_def by (intro sends_intros) (auto simp: client_call_defs of_command_def dest!: request_method)
  moreover have "sends (?P ''devices session'') (runSession w ctx)"
    unfolding runSession_def by (intro sends_intros)
  moreover have "sends (?P ''tap'') (runTap w ctx)"
    unfolding runTap_def by (intro sends_intros) (auto simp: client_call_defs of_command_def dest!: request_method)
  moreover have "sends (?P ''swipe'') (runSwipe w ctx)"
    unfolding runSwipe_def by (intro sends_intros) (auto simp: client_call_defs of_command_def dest!: request_method)
  moreover have "sends (?P ''type'') (runType w ctx)"
    unfolding runType_def by (intro sends_intros) (auto simp: client_call_defs of_command_def dest!: request_method)
  moreover have "sends (?P ''press'') (runPress w ctx)"
    unfolding runPress_def by (intro sends_intros) (auto simp: client_call_defs of_command_def dest!: request_method)
  moreover have "sends (?P ''ui-dump'') (runUiDump w ctx)"
    unfolding runUiDump_def Let_def
    by (intro sends_intros) (auto simp: client_call_defs of_command_def dest!: request_method)
  moreover have "sends (?P ''screenshot'') (runScreenshot w ctx)"
    unfolding runScreenshot_def Let_def
    by (intro sends_intros) (auto simp: client_call_defs of_command_def dest!: request_method)
  ultimately show ?thesis using assms by (simp add: COMMANDS_def split: if_splits)
qed

lemma dispatch_sends: "sends (of_command (server_url w flags) key) (dispatch w key flags)"
proof -
  have base: "nc_baseUrl (cc_client (context_of w flags)) = server_url w flags"
    by (simp add: context_of_def new_client_def)
  have "sends P (call_inherited key)" for P
    by (auto simp: sends_def call_inherited_def cli_return_def cli_throw_def)
  then show ?thesis
    using commands_send [of key _ "context_of w flags" w] unfolding base
    by (auto simp: dispatch_def lookup_handler_def intro!: sends_intros sends_local [OF local_usage]
        sends_local [OF local_return] split: option.split)
qed

text \<open>The same for what the router runs, inherited members included.\<close>

definition routed :: "cli_world \<Rightarrow> string \<Rightarrow> cli_flags \<Rightarrow> cli_state \<Rightarrow> cli_error + run_result \<Rightarrow> cli_state \<Rightarrow> bool" where
  "routed w key flags s r s' \<longleftrightarrow>
    (cs_requests s' = cs_requests s \<and> cs_session s' = cs_session s \<and> not_api r \<and>
      (\<forall>n. r = Inr (Exit_code n) \<longrightarrow> n = exit_ok \<and> key = ''devices session'') \<and> r \<noteq> Inr Run_rejected \<and>
      (\<forall>t. r = Inr (Not_an_exit_code t) \<longrightarrow> key \<in> {''toString'', ''constructor''})) \<or>
    (cs_requests s' = cs_requests s \<and> not_api r \<and> key = ''devices session'' \<and> fl_clear flags \<and>
      cs_session s' = None \<and> r \<noteq> Inr Run_rejected \<and> (\<forall>t. r \<noteq> Inr (Not_an_exit_code t)) \<and> (\<forall>n. r = Inr (Exit_code n) \<longrightarrow> n = exit_ok)) \<or>
    (\<exists>rq. cs_requests s' = cs_requests s @ [rq] \<and> sent_ok w (context_of w flags) (cs_session s) rq r \<and>
      session_move w (context_of w flags) (cs_session s) rq (cs_session s') \<and> (\<forall>v. r = Inr v \<longrightarrow> v = Exit_code exit_ok))"

lemma routed_command:
  assumes "jget COMMANDS key = Some h" "h w (context_of w flags) s = (r, s')"
  shows "routed w key flags s (map_sum id Exit_code r) s'"
proof -
  have ok: "r = Inr n \<Longrightarrow> n = exit_ok" for n
    using commands_return_ok [OF assms(1), of w "context_of w flags"] assms(2) by (auto simp: returns_ok_def)
  have e: "command_effect w key (context_of w flags) s r s'"
    using commands_effect [OF assms(1)] assms(2) by (auto simp: effectful_def)
  show ?thesis
  proof (cases r)
    case (Inl x)
    with e show ?thesis
      unfolding command_effect_def routed_def sent_ok_def not_api_def
      by (auto simp: context_of_def)
  next
    case (Inr n)
    with ok have "r = Inr exit_ok" by simp
    with e show ?thesis
      unfolding command_effect_def routed_def sent_ok_def not_api_def
      by (auto simp: context_of_def)
  qed
qed

lemma routed_usage: "routed w key flags s (Inl (Usage_error p)) s"
  by (simp add: routed_def not_api_def)

lemma dispatch_routed:
  assumes "dispatch w key flags s = (r, s')"
  shows "routed w key flags s r s'"
proof (cases "jget COMMANDS key")
  case None
  then show ?thesis
    using assms
    by (auto simp: dispatch_def lookup_handler_def call_inherited_def cli_throw_def cli_return_def routed_def not_api_def
        split: if_splits)
next
  case (Some h)
  show ?thesis
  proof (cases "\<not> flag_set (client_token w flags) \<and> key \<noteq> ''health''")
    case True
    with Some assms show ?thesis
      by (auto simp: dispatch_def lookup_handler_def cli_throw_def routed_usage)
  next
    case False
    obtain r0 where run: "h w (context_of w flags) s = (r0, s')" "r = map_sum id Exit_code r0"
      using Some False assms
      by (auto simp: dispatch_def lookup_handler_def cli_bind_eq cli_return_def split: if_splits)
    from routed_command [OF Some run(1)] run(2) show ?thesis by simp
  qed
qed

section \<open>What a run does\<close>

lemma statusToExitCode_values: "statusToExitCode status \<in> {1, 3, 4, 5}"
  by (simp add: statusToExitCode_def status_exit_codes_def exit_defs)

lemma cleanup_result:
  assumes "client_failure w url key flags e s = (r, s')"
  shows "cs_requests s' = cs_requests s \<and>
    (case e of Thrown _ \<Rightarrow> r = Exit_code exit_failure \<and> cs_session s' = cs_session s
     | Api_error status _ \<Rightarrow>
        (r = Exit_code (statusToExitCode status) \<or> r = Run_rejected \<and> \<not> cw_clear_ok w) \<and>
        (cs_session s' = cs_session s \<or> cs_session s' = None \<and> session_invalid url key flags status (cs_session s)))"
  using assms
  by (auto simp: client_failure_def Let_def cleanupInvalidSession_def cli_stderr_def cli_bind_def session_clear_def
      file_clear_def split: client_error.splits if_splits)

text \<open>The three ways a run with accepted arguments ends.\<close>

lemma run_cases:
  assumes "cli_run w argv s = (r, s')"
  obtains
    (usage) p t where "r = Exit_code exit_usage" "s' = cli_stderr Err_hint (cli_stderr (Err_usage p) t)"
      "parseCliArgs argv = Inl p \<and> t = s \<or>
       (\<exists>ps flags. parseCliArgs argv = Inr (ps, flags) \<and> \<not> fl_help flags \<and> ps \<noteq> [] \<and>
          routed w (toCommandKey ps) flags s (Inl (Usage_error p)) t)"
  | (helped) ps flags where "parseCliArgs argv = Inr (ps, flags)" "fl_help flags \<or> ps = []"
      "r = Exit_code (if fl_help flags then exit_ok else exit_usage)" "cs_requests s' = cs_requests s"
      "cs_session s' = cs_session s"
  | (returned) ps flags where "parseCliArgs argv = Inr (ps, flags)" "\<not> fl_help flags" "ps \<noteq> []"
      "routed w (toCommandKey ps) flags s (Inr r) s'"
  | (failed) ps flags e t where "parseCliArgs argv = Inr (ps, flags)" "\<not> fl_help flags" "ps \<noteq> []"
      "routed w (toCommandKey ps) flags s (Inl (Client_error e)) t"
      "client_failure w (server_url w flags) (toCommandKey ps) flags e t = (r, s')"
proof (cases "parseCliArgs argv")
  case (Inl p)
  with assms show thesis by (intro usage [of p s]) (simp_all add: cli_run_def usage_failure_def)
next
  case (Inr pf)
  obtain ps flags where parse: "parseCliArgs argv = Inr (ps, flags)" using Inr by (cases pf) simp
  show thesis
  proof (cases "fl_help flags \<or> ps = []")
    case True
    with assms parse show thesis by (intro helped [OF parse True]) (auto simp: cli_run_def)
  next
    case False
    then have go: "\<not> fl_help flags" "ps \<noteq> []" by simp_all
    obtain r0 t where d: "dispatch w (toCommandKey ps) flags s = (r0, t)" by (cases "dispatch w (toCommandKey ps) flags s")
    note routed = dispatch_routed [OF d]
    show thesis
    proof (cases r0)
      case (Inr x)
      with assms parse go d routed show thesis by (intro returned [OF parse go]) (simp add: cli_run_def)
    next
      case (Inl e)
      show thesis
      proof (cases e)
        case (Usage_error p)
        with assms parse go d Inl routed show thesis
          by (intro usage [of p t]) (auto simp: cli_run_def usage_failure_def)
      next
        case (Client_error c)
        with assms parse go d Inl routed show thesis
          by (intro failed [OF parse go, of c t]) (simp_all add: cli_run_def)
      qed
    qed
  qed
qed

lemma session_stderr [simp]: "cs_session (cli_stderr l s) = cs_session s" "cs_requests (cli_stderr l s) = cs_requests s"
  by (simp_all add: cli_stderr_def)

definition exit_contract ::
  "cli_world \<Rightarrow> string list \<Rightarrow> http_request list \<Rightarrow> run_result \<Rightarrow> cli_state \<Rightarrow> bool" where
  "exit_contract w argv rqs r s' \<longleftrightarrow>
    length rqs \<le> 1 \<and>
    (\<forall>n. r = Exit_code n \<longrightarrow> n \<le> 5) \<and>
    (r = Exit_code 0 \<longrightarrow> (\<exists>ps flags. parseCliArgs argv = Inr (ps, flags) \<and>
      (rqs = [] \<and> (fl_help flags \<or> toCommandKey ps = ''devices session'') \<or>
       (\<exists>rq a. rqs = [rq] \<and> of_command (server_url w flags) (toCommandKey ps) rq \<and> cw_fetch w rq = Inr a \<and> rs_ok a)))) \<and>
    (r = Exit_code 2 \<longrightarrow> rqs = [] \<or>
      (\<exists>rq a. rqs = [rq] \<and> cw_fetch w rq = Inr a \<and> rs_ok a) \<and>
      (\<exists>es. cs_stderr s' = es @ [Err_usage Screenshot_needs_out, Err_hint])) \<and>
    (\<forall>n\<in>{3, 4, 5}. r = Exit_code n \<longrightarrow> (\<exists>rq a. rqs = [rq] \<and> cw_fetch w rq = Inr a \<and> \<not> rs_ok a)) \<and>
    (\<forall>rq a. rqs = [rq] \<longrightarrow> cw_fetch w rq = Inr a \<longrightarrow> \<not> rs_ok a \<longrightarrow>
      r = Exit_code (if rs_status a \<in> {401, 403, 429} then 3 else if rs_status a \<in> {404, 409} then 4
        else if rs_status a \<in> {502, 504} then 5 else 1) \<or> r = Run_rejected \<and> \<not> cw_clear_ok w) \<and>
    (\<forall>rq m. rqs = [rq] \<longrightarrow> cw_fetch w rq = Inl m \<longrightarrow> r = Exit_code 1) \<and>
    (r = Run_rejected \<longrightarrow> \<not> cw_clear_ok w) \<and>
    (\<forall>t. r = Not_an_exit_code t \<longrightarrow> rqs = [] \<and>
      (\<exists>ps flags. parseCliArgs argv = Inr (ps, flags) \<and> toCommandKey ps \<in> {''toString'', ''constructor''}))"

lemma statusToExitCode_table:
  "statusToExitCode status =
    (if status \<in> {401, 403, 429} then 3 else if status \<in> {404, 409} then 4 else if status \<in> {502, 504} then 5 else 1)"
  by (simp add: statusToExitCode_def status_exit_codes_def exit_defs)

text \<open>What a run sends is the request of its command.\<close>

lemma run_sends:
  assumes "cli_run w argv s = (r, s')" "parseCliArgs argv = Inr (ps, flags)" "cs_requests s' = cs_requests s @ rqs"
  shows "list_all (of_command (server_url w flags) (toCommandKey ps)) rqs"
proof (cases "fl_help flags \<or> ps = []")
  case True
  with assms show ?thesis by (auto simp: cli_run_def)
next
  case False
  obtain r0 t where d: "dispatch w (toCommandKey ps) flags s = (r0, t)" by (cases "dispatch w (toCommandKey ps) flags s")
  then obtain xs where xs: "cs_requests t = cs_requests s @ xs" "list_all (of_command (server_url w flags) (toCommandKey ps)) xs"
    using dispatch_sends [of w flags "toCommandKey ps"] unfolding sends_def by blast
  have "cs_requests s' = cs_requests t"
    using assms(1,2) False d
    by (auto simp: cli_run_def usage_failure_def dest: cleanup_result split: sum.splits cli_error.splits)
  with xs assms(3) show ?thesis by simp
qed

lemma exit_contract_holds:
  assumes "cli_run w argv s = (r, s')"
  shows "\<exists>rqs. cs_requests s' = cs_requests s @ rqs \<and> exit_contract w argv rqs r s'"
  using assms
proof (cases rule: run_cases)
  case (usage p t)
  then show ?thesis
    by (auto simp: exit_contract_def routed_def sent_ok_def exit_defs cli_stderr_def)
next
  case (helped ps flags)
  then show ?thesis by (auto simp: exit_contract_def exit_defs)
next
  case (returned ps flags)
  with run_sends [OF assms returned(1)] show ?thesis
    by (auto simp: exit_contract_def routed_def sent_ok_def exit_defs)
next
  case (failed ps flags e t)
  note c = cleanup_result [OF failed(5)]
  show ?thesis
  proof (cases e)
    case (Thrown m)
    with c failed(4) show ?thesis
      by (auto simp: exit_contract_def routed_def sent_ok_def exit_defs)
  next
    case (Api_error status m)
    with failed(4) obtain rq a where rq: "cs_requests t = cs_requests s @ [rq]" "cw_fetch w rq = Inr a" "\<not> rs_ok a" "rs_status a = status"
      by (auto simp: routed_def sent_ok_def not_api_def)
    have sent: "cs_requests s' = cs_requests s @ [rq]" using c rq by simp
    have v: "statusToExitCode status \<in> {1, 3, 4, 5}" by (rule statusToExitCode_values)
    have "exit_contract w argv [rq] r s'"
    proof (cases "r = Exit_code (statusToExitCode status)")
      case True
      with v rq(2-4) show ?thesis
        unfolding exit_contract_def statusToExitCode_table [symmetric] by (elim insertE) simp_all
    next
      case False
      with c Api_error have "r = Run_rejected" "\<not> cw_clear_ok w" by auto
      with rq(2) show ?thesis by (simp add: exit_contract_def)
    qed
    with sent show ?thesis by blast
  qed
qed

text \<open>What may happen to the session file in a run.\<close>

definition session_contract ::
  "cli_world \<Rightarrow> string \<Rightarrow> cli_flags \<Rightarrow> json option \<Rightarrow> http_request list \<Rightarrow> json option \<Rightarrow> bool" where
  "session_contract w key flags file rqs file' \<longleftrightarrow>
    file' = file \<or>
    file' = None \<and> key = ''devices session'' \<and> fl_clear flags \<or>
    (\<exists>rq a. rqs = [rq] \<and> cw_fetch w rq = Inr a \<and>
      (session_move w (context_of w flags) file rq file' \<and> rs_ok a \<or>
       file' = None \<and> \<not> rs_ok a \<and> session_invalid (server_url w flags) key flags (rs_status a) file))"

lemma session_contract_holds:
  assumes "cli_run w argv s = (r, s')" "parseCliArgs argv = Inr (ps, flags)"
  shows "\<exists>rqs. cs_requests s' = cs_requests s @ rqs \<and>
    session_contract w (toCommandKey ps) flags (cs_session s) rqs (cs_session s')"
  using assms(1)
proof (cases rule: run_cases)
  case (usage p t)
  then consider "t = s" | "routed w (toCommandKey ps) flags s (Inl (Usage_error p)) t" using assms(2) by auto
  then show ?thesis
  proof cases
    case 2
    with usage(2) show ?thesis
      by (auto simp: routed_def session_contract_def session_move_def)
  qed (simp add: usage(2) session_contract_def)
next
  case (helped ps flags)
  then show ?thesis by (auto simp: session_contract_def)
next
  case (returned ps' flags')
  with assms(2) show ?thesis by (auto simp: routed_def session_contract_def session_move_def)
next
  case (failed ps' flags' e t)
  with assms(2) have f: "routed w (toCommandKey ps) flags s (Inl (Client_error e)) t"
      "client_failure w (server_url w flags) (toCommandKey ps) flags e t = (r, s')" by simp_all
  note c = cleanup_result [OF f(2)]
  show ?thesis
  proof (cases e)
    case (Thrown m)
    with c f(1) show ?thesis by (auto simp: routed_def session_contract_def session_move_def)
  next
    case (Api_error status m)
    with f(1) obtain rq a where rq: "cs_requests t = cs_requests s @ [rq]" "cw_fetch w rq = Inr a" "\<not> rs_ok a"
        "rs_status a = status" "session_move w (context_of w flags) (cs_session s) rq (cs_session t)"
      by (auto simp: routed_def sent_ok_def not_api_def)
    then have "cs_session t = cs_session s" by (auto simp: session_move_def)
    with c Api_error rq show ?thesis by (auto simp: session_contract_def intro!: exI [of _ "[rq]"])
  qed
qed

lemma requests_authorised:
  assumes "cli_run w argv s = (r, s')" "parseCliArgs argv = Inr (ps, flags)" "rq \<in> set rqs"
    "cs_requests s' = cs_requests s @ rqs"
  shows "\<exists>r'. sent_ok w (context_of w flags) (cs_session s) rq (r' :: cli_error + run_result)"
  using assms(1)
proof (cases rule: run_cases)
  case (failed ps' flags' e t)
  with cleanup_result [OF failed(5)] assms(2-4) show ?thesis by (auto simp: routed_def)
qed (use assms(2-4) in \<open>auto simp: routed_def\<close>)

definition sample_world :: "int \<Rightarrow> bool \<Rightarrow> (string \<Rightarrow> string option) \<Rightarrow> cli_world" where
  "sample_world status ok env =
    \<lparr>cw_env = env, cw_fetch = (\<lambda>_. Inr \<lparr>rs_ok = ok, rs_status = status, rs_text = None, rs_json = Some (JObj [])\<rparr>),
     cw_now = ''now'', cw_save_ok = True, cw_clear_ok = True, cw_write_ok = True, cw_number = (\<lambda>_. [])\<rparr>"

definition with_token :: "string \<Rightarrow> string option" where
  "with_token k = (if k = ''NEBULA_CLIENT_TOKEN'' then Some ''token'' else None)"

definition idle_cli :: "json option \<Rightarrow> cli_state" where
  "idle_cli file = \<lparr>cs_session = file, cs_stdout = [], cs_stderr = [], cs_requests = [], cs_files = []\<rparr>"

definition saved_session :: "json option" where
  "saved_session = file_save \<lparr>so_serverUrl = default_server_url, so_deviceId = ''d1'', so_occupantId = ''secret'',
     so_occupiedAt = ''t''\<rparr> None"

text \<open>
  C35: The exit code of the command line tool tells what happened. A run sends at most one request. It ends
  with 0 only when the one request of its command was sent and answered ok; \<open>devices session\<close> and \<open>--help\<close>
  are the only runs that end with 0 and send nothing. A response that is not ok ends it with 3 for 401,
  403 and 429, with 4 for 404 and 409, with 5 for 502 and 504 and with 1 for any other status, and 3, 4 and
  5 come from nothing else. Without a response it ends with 1. It ends with 2 only when nothing was sent,
  save for a screenshot that was answered ok and had neither a file nor JSON output to go to, which is what
  it prints last. It ends without a code only when the file of an invalid session cannot be removed or an
  inherited member was called as a command, and then nothing was sent.
\<close>

theorem cli_exit_codes:
  assumes "cli_run w argv s = (r, s')"
  shows "\<exists>rqs. cs_requests s' = cs_requests s @ rqs \<and> length rqs \<le> 1 \<and>
    (\<forall>n. r = Exit_code n \<longrightarrow> n \<le> 5) \<and>
    (r = Exit_code 0 \<longrightarrow> (\<exists>ps flags. parseCliArgs argv = Inr (ps, flags) \<and>
      (rqs = [] \<and> (fl_help flags \<or> toCommandKey ps = ''devices session'') \<or>
       (\<exists>rq a. rqs = [rq] \<and> of_command (server_url w flags) (toCommandKey ps) rq \<and> cw_fetch w rq = Inr a \<and> rs_ok a)))) \<and>
    (r = Exit_code 2 \<longrightarrow> rqs = [] \<or>
      (\<exists>rq a. rqs = [rq] \<and> cw_fetch w rq = Inr a \<and> rs_ok a) \<and>
      (\<exists>es. cs_stderr s' = es @ [Err_usage Screenshot_needs_out, Err_hint])) \<and>
    (\<forall>n\<in>{3, 4, 5}. r = Exit_code n \<longrightarrow> (\<exists>rq a. rqs = [rq] \<and> cw_fetch w rq = Inr a \<and> \<not> rs_ok a)) \<and>
    (\<forall>rq a. rqs = [rq] \<longrightarrow> cw_fetch w rq = Inr a \<longrightarrow> \<not> rs_ok a \<longrightarrow>
      r = Exit_code (if rs_status a \<in> {401, 403, 429} then 3 else if rs_status a \<in> {404, 409} then 4
        else if rs_status a \<in> {502, 504} then 5 else 1) \<or> r = Run_rejected \<and> \<not> cw_clear_ok w) \<and>
    (\<forall>rq m. rqs = [rq] \<longrightarrow> cw_fetch w rq = Inl m \<longrightarrow> r = Exit_code 1) \<and>
    (r = Run_rejected \<longrightarrow> \<not> cw_clear_ok w) \<and>
    (\<forall>t. r = Not_an_exit_code t \<longrightarrow> rqs = [] \<and>
      (\<exists>ps flags. parseCliArgs argv = Inr (ps, flags) \<and> toCommandKey ps \<in> {''toString'', ''constructor''}))"
  using exit_contract_holds [OF assms] unfolding exit_contract_def .

theorem cli_exit_codes_witness:
  "fst (cli_run (sample_world 502 False with_token) [''devices'', ''keepalive''] (idle_cli saved_session)) = Exit_code 5 \<and>
   (\<exists>rq. cs_requests (snd (cli_run (sample_world 201 True with_token) [''type'', ''--text'', ''hi''] (idle_cli saved_session))) = [rq] \<and>
     of_command default_server_url ''type'' rq)"
proof -
  let ?run = "cli_run (sample_world 502 False with_token) [''devices'', ''keepalive''] (idle_cli saved_session)"
  let ?w = "sample_world 201 True with_token" and ?argv = "[''type'', ''--text'', ''hi'']"
  let ?type = "cli_run ?w ?argv (idle_cli saved_session)"
  have five: "fst ?run = Exit_code 5" by code_simp
  have zero: "fst ?type = Exit_code 0" by code_simp
  have parse: "case parseCliArgs ?argv of Inl _ \<Rightarrow> False | Inr (ps, flags) \<Rightarrow>
      toCommandKey ps = ''type'' \<and> server_url ?w flags = default_server_url \<and> \<not> fl_help flags" by code_simp
  from cli_exit_codes [of ?w ?argv "idle_cli saved_session" "fst ?type" "snd ?type"] zero
  obtain ps flags where run: "parseCliArgs ?argv = Inr (ps, flags)"
      "cs_requests (snd ?type) = [] \<and> (fl_help flags \<or> toCommandKey ps = ''devices session'') \<or>
       (\<exists>rq. cs_requests (snd ?type) = [rq] \<and> of_command (server_url ?w flags) (toCommandKey ps) rq)"
    by (auto simp: idle_cli_def)
  with parse five show ?thesis by auto
qed

lemma context_of_parts:
  "nc_baseUrl (cc_client (context_of w flags)) = server_url w flags" "cc_flags (context_of w flags) = flags"
  "nc_token (cc_client (context_of w flags)) = (case client_token w flags of Some t \<Rightarrow> t | None \<Rightarrow> [])"
  "cc_serverUrl (context_of w flags) = server_url w flags"
  by (simp_all add: context_of_def new_client_def)

lemma sessionFor_Some:
  "sessionFor ctx file = Some st \<longleftrightarrow> file_load file = Some st \<and> so_serverUrl st = cc_serverUrl ctx"
  by (auto simp: sessionFor_def split: option.split)

lemma target_ok_device:
  "target_ok w (context_of w flags) file (d, occ) \<Longrightarrow> fl_deviceId flags = Some d \<or>
    fl_deviceId flags = None \<and> (\<exists>st. file_load file = Some st \<and> so_serverUrl st = server_url w flags \<and> so_deviceId st = d)"
  by (cases "fl_deviceId flags") (auto simp: target_ok_def context_of_parts sessionFor_Some)

lemma target_ok_occupant:
  "target_ok w (context_of w flags) file (d, occ) \<Longrightarrow> fl_occupantId flags = Some occ \<or>
    fl_occupantId flags = None \<and> cw_env w ''NEBULA_OCCUPANT_ID'' = Some occ \<or>
    fl_occupantId flags = None \<and> cw_env w ''NEBULA_OCCUPANT_ID'' = None \<and>
      (\<exists>st. file_load file = Some st \<and> so_serverUrl st = server_url w flags \<and> so_deviceId st = d \<and> so_occupantId st = occ)"
  by (cases "fl_occupantId flags"; cases "cw_env w ''NEBULA_OCCUPANT_ID''")
    (auto simp: target_ok_def context_of_parts sessionFor_Some)

text \<open>
  C36: The command line tool keeps its secrets where they belong. Every request of a run goes to the server
  the flags or the environment name and bears the client token; one that carries an occupant id is for one
  device, the one of the flag or of the saved session, and the id is that of the flag, else that of the
  environment variable, else the saved one, and the saved one only when it was saved for this server and
  this very device.
\<close>

theorem cli_requests_authorised:
  assumes "cli_run w argv s = (r, s')" "parseCliArgs argv = Inr (ps, flags)"
    and "cs_requests s' = cs_requests s @ rqs" "rq \<in> set rqs"
  shows "(\<exists>path. rq_url rq = server_url w flags @ path) \<and>
    (''authorization'', ''Bearer '' @ (case client_token w flags of Some t \<Rightarrow> t | None \<Rightarrow> [])) \<in> set (rq_headers rq) \<and>
    (carries rq occ \<longrightarrow>
      (\<exists>d op. rq_url rq = server_url w flags @ ''/devices/'' @ encodeURIComponent d @ ''/'' @ op \<and>
        (fl_deviceId flags = Some d \<or>
         fl_deviceId flags = None \<and> (\<exists>st. file_load (cs_session s) = Some st \<and> so_serverUrl st = server_url w flags \<and> so_deviceId st = d)) \<and>
        (fl_occupantId flags = Some occ \<or>
         fl_occupantId flags = None \<and> cw_env w ''NEBULA_OCCUPANT_ID'' = Some occ \<or>
         fl_occupantId flags = None \<and> cw_env w ''NEBULA_OCCUPANT_ID'' = None \<and>
           (\<exists>st. file_load (cs_session s) = Some st \<and> so_serverUrl st = server_url w flags \<and> so_deviceId st = d \<and>
             so_occupantId st = occ))))"
proof -
  obtain r' :: "cli_error + run_result" where ok: "sent_ok w (context_of w flags) (cs_session s) rq r'"
    using requests_authorised [OF assms(1,2,4,3)] by blast
  then have url: "\<exists>path. rq_url rq = server_url w flags @ path"
    and token: "(''authorization'', ''Bearer '' @ (case client_token w flags of Some t \<Rightarrow> t | None \<Rightarrow> [])) \<in> set (rq_headers rq)"
    by (simp_all add: sent_ok_def context_of_parts)
  show ?thesis
  proof (rule conjI [OF url], rule conjI [OF token], rule impI)
    assume "carries rq occ"
    with ok have "authorised w (context_of w flags) (cs_session s) rq occ" by (simp add: sent_ok_def)
    then obtain d op where rq: "rq_url rq = server_url w flags @ device_path d @ ''/'' @ op"
        and t: "target_ok w (context_of w flags) (cs_session s) (d, occ)"
      unfolding authorised_def to_device_def context_of_parts by blast
    show "\<exists>d op. rq_url rq = server_url w flags @ ''/devices/'' @ encodeURIComponent d @ ''/'' @ op \<and>
        (fl_deviceId flags = Some d \<or>
         fl_deviceId flags = None \<and> (\<exists>st. file_load (cs_session s) = Some st \<and> so_serverUrl st = server_url w flags \<and> so_deviceId st = d)) \<and>
        (fl_occupantId flags = Some occ \<or>
         fl_occupantId flags = None \<and> cw_env w ''NEBULA_OCCUPANT_ID'' = Some occ \<or>
         fl_occupantId flags = None \<and> cw_env w ''NEBULA_OCCUPANT_ID'' = None \<and>
           (\<exists>st. file_load (cs_session s) = Some st \<and> so_serverUrl st = server_url w flags \<and> so_deviceId st = d \<and>
             so_occupantId st = occ))"
      using rq [unfolded device_path_def append.assoc]
      by (intro exI [of _ d] exI [of _ op] conjI target_ok_device [OF t] target_ok_occupant [OF t])
  qed
qed

theorem cli_requests_authorised_witness:
  "\<exists>rq. cs_requests (snd (cli_run (sample_world 201 True with_token) [''devices'', ''keepalive''] (idle_cli saved_session))) = [rq] \<and>
    (\<exists>path. rq_url rq = default_server_url @ path)"
proof -
  let ?w = "sample_world 201 True with_token" and ?argv = "[''devices'', ''keepalive'']" and ?s = "idle_cli saved_session"
  obtain ps flags where parse: "parseCliArgs ?argv = Inr (ps, flags)" and url: "server_url ?w flags = default_server_url"
  proof -
    have "(case parseCliArgs ?argv of Inl _ \<Rightarrow> False | Inr (ps, flags) \<Rightarrow> server_url ?w flags = default_server_url)" by code_simp
    then show thesis using that by (auto split: sum.splits)
  qed
  have "length (cs_requests (snd (cli_run ?w ?argv ?s))) = 1" by code_simp
  then obtain rq where rq: "cs_requests (snd (cli_run ?w ?argv ?s)) = [rq]"
    unfolding One_nat_def length_Suc_conv length_0_conv by blast
  have "\<exists>path. rq_url rq = server_url ?w flags @ path"
    using cli_requests_authorised [OF prod.collapse [symmetric] parse, where s = ?s and w = ?w and rqs = "[rq]" and rq = rq, THEN conjunct1] rq
    by (simp add: idle_cli_def)
  with rq url show ?thesis by auto
qed

text \<open>
  A request of a run whose flags name no other device and no other occupant than the saved ones: if it
  carries an occupant id, it is for the saved device, and the id is the saved one or the one of the environment.
\<close>

lemma carried_by_session:
  assumes "sent_ok w (context_of w flags) file rq r'" "file_load file = Some st"
    and "\<not> names_other (fl_deviceId flags) (so_deviceId st)" "\<not> names_other (fl_occupantId flags) (so_occupantId st)"
    and "carries rq occ"
  shows "(\<exists>op. rq_url rq = server_url w flags @ ''/devices/'' @ encodeURIComponent (so_deviceId st) @ ''/'' @ op) \<and>
    (occ = so_occupantId st \<or> fl_occupantId flags = None \<and> cw_env w ''NEBULA_OCCUPANT_ID'' = Some occ)"
proof -
  from assms(1,5) have "authorised w (context_of w flags) file rq occ" by (simp add: sent_ok_def)
  then obtain d op where rq: "rq_url rq = server_url w flags @ device_path d @ ''/'' @ op"
      and t: "target_ok w (context_of w flags) file (d, occ)"
    unfolding authorised_def to_device_def context_of_parts by blast
  then have "d \<noteq> []" "occ \<noteq> []" by (simp_all add: target_ok_def)
  with target_ok_device [OF t] assms(2,3) have "d = so_deviceId st" by (auto simp: names_other_def flag_set_def)
  moreover have "occ = so_occupantId st \<or> fl_occupantId flags = None \<and> cw_env w ''NEBULA_OCCUPANT_ID'' = Some occ"
    using target_ok_occupant [OF t] assms(2,4) \<open>occ \<noteq> []\<close> by (auto simp: names_other_def flag_set_def)
  ultimately show ?thesis using rq [unfolded device_path_def append.assoc] by blast
qed


definition occupy_world :: cli_world where
  "occupy_world = (sample_world 200 True with_token)
    \<lparr>cw_fetch := (\<lambda>_. Inr \<lparr>rs_ok = True, rs_status = 201, rs_text = None,
      rs_json = Some (JObj [(''occupantId'', JStr ''o9''), (''device'', JObj [(''id'', JStr ''d9'')])])\<rparr>)\<rparr>"


section \<open>Where the tool does not do what it says\<close>

text \<open>
  The clean-up of a session is meant for commands that used it. It compares the flags with the session but
  not the occupant taken from the environment, so a command refused because of a stale
  \<open>NEBULA_OCCUPANT_ID\<close> removes a saved session whose own occupant the server would have accepted.
\<close>

definition holder_world :: "string option \<Rightarrow> cli_world" where
  "holder_world envOccupant =
    \<lparr>cw_env = (\<lambda>k. if k = ''NEBULA_OCCUPANT_ID'' then envOccupant else with_token k),
     cw_fetch = (\<lambda>rq. if rq_body rq = Some (JObj [(''occupantId'', JStr ''secret'')])
       then Inr \<lparr>rs_ok = True, rs_status = 201, rs_text = None, rs_json = Some (JObj [])\<rparr>
       else Inr \<lparr>rs_ok = False, rs_status = 403, rs_text = None, rs_json = None\<rparr>),
     cw_now = ''now'', cw_save_ok = True, cw_clear_ok = True, cw_write_ok = True, cw_number = (\<lambda>_. [])\<rparr>"

theorem env_occupant_clears_valid_session:
  "fst (cli_run (holder_world None) [''devices'', ''keepalive''] (idle_cli saved_session)) = Exit_code 0 \<and>
   fst (cli_run (holder_world (Some ''stale'')) [''devices'', ''keepalive''] (idle_cli saved_session)) = Exit_code 3 \<and>
   cs_session (snd (cli_run (holder_world (Some ''stale'')) [''devices'', ''keepalive''] (idle_cli saved_session))) = None"
  by (intro conjI) code_simp+

text \<open>
  The router looks the command up in an object literal, so the name of an inherited member is taken for a
  command: the run ends with a value that is no exit code, instead of the usage error of an unknown command.
\<close>

theorem inherited_member_is_dispatched:
  "fst (cli_run (sample_world 200 True with_token) [''nosuch''] (idle_cli None)) = Exit_code 2 \<and>
   fst (cli_run (sample_world 200 True with_token) [''toString''] (idle_cli None)) = Not_an_exit_code ''[object Undefined]'' \<and>
   fst (cli_run (sample_world 200 True with_token) [''valueOf''] (idle_cli None)) = Exit_code 1"
  by (intro conjI) code_simp+

text \<open>
  A timeout outside the range the standard library accepts passes the check of the flag and fails in the
  client before anything is sent: the code is that of a failure, not of a usage error.
\<close>

lemma js_Number_minus_5: "js_Number ''-5'' = num (- 5)"
  by (simp add: literal_defs)

theorem negative_timeout_is_no_usage_error:
  "toInteger (Some ''-5'') ''timeout-ms'' = Inr (Some (num (- 5))) \<and>
   (fl_timeoutMs flags = Some (num (- 5)) \<longrightarrow>
     dispatch w ''health'' flags s = (Inl (Client_error (Thrown ''The value of delay is out of range'')), s))"
proof -
  have "\<not> abort_timeout_ok (num (- 5))" by (simp add: abort_timeout_ok_def)
  moreover have "jget COMMANDS ''health'' = Some runHealth" by (simp add: COMMANDS_def)
  ultimately show ?thesis
    by (simp add: toInteger_def js_Number_minus_5 dispatch_def lookup_handler_def runHealth_def cli_bind_def cli_call_def
        cli_lift_def client_health_def request_def client_request_def context_of_def new_client_def)
qed

end
