(* ===== verification/Web_Input.thy ===== *)
theory Web_Input
  imports Server Client
begin

text \<open>
  \<open>packages/web\<close>, the input side: the interval variables (env.ts), the coordinates (coordinates.ts),
  the pointer and toolbar handlers of the screen (ScreenView.tsx) and the keepalive hook
  (useOccupationKeepalive.ts).

  A handler that calls the SDK returns the call it makes as a \<open>web_call\<close>; what the promise settles to
  is an argument of the handler that continues it. Quotients and products of numbers are exact, so the
  rounding of double arithmetic below \<open>Math.round\<close> is not modelled; infinities and NaN are.
\<close>

section \<open>Arithmetic on numbers\<close>

fun js_div :: "jsnum \<Rightarrow> jsnum \<Rightarrow> jsnum" where
  "js_div (Fin a) (Fin b) =
    (if b \<noteq> 0 then Fin (a / b) else if a = 0 then NaN else if 0 < a then PosInf else NegInf)"
| "js_div (Fin _) PosInf = Fin 0"
| "js_div (Fin _) NegInf = Fin 0"
| "js_div PosInf (Fin b) = (if b < 0 then NegInf else PosInf)"
| "js_div NegInf (Fin b) = (if b < 0 then PosInf else NegInf)"
| "js_div _ _ = NaN"

definition signed_inf :: "bool \<Rightarrow> jsnum" where
  "signed_inf pos = (if pos then PosInf else NegInf)"

fun js_mul :: "jsnum \<Rightarrow> jsnum \<Rightarrow> jsnum" where
  "js_mul (Fin a) (Fin b) = Fin (a * b)"
| "js_mul NaN _ = NaN"
| "js_mul _ NaN = NaN"
| "js_mul (Fin a) PosInf = (if a = 0 then NaN else signed_inf (0 < a))"
| "js_mul (Fin a) NegInf = (if a = 0 then NaN else signed_inf (a < 0))"
| "js_mul PosInf (Fin b) = (if b = 0 then NaN else signed_inf (0 < b))"
| "js_mul NegInf (Fin b) = (if b = 0 then NaN else signed_inf (b < 0))"
| "js_mul a b = signed_inf (a = b)"

fun js_sub :: "jsnum \<Rightarrow> jsnum \<Rightarrow> jsnum" where
  "js_sub (Fin a) (Fin b) = Fin (a - b)"
| "js_sub NaN _ = NaN"
| "js_sub _ NaN = NaN"
| "js_sub (Fin _) PosInf = NegInf"
| "js_sub (Fin _) NegInf = PosInf"
| "js_sub PosInf b = (if b = PosInf then NaN else PosInf)"
| "js_sub NegInf b = (if b = NegInf then NaN else NegInf)"

fun js_round :: "jsnum \<Rightarrow> jsnum" where
  "js_round (Fin q) = num \<lfloor>q + 1 / 2\<rfloor>"
| "js_round n = n"

definition js_max :: "jsnum \<Rightarrow> jsnum \<Rightarrow> jsnum" where
  "js_max a b = (if a = NaN \<or> b = NaN then NaN else if js_less a b then b else a)"

definition js_min :: "jsnum \<Rightarrow> jsnum \<Rightarrow> jsnum" where
  "js_min a b = (if a = NaN \<or> b = NaN then NaN else if js_less b a then b else a)"

text \<open>\<open>Math.hypot(a, b) < r\<close> for a positive \<open>r\<close>, decided on the squares.\<close>

fun hypot_less :: "jsnum \<Rightarrow> jsnum \<Rightarrow> rat \<Rightarrow> bool" where
  "hypot_less (Fin a) (Fin b) r = (a * a + b * b < r * r)"
| "hypot_less _ _ r = False"

section \<open>Intervals\<close>

definition parseIntervalEnv :: "string option \<Rightarrow> int \<Rightarrow> jsnum" where
  "parseIntervalEnv raw fallback =
    (let parsed = (case raw of None \<Rightarrow> NaN | Some s \<Rightarrow> js_Number s)
     in if \<not> is_integer_num parsed \<or> js_less parsed (num 1000) then num fallback else parsed)"

section \<open>Coordinates\<close>

record screen_size =
  sz_width :: jsnum
  sz_height :: jsnum

type_synonym device_point = "jsnum \<times> jsnum"

definition toDevicePoint :: "jsnum \<Rightarrow> jsnum \<Rightarrow> jsnum \<Rightarrow> jsnum \<Rightarrow> screen_size \<Rightarrow> device_point" where
  "toDevicePoint offsetX offsetY renderedWidth renderedHeight screen =
    (let x = js_mul (js_div offsetX renderedWidth) (sz_width screen);
         y = js_mul (js_div offsetY renderedHeight) (sz_height screen)
     in (js_round x, js_round y))"

definition clampToScreen :: "device_point \<Rightarrow> screen_size \<Rightarrow> device_point" where
  "clampToScreen point screen =
    (js_min (js_max (fst point) (num 0)) (js_round (sz_width screen)),
     js_min (js_max (snd point) (num 0)) (js_round (sz_height screen)))"

definition tap_threshold :: rat where "tap_threshold = 10"
definition web_min_swipe_ms :: int where "web_min_swipe_ms = 100"
definition web_max_swipe_ms :: int where "web_max_swipe_ms = 1000"

datatype gesture =
    Tap_gesture jsnum jsnum
  | Swipe_gesture jsnum jsnum jsnum jsnum jsnum

definition interpretGesture :: "device_point \<Rightarrow> device_point \<Rightarrow> int \<Rightarrow> screen_size \<Rightarrow> gesture" where
  "interpretGesture from_pt to_pt elapsedMs screen =
    (let start = clampToScreen from_pt screen; stop = clampToScreen to_pt screen in
     if hypot_less (js_sub (fst stop) (fst start)) (js_sub (snd stop) (snd start)) tap_threshold
     then Tap_gesture (fst start) (snd start)
     else Swipe_gesture (fst start) (snd start) (fst stop) (snd stop)
       (num (min (max elapsedMs web_min_swipe_ms) web_max_swipe_ms)))"

section \<open>The handlers of the screen\<close>

text \<open>The calls of the SDK a handler makes, for the target of the view.\<close>

datatype web_call =
    Call_tap jsnum jsnum
  | Call_swipe jsnum jsnum jsnum jsnum jsnum
  | Call_press string
  | Call_type string

datatype view_output =
    View_call web_call
  | View_error string
  | View_occupation_lost

record pointer_start =
  ps_x :: jsnum
  ps_y :: jsnum
  ps_time :: int
  ps_pointerId :: nat

record pointer_event =
  pe_isPrimary :: bool
  pe_button :: int
  pe_clientX :: jsnum
  pe_clientY :: jsnum
  pe_pointerId :: nat

text \<open>The rectangle of the canvas on the page and its client size.\<close>

record canvas_box =
  cb_left :: jsnum
  cb_top :: jsnum
  cb_clientWidth :: jsnum
  cb_clientHeight :: jsnum

definition handlePointerDown :: "pointer_event \<Rightarrow> int \<Rightarrow> pointer_start option \<Rightarrow> pointer_start option" where
  "handlePointerDown event now start =
    (if \<not> pe_isPrimary event \<or> pe_button event \<noteq> 0 then start
     else Some \<lparr>ps_x = pe_clientX event, ps_y = pe_clientY event, ps_time = now, ps_pointerId = pe_pointerId event\<rparr>)"

definition handlePointerCancel :: "pointer_start option \<Rightarrow> pointer_start option" where
  "handlePointerCancel start = None"

definition gesture_call :: "gesture \<Rightarrow> web_call" where
  "gesture_call g = (case g of
      Tap_gesture x y \<Rightarrow> Call_tap x y
    | Swipe_gesture fx fy tx ty d \<Rightarrow> Call_swipe fx fy tx ty d)"

definition handlePointerUp ::
  "canvas_box \<Rightarrow> screen_size option \<Rightarrow> pointer_event \<Rightarrow> int \<Rightarrow> pointer_start option \<Rightarrow>
    pointer_start option \<times> view_output list" where
  "handlePointerUp box screenPt event now start =
    (case start of
      None \<Rightarrow> (start, [])
    | Some st \<Rightarrow>
        if pe_pointerId event \<noteq> ps_pointerId st then (start, [])
        else (case screenPt of
          None \<Rightarrow> (None, [View_error ''waiting for the screen size''])
        | Some screen \<Rightarrow>
            (let from_pt = toDevicePoint (js_sub (ps_x st) (cb_left box)) (js_sub (ps_y st) (cb_top box))
                   (cb_clientWidth box) (cb_clientHeight box) screen;
                 to_pt = toDevicePoint (js_sub (pe_clientX event) (cb_left box)) (js_sub (pe_clientY event) (cb_top box))
                   (cb_clientWidth box) (cb_clientHeight box) screen
             in (None, [View_call (gesture_call (interpretGesture from_pt to_pt (now - ps_time st) screen))]))))"

definition handleHome :: "view_output list" where
  "handleHome = [View_call (Call_press ''home'')]"

definition handleBack :: "string \<Rightarrow> screen_size option \<Rightarrow> view_output list" where
  "handleBack platform screenPt =
    (if platform = ''android'' then [View_call (Call_press ''back'')]
     else (case screenPt of
       None \<Rightarrow> []
     | Some screen \<Rightarrow>
         (let midY = js_round (js_div (sz_height screen) (num 2))
          in [View_call (Call_swipe (num 1) midY (js_round (js_mul (sz_width screen) (Fin (3 / 5)))) midY (num 250))])))"

definition handleType :: "string \<Rightarrow> view_output list" where
  "handleType t = (if t = [] then [] else [View_call (Call_type t)])"

definition handleActionError :: "string \<Rightarrow> client_error \<Rightarrow> view_output list" where
  "handleActionError label e =
    (case e of
      Api_error status m \<Rightarrow>
        if status = 403 then [View_occupation_lost, View_error ''the occupation expired'']
        else [View_error (label @ '': '' @ toErrorMessage e)]
    | Thrown m \<Rightarrow> [View_error (label @ '': '' @ toErrorMessage e)])"

text \<open>The answer of the screenshot that tells the size of the screen, while its effect is active.\<close>

definition screen_size_answered ::
  "bool \<Rightarrow> client_error + jsnum \<times> jsnum \<Rightarrow> screen_size option \<Rightarrow> screen_size option \<times> view_output list" where
  "screen_size_answered isActive r screenPt =
    (if \<not> isActive then (screenPt, [])
     else (case r of
       Inr (coordWidth, coordHeight) \<Rightarrow> (Some \<lparr>sz_width = coordWidth, sz_height = coordHeight\<rparr>, [])
     | Inl e \<Rightarrow> (screenPt, handleActionError ''screen size unknown'' e)))"

text \<open>The request body a call becomes, as the server's validation reads it; \<open>press\<close> takes the two buttons.\<close>

fun dto_of_call :: "web_call \<Rightarrow> action_dto option" where
  "dto_of_call (Call_tap x y) = Some (TapDto x y)"
| "dto_of_call (Call_swipe fx fy tx ty d) = Some (SwipeDto fx fy tx ty (Some d))"
| "dto_of_call (Call_press b) =
    (if b = ''home'' then Some (PressButtonDto Home) else if b = ''back'' then Some (PressButtonDto Back) else None)"
| "dto_of_call (Call_type t) = Some (TypeTextDto t)"

section \<open>The keepalive hook\<close>

definition keepalive_interval_ms :: "string option \<Rightarrow> jsnum" where
  "keepalive_interval_ms raw = parseIntervalEnv raw 30000"

definition keepalive_idle_limit_ms :: "string option \<Rightarrow> jsnum" where
  "keepalive_idle_limit_ms raw = parseIntervalEnv raw (30 * 60000)"

definition occupation_lost_statuses :: "int list" where
  "occupation_lost_statuses = [403, 404, 409]"

text \<open>One run of the effect, from its start to its clean-up.\<close>

record keepalive_hook =
  kh_isActive :: bool
  kh_lastActivityAt :: int
  kh_hasWarnedIdle :: bool

datatype hook_output = Hook_keepalive | Hook_lost | Hook_status string

definition hook_start :: "int \<Rightarrow> keepalive_hook" where
  "hook_start now = \<lparr>kh_isActive = True, kh_lastActivityAt = now, kh_hasWarnedIdle = False\<rparr>"

definition recordActivity :: "int \<Rightarrow> keepalive_hook \<Rightarrow> keepalive_hook" where
  "recordActivity now h = h\<lparr>kh_lastActivityAt := now, kh_hasWarnedIdle := False\<rparr>"

definition idle_message :: string where
  "idle_message = ''no input: automatic extension suspended''"

text \<open>\<open>sendKeepalive\<close> up to its \<open>await\<close>, and what its \<open>catch\<close> does.\<close>

definition sendKeepalive :: "jsnum \<Rightarrow> int \<Rightarrow> keepalive_hook \<Rightarrow> keepalive_hook \<times> hook_output list" where
  "sendKeepalive limit now h =
    (if js_less limit (num (now - kh_lastActivityAt h)) then
       (if \<not> kh_hasWarnedIdle h then (h\<lparr>kh_hasWarnedIdle := True\<rparr>, [Hook_status idle_message]) else (h, []))
     else (h, [Hook_keepalive]))"

definition keepalive_failed :: "client_error \<Rightarrow> keepalive_hook \<Rightarrow> hook_output list" where
  "keepalive_failed e h =
    (if \<not> kh_isActive h then []
     else (case e of
       Api_error status _ \<Rightarrow>
         if status \<in> set occupation_lost_statuses
         then [Hook_lost, Hook_status ''the occupation expired and was released''] else []
     | Thrown _ \<Rightarrow> []))"

definition hook_cleanup :: "keepalive_hook \<Rightarrow> keepalive_hook" where
  "hook_cleanup h = h\<lparr>kh_isActive := False\<rparr>"

text \<open>
  The events of a hook. The clean-up clears the interval and removes the listeners, so afterwards only
  the answers of requests that are out can still arrive.
\<close>

datatype hook_event = Hook_activity int | Hook_tick int | Hook_answer "client_error + json" | Hook_cleanup

definition hook_step :: "jsnum \<Rightarrow> hook_event \<Rightarrow> keepalive_hook \<Rightarrow> keepalive_hook \<times> hook_output list" where
  "hook_step limit ev h = (case ev of
      Hook_activity now \<Rightarrow> if kh_isActive h then (recordActivity now h, []) else (h, [])
    | Hook_tick now \<Rightarrow> if kh_isActive h then sendKeepalive limit now h else (h, [])
    | Hook_answer (Inl e) \<Rightarrow> (h, keepalive_failed e h)
    | Hook_answer (Inr _) \<Rightarrow> (h, [])
    | Hook_cleanup \<Rightarrow> (hook_cleanup h, []))"

fun hook_run :: "jsnum \<Rightarrow> hook_event list \<Rightarrow> keepalive_hook \<Rightarrow> keepalive_hook \<times> hook_output list" where
  "hook_run limit [] h = (h, [])"
| "hook_run limit (ev # evs) h =
    (case hook_step limit ev h of (h1, o1) \<Rightarrow> case hook_run limit evs h1 of (h2, o2) \<Rightarrow> (h2, o1 @ o2))"

section \<open>Gestures stay on the screen\<close>

definition on_screen :: "rat \<Rightarrow> jsnum \<Rightarrow> bool" where
  "on_screen sz x \<longleftrightarrow> (\<exists>n. x = num n \<and> 0 \<le> n \<and> n \<le> \<lfloor>sz + 1 / 2\<rfloor>)"

text \<open>A screen the server's coordinates can address, and a canvas that is shown.\<close>

definition addressable :: "screen_size \<Rightarrow> rat \<Rightarrow> rat \<Rightarrow> bool" where
  "addressable screen w h \<longleftrightarrow>
    sz_width screen = Fin w \<and> sz_height screen = Fin h \<and> 0 \<le> w \<and> 0 \<le> h \<and>
    w \<le> of_int max_coordinate \<and> h \<le> of_int max_coordinate"

fun js_positive :: "jsnum \<Rightarrow> bool" where
  "js_positive (Fin q) = (0 < q)"
| "js_positive _ = False"

definition shown :: "canvas_box \<Rightarrow> bool" where
  "shown box \<longleftrightarrow> is_finite_num (cb_left box) \<and> is_finite_num (cb_top box) \<and>
    js_positive (cb_clientWidth box) \<and> js_positive (cb_clientHeight box)"

lemma js_max_num: "js_max (num a) (num b) = num (max a b)"
  by (auto simp: js_max_def num_def max_def)

lemma js_min_num: "js_min (num a) (num b) = num (min a b)"
  by (auto simp: js_min_def num_def min_def)

lemma floor_half_nonneg: "0 \<le> q \<Longrightarrow> 0 \<le> \<lfloor>q + 1 / 2\<rfloor>" for q :: rat
  by simp

lemma on_screen_valid:
  assumes "on_screen sz x" "sz \<le> of_int max_coordinate"
  shows "valid_coordinate x"
proof -
  obtain n where n: "x = num n" "0 \<le> n" "n \<le> \<lfloor>sz + 1 / 2\<rfloor>" using assms(1) by (auto simp: on_screen_def)
  have "\<lfloor>sz + 1 / 2\<rfloor> \<le> \<lfloor>of_int max_coordinate + 1 / 2 :: rat\<rfloor>" using assms(2) by (intro floor_mono) simp
  also have "\<dots> = max_coordinate" by (simp add: max_coordinate_def floor_eq_iff)
  finally show ?thesis using n by (simp add: valid_coordinate_def)
qed

lemma clamp_on_screen:
  assumes "addressable screen w h" "fst p = num a" "snd p = num b"
  shows "\<exists>x y. clampToScreen p screen = (num x, num y) \<and> on_screen w (num x) \<and> on_screen h (num y)"
  using assms floor_half_nonneg [of w] floor_half_nonneg [of h]
  by (auto simp: addressable_def clampToScreen_def js_max_num js_min_num on_screen_def)

text \<open>What an interpreted gesture is, for points with integer coordinates.\<close>

definition far_apart :: "jsnum \<Rightarrow> jsnum \<Rightarrow> jsnum \<Rightarrow> jsnum \<Rightarrow> bool" where
  "far_apart fx fy tx ty \<longleftrightarrow>
    (\<exists>a b c d. fx = num a \<and> fy = num b \<and> tx = num c \<and> ty = num d \<and> 100 \<le> (c - a) * (c - a) + (d - b) * (d - b))"

fun good_call :: "rat \<Rightarrow> rat \<Rightarrow> web_call \<Rightarrow> bool" where
  "good_call w h (Call_tap x y) = (on_screen w x \<and> on_screen h y)"
| "good_call w h (Call_swipe fx fy tx ty d) =
    (on_screen w fx \<and> on_screen h fy \<and> on_screen w tx \<and> on_screen h ty \<and> far_apart fx fy tx ty \<and>
     (\<exists>n. d = num n \<and> 100 \<le> n \<and> n \<le> 1000))"
| "good_call w h _ = False"

lemma hypot_less_int: "hypot_less (num a) (num b) tap_threshold \<longleftrightarrow> a * a + b * b < 100"
proof -
  have "of_int a * of_int a + of_int b * of_int b = (of_int (a * a + b * b) :: rat)" by simp
  moreover have "(of_int (a * a + b * b) :: rat) < of_int 100 \<longleftrightarrow> a * a + b * b < 100" by (rule of_int_less_iff)
  ultimately show ?thesis by (simp add: num_def tap_threshold_def)
qed

lemma js_sub_num: "js_sub (num a) (num b) = num (a - b)"
  by (simp add: num_def)

lemma interpreted_gesture:
  assumes "addressable screen w h" "fst p = num a" "snd p = num b" "fst q = num c" "snd q = num d"
  shows "good_call w h (gesture_call (interpretGesture p q elapsed screen))"
proof -
  obtain x y where s: "clampToScreen p screen = (num x, num y)" "on_screen w (num x)" "on_screen h (num y)"
    using clamp_on_screen [OF assms(1-3)] by blast
  obtain x' y' where t: "clampToScreen q screen = (num x', num y')" "on_screen w (num x')" "on_screen h (num y')"
    using clamp_on_screen [OF assms(1,4,5)] by blast
  show ?thesis
  proof (cases "(x' - x) * (x' - x) + (y' - y) * (y' - y) < 100")
    case True
    with s t show ?thesis by (simp add: interpretGesture_def Let_def js_sub_num hypot_less_int gesture_call_def)
  next
    case False
    then have "far_apart (num x) (num y) (num x') (num y')" by (auto simp: far_apart_def)
    moreover have "\<exists>n. num (min (max elapsed web_min_swipe_ms) web_max_swipe_ms) = num n \<and> 100 \<le> n \<and> n \<le> 1000"
      by (simp add: web_min_swipe_ms_def web_max_swipe_ms_def)
    ultimately show ?thesis using False s t
      by (simp add: interpretGesture_def Let_def js_sub_num hypot_less_int gesture_call_def)
  qed
qed

lemma point_integer:
  assumes "addressable screen w h" "shown box" "is_finite_num x" "is_finite_num y"
  obtains a b where "toDevicePoint (js_sub x (cb_left box)) (js_sub y (cb_top box))
      (cb_clientWidth box) (cb_clientHeight box) screen = (num a, num b)"
proof -
  obtain l t cw ch where "cb_left box = Fin l" "cb_top box = Fin t"
      "cb_clientWidth box = Fin cw" "cb_clientHeight box = Fin ch" "cw \<noteq> 0" "ch \<noteq> 0"
    using assms(2) unfolding shown_def
    by (cases "cb_left box"; cases "cb_top box"; cases "cb_clientWidth box"; cases "cb_clientHeight box") auto
  with assms(1,3,4) show thesis
    by (cases x; cases y) (auto simp: addressable_def toDevicePoint_def intro: that)
qed

lemma good_call_valid:
  assumes "good_call w h c" "w \<le> of_int max_coordinate" "h \<le> of_int max_coordinate"
  shows "\<exists>dto. dto_of_call c = Some dto \<and> valid_dto dto"
proof (cases c)
  case (Call_tap x y)
  with assms show ?thesis by (auto intro: on_screen_valid)
next
  case (Call_swipe fx fy tx ty d)
  with assms obtain n where "d = num n" "100 \<le> n" "n \<le> 1000" by auto
  with Call_swipe assms show ?thesis by (auto intro: on_screen_valid simp: max_swipe_duration_ms_def)
qed (use assms in simp_all)

text \<open>
  C40: A gesture never leaves the screen. Wherever the pointer goes down and comes up, inside the canvas or
  far outside it, the call a release makes is one the server's validation accepts: a tap on the screen, or
  a swipe between two points of the screen at least ten units apart that lasts between 100 and 1000 ms; and
  a release makes a call only for the pointer whose press was recorded.
\<close>

theorem gestures_accepted:
  assumes "addressable screen w h" "shown box"
    and "\<forall>st. start = Some st \<longrightarrow> is_finite_num (ps_x st) \<and> is_finite_num (ps_y st)"
    and "is_finite_num (pe_clientX event)" "is_finite_num (pe_clientY event)"
    and "handlePointerUp box (Some screen) event now start = (start', outs)"
  shows "(\<forall>x\<in>set outs. \<exists>c dto. x = View_call c \<and> good_call w h c \<and> dto_of_call c = Some dto \<and> valid_dto dto) \<and>
    (outs \<noteq> [] \<longleftrightarrow> (\<exists>st. start = Some st \<and> ps_pointerId st = pe_pointerId event)) \<and>
    (outs \<noteq> [] \<longrightarrow> start' = None)"
proof (cases "\<exists>st. start = Some st \<and> ps_pointerId st = pe_pointerId event")
  case False
  then show ?thesis using assms(6) by (auto simp: handlePointerUp_def split: option.splits if_splits)
next
  case True
  then obtain st where st: "start = Some st" "ps_pointerId st = pe_pointerId event" by blast
  obtain a b where p: "toDevicePoint (js_sub (ps_x st) (cb_left box)) (js_sub (ps_y st) (cb_top box))
      (cb_clientWidth box) (cb_clientHeight box) screen = (num a, num b)"
    using point_integer [OF assms(1,2)] assms(3) st(1) by metis
  obtain c d where q: "toDevicePoint (js_sub (pe_clientX event) (cb_left box)) (js_sub (pe_clientY event) (cb_top box))
      (cb_clientWidth box) (cb_clientHeight box) screen = (num c, num d)"
    using point_integer [OF assms(1,2,4,5)] by metis
  let ?c = "gesture_call (interpretGesture (num a, num b) (num c, num d) (now - ps_time st) screen)"
  have good: "good_call w h ?c" by (rule interpreted_gesture [OF assms(1)]) simp_all
  moreover have "\<exists>dto. dto_of_call ?c = Some dto \<and> valid_dto dto"
    using good_call_valid [OF good] assms(1) by (simp add: addressable_def)
  moreover have "start' = None" "outs = [View_call ?c]" using assms(6) st p q by (simp_all add: handlePointerUp_def)
  ultimately show ?thesis using st by simp
qed

theorem gestures_accepted_witness:
  "\<exists>start' outs.
    handlePointerUp \<lparr>cb_left = num 0, cb_top = num 0, cb_clientWidth = num 100, cb_clientHeight = num 200\<rparr>
      (Some \<lparr>sz_width = num 390, sz_height = num 844\<rparr>)
      \<lparr>pe_isPrimary = True, pe_button = 0, pe_clientX = num 900, pe_clientY = num (- 7), pe_pointerId = 1\<rparr> 50
      (Some \<lparr>ps_x = num 10, ps_y = num 20, ps_time = 0, ps_pointerId = 1\<rparr>) = (start', outs) \<and>
    outs \<noteq> [] \<and> (\<forall>x\<in>set outs. \<exists>c. x = View_call c \<and> good_call 390 844 c)"
proof -
  let ?screen = "\<lparr>sz_width = num 390, sz_height = num 844\<rparr>"
    and ?box = "\<lparr>cb_left = num 0, cb_top = num 0, cb_clientWidth = num 100, cb_clientHeight = num 200\<rparr>"
    and ?ev = "\<lparr>pe_isPrimary = True, pe_button = 0, pe_clientX = num 900, pe_clientY = num (- 7), pe_pointerId = 1\<rparr>"
    and ?st = "\<lparr>ps_x = num 10, ps_y = num 20, ps_time = 0, ps_pointerId = 1\<rparr>"
  have "addressable ?screen 390 844" by (simp add: addressable_def num_def max_coordinate_def)
  moreover have "shown \<lparr>cb_left = num 0, cb_top = num 0, cb_clientWidth = num 100, cb_clientHeight = num 200\<rparr>"
    by (simp add: shown_def num_def)
  moreover obtain start' outs where r: "handlePointerUp ?box (Some ?screen) ?ev 50 (Some ?st) = (start', outs)"
    by (cases "handlePointerUp ?box (Some ?screen) ?ev 50 (Some ?st)")
  ultimately have "(\<forall>x\<in>set outs. \<exists>c dto. x = View_call c \<and> good_call 390 844 c \<and> dto_of_call c = Some dto \<and> valid_dto dto) \<and>
      (outs \<noteq> [] \<longleftrightarrow> (\<exists>st. Some ?st = Some st \<and> ps_pointerId st = pe_pointerId ?ev)) \<and> (outs \<noteq> [] \<longrightarrow> start' = None)"
    by (intro gestures_accepted [OF _ _ _ _ _ r]) simp_all
  then have "outs \<noteq> [] \<and> (\<forall>x\<in>set outs. \<exists>c. x = View_call c \<and> good_call 390 844 c)" by auto
  with r show ?thesis by blast
qed

section \<open>The hook extends an occupation only while it is used\<close>

fun last_activity :: "int \<Rightarrow> hook_event list \<Rightarrow> int" where
  "last_activity t [] = t"
| "last_activity t (Hook_activity now # evs) = last_activity now evs"
| "last_activity t (_ # evs) = last_activity t evs"

lemma hook_run_Cons: "fst (hook_run limit (ev # evs) h) = fst (hook_run limit evs (fst (hook_step limit ev h)))"
  by (simp add: split_def)

lemma sendKeepalive_active: "kh_isActive (fst (sendKeepalive limit now h)) = kh_isActive h"
  by (simp add: sendKeepalive_def)

lemma hook_step_active: "kh_isActive (fst (hook_step limit ev h)) \<longleftrightarrow> kh_isActive h \<and> ev \<noteq> Hook_cleanup"
  by (cases ev) (simp_all add: hook_step_def recordActivity_def sendKeepalive_active hook_cleanup_def split: sum.split)

lemma hook_run_active: "kh_isActive (fst (hook_run limit evs h)) \<longleftrightarrow> kh_isActive h \<and> Hook_cleanup \<notin> set evs"
proof (induction evs arbitrary: h)
  case (Cons ev evs)
  show ?case unfolding hook_run_Cons Cons.IH hook_step_active by auto
qed simp

lemma hook_step_time:
  "kh_isActive h \<Longrightarrow> ev \<noteq> Hook_cleanup \<Longrightarrow>
    kh_lastActivityAt (fst (hook_step limit ev h)) = last_activity (kh_lastActivityAt h) [ev]"
  by (cases ev) (simp_all add: hook_step_def recordActivity_def sendKeepalive_def split: sum.split)

lemma last_activity_Cons: "last_activity t (ev # evs) = last_activity (last_activity t [ev]) evs"
  by (cases ev) simp_all

lemma hook_run_activity:
  "kh_isActive h \<Longrightarrow> Hook_cleanup \<notin> set evs \<Longrightarrow>
    kh_lastActivityAt (fst (hook_run limit evs h)) = last_activity (kh_lastActivityAt h) evs"
proof (induction evs arbitrary: h)
  case (Cons ev evs)
  then have "kh_isActive (fst (hook_step limit ev h))" "ev \<noteq> Hook_cleanup" "Hook_cleanup \<notin> set evs"
    by (auto simp: hook_step_active)
  then show ?case
    unfolding hook_run_Cons using Cons.IH hook_step_time [OF Cons.prems(1)] last_activity_Cons by metis
qed simp

text \<open>
  The web console extends an occupation only while someone uses it. A keepalive leaves only from a tick
  no more than the idle limit after the last input (or after the occupation began), never after the clean-up;
  the session is given up only when the server answered a keepalive with 403, 404 or 409; and the hook is
  silent once it is cleaned up, whatever answers still arrive.
\<close>

theorem keepalive_only_while_used:
  assumes "h = fst (hook_run limit evs (hook_start t0))" "(h', outs) = hook_step limit ev h"
  shows "(Hook_keepalive \<in> set outs \<longrightarrow> Hook_cleanup \<notin> set evs \<and>
      (\<exists>now. ev = Hook_tick now \<and> \<not> js_less limit (num (now - last_activity t0 evs)))) \<and>
    (Hook_lost \<in> set outs \<longrightarrow> (\<exists>status m. ev = Hook_answer (Inl (Api_error status m)) \<and> status \<in> {403, 404, 409})) \<and>
    (Hook_cleanup \<in> set evs \<longrightarrow> outs = [])"
proof -
  have active: "kh_isActive h \<longleftrightarrow> Hook_cleanup \<notin> set evs"
    using assms(1) hook_run_active [of limit evs "hook_start t0"] by (simp add: hook_start_def)
  have time: "Hook_cleanup \<notin> set evs \<Longrightarrow> kh_lastActivityAt h = last_activity t0 evs"
    using assms(1) hook_run_activity [of "hook_start t0" evs limit] by (simp add: hook_start_def)
  show ?thesis
    using assms(2) active time
    by (cases ev) (auto simp: hook_step_def sendKeepalive_def keepalive_failed_def occupation_lost_statuses_def
        split: if_splits sum.splits client_error.splits)
qed

theorem keepalive_only_while_used_witness:
  "Hook_keepalive \<in> set (snd (hook_step (num 1800000) (Hook_tick 1900000)
      (fst (hook_run (num 1800000) [Hook_tick 30000, Hook_activity 100000] (hook_start 0))))) \<and>
   (\<exists>now. Hook_tick 1900000 = Hook_tick now \<and> \<not> js_less (num 1800000) (num (now - 100000)))"
proof -
  have sent: "Hook_keepalive \<in> set (snd (hook_step (num 1800000) (Hook_tick 1900000)
      (fst (hook_run (num 1800000) [Hook_tick 30000, Hook_activity 100000] (hook_start 0)))))"
    by (simp add: hook_step_def hook_start_def recordActivity_def sendKeepalive_def)
  then show ?thesis
    using keepalive_only_while_used [OF refl prod.collapse, of "num 1800000" "Hook_tick 1900000"
        "[Hook_tick 30000, Hook_activity 100000]" 0, THEN conjunct1] by simp
qed

end
