(* ===== verification/Web_Stream.thy ===== *)
theory Web_Stream
  imports Server Web_Input
begin

text \<open>
  \<open>packages/web\<close>, the picture of the screen (ScreenView.tsx): the stream URL, the meaning of the close
  codes, the H.264 player over WebCodecs, and the effect that keeps the stream connected.

  The browser is the environment: \<open>URL\<close> parsing is a parameter, and a message comes with what the
  decoder of WebCodecs shows at that moment (the length of its queue, whether it is closed, whether
  \<open>configure\<close> and \<open>decode\<close> throw). Sockets and decoders are numbered in the order they are created.
  Events of one socket arrive in order and a socket that closed has no more, so there is one socket at
  a time. Rendering is left out.
\<close>

section \<open>The stream URL\<close>

record web_url =
  wu_protocol :: string
  wu_authority :: string
  wu_pathname :: string
  wu_query :: "(string \<times> string) list"

definition toWsProtocol :: "string \<Rightarrow> string" where
  "toWsProtocol httpProtocol = (if httpProtocol = ''https:'' then ''wss:'' else ''ws:'')"

text \<open>The setter of \<open>protocol\<close> ignores a change from a scheme outside the special ones.\<close>

definition set_protocol :: "string \<Rightarrow> web_url \<Rightarrow> web_url" where
  "set_protocol p url =
    (if wu_protocol url \<in> {''http:'', ''https:'', ''ws:'', ''wss:'', ''ftp:''} then url\<lparr>wu_protocol := p\<rparr> else url)"

definition toStreamUrl ::
  "(string \<Rightarrow> web_url option) \<Rightarrow> string \<Rightarrow> string \<Rightarrow> string \<Rightarrow> string \<Rightarrow> web_url option" where
  "toStreamUrl parse serverUrl deviceId token occupantId =
    (case parse serverUrl of
      None \<Rightarrow> None
    | Some url \<Rightarrow>
        (let url = set_protocol (toWsProtocol (wu_protocol url)) url;
             url = url\<lparr>wu_pathname := ''/stream''\<rparr>
         in Some (url\<lparr>wu_query := jset ''occupantId'' occupantId (jset ''token'' token
              (jset ''deviceId'' deviceId (wu_query url)))\<rparr>)))"

section \<open>The close codes\<close>

definition stream_terminal_close_messages :: "(int \<times> string) list" where
  "stream_terminal_close_messages =
    [(4400, ''malformed stream request''), (4401, ''stream authentication failed''),
     (4403, ''not the occupant''), (4408, ''the occupation ended''), (4429, ''too many attempts'')]"

definition stream_occupation_lost_codes :: "int list" where
  "stream_occupation_lost_codes = [4403, 4408]"

record stream_close_outcome =
  sc_message :: string
  sc_isOccupationLost :: bool

definition streamCloseOutcome :: "int \<Rightarrow> stream_close_outcome option" where
  "streamCloseOutcome closeCode =
    (case jget stream_terminal_close_messages closeCode of
      None \<Rightarrow> None
    | Some m \<Rightarrow> Some \<lparr>sc_message = m, sc_isOccupationLost = (closeCode \<in> set stream_occupation_lost_codes)\<rparr>)"

section \<open>The player\<close>

definition toChunkType :: "bool \<Rightarrow> string" where
  "toChunkType isKey = (if isKey then ''key'' else ''delta'')"

definition max_decode_queue :: nat where "max_decode_queue = 5"
definition decode_failure_report_threshold :: nat where "decode_failure_report_threshold = 3"

record decoder_env =
  de_queueSize :: nat
  de_closed :: bool
  de_configure_ok :: bool
  de_decode_ok :: bool

record player =
  pl_decoder :: "nat option"
  pl_waitingKeyframe :: bool
  pl_timestamp :: int
  pl_failures :: nat
  pl_created :: nat

datatype player_output =
    Decoder_created nat jsnum jsnum
  | Chunk_decoded nat bool int
  | Decoder_closed nat
  | Failure_reported

definition new_player :: "nat \<Rightarrow> player" where
  "new_player n = \<lparr>pl_decoder = None, pl_waitingKeyframe = True, pl_timestamp = 0, pl_failures = 0, pl_created = n\<rparr>"

text \<open>\<open>close\<close>; a decoder that is closed already is only forgotten.\<close>

definition player_close :: "bool \<Rightarrow> player \<Rightarrow> player \<times> player_output list" where
  "player_close isClosed p =
    (p\<lparr>pl_decoder := None\<rparr>,
     (case pl_decoder p of Some n \<Rightarrow> if isClosed then [] else [Decoder_closed n] | None \<Rightarrow> []))"

definition player_failure :: "player \<Rightarrow> player \<times> player_output list" where
  "player_failure p =
    (p\<lparr>pl_failures := Suc (pl_failures p)\<rparr>,
     if Suc (pl_failures p) = decode_failure_report_threshold then [Failure_reported] else [])"

text \<open>\<open>createDecoder\<close>: when \<open>configure\<close> throws, the new decoder is not kept.\<close>

definition createDecoder :: "decoder_env \<Rightarrow> jsnum \<Rightarrow> jsnum \<Rightarrow> player \<Rightarrow> player \<times> player_output list \<times> bool" where
  "createDecoder env width height p =
    (let n = pl_created p; p = p\<lparr>pl_created := Suc n\<rparr> in
     if de_configure_ok env then (p\<lparr>pl_decoder := Some n\<rparr>, [Decoder_created n width height], True)
     else (p, [], False))"

text \<open>The last part of \<open>decodeChunk\<close>: the result tells whether it returned (and did not throw).\<close>

definition feedDecoder :: "decoder_env \<Rightarrow> bool \<Rightarrow> player \<Rightarrow> player \<times> player_output list \<times> bool" where
  "feedDecoder env isKey p =
    (let p = p\<lparr>pl_waitingKeyframe := False, pl_timestamp := pl_timestamp p + 33000\<rparr> in
     case pl_decoder p of
       None \<Rightarrow> (p, [], False)
     | Some n \<Rightarrow> if de_decode_ok env then (p, [Chunk_decoded n isKey (pl_timestamp p)], True) else (p, [], False))"

definition decodeChunk :: "decoder_env \<Rightarrow> bool \<Rightarrow> jsnum \<Rightarrow> jsnum \<Rightarrow> player \<Rightarrow> player \<times> player_output list \<times> bool" where
  "decodeChunk env isKey width height p =
    (if pl_waitingKeyframe p \<and> \<not> isKey then (p, [], True)
     else
       (let overloaded = (pl_decoder p \<noteq> None \<and> max_decode_queue < de_queueSize env);
            (p, e1) = (if overloaded then map_prod (\<lambda>p. p\<lparr>pl_waitingKeyframe := True\<rparr>) id (player_close (de_closed env) p)
                       else (p, []))
        in if overloaded \<and> \<not> isKey then (p, e1, True)
        else
          (let (p, e2, created) = (if pl_decoder p = None \<or> (de_closed env \<and> \<not> overloaded)
                then createDecoder env width height p else (p, [], True))
           in if \<not> created then (p, e1 @ e2, False)
           else (let (p, e3, fed) = feedDecoder env isKey p in (p, e1 @ e2 @ e3, fed)))))"

definition player_push :: "decoder_env \<Rightarrow> bool \<Rightarrow> jsnum \<Rightarrow> jsnum \<Rightarrow> player \<Rightarrow> player \<times> player_output list" where
  "player_push env isKey width height p =
    (let (p, e1, returned) = decodeChunk env isKey width height p in
     if returned then (p, e1)
     else
       (let (p, e2) = player_failure p;
            p = p\<lparr>pl_waitingKeyframe := True\<rparr>;
            (p, e3) = player_close (de_closed env) p
        in (p, e1 @ e2 @ e3)))"

text \<open>The callbacks of the decoder: a picture, and the error that has closed it.\<close>

definition decoder_output :: "player \<Rightarrow> player" where
  "decoder_output p = p\<lparr>pl_failures := 0\<rparr>"

definition decoder_error :: "player \<Rightarrow> player \<times> player_output list" where
  "decoder_error p =
    (let (p, e1) = player_failure p;
         p = p\<lparr>pl_waitingKeyframe := True\<rparr>;
         (p, e2) = player_close True p
     in (p, e1 @ e2))"

section \<open>The effect that keeps the stream\<close>

definition stream_reconnect_base_ms :: int where "stream_reconnect_base_ms = 1000"
definition stream_reconnect_max_ms :: int where "stream_reconnect_max_ms = 15000"

record stream_view =
  sw_isActive :: bool
  sw_socket :: "nat option"
  sw_nextSocket :: nat
  sw_reconnectAttempt :: nat
  sw_timer :: bool
  sw_player :: "player option"
  sw_hasFrame :: bool
  sw_frameCount :: nat

datatype screen_output =
    Socket_opened nat
  | Socket_closed nat
  | Player_output player_output
  | Stream_error string
  | Stream_occupation_lost
  | Reconnect_in int

definition stream_connect :: "stream_view \<Rightarrow> stream_view \<times> screen_output list" where
  "stream_connect v =
    (if \<not> sw_isActive v then (v, [])
     else (v\<lparr>sw_socket := Some (sw_nextSocket v), sw_nextSocket := Suc (sw_nextSocket v)\<rparr>, [Socket_opened (sw_nextSocket v)]))"

definition stream_start :: "stream_view \<times> screen_output list" where
  "stream_start = stream_connect
    \<lparr>sw_isActive = True, sw_socket = None, sw_nextSocket = 0, sw_reconnectAttempt = 0, sw_timer = False,
     sw_player = None, sw_hasFrame = False, sw_frameCount = 0\<rparr>"

text \<open>The effect runs only with WebCodecs at hand and a URL that could be built.\<close>

definition mount_stream :: "bool \<Rightarrow> web_url option \<Rightarrow> stream_view option \<times> screen_output list" where
  "mount_stream hasVideoDecoder streamUrl =
    (if \<not> hasVideoDecoder then (None, [Stream_error ''this browser has no WebCodecs''])
     else (case streamUrl of
       None \<Rightarrow> (None, [Stream_error ''malformed server address''])
     | Some _ \<Rightarrow> map_prod Some id stream_start))"

definition socket_opened :: "stream_view \<Rightarrow> stream_view" where
  "socket_opened v = v\<lparr>sw_reconnectAttempt := 0\<rparr>"

text \<open>Failures the player reports reach the user while the effect is active.\<close>

definition player_outputs :: "bool \<Rightarrow> player_output list \<Rightarrow> screen_output list" where
  "player_outputs active outs = concat (map (\<lambda>x.
    if x = Failure_reported then (if active then [Stream_error ''H.264 decoding keeps failing''] else [])
    else [Player_output x]) outs)"

definition socket_message :: "bool \<Rightarrow> decoder_env \<Rightarrow> bytes \<Rightarrow> stream_view \<Rightarrow> stream_view \<times> screen_output list" where
  "socket_message canvas env data v =
    (if \<not> sw_isActive v then (v, [])
     else (case decodeViewerFrame data of
       None \<Rightarrow> (v, [])
     | Some frame \<Rightarrow>
         (case (if sw_player v = None \<and> canvas then Some (new_player 0) else sw_player v) of
           None \<Rightarrow> (v, [])
         | Some p \<Rightarrow>
             (let (p, outs) = player_push env (vf_isKey frame) (vf_width frame) (vf_height frame) p
              in (v\<lparr>sw_player := Some p\<rparr>, player_outputs True outs)))))"

definition reconnect_delay :: "nat \<Rightarrow> int" where
  "reconnect_delay attempt = min (stream_reconnect_base_ms * 2 ^ attempt) stream_reconnect_max_ms"

definition socket_closed :: "int \<Rightarrow> stream_view \<Rightarrow> stream_view \<times> screen_output list" where
  "socket_closed closeCode v =
    (let v = v\<lparr>sw_socket := None\<rparr> in
     if \<not> sw_isActive v then (v, [])
     else (let v = v\<lparr>sw_hasFrame := False\<rparr> in
       case streamCloseOutcome closeCode of
         Some outcome \<Rightarrow>
           (v, Stream_error (sc_message outcome) # (if sc_isOccupationLost outcome then [Stream_occupation_lost] else []))
       | None \<Rightarrow>
           (v\<lparr>sw_reconnectAttempt := Suc (sw_reconnectAttempt v), sw_timer := True\<rparr>,
            [Reconnect_in (reconnect_delay (sw_reconnectAttempt v))])))"

definition stream_cleanup :: "stream_view \<Rightarrow> stream_view \<times> screen_output list" where
  "stream_cleanup v =
    (let (player, e2) = (case sw_player v of None \<Rightarrow> (None, []) | Some p \<Rightarrow> map_prod Some id (player_close False p)) in
     (v\<lparr>sw_isActive := False, sw_timer := False, sw_player := player\<rparr>,
      (case sw_socket v of Some n \<Rightarrow> [Socket_closed n] | None \<Rightarrow> []) @ player_outputs False e2))"

datatype stream_event =
    Ws_open
  | Ws_message bool decoder_env bytes
  | Ws_close int
  | Reconnect_timer
  | Picture_shown
  | Decoder_failed
  | View_cleanup

definition stream_step :: "stream_event \<Rightarrow> stream_view \<Rightarrow> stream_view \<times> screen_output list" where
  "stream_step ev v = (case ev of
      Ws_open \<Rightarrow> if sw_socket v = None then (v, []) else (socket_opened v, [])
    | Ws_message canvas env data \<Rightarrow> if sw_socket v = None then (v, []) else socket_message canvas env data v
    | Ws_close closeCode \<Rightarrow> if sw_socket v = None then (v, []) else socket_closed closeCode v
    | Reconnect_timer \<Rightarrow> if sw_timer v then stream_connect (v\<lparr>sw_timer := False\<rparr>) else (v, [])
    | Picture_shown \<Rightarrow>
        (case sw_player v of
          Some p \<Rightarrow> if pl_decoder p = None then (v, [])
            else (v\<lparr>sw_player := Some (decoder_output p), sw_hasFrame := True, sw_frameCount := Suc (sw_frameCount v)\<rparr>, [])
        | None \<Rightarrow> (v, []))
    | Decoder_failed \<Rightarrow>
        (case sw_player v of
          Some p \<Rightarrow> if pl_decoder p = None then (v, [])
            else (case decoder_error p of (p, outs) \<Rightarrow> (v\<lparr>sw_player := Some p\<rparr>, player_outputs (sw_isActive v) outs))
        | None \<Rightarrow> (v, []))
    | View_cleanup \<Rightarrow> if sw_isActive v then stream_cleanup v else (v, []))"

text \<open>The timer of the rate display: what it shows, and the count it starts over.\<close>

definition fps_tick :: "stream_view \<Rightarrow> nat \<times> stream_view" where
  "fps_tick v = (sw_frameCount v, v\<lparr>sw_frameCount := 0\<rparr>)"

text \<open>The views a screen goes through, with all they did.\<close>

inductive stream_reached :: "stream_view \<Rightarrow> screen_output list \<Rightarrow> bool" where
  start: "stream_start = (v, outs) \<Longrightarrow> stream_reached v outs"
| step: "stream_reached v outs \<Longrightarrow> (\<And>c env data. ev = Ws_message c env data \<Longrightarrow> \<not> de_closed env) \<Longrightarrow>
    stream_step ev v = (v', outs') \<Longrightarrow> stream_reached v' (outs @ outs')"

section \<open>A decoder starts with a key frame\<close>

fun decoded_ok :: "player_output set \<Rightarrow> player_output list \<Rightarrow> bool" where
  "decoded_ok T [] = True"
| "decoded_ok T (x # xs) =
    ((case x of Chunk_decoded n False t \<Rightarrow> (\<exists>t'. Chunk_decoded n True t' \<in> T) | _ \<Rightarrow> True) \<and> decoded_ok (insert x T) xs)"

lemma decoded_ok_append: "decoded_ok T (xs @ ys) \<longleftrightarrow> decoded_ok T xs \<and> decoded_ok (T \<union> set xs) ys"
  by (induction xs arbitrary: T) auto

lemma decoded_ok_split:
  "decoded_ok T (xs @ Chunk_decoded n False t # ys) \<Longrightarrow> \<exists>t'. Chunk_decoded n True t' \<in> T \<union> set xs"
  by (simp add: decoded_ok_append)

text \<open>Between the calls: without a decoder the player waits for a key frame, and the decoder it has got one.\<close>

definition player_inv :: "player_output set \<Rightarrow> player \<Rightarrow> bool" where
  "player_inv T p \<longleftrightarrow>
    (pl_decoder p = None \<longrightarrow> pl_waitingKeyframe p) \<and>
    (\<forall>n. pl_decoder p = Some n \<longrightarrow> (\<exists>t. Chunk_decoded n True t \<in> T))"

lemma player_inv_mono: "player_inv T p \<Longrightarrow> T \<subseteq> U \<Longrightarrow> player_inv U p"
  unfolding player_inv_def by blast

lemma player_inv_idle: "pl_decoder p = None \<Longrightarrow> pl_waitingKeyframe p \<Longrightarrow> player_inv T p"
  by (simp add: player_inv_def)

lemmas player_defs = player_close_def player_failure_def createDecoder_def feedDecoder_def

lemma decodeChunk_ok:
  assumes "player_inv T p" "\<not> de_closed env" "decodeChunk env isKey w h p = (p', outs, returned)"
  shows "decoded_ok T outs \<and> (returned \<longrightarrow> player_inv (T \<union> set outs) p')"
proof (cases "pl_waitingKeyframe p \<and> \<not> isKey")
  case True
  then show ?thesis using assms by (auto simp: decodeChunk_def)
next
  case go: False
  show ?thesis
  proof (cases "pl_decoder p")
    case None
    with assms(1) go have "isKey" by (simp add: player_inv_def)
    with None assms(3) go show ?thesis
      by (auto simp: decodeChunk_def Let_def player_defs player_inv_def split: if_splits)
  next
    case (Some n)
    then obtain t where t: "Chunk_decoded n True t \<in> T" using assms(1) by (auto simp: player_inv_def)
    show ?thesis
    proof (cases "max_decode_queue < de_queueSize env")
      case True
      with Some assms(2,3) go show ?thesis
        by (auto simp: decodeChunk_def Let_def player_defs player_inv_def split: if_splits)
    next
      case False
      with Some assms(2,3) go t show ?thesis
        by (cases isKey) (auto simp: decodeChunk_def Let_def player_defs player_inv_def split: if_splits)
    qed
  qed
qed

lemma player_push_ok:
  assumes "player_inv T p" "\<not> de_closed env" "player_push env isKey w h p = (p', outs)"
  shows "decoded_ok T outs \<and> player_inv (T \<union> set outs) p'"
proof -
  obtain p1 e1 returned where d: "decodeChunk env isKey w h p = (p1, e1, returned)" by (cases "decodeChunk env isKey w h p")
  note ok = decodeChunk_ok [OF assms(1,2) d]
  show ?thesis
  proof (cases returned)
    case True
    with ok assms(3) d show ?thesis by (auto simp: player_push_def)
  next
    case False
    with assms(3) d have "pl_decoder p' = None" "pl_waitingKeyframe p'"
      "\<exists>e. outs = e1 @ e \<and> (\<forall>x\<in>set e. x = Failure_reported \<or> (\<exists>n. x = Decoder_closed n))"
      by (auto simp: player_push_def player_defs split: option.splits)
    moreover have "decoded_ok U e" if "\<forall>x\<in>set e. x = Failure_reported \<or> (\<exists>n. x = Decoder_closed n)" for U e
      using that by (induction e arbitrary: U) auto
    ultimately show ?thesis using ok by (auto simp: decoded_ok_append player_inv_idle)
  qed
qed

lemma decoder_error_ok:
  assumes "decoder_error p = (p', outs)"
  shows "decoded_ok T outs \<and> player_inv (T \<union> set outs) p'"
  using assms by (auto simp: decoder_error_def player_defs player_inv_def split: option.splits if_splits)

section \<open>The stream as a whole\<close>

fun player_part :: "screen_output list \<Rightarrow> player_output list" where
  "player_part [] = []"
| "player_part (Player_output x # outs) = x # player_part outs"
| "player_part (_ # outs) = player_part outs"

lemma player_part_append [simp]: "player_part (xs @ ys) = player_part xs @ player_part ys"
  by (induction xs rule: player_part.induct) simp_all

lemma player_part_outputs: "player_part (player_outputs a outs) = filter (\<lambda>x. x \<noteq> Failure_reported) outs"
  by (induction outs) (auto simp: player_outputs_def)

lemma decoded_ok_reports: "decoded_ok T outs \<Longrightarrow> T - {Failure_reported} \<subseteq> U \<Longrightarrow> decoded_ok U (filter (\<lambda>x. x \<noteq> Failure_reported) outs)"
proof (induction outs arbitrary: T U)
  case (Cons x outs)
  then have "decoded_ok (insert x U) (filter (\<lambda>x. x \<noteq> Failure_reported) outs)" by (auto intro: Cons.IH [of "insert x T"])
  moreover have "decoded_ok U (filter (\<lambda>x. x \<noteq> Failure_reported) outs)" if "x = Failure_reported"
    using Cons that by (auto intro: Cons.IH [of "insert x T"])
  ultimately show ?case using Cons.prems by (cases x) (auto split: bool.splits)
qed simp

lemma player_inv_reports: "player_inv T p \<Longrightarrow> player_inv (T - {Failure_reported}) p"
  unfolding player_inv_def by blast

definition view_inv :: "stream_view \<Rightarrow> screen_output list \<Rightarrow> bool" where
  "view_inv v outs \<longleftrightarrow>
    decoded_ok {} (player_part outs) \<and>
    (\<forall>p. sw_player v = Some p \<longrightarrow>
      (sw_isActive v \<longrightarrow> player_inv (set (player_part outs)) p) \<and> (\<not> sw_isActive v \<longrightarrow> pl_decoder p = None)) \<and>
    \<not> (sw_socket v \<noteq> None \<and> sw_timer v) \<and>
    (\<not> sw_isActive v \<longrightarrow> \<not> sw_timer v) \<and>
    (\<forall>d. Reconnect_in d \<in> set outs \<longrightarrow> 1000 \<le> d \<and> d \<le> 15000)"

lemma reconnect_delay_bounds: "1000 \<le> reconnect_delay n \<and> reconnect_delay n \<le> 15000"
  by (simp add: reconnect_delay_def stream_reconnect_base_ms_def stream_reconnect_max_ms_def)

lemma no_reconnect_outputs: "Reconnect_in d \<notin> set (player_outputs a outs)"
  by (auto simp: player_outputs_def)

lemma view_inv_player:
  assumes "view_inv v outs" "sw_isActive v" "decoded_ok (set (player_part outs)) e"
    "player_inv (set (player_part outs) \<union> set e) p"
  shows "view_inv (v\<lparr>sw_player := Some p\<rparr>) (outs @ player_outputs a e)"
proof -
  let ?T = "set (player_part outs)" and ?f = "filter (\<lambda>x. x \<noteq> Failure_reported) e"
  have "decoded_ok ?T ?f" by (rule decoded_ok_reports [OF assms(3)]) auto
  moreover have "player_inv (?T \<union> set ?f) p"
    by (rule player_inv_mono [OF player_inv_reports [OF assms(4)]]) auto
  ultimately show ?thesis
    using assms(1,2) by (auto simp: view_inv_def decoded_ok_append player_part_outputs no_reconnect_outputs)
qed

lemma view_inv_extend:
  assumes "view_inv v outs" "player_part e = []" "\<forall>d. Reconnect_in d \<in> set e \<longrightarrow> 1000 \<le> d \<and> d \<le> 15000"
    "sw_player v' = sw_player v" "sw_isActive v' = sw_isActive v"
    "\<not> (sw_socket v' \<noteq> None \<and> sw_timer v')" "\<not> sw_isActive v' \<longrightarrow> \<not> sw_timer v'"
  shows "view_inv v' (outs @ e)"
  using assms by (auto simp: view_inv_def)

lemma new_player_inv: "player_inv T (new_player n)"
  by (simp add: player_inv_def new_player_def)

lemma view_inv_step:
  assumes inv: "view_inv v outs" and env: "\<And>c env data. ev = Ws_message c env data \<Longrightarrow> \<not> de_closed env"
    and step: "stream_step ev v = (v', e)"
  shows "view_inv v' (outs @ e)"
proof (cases ev)
  case Ws_open
  with step inv show ?thesis
    by (auto simp: stream_step_def socket_opened_def view_inv_def split: if_splits)
next
  case (Ws_message c env data)
  show ?thesis
  proof (cases "sw_socket v = None \<or> \<not> sw_isActive v \<or> decodeViewerFrame data = None \<or> (sw_player v = None \<and> \<not> c)")
    case True
    with step inv Ws_message show ?thesis
      by (auto simp: stream_step_def socket_message_def split: if_splits option.splits)
  next
    case False
    obtain frame where f: "decodeViewerFrame data = Some frame" using False by (cases "decodeViewerFrame data") auto
    obtain p where p: "(if sw_player v = None \<and> c then Some (new_player 0) else sw_player v) = Some p"
      using False by (cases "sw_player v") auto
    obtain p' o' where push: "player_push env (vf_isKey frame) (vf_width frame) (vf_height frame) p = (p', o')" by fastforce
    have "player_inv (set (player_part outs)) p"
      using p inv False by (auto simp: view_inv_def new_player_inv split: if_splits)
    from player_push_ok [OF this env [OF Ws_message] push]
    have "view_inv (v\<lparr>sw_player := Some p'\<rparr>) (outs @ player_outputs True o')"
      using view_inv_player [OF inv] False by blast
    moreover have "socket_message c env data v = (v\<lparr>sw_player := Some p'\<rparr>, player_outputs True o')"
      using False f push unfolding socket_message_def p by simp
    ultimately show ?thesis using step Ws_message False by (auto simp: stream_step_def)
  qed
next
  case (Ws_close k)
  show ?thesis
  proof (cases "sw_socket v = None")
    case True
    with step inv Ws_close show ?thesis by (simp add: stream_step_def)
  next
    case False
    then have idle: "\<not> sw_timer v" using inv by (auto simp: view_inv_def)
    have run: "socket_closed k v = (v', e)" using step Ws_close False by (simp add: stream_step_def)
    show ?thesis
    proof (cases "sw_isActive v")
      case False
      with run idle show ?thesis by (intro view_inv_extend [OF inv]) (auto simp: socket_closed_def)
    next
      case True
      show ?thesis
      proof (cases "streamCloseOutcome k")
        case None
        with run True have "v' = v\<lparr>sw_socket := None, sw_hasFrame := False,
            sw_reconnectAttempt := Suc (sw_reconnectAttempt v), sw_timer := True\<rparr>"
            "e = [Reconnect_in (reconnect_delay (sw_reconnectAttempt v))]"
          by (simp_all add: socket_closed_def)
        with True show ?thesis using reconnect_delay_bounds by (intro view_inv_extend [OF inv]) simp_all
      next
        case (Some oc)
        with run True have "v' = v\<lparr>sw_socket := None, sw_hasFrame := False\<rparr>"
            "e = Stream_error (sc_message oc) # (if sc_isOccupationLost oc then [Stream_occupation_lost] else [])"
          by (simp_all add: socket_closed_def)
        with True idle show ?thesis by (intro view_inv_extend [OF inv]) (simp_all split: if_split)
      qed
    qed
  qed
next
  case Reconnect_timer
  with step inv show ?thesis
    by (auto simp: stream_step_def stream_connect_def view_inv_def split: if_splits)
next
  case Picture_shown
  show ?thesis
  proof (cases "\<exists>p. sw_player v = Some p \<and> pl_decoder p \<noteq> None")
    case False
    with step inv Picture_shown show ?thesis by (auto simp: stream_step_def split: option.splits if_splits)
  next
    case True
    then obtain p where p: "sw_player v = Some p" "pl_decoder p \<noteq> None" by blast
    have active: "sw_isActive v" using inv p by (auto simp: view_inv_def)
    with inv p have "player_inv (set (player_part outs)) (decoder_output p)"
      by (auto simp: view_inv_def player_inv_def decoder_output_def)
    moreover have "e = []"
      "v' = v\<lparr>sw_player := Some (decoder_output p), sw_hasFrame := True, sw_frameCount := Suc (sw_frameCount v)\<rparr>"
      using step Picture_shown p by (auto simp: stream_step_def)
    ultimately show ?thesis using inv active by (simp add: view_inv_def)
  qed
next
  case Decoder_failed
  show ?thesis
  proof (cases "\<exists>p. sw_player v = Some p \<and> pl_decoder p \<noteq> None")
    case False
    with step inv Decoder_failed show ?thesis by (auto simp: stream_step_def split: option.splits if_splits)
  next
    case True
    then obtain p where p: "sw_player v = Some p" "pl_decoder p \<noteq> None" by blast
    obtain p' o' where err: "decoder_error p = (p', o')" by fastforce
    have "sw_isActive v" using inv p by (auto simp: view_inv_def)
    with view_inv_player [OF inv this] decoder_error_ok [OF err]
    have "view_inv (v\<lparr>sw_player := Some p'\<rparr>) (outs @ player_outputs (sw_isActive v) o')" by blast
    then show ?thesis using step Decoder_failed p err by (auto simp: stream_step_def)
  qed
next
  case View_cleanup
  with step inv show ?thesis
    by (auto simp: stream_step_def stream_cleanup_def player_close_def view_inv_def decoded_ok_append player_part_outputs
        no_reconnect_outputs player_outputs_def split: if_splits option.splits)
qed

lemma view_inv_reached: "stream_reached v outs \<Longrightarrow> view_inv v outs"
proof (induction rule: stream_reached.induct)
  case (start v outs)
  then show ?case by (auto simp: stream_start_def stream_connect_def view_inv_def)
next
  case (step v outs ev v' outs')
  then show ?case using view_inv_step by blast
qed

lemma player_part_key:
  "player_part outs = ps @ Chunk_decoded n False t # qs \<Longrightarrow> decoded_ok {} (player_part outs) \<Longrightarrow>
    \<exists>t'. Chunk_decoded n True t' \<in> set ps"
  using decoded_ok_split [of "{}" ps n t qs] by simp

lemma player_part_member: "Chunk_decoded n k t \<in> set (player_part outs) \<longleftrightarrow> Player_output (Chunk_decoded n k t) \<in> set outs"
  by (induction outs rule: player_part.induct) auto

lemma inactive_silent:
  assumes "view_inv v outs" "\<not> sw_isActive v"
  shows "snd (stream_step ev v) = []"
  using assms
  by (cases ev) (auto simp: stream_step_def socket_message_def socket_closed_def view_inv_def split: option.splits)

lemma stream_lost_outputs:
  "Stream_occupation_lost \<in> set (snd (stream_step ev v)) \<Longrightarrow> ev = Ws_close 4403 \<or> ev = Ws_close 4408"
  by (cases ev) (auto simp: stream_step_def socket_message_def socket_closed_def stream_connect_def stream_cleanup_def
      player_outputs_def streamCloseOutcome_def stream_terminal_close_messages_def stream_occupation_lost_codes_def
      Let_def split: if_splits option.splits prod.splits)

lemma stream_reconnect_outputs:
  "Reconnect_in d \<in> set (snd (stream_step ev v)) \<Longrightarrow> \<exists>k. ev = Ws_close k \<and> streamCloseOutcome k = None"
  by (cases ev) (auto simp: stream_step_def socket_message_def socket_closed_def stream_connect_def stream_cleanup_def
      player_outputs_def Let_def split: if_splits option.splits prod.splits)

text \<open>
  C39: The screen of the web console keeps to its stream. Whatever the server and the decoder do, a decoder
  is given a delta frame only after a key frame (a decoder of WebCodecs that closed has called its error
  callback); a broken stream is retried after 1 to 15 seconds, with one socket or one timer at a time, and
  only for a close code that is not final; the session is given up only for the codes 4403 and 4408; and
  after the clean-up the view does nothing more.
\<close>

theorem stream_view_sound:
  assumes "stream_reached v outs"
  shows "(\<forall>xs n t ys. outs = xs @ Player_output (Chunk_decoded n False t) # ys \<longrightarrow>
      (\<exists>t'. Player_output (Chunk_decoded n True t') \<in> set xs)) \<and>
    \<not> (sw_socket v \<noteq> None \<and> sw_timer v) \<and>
    (\<forall>d. Reconnect_in d \<in> set outs \<longrightarrow> 1000 \<le> d \<and> d \<le> 15000) \<and>
    (\<not> sw_isActive v \<longrightarrow> snd (stream_step ev v) = []) \<and>
    (Stream_occupation_lost \<in> set (snd (stream_step ev v)) \<longrightarrow> ev = Ws_close 4403 \<or> ev = Ws_close 4408) \<and>
    (Reconnect_in d \<in> set (snd (stream_step ev v)) \<longrightarrow> (\<exists>k. ev = Ws_close k \<and> k \<notin> {4400, 4401, 4403, 4408, 4429}))"
proof -
  note inv = view_inv_reached [OF assms]
  have key: "\<exists>t'. Player_output (Chunk_decoded n True t') \<in> set xs"
    if "outs = xs @ Player_output (Chunk_decoded n False t) # ys" for xs n t ys
  proof -
    have "decoded_ok {} (player_part xs @ Chunk_decoded n False t # player_part ys)"
      using inv that by (simp add: view_inv_def)
    from decoded_ok_split [OF this] show ?thesis by (auto simp: player_part_member)
  qed
  have "k \<notin> {4400, 4401, 4403, 4408, 4429}" if "streamCloseOutcome k = None" for k
    using that by (auto simp: streamCloseOutcome_def stream_terminal_close_messages_def split: if_splits)
  with key inv inactive_silent [OF inv, of ev] stream_lost_outputs [of ev v] stream_reconnect_outputs [of d ev v]
  show ?thesis by (auto simp: view_inv_def)
qed

lemma stream_starts: "stream_reached (fst stream_start) (snd stream_start)"
  by (rule stream_reached.start) simp

theorem stream_view_sound_witness:
  "\<exists>v outs. stream_reached v outs \<and> Reconnect_in 1000 \<in> set outs \<and> sw_timer v \<and> sw_socket v = None"
proof -
  let ?v = "fst stream_start"
  let ?r = "stream_step (Ws_close 1006) ?v"
  have r: "stream_reached (fst ?r) (snd stream_start @ snd ?r)"
    by (rule stream_reached.step [OF stream_starts _ prod.collapse [symmetric]]) simp
  have step: "?r = (fst ?r, [Reconnect_in 1000]) \<and> sw_timer (fst ?r)"
    by (simp add: stream_start_def stream_connect_def stream_step_def socket_closed_def streamCloseOutcome_def
        stream_terminal_close_messages_def reconnect_delay_def stream_reconnect_base_ms_def stream_reconnect_max_ms_def)
  have "\<not> (sw_socket (fst ?r) \<noteq> None \<and> sw_timer (fst ?r))"
    using stream_view_sound [OF r, of Ws_open 0] by blast
  with r step show ?thesis by (metis UnI2 list.set_intros(1) set_append snd_conv)
qed

text \<open>
  The codes the server closes a viewer with are the final ones of the view: every refusal of the handshake
  and the end of an occupation, and the session is given up for exactly the two that say it is not held.
\<close>

theorem close_codes_agree:
  "(\<forall>c closeCode reason. Close c closeCode reason \<in> set (fst (snd (viewer_connect cfg db now client rq st))) \<longrightarrow>
      (\<exists>oc. streamCloseOutcome closeCode = Some oc \<and> (sc_isOccupationLost oc \<longleftrightarrow> closeCode = 4403))) \<and>
   (\<exists>oc. streamCloseOutcome viewer_close_occupation_ended = Some oc \<and> sc_isOccupationLost oc)"
  by (auto simp: viewer_connect_def Let_def streamCloseOutcome_def stream_terminal_close_messages_def
      stream_occupation_lost_codes_def viewer_close_occupation_ended_def split: if_splits prod.splits)

end
