(* ===== verification/Web_App.thy ===== *)
theory Web_App
  imports Web_Stream Devices
begin

text \<open>
  \<open>packages/web\<close>, the console itself (App.tsx, with what DeviceCard.tsx and SettingsPanel.tsx decide):
  the connection settings, the polling of the device list, and the occupation session with its keepalive.

  A call of the SDK is issued with the server and the token the handler had, numbered, and its answer is
  an event; the list of devices and the result of an occupy are taken at the types of the server's
  responses. React runs the handlers one at a time and then the effects whose dependencies changed, which
  is \<open>app_effects\<close>. A session is identified by its contents (a new occupant id is never an old one).
  The stored session is what its text denotes. The view of the screen is \<open>Web_Stream\<close> and \<open>Web_Input\<close>;
  here it only reports that the occupation was lost (also late, from an action answered after it went). Rendering is left out.
\<close>

section \<open>What the components decide\<close>

definition web_min_token_length :: nat where "web_min_token_length = 24"

definition dotColor :: "public_device \<Rightarrow> string" where
  "dotColor d =
    (if pd_status d \<noteq> Online then ''gray''
     else if ''controller-ready'' \<in> set (pd_tags d) then ''green'' else ''amber'')"

definition canOccupy :: "public_device \<Rightarrow> bool \<Rightarrow> bool" where
  "canOccupy d hasOtherOccupation \<longleftrightarrow> pd_status d = Online \<and> \<not> pd_isOccupied d \<and> \<not> hasOtherOccupation"

definition canConnect :: "string \<Rightarrow> string \<Rightarrow> bool" where
  "canConnect serverUrl token \<longleftrightarrow> trim serverUrl \<noteq> [] \<and> web_min_token_length \<le> length token"

section \<open>The stored session\<close>

type_synonym web_session = "string \<times> string"

datatype stored_text = Stored_missing | Stored_garbled | Stored_json json

definition loadStoredOccupation :: "stored_text \<Rightarrow> web_session option \<times> stored_text" where
  "loadStoredOccupation raw =
    (case raw of
      Stored_missing \<Rightarrow> (None, raw)
    | Stored_garbled \<Rightarrow> (None, Stored_missing)
    | Stored_json j \<Rightarrow>
        if j = JNull then (None, Stored_missing)
        else (case asRecord j of
          None \<Rightarrow> (None, raw)
        | Some r \<Rightarrow> (case (jget r ''deviceId'', jget r ''occupantId'') of
            (Some (JStr d), Some (JStr occ)) \<Rightarrow> (Some (d, occ), raw)
          | _ \<Rightarrow> (None, raw))))"

definition stored_session :: "web_session option \<Rightarrow> stored_text" where
  "stored_session occupation =
    (case occupation of
      None \<Rightarrow> Stored_missing
    | Some (d, occ) \<Rightarrow> Stored_json (JObj [(''deviceId'', JStr d), (''occupantId'', JStr occ)]))"

section \<open>The state\<close>

datatype app_call =
    Call_listDevices nat
  | Call_occupy string
  | Call_release web_session
  | Call_keepalive nat web_session

text \<open>A request: the number of the call, the server, the token and what is called.\<close>

record app_request =
  ar_number :: nat
  ar_serverUrl :: string
  ar_token :: string
  ar_call :: app_call

record app =
  ap_serverUrl :: string
  ap_token :: string
  ap_isConnected :: bool
  ap_devices :: "public_device list"
  ap_occupation :: "web_session option"
  ap_status :: string
  ap_storedServerUrl :: string
  ap_storedToken :: string
  ap_storedOccupation :: stored_text
  ap_poll :: "nat option"
  ap_hook :: "(nat \<times> web_session \<times> keepalive_hook) option"
  ap_open :: "(nat \<times> app_call) list"
  ap_next :: nat

definition issue :: "app_call \<Rightarrow> app \<Rightarrow> app \<times> app_request list" where
  "issue c a =
    (a\<lparr>ap_open := ap_open a @ [(ap_next a, c)], ap_next := Suc (ap_next a)\<rparr>,
     [\<lparr>ar_number = ap_next a, ar_serverUrl = ap_serverUrl a, ar_token = ap_token a, ar_call = c\<rparr>])"

definition default_console_url :: string where
  "default_console_url = ''http://localhost:3000''"

definition active_session :: "app \<Rightarrow> web_session option" where
  "active_session a = (if ap_isConnected a then ap_occupation a else None)"

section \<open>The effects\<close>

text \<open>The polling effect asks for the list at once; its clean-up lets later answers fall.\<close>

definition poll_effect :: "app \<Rightarrow> app \<Rightarrow> app \<times> app_request list" where
  "poll_effect old a =
    (if (ap_serverUrl a, ap_token a, ap_isConnected a) = (ap_serverUrl old, ap_token old, ap_isConnected old)
     then (a, [])
     else if \<not> ap_isConnected a then (a\<lparr>ap_poll := None\<rparr>, [])
     else issue (Call_listDevices (ap_next a)) (a\<lparr>ap_poll := Some (ap_next a)\<rparr>))"

definition hook_effect :: "int \<Rightarrow> app \<Rightarrow> app \<Rightarrow> app" where
  "hook_effect now old a =
    (if (ap_serverUrl a, ap_token a, active_session a) = (ap_serverUrl old, ap_token old, active_session old) then a
     else (case active_session a of
       None \<Rightarrow> a\<lparr>ap_hook := None\<rparr>
     | Some s \<Rightarrow> a\<lparr>ap_hook := Some (ap_next a, s, hook_start now), ap_next := Suc (ap_next a)\<rparr>))"

definition storage_effect :: "app \<Rightarrow> app \<Rightarrow> app" where
  "storage_effect old a =
    (if ap_occupation a = ap_occupation old then a
     else a\<lparr>ap_storedOccupation := stored_session (ap_occupation a)\<rparr>)"

definition app_effects :: "int \<Rightarrow> app \<Rightarrow> app \<Rightarrow> app \<times> app_request list" where
  "app_effects now old a =
    (let (a, requests) = poll_effect old (storage_effect old a) in (hook_effect now old a, requests))"

definition app_start :: "string \<Rightarrow> string \<Rightarrow> stored_text \<Rightarrow> app" where
  "app_start storedUrl storedToken raw =
    (let occupation = fst (loadStoredOccupation raw) in
     \<lparr>ap_serverUrl = (if storedUrl = [] then default_console_url else storedUrl), ap_token = storedToken,
      ap_isConnected = False, ap_devices = [], ap_occupation = occupation, ap_status = [],
      ap_storedServerUrl = storedUrl, ap_storedToken = storedToken,
      ap_storedOccupation = stored_session occupation, ap_poll = None, ap_hook = None, ap_open = [], ap_next = 0\<rparr>)"

section \<open>The handlers\<close>

definition handleConnect :: "string \<Rightarrow> string \<Rightarrow> app \<Rightarrow> app" where
  "handleConnect nextServerUrl nextToken a =
    (if length nextToken < web_min_token_length then a\<lparr>ap_status := ''the token is too short''\<rparr>
     else a\<lparr>ap_storedServerUrl := nextServerUrl, ap_storedToken := nextToken, ap_serverUrl := nextServerUrl,
            ap_token := nextToken, ap_isConnected := True, ap_status := ''connecting''\<rparr>)"

definition submit_settings :: "string \<Rightarrow> string \<Rightarrow> app \<Rightarrow> app" where
  "submit_settings serverUrl token a =
    (if \<not> canConnect serverUrl token then a else handleConnect (trim serverUrl) token a)"

definition handleDisconnect :: "app \<Rightarrow> app" where
  "handleDisconnect a = a\<lparr>ap_isConnected := False, ap_devices := [], ap_status := ''disconnected''\<rparr>"

definition poll_answered :: "nat \<Rightarrow> client_error + public_device list \<Rightarrow> app \<Rightarrow> app" where
  "poll_answered n r a =
    (if ap_poll a \<noteq> Some n then a
     else (case r of
       Inr ds \<Rightarrow> a\<lparr>ap_devices := ds, ap_status := ''connected to '' @ ap_serverUrl a\<rparr>
     | Inl e \<Rightarrow> a\<lparr>ap_status := ''connection failed: '' @ toErrorMessage e\<rparr>))"

definition handleOccupy :: "string \<Rightarrow> app \<Rightarrow> app \<times> app_request list" where
  "handleOccupy deviceId a = issue (Call_occupy deviceId) a"

definition occupy_answered :: "client_error + web_session \<Rightarrow> app \<Rightarrow> app" where
  "occupy_answered r a =
    (case r of
      Inr s \<Rightarrow> a\<lparr>ap_occupation := Some s, ap_status := []\<rparr>
    | Inl e \<Rightarrow> a\<lparr>ap_status := ''occupy failed: '' @ toErrorMessage e\<rparr>)"

definition handleOccupationLost :: "app \<Rightarrow> app" where
  "handleOccupationLost a = a\<lparr>ap_occupation := None\<rparr>"

definition handleRelease :: "app \<Rightarrow> app \<times> app_request list" where
  "handleRelease a = (case ap_occupation a of None \<Rightarrow> (a, []) | Some s \<Rightarrow> issue (Call_release s) a)"

definition session_unknown :: "client_error \<Rightarrow> bool" where
  "session_unknown e = (case e of Api_error status _ \<Rightarrow> status \<in> {403, 404, 409} | Thrown _ \<Rightarrow> False)"

definition release_answered :: "client_error + public_device \<Rightarrow> app \<Rightarrow> app" where
  "release_answered r a =
    (case r of
      Inr _ \<Rightarrow> a\<lparr>ap_occupation := None, ap_status := []\<rparr>
    | Inl e \<Rightarrow>
        if session_unknown e then a\<lparr>ap_occupation := None, ap_status := ''the session was no longer valid''\<rparr>
        else a\<lparr>ap_status := ''release failed, session kept: '' @ toErrorMessage e\<rparr>)"

text \<open>The outputs of the hook: a keepalive of its session, the loss, a status line.\<close>

fun hook_outputs :: "nat \<Rightarrow> web_session \<Rightarrow> hook_output list \<Rightarrow> app \<Rightarrow> app \<times> app_request list" where
  "hook_outputs n s [] a = (a, [])"
| "hook_outputs n s (Hook_keepalive # outs) a =
    (let (a, r1) = issue (Call_keepalive n s) a; (a, r2) = hook_outputs n s outs a in (a, r1 @ r2))"
| "hook_outputs n s (Hook_lost # outs) a = hook_outputs n s outs (handleOccupationLost a)"
| "hook_outputs n s (Hook_status m # outs) a = hook_outputs n s outs (a\<lparr>ap_status := m\<rparr>)"

definition drive_hook :: "jsnum \<Rightarrow> hook_event \<Rightarrow> app \<Rightarrow> app \<times> app_request list" where
  "drive_hook limit ev a =
    (case ap_hook a of
      None \<Rightarrow> (a, [])
    | Some (n, s, h) \<Rightarrow>
        (case hook_step limit ev h of (h, outs) \<Rightarrow> hook_outputs n s outs (a\<lparr>ap_hook := Some (n, s, h)\<rparr>)))"

section \<open>The console as a state machine\<close>

text \<open>What the server answers a call with.\<close>

datatype app_answer =
    Listed "client_error + public_device list"
  | Occupied_answer "client_error + web_session"
  | Released_answer "client_error + public_device"
  | Kept_answer "client_error + json"

datatype app_event =
    Connect_submitted string string
  | Disconnect_clicked
  | Occupy_clicked string
  | Release_clicked
  | View_lost
  | Input_seen
  | Keepalive_tick
  | Poll_tick
  | Answered nat app_answer

definition occupy_enabled :: "string \<Rightarrow> app \<Rightarrow> bool" where
  "occupy_enabled i a \<longleftrightarrow> ap_isConnected a \<and> map_option fst (ap_occupation a) \<noteq> Some i \<and>
    (\<exists>d\<in>set (ap_devices a). pd_id d = i \<and> canOccupy d (ap_occupation a \<noteq> None \<and> map_option fst (ap_occupation a) \<noteq> Some (pd_id d)))"

definition close_call :: "nat \<Rightarrow> app \<Rightarrow> app" where
  "close_call n a = a\<lparr>ap_open := jdel n (ap_open a)\<rparr>"

definition answer_call :: "jsnum \<Rightarrow> nat \<Rightarrow> app_answer \<Rightarrow> app \<Rightarrow> app \<times> app_request list" where
  "answer_call limit n r a =
    (case (jget (ap_open a) n, r) of
      (Some (Call_listDevices p), Listed x) \<Rightarrow> (poll_answered p x (close_call n a), [])
    | (Some (Call_occupy _), Occupied_answer x) \<Rightarrow> (occupy_answered x (close_call n a), [])
    | (Some (Call_release _), Released_answer x) \<Rightarrow> (release_answered x (close_call n a), [])
    | (Some (Call_keepalive k s), Kept_answer x) \<Rightarrow>
        (if map_option fst (ap_hook a) = Some k then drive_hook limit (Hook_answer x) (close_call n a)
         else (close_call n a, []))
    | _ \<Rightarrow> (a, []))"

definition app_handle :: "jsnum \<Rightarrow> int \<Rightarrow> app_event \<Rightarrow> app \<Rightarrow> app \<times> app_request list" where
  "app_handle limit now ev a =
    (case ev of
      Connect_submitted url token \<Rightarrow> if ap_isConnected a then (a, []) else (submit_settings url token a, [])
    | Disconnect_clicked \<Rightarrow> if ap_isConnected a then (handleDisconnect a, []) else (a, [])
    | Occupy_clicked i \<Rightarrow> if occupy_enabled i a then handleOccupy i a else (a, [])
    | Release_clicked \<Rightarrow> if ap_isConnected a then handleRelease a else (a, [])
    | View_lost \<Rightarrow> (handleOccupationLost a, [])
    | Input_seen \<Rightarrow> drive_hook limit (Hook_activity now) a
    | Keepalive_tick \<Rightarrow> drive_hook limit (Hook_tick now) a
    | Poll_tick \<Rightarrow> (case ap_poll a of None \<Rightarrow> (a, []) | Some p \<Rightarrow> issue (Call_listDevices p) a)
    | Answered n r \<Rightarrow> answer_call limit n r a)"

definition app_step :: "jsnum \<Rightarrow> int \<Rightarrow> app_event \<Rightarrow> app \<Rightarrow> app \<times> app_request list" where
  "app_step limit now ev a =
    (let (b, r1) = app_handle limit now ev a; (c, r2) = app_effects now a b in (c, r1 @ r2))"

inductive app_reached :: "jsnum \<Rightarrow> app \<Rightarrow> bool" for limit where
  start: "app_reached limit (app_start url token raw)"
| step: "app_reached limit a \<Longrightarrow> app_reached limit (fst (app_step limit now ev a))"

section \<open>The session of a console\<close>

text \<open>What holds of the parts that the effects keep in step with the state.\<close>

definition in_step :: "app \<Rightarrow> bool" where
  "in_step a \<longleftrightarrow>
    (ap_poll a \<noteq> None \<longleftrightarrow> ap_isConnected a) \<and>
    (case ap_hook a of
      None \<Rightarrow> active_session a = None
    | Some (n, s, h) \<Rightarrow> active_session a = Some s \<and> kh_isActive h) \<and>
    ap_storedOccupation a = stored_session (ap_occupation a) \<and>
    (ap_isConnected a \<longrightarrow> web_min_token_length \<le> length (ap_token a))"

text \<open>What a handler may leave for the effects: everything but the hook's session and the stored text.\<close>

definition handler_ok :: "app \<Rightarrow> app \<Rightarrow> bool" where
  "handler_ok a b \<longleftrightarrow>
    ap_poll b = ap_poll a \<and> ap_storedOccupation b = ap_storedOccupation a \<and>
    (ap_isConnected b \<longrightarrow> web_min_token_length \<le> length (ap_token b)) \<and>
    (case ap_hook a of
      None \<Rightarrow> ap_hook b = None
    | Some (n, s, h) \<Rightarrow> (\<exists>h'. ap_hook b = Some (n, s, h') \<and> kh_isActive h'))"

lemma effects_in_step:
  assumes "in_step a" "handler_ok a b"
  shows "in_step (fst (app_effects now a b))"
proof -
  let ?c = "fst (poll_effect a (storage_effect a b))"
  have c: "ap_isConnected ?c = ap_isConnected b" "ap_occupation ?c = ap_occupation b" "ap_serverUrl ?c = ap_serverUrl b"
      "ap_token ?c = ap_token b" "ap_hook ?c = ap_hook b"
      "ap_poll ?c \<noteq> None \<longleftrightarrow> ap_isConnected b" "ap_storedOccupation ?c = stored_session (ap_occupation b)"
    using assms by (auto simp: poll_effect_def storage_effect_def issue_def in_step_def handler_ok_def)
  then have session: "active_session ?c = active_session b" by (simp add: active_session_def)
  have "in_step (hook_effect now a ?c)"
  proof (cases "(ap_serverUrl b, ap_token b, active_session b) = (ap_serverUrl a, ap_token a, active_session a)")
    case True
    then have "hook_effect now a ?c = ?c" by (simp add: hook_effect_def c session)
    moreover have "in_step ?c"
      using assms True c session by (auto simp: in_step_def handler_ok_def split: option.splits)
    ultimately show ?thesis by simp
  next
    case False
    then show ?thesis
      using assms c session
      by (auto simp: hook_effect_def in_step_def handler_ok_def hook_start_def active_session_def split: option.splits)
  qed
  then show ?thesis by (simp add: app_effects_def split_def Let_def)
qed

lemma issue_fields [simp]:
  "ap_poll (fst (issue c a)) = ap_poll a" "ap_storedOccupation (fst (issue c a)) = ap_storedOccupation a"
  "ap_isConnected (fst (issue c a)) = ap_isConnected a" "ap_token (fst (issue c a)) = ap_token a"
  "ap_hook (fst (issue c a)) = ap_hook a" "ap_occupation (fst (issue c a)) = ap_occupation a"
  "ap_serverUrl (fst (issue c a)) = ap_serverUrl a"
  by (simp_all add: issue_def)

lemma close_call_fields [simp]:
  "ap_poll (close_call n a) = ap_poll a" "ap_storedOccupation (close_call n a) = ap_storedOccupation a"
  "ap_isConnected (close_call n a) = ap_isConnected a" "ap_token (close_call n a) = ap_token a"
  "ap_hook (close_call n a) = ap_hook a" "ap_occupation (close_call n a) = ap_occupation a"
  by (simp_all add: close_call_def)

lemma close_call_session [simp]: "active_session (close_call n a) = active_session a"
  by (simp add: active_session_def)

lemma hook_outputs_fields:
  assumes "hook_outputs n s outs a = (b, r)"
  shows "ap_poll b = ap_poll a \<and> ap_storedOccupation b = ap_storedOccupation a \<and> ap_isConnected b = ap_isConnected a \<and>
    ap_token b = ap_token a \<and> ap_hook b = ap_hook a \<and> ap_serverUrl b = ap_serverUrl a \<and>
    ap_occupation b = (if Hook_lost \<in> set outs then None else ap_occupation a) \<and>
    (\<forall>q\<in>set r. ar_call q = Call_keepalive n s \<and> ar_serverUrl q = ap_serverUrl a \<and> Hook_keepalive \<in> set outs)"
  using assms
proof (induction n s outs a arbitrary: b r rule: hook_outputs.induct)
  case (2 n s outs a)
  obtain b1 r1 where i: "issue (Call_keepalive n s) a = (b1, r1)" by fastforce
  obtain b2 r2 where h: "hook_outputs n s outs b1 = (b2, r2)" by fastforce
  from "2.IH" [OF i [symmetric] refl h] "2.prems" i h show ?case
    by (auto simp: issue_def)
qed (auto simp: handleOccupationLost_def)

lemma hook_step_keeps_active: "ev \<noteq> Hook_cleanup \<Longrightarrow> kh_isActive h \<Longrightarrow> kh_isActive (fst (hook_step limit ev h))"
  by (simp add: hook_step_active)

lemma drive_hook_ok:
  assumes "in_step a" "ev \<noteq> Hook_cleanup" "drive_hook limit ev a = (b, r)"
  shows "handler_ok a b"
proof (cases "ap_hook a")
  case None
  with assms show ?thesis by (simp add: drive_hook_def handler_ok_def in_step_def)
next
  case (Some nsh)
  obtain n s h where nsh: "ap_hook a = Some (n, s, h)" using Some by (cases nsh) auto
  obtain h' outs where st: "hook_step limit ev h = (h', outs)" by fastforce
  have act: "kh_isActive h'" using assms(1,2) nsh st hook_step_keeps_active [of ev h limit] by (simp add: in_step_def)
  have "hook_outputs n s outs (a\<lparr>ap_hook := Some (n, s, h')\<rparr>) = (b, r)"
    using assms(3) nsh st by (simp add: drive_hook_def)
  from hook_outputs_fields [OF this] assms(1) nsh act show ?thesis by (simp add: handler_ok_def in_step_def)
qed

lemma handler_ok_refl: "in_step a \<Longrightarrow> handler_ok a a"
  by (auto simp: handler_ok_def in_step_def split: option.splits)

lemma handler_ok_same:
  "in_step a \<Longrightarrow> ap_poll b = ap_poll a \<Longrightarrow> ap_storedOccupation b = ap_storedOccupation a \<Longrightarrow> ap_hook b = ap_hook a \<Longrightarrow>
    (ap_isConnected b \<longrightarrow> web_min_token_length \<le> length (ap_token b)) \<Longrightarrow> handler_ok a b"
  by (auto simp: handler_ok_def in_step_def split: option.splits)

lemma answered_fields:
  "ap_poll (poll_answered n x a) = ap_poll a" "ap_storedOccupation (poll_answered n x a) = ap_storedOccupation a"
  "ap_hook (poll_answered n x a) = ap_hook a" "ap_isConnected (poll_answered n x a) = ap_isConnected a"
  "ap_token (poll_answered n x a) = ap_token a" "ap_occupation (poll_answered n x a) = ap_occupation a"
  "ap_poll (occupy_answered y a) = ap_poll a" "ap_storedOccupation (occupy_answered y a) = ap_storedOccupation a"
  "ap_hook (occupy_answered y a) = ap_hook a" "ap_isConnected (occupy_answered y a) = ap_isConnected a"
  "ap_token (occupy_answered y a) = ap_token a"
  "ap_poll (release_answered z a) = ap_poll a" "ap_storedOccupation (release_answered z a) = ap_storedOccupation a"
  "ap_hook (release_answered z a) = ap_hook a" "ap_isConnected (release_answered z a) = ap_isConnected a"
  "ap_token (release_answered z a) = ap_token a"
  by (simp_all add: poll_answered_def occupy_answered_def release_answered_def split: sum.split)

lemma in_step_token: "in_step a \<Longrightarrow> ap_isConnected a \<longrightarrow> web_min_token_length \<le> length (ap_token a)"
  by (simp add: in_step_def)

lemma in_step_close: "in_step (close_call n a) \<longleftrightarrow> in_step a"
  by (auto simp: in_step_def split: option.splits)

lemma handler_ok_close: "handler_ok (close_call n a) b \<longleftrightarrow> handler_ok a b"
  by (simp add: handler_ok_def)

lemma answer_call_ok:
  assumes "in_step a" "answer_call limit n r a = (b, rs)"
  shows "handler_ok a b"
proof (cases "jget (ap_open a) n")
  case None
  with assms show ?thesis by (simp add: answer_call_def handler_ok_refl)
next
  case (Some c)
  show ?thesis
  proof (cases "\<exists>k s x. c = Call_keepalive k s \<and> r = Kept_answer x \<and> map_option fst (ap_hook a) = Some k")
    case True
    then obtain k s x where k: "c = Call_keepalive k s" "r = Kept_answer x" "map_option fst (ap_hook a) = Some k" by blast
    then have "drive_hook limit (Hook_answer x) (close_call n a) = (b, rs)"
      using assms(2) Some by (simp add: answer_call_def)
    from drive_hook_ok [OF _ _ this] assms(1) show ?thesis by (simp add: in_step_close handler_ok_close)
  next
    case False
    with assms Some have "ap_poll b = ap_poll a \<and> ap_storedOccupation b = ap_storedOccupation a \<and> ap_hook b = ap_hook a \<and>
        ap_isConnected b = ap_isConnected a \<and> ap_token b = ap_token a"
      by (cases c; cases r) (auto simp: answer_call_def answered_fields split: if_splits)
    then show ?thesis by (intro handler_ok_same [OF assms(1)]) (simp_all add: in_step_token [OF assms(1)])
  qed
qed

lemma connect_ok:
  assumes "in_step a"
  shows "handler_ok a (submit_settings url token a)"
  by (rule handler_ok_same [OF assms])
    (auto simp: submit_settings_def handleConnect_def in_step_token [OF assms, rule_format] canConnect_def)

lemma app_handle_ok:
  assumes "in_step a" "app_handle limit now ev a = (b, rs)"
  shows "handler_ok a b"
proof (cases ev)
  case (Connect_submitted url token)
  with assms connect_ok [OF assms(1)] handler_ok_refl [OF assms(1)] show ?thesis
    by (auto simp: app_handle_def split: if_splits)
next
  case Disconnect_clicked
  with assms handler_ok_refl [OF assms(1)] show ?thesis
    by (auto simp: app_handle_def handleDisconnect_def split: if_splits intro!: handler_ok_same [OF assms(1)])
next
  case (Occupy_clicked i)
  with assms in_step_token [OF assms(1)] handler_ok_refl [OF assms(1)] show ?thesis
    by (auto simp: app_handle_def handleOccupy_def issue_def split: if_splits intro!: handler_ok_same [OF assms(1)])
next
  case Release_clicked
  with assms in_step_token [OF assms(1)] handler_ok_refl [OF assms(1)] show ?thesis
    by (auto simp: app_handle_def handleRelease_def issue_def split: if_splits option.splits intro!: handler_ok_same [OF assms(1)])
next
  case View_lost
  with assms in_step_token [OF assms(1)] show ?thesis
    by (auto simp: app_handle_def handleOccupationLost_def intro!: handler_ok_same [OF assms(1)])
next
  case Input_seen
  with assms drive_hook_ok [OF assms(1), of "Hook_activity now" limit] show ?thesis by (simp add: app_handle_def)
next
  case Keepalive_tick
  with assms drive_hook_ok [OF assms(1), of "Hook_tick now" limit] show ?thesis by (simp add: app_handle_def)
next
  case Poll_tick
  with assms in_step_token [OF assms(1)] handler_ok_refl [OF assms(1)] show ?thesis
    by (auto simp: app_handle_def issue_def split: option.splits intro!: handler_ok_same [OF assms(1)])
next
  case (Answered n r)
  with assms answer_call_ok [OF assms(1)] show ?thesis by (simp add: app_handle_def)
qed

lemma app_step_eq:
  "app_step limit now ev a =
    (fst (app_effects now a (fst (app_handle limit now ev a))),
     snd (app_handle limit now ev a) @ snd (app_effects now a (fst (app_handle limit now ev a))))"
  by (simp add: app_step_def split_def Let_def)

lemma in_step_reached: "app_reached limit a \<Longrightarrow> in_step a"
proof (induction rule: app_reached.induct)
  case (start url token raw)
  then show ?case by (simp add: app_start_def in_step_def active_session_def Let_def)
next
  case (step a now ev)
  then show ?case
    using effects_in_step app_handle_ok prod.collapse by (metis app_step_eq fst_conv)
qed

section \<open>How the session comes and goes\<close>

lemma load_stored: "fst (loadStoredOccupation (stored_session s)) = s"
  by (cases s) (auto simp: stored_session_def loadStoredOccupation_def)

lemma effects_occupation: "ap_occupation (fst (app_effects now a b)) = ap_occupation b"
  by (auto simp: app_effects_def poll_effect_def storage_effect_def hook_effect_def split_def Let_def split: option.split)

lemma effects_requests: "q \<in> set (snd (app_effects now a b)) \<Longrightarrow> \<exists>p. ar_call q = Call_listDevices p"
  by (auto simp: app_effects_def poll_effect_def issue_def split_def Let_def split: if_splits)

lemma drive_hook_moves:
  assumes "in_step a" "drive_hook limit ev a = (b, rs)"
  shows "(ap_occupation b \<noteq> ap_occupation a \<longrightarrow> ap_occupation b = None \<and>
      (\<exists>k s h status m. ap_hook a = Some (k, s, h) \<and> ap_occupation a = Some s \<and>
        ev = Hook_answer (Inl (Api_error status m)) \<and> status \<in> {403, 404, 409})) \<and>
    (\<forall>q\<in>set rs. \<exists>k s. ar_call q = Call_keepalive k s \<and> active_session a = Some s \<and> ar_serverUrl q = ap_serverUrl a)"
proof (cases "ap_hook a")
  case None
  with assms show ?thesis by (simp add: drive_hook_def)
next
  case (Some nsh)
  obtain n s h where nsh: "ap_hook a = Some (n, s, h)" using Some by (cases nsh) auto
  then have session: "active_session a = Some s" "ap_occupation a = Some s"
    using assms(1) by (auto simp: in_step_def active_session_def split: if_splits)
  obtain h' outs where st: "hook_step limit ev h = (h', outs)" by fastforce
  have out: "hook_outputs n s outs (a\<lparr>ap_hook := Some (n, s, h')\<rparr>) = (b, rs)"
    using assms(2) nsh st by (simp add: drive_hook_def)
  have lost: "\<exists>status m. ev = Hook_answer (Inl (Api_error status m)) \<and> status \<in> {403, 404, 409}" if "Hook_lost \<in> set outs"
    using st that by (cases ev) (auto simp: hook_step_def sendKeepalive_def keepalive_failed_def
        occupation_lost_statuses_def split: if_splits sum.splits client_error.splits)
  show ?thesis using hook_outputs_fields [OF out] lost nsh session by auto
qed

text \<open>
  The session \<open>s\<close> is over for the console: a release of it succeeded, or the release or a keepalive of it
  was refused with 403, 404 or 409, or the view reported the loss.
\<close>

definition session_over :: "app \<Rightarrow> app_event \<Rightarrow> web_session \<Rightarrow> bool" where
  "session_over a ev s \<longleftrightarrow>
    ev = View_lost \<or>
    (\<exists>n d. ev = Answered n (Released_answer (Inr d)) \<and> jget (ap_open a) n = Some (Call_release s)) \<or>
    (\<exists>n status m. ev = Answered n (Released_answer (Inl (Api_error status m))) \<and> status \<in> {403, 404, 409} \<and>
      jget (ap_open a) n = Some (Call_release s)) \<or>
    (\<exists>n k status m. ev = Answered n (Kept_answer (Inl (Api_error status m))) \<and> status \<in> {403, 404, 409} \<and>
      jget (ap_open a) n = Some (Call_keepalive k s))"

text \<open>
  What moves the session: the answer of an occupy, or its end. Only a release may be one of another session
  than the one held.
\<close>

definition session_moved :: "app \<Rightarrow> app_event \<Rightarrow> web_session option \<Rightarrow> bool" where
  "session_moved a ev occupation' \<longleftrightarrow>
    (\<exists>n i s. ev = Answered n (Occupied_answer (Inr s)) \<and> jget (ap_open a) n = Some (Call_occupy i) \<and> occupation' = Some s) \<or>
    occupation' = None \<and> (\<exists>s. session_over a ev s \<and>
      (ap_occupation a = Some s \<or> (\<exists>n r. ev = Answered n (Released_answer r))))"

definition request_ok :: "app \<Rightarrow> app_request \<Rightarrow> bool" where
  "request_ok a q \<longleftrightarrow>
    (case ar_call q of
      Call_listDevices p \<Rightarrow> True
    | Call_occupy i \<Rightarrow> occupy_enabled i a
    | Call_release s \<Rightarrow> active_session a = Some s
    | Call_keepalive k s \<Rightarrow> active_session a = Some s)"

section \<open>The calls that are not answered yet\<close>

text \<open>
  Calls are numbered, so an unanswered keepalive that names the hook that runs is one of its session.
\<close>

definition calls_ok :: "app \<Rightarrow> bool" where
  "calls_ok a \<longleftrightarrow>
    (\<forall>k s h. ap_hook a = Some (k, s, h) \<longrightarrow> k < ap_next a) \<and>
    (\<forall>n c. (n, c) \<in> set (ap_open a) \<longrightarrow> n < ap_next a \<and>
      (\<forall>k s. c = Call_keepalive k s \<longrightarrow> k < ap_next a \<and> (\<forall>s' h. ap_hook a = Some (k, s', h) \<longrightarrow> s' = s)))"

lemma calls_ok_hook:
  "calls_ok a \<Longrightarrow> (n, Call_keepalive k s) \<in> set (ap_open a) \<Longrightarrow> ap_hook a = Some (k, s', h) \<Longrightarrow> s' = s"
  unfolding calls_ok_def by blast

text \<open>The calls an event may add; an occupy only by a click, a release only of the session held.\<close>

definition new_call :: "app \<Rightarrow> app_event \<Rightarrow> app_call \<Rightarrow> bool" where
  "new_call a ev c \<longleftrightarrow>
    (case c of
      Call_listDevices p \<Rightarrow> True
    | Call_occupy i \<Rightarrow> ev = Occupy_clicked i \<and> ap_occupation a = None
    | Call_release s \<Rightarrow> ap_occupation a = Some s \<and> ev = Release_clicked
    | Call_keepalive k s \<Rightarrow> (\<exists>h. ap_hook a = Some (k, s, h)))"

definition calls_grow :: "app \<Rightarrow> app_event \<Rightarrow> app \<Rightarrow> bool" where
  "calls_grow a ev b \<longleftrightarrow> ap_next a \<le> ap_next b \<and>
    (\<forall>n c. (n, c) \<in> set (ap_open b) \<longrightarrow> (n, c) \<in> set (ap_open a) \<or> n < ap_next b \<and> new_call a ev c) \<and>
    map_option (\<lambda>(k, s, h). (k, s)) (ap_hook b) = map_option (\<lambda>(k, s, h). (k, s)) (ap_hook a)"

lemma calls_grow_same:
  "ap_next b = ap_next a \<Longrightarrow> set (ap_open b) \<subseteq> set (ap_open a) \<Longrightarrow> ap_hook b = ap_hook a \<Longrightarrow> calls_grow a ev b"
  by (auto simp: calls_grow_def)

lemma calls_grow_issue: "new_call a ev c \<Longrightarrow> calls_grow a ev (fst (issue c a))"
  by (auto simp: calls_grow_def issue_def)

lemma calls_grow_ok:
  assumes "calls_ok a" "calls_grow a ev b"
  shows "calls_ok b"
  unfolding calls_ok_def
proof (intro conjI allI impI)
  fix k s h assume "ap_hook b = Some (k, s, h)"
  with assms obtain h' where "ap_hook a = Some (k, s, h')" by (auto simp: calls_grow_def map_option_case split: option.splits)
  with assms show "k < ap_next b" by (auto simp: calls_ok_def calls_grow_def)
next
  fix n c assume nc: "(n, c) \<in> set (ap_open b)"
  then consider "(n, c) \<in> set (ap_open a)" | "n < ap_next b" "new_call a ev c"
    using assms(2) unfolding calls_grow_def by blast
  note old_or_new = this
  have le: "ap_next a \<le> ap_next b" using assms(2) by (simp add: calls_grow_def)
  from old_or_new show "n < ap_next b"
  proof cases
    case 1
    with assms(1) have "n < ap_next a" by (simp add: calls_ok_def)
    with le show ?thesis by simp
  qed
  fix k s assume c: "c = Call_keepalive k s"
  from old_or_new have "k < ap_next a"
  proof cases
    case 1
    with assms(1) c show ?thesis unfolding calls_ok_def by blast
  next
    case 2
    with assms(1) c show ?thesis by (auto simp: calls_ok_def new_call_def)
  qed
  with le show "k < ap_next b" by simp
  fix s' h assume "ap_hook b = Some (k, s', h)"
  with assms(2) obtain h' where "ap_hook a = Some (k, s', h')"
    by (auto simp: calls_grow_def map_option_case split: option.splits)
  with old_or_new show "s' = s"
    by cases (use c calls_ok_hook [OF assms(1)] in \<open>auto simp: new_call_def\<close>)
qed

lemma hook_outputs_grow:
  assumes "hook_outputs n s outs a = (b, r)"
  shows "ap_next a \<le> ap_next b \<and>
    (\<forall>i c. (i, c) \<in> set (ap_open b) \<longrightarrow> (i, c) \<in> set (ap_open a) \<or> i < ap_next b \<and> c = Call_keepalive n s)"
  using assms
proof (induction n s outs a arbitrary: b r rule: hook_outputs.induct)
  case (2 n s outs a)
  obtain b1 r1 where i: "issue (Call_keepalive n s) a = (b1, r1)" by fastforce
  obtain b2 r2 where h: "hook_outputs n s outs b1 = (b2, r2)" by fastforce
  from i have b1: "ap_next b1 = Suc (ap_next a)" "ap_open b1 = ap_open a @ [(ap_next a, Call_keepalive n s)]"
    by (auto simp: issue_def)
  from "2.prems" i h have b: "b = b2" by simp
  note ih = "2.IH" [OF i [symmetric] refl h, folded b]
  show ?case
  proof (intro conjI allI impI)
    show "ap_next a \<le> ap_next b" using ih b1 by simp
    fix j c assume "(j, c) \<in> set (ap_open b)"
    with ih have "(j, c) \<in> set (ap_open b1) \<or> j < ap_next b \<and> c = Call_keepalive n s" by blast
    with b1 ih show "(j, c) \<in> set (ap_open a) \<or> j < ap_next b \<and> c = Call_keepalive n s" by auto
  qed
qed (auto simp: handleOccupationLost_def)

lemma drive_hook_grow:
  assumes "drive_hook limit ev a = (b, r)"
  shows "calls_grow a e b"
proof (cases "ap_hook a")
  case None
  with assms show ?thesis by (simp add: drive_hook_def calls_grow_def)
next
  case (Some nsh)
  obtain n s h where nsh: "ap_hook a = Some (n, s, h)" using Some by (cases nsh) auto
  obtain h' outs where st: "hook_step limit ev h = (h', outs)" by fastforce
  have out: "hook_outputs n s outs (a\<lparr>ap_hook := Some (n, s, h')\<rparr>) = (b, r)"
    using assms nsh st by (simp add: drive_hook_def)
  have new: "new_call a e (Call_keepalive n s)" using nsh by (simp add: new_call_def)
  have "ap_next a \<le> ap_next b"
    and "(i, c) \<in> set (ap_open b) \<Longrightarrow> (i, c) \<in> set (ap_open a) \<or> i < ap_next b \<and> new_call a e c" for i c
    using hook_outputs_grow [OF out] new by auto
  moreover have "ap_hook b = Some (n, s, h')" using hook_outputs_fields [OF out] by simp
  ultimately show ?thesis using nsh by (simp add: calls_grow_def)
qed

lemma calls_grow_close:
  assumes "calls_grow (close_call n a) ev b"
  shows "calls_grow a ev b"
proof -
  have "new_call (close_call n a) ev c = new_call a ev c" for c by (cases c) (simp_all add: new_call_def)
  moreover have "set (ap_open (close_call n a)) \<subseteq> set (ap_open a)" "ap_next (close_call n a) = ap_next a"
    by (auto simp: close_call_def jdel_filter)
  ultimately show ?thesis using assms unfolding calls_grow_def close_call_fields by (metis subsetD)
qed

lemma answered_calls:
  "ap_next (poll_answered n x a) = ap_next a" "ap_open (poll_answered n x a) = ap_open a"
  "ap_next (occupy_answered y a) = ap_next a" "ap_open (occupy_answered y a) = ap_open a"
  "ap_next (release_answered z a) = ap_next a" "ap_open (release_answered z a) = ap_open a"
  by (simp_all add: poll_answered_def occupy_answered_def release_answered_def split: sum.split)

lemma answer_call_grow:
  assumes "answer_call limit n r a = (b, rs)"
  shows "calls_grow a ev b"
proof (cases "b = a")
  case True
  then show ?thesis by (simp add: calls_grow_same)
next
  case False
  with assms obtain c where c: "jget (ap_open a) n = Some c" by (cases "jget (ap_open a) n") (simp_all add: answer_call_def)
  have "calls_grow (close_call n a) ev b"
  proof (cases "\<exists>x. drive_hook limit (Hook_answer x) (close_call n a) = (b, rs)")
    case True
    then show ?thesis using drive_hook_grow by blast
  next
    case other: False
    have "ap_next b = ap_next (close_call n a) \<and> ap_open b = ap_open (close_call n a) \<and> ap_hook b = ap_hook (close_call n a)"
      using assms c False other
      by (cases c; cases r) (auto simp: answer_call_def answered_calls answered_fields split: if_splits)
    then show ?thesis by (intro calls_grow_same) simp_all
  qed
  then show ?thesis by (rule calls_grow_close)
qed

lemma app_handle_grow:
  assumes "app_handle limit now ev a = (b, rs)"
  shows "calls_grow a ev b"
proof (cases ev)
  case (Occupy_clicked i)
  show ?thesis
  proof (cases "occupy_enabled i a")
    case True
    then have "new_call a ev (Call_occupy i)"
      using Occupy_clicked by (cases "ap_occupation a") (auto simp: new_call_def occupy_enabled_def canOccupy_def)
    from calls_grow_issue [OF this] True Occupy_clicked assms show ?thesis by (simp add: app_handle_def handleOccupy_def)
  qed (use Occupy_clicked assms in \<open>simp add: app_handle_def calls_grow_same\<close>)
next
  case Release_clicked
  show ?thesis
  proof (cases "ap_occupation a")
    case None
    with Release_clicked assms show ?thesis
      by (auto simp: app_handle_def handleRelease_def split: if_splits intro: calls_grow_same)
  next
    case (Some s)
    with Release_clicked assms calls_grow_issue [of a ev "Call_release s"] show ?thesis
      by (auto simp: app_handle_def handleRelease_def new_call_def split: if_splits intro: calls_grow_same)
  qed
next
  case Poll_tick
  show ?thesis
  proof (cases "ap_poll a")
    case (Some p)
    with Poll_tick assms calls_grow_issue [of a ev "Call_listDevices p"] show ?thesis
      by (simp add: app_handle_def new_call_def)
  qed (use Poll_tick assms in \<open>simp add: app_handle_def calls_grow_same\<close>)
next
  case (Answered n r)
  with assms answer_call_grow show ?thesis by (simp add: app_handle_def)
next
  case Input_seen
  with assms drive_hook_grow show ?thesis by (simp add: app_handle_def)
next
  case Keepalive_tick
  with assms drive_hook_grow show ?thesis by (simp add: app_handle_def)
qed (use assms in \<open>auto simp: app_handle_def submit_settings_def handleConnect_def handleDisconnect_def
    handleOccupationLost_def split: if_splits intro!: calls_grow_same\<close>)

lemma poll_effect_grow: "calls_grow b ev (fst (poll_effect a (storage_effect a b)))"
  by (auto simp: poll_effect_def storage_effect_def issue_def calls_grow_def new_call_def)

lemma hook_effect_calls:
  assumes "calls_ok c"
  shows "calls_ok (hook_effect now a c)"
proof (cases "hook_effect now a c = c")
  case False
  then consider "hook_effect now a c = c\<lparr>ap_hook := None\<rparr>"
    | s where "hook_effect now a c = c\<lparr>ap_hook := Some (ap_next c, s, hook_start now), ap_next := Suc (ap_next c)\<rparr>"
    by (auto simp: hook_effect_def split: if_splits option.splits)
  then show ?thesis
  proof cases
    case 1
    have "n < ap_next c \<and> (\<forall>k s. d = Call_keepalive k s \<longrightarrow> k < ap_next c)" if "(n, d) \<in> set (ap_open c)" for n d
      using assms that unfolding calls_ok_def by blast
    then show ?thesis unfolding calls_ok_def 1 by (simp del: split_paired_All)
  next
    case (2 s)
    have "n < Suc (ap_next c) \<and> (\<forall>k s. d = Call_keepalive k s \<longrightarrow> k < Suc (ap_next c) \<and> k \<noteq> ap_next c)"
      if "(n, d) \<in> set (ap_open c)" for n d
    proof -
      have "n < ap_next c" "\<forall>k s. d = Call_keepalive k s \<longrightarrow> k < ap_next c"
        using assms that unfolding calls_ok_def by blast+
      then show ?thesis by auto
    qed
    then show ?thesis unfolding calls_ok_def 2 app.simps by fastforce
  qed
qed (use assms in simp)

lemma effects_calls:
  assumes "calls_ok b"
  shows "calls_ok (fst (app_effects now a b))"
proof -
  have "calls_ok (fst (poll_effect a (storage_effect a b)))"
    by (rule calls_grow_ok [OF assms poll_effect_grow])
  then have "calls_ok (hook_effect now a (fst (poll_effect a (storage_effect a b))))" by (rule hook_effect_calls)
  then show ?thesis by (simp add: app_effects_def split_def Let_def)
qed

lemma calls_ok_reached: "app_reached limit a \<Longrightarrow> calls_ok a"
proof (induction rule: app_reached.induct)
  case (start url token raw)
  then show ?case by (simp add: app_start_def calls_ok_def Let_def)
next
  case (step a now ev)
  then show ?case
    using effects_calls calls_grow_ok app_handle_grow prod.collapse by (metis app_step_eq fst_conv)
qed

lemma answer_call_moves:
  assumes "in_step a" "calls_ok a" "answer_call limit n r a = (b, rs)"
  shows "(ap_occupation b \<noteq> ap_occupation a \<longrightarrow> session_moved a (Answered n r) (ap_occupation b)) \<and> (\<forall>q\<in>set rs. request_ok a q)"
proof (cases "jget (ap_open a) n")
  case None
  with assms(3) show ?thesis by (simp add: answer_call_def)
next
  case (Some c)
  show ?thesis
  proof (cases "\<exists>k s x. c = Call_keepalive k s \<and> r = Kept_answer x \<and> map_option fst (ap_hook a) = Some k")
    case True
    then obtain k s x where k: "c = Call_keepalive k s" "r = Kept_answer x" "map_option fst (ap_hook a) = Some k" by blast
    then have d: "drive_hook limit (Hook_answer x) (close_call n a) = (b, rs)"
      using assms(3) Some by (simp add: answer_call_def)
    have closed: "in_step (close_call n a)" using assms(1) by (simp add: in_step_close)
    note moves = drive_hook_moves [OF closed d]
    have "session_moved a (Answered n r) (ap_occupation b)" if changed: "ap_occupation b \<noteq> ap_occupation a"
    proof -
      from moves changed obtain k' s' h status m where lost: "ap_occupation b = None" "ap_hook a = Some (k', s', h)"
          "ap_occupation a = Some s'" "x = Inl (Api_error status m)" "status \<in> {403, 404, 409}" by auto
      have "(n, Call_keepalive k s) \<in> set (ap_open a)" using Some k(1) by (simp add: jget_Some_in)
      with calls_ok_hook [OF assms(2)] lost(2) k(3) have "s' = s" by auto
      with lost k Some show ?thesis unfolding session_moved_def session_over_def by blast
    qed
    moreover have "\<forall>q\<in>set rs. request_ok a q" using moves by (auto simp: request_ok_def)
    ultimately show ?thesis by blast
  next
    case False
    show ?thesis
    proof (cases c)
      case (Call_listDevices p)
      with Some assms(3) show ?thesis by (cases r) (auto simp: answer_call_def answered_fields)
    next
      case (Call_occupy i)
      with Some assms(3) show ?thesis
        by (cases r) (auto simp: answer_call_def occupy_answered_def session_moved_def split: sum.splits)
    next
      case (Call_release s)
      with Some assms(3) show ?thesis
        by (cases r) (auto simp: answer_call_def release_answered_def session_unknown_def session_moved_def session_over_def
            split: sum.splits if_splits client_error.splits)
    next
      case (Call_keepalive k s)
      with Some assms(3) False show ?thesis by (cases r) (auto simp: answer_call_def split: if_splits)
    qed
  qed
qed

lemma app_handle_moves:
  assumes "in_step a" "calls_ok a" "app_handle limit now ev a = (b, rs)"
  shows "(ap_occupation b \<noteq> ap_occupation a \<longrightarrow> session_moved a ev (ap_occupation b)) \<and> (\<forall>q\<in>set rs. request_ok a q)"
proof (cases ev)
  case (Answered n r)
  with assms answer_call_moves [OF assms(1,2)] show ?thesis by (simp add: app_handle_def)
next
  case Input_seen
  with assms drive_hook_moves [OF assms(1), of limit "Hook_activity now" b rs] show ?thesis
    by (force simp: app_handle_def request_ok_def)
next
  case Keepalive_tick
  with assms drive_hook_moves [OF assms(1), of limit "Hook_tick now" b rs] show ?thesis
    by (force simp: app_handle_def request_ok_def)
next
  case View_lost
  with assms(3) show ?thesis
    by (cases "ap_occupation a") (auto simp: app_handle_def handleOccupationLost_def session_moved_def session_over_def)
qed (use assms(3) in \<open>auto simp: app_handle_def submit_settings_def handleConnect_def handleDisconnect_def handleOccupy_def
    handleRelease_def handleOccupationLost_def issue_def session_moved_def session_over_def request_ok_def active_session_def
    split: if_splits option.splits\<close>)

text \<open>Where the requests go.\<close>

lemma effects_sender:
  "q \<in> set (snd (app_effects now a b)) \<Longrightarrow>
    ar_serverUrl q = ap_serverUrl (fst (app_effects now a b)) \<and> ar_token q = ap_token (fst (app_effects now a b))"
  by (auto simp: app_effects_def poll_effect_def storage_effect_def hook_effect_def issue_def split_def Let_def
      split: if_splits option.splits)

lemma effects_settings:
  "ap_serverUrl (fst (app_effects now a b)) = ap_serverUrl b" "ap_token (fst (app_effects now a b)) = ap_token b"
  by (auto simp: app_effects_def poll_effect_def storage_effect_def hook_effect_def split_def Let_def split: option.split)

lemma hook_outputs_sender:
  "hook_outputs n s outs a = (b, r) \<Longrightarrow> q \<in> set r \<Longrightarrow> ar_serverUrl q = ap_serverUrl b \<and> ar_token q = ap_token b"
proof (induction n s outs a arbitrary: b r rule: hook_outputs.induct)
  case (2 n s outs a)
  obtain b1 r1 where i: "issue (Call_keepalive n s) a = (b1, r1)" by fastforce
  obtain b2 r2 where h: "hook_outputs n s outs b1 = (b2, r2)" by fastforce
  from hook_outputs_fields [OF h] "2.IH" [OF i [symmetric] refl h] "2.prems" i h show ?case
    by (auto simp: issue_def)
qed (auto simp: handleOccupationLost_def)

lemma drive_hook_sender:
  "drive_hook limit ev a = (b, r) \<Longrightarrow> q \<in> set r \<Longrightarrow> ar_serverUrl q = ap_serverUrl b \<and> ar_token q = ap_token b"
  by (auto simp: drive_hook_def split: option.splits prod.splits dest: hook_outputs_sender)

lemma app_handle_sender:
  "app_handle limit now ev a = (b, rs) \<Longrightarrow> q \<in> set rs \<Longrightarrow>
    ar_serverUrl q = ap_serverUrl b \<and> ar_token q = ap_token b"
  by (cases ev) (auto simp: app_handle_def answer_call_def handleOccupy_def handleRelease_def issue_def
      split: if_splits option.splits app_call.splits app_answer.splits dest: drive_hook_sender)

section \<open>A user who waits\<close>

text \<open>
  A user who waits for the answer of an occupy or a release before occupying. Then at most one occupy is
  unanswered, and only while the console holds no session, and every unanswered release is one of the
  session held.
\<close>

definition awaits_session :: "app_call \<Rightarrow> bool" where
  "awaits_session c \<longleftrightarrow> (case c of Call_occupy _ \<Rightarrow> True | Call_release _ \<Rightarrow> True | _ \<Rightarrow> False)"

definition waits :: "app \<Rightarrow> app_event \<Rightarrow> bool" where
  "waits a ev \<longleftrightarrow> (case ev of Occupy_clicked _ \<Rightarrow> list_all (\<lambda>(n, c). \<not> awaits_session c) (ap_open a) | _ \<Rightarrow> True)"

inductive app_reached_waiting :: "jsnum \<Rightarrow> app \<Rightarrow> bool" for limit where
  start: "app_reached_waiting limit (app_start url token raw)"
| step: "app_reached_waiting limit a \<Longrightarrow> waits a ev \<Longrightarrow> app_reached_waiting limit (fst (app_step limit now ev a))"

definition one_pending :: "app \<Rightarrow> bool" where
  "one_pending a \<longleftrightarrow>
    (\<forall>n s. (n, Call_release s) \<in> set (ap_open a) \<longrightarrow> ap_occupation a = None \<or> ap_occupation a = Some s) \<and>
    (\<forall>n i. (n, Call_occupy i) \<in> set (ap_open a) \<longrightarrow> ap_occupation a = None \<and>
      (\<forall>m c. (m, c) \<in> set (ap_open a) \<longrightarrow> awaits_session c \<longrightarrow> (m, c) = (n, Call_occupy i)))"

lemma one_pendingD:
  assumes "one_pending a"
  shows "(n, Call_release s) \<in> set (ap_open a) \<Longrightarrow> ap_occupation a = None \<or> ap_occupation a = Some s"
    and "(n, Call_occupy i) \<in> set (ap_open a) \<Longrightarrow> ap_occupation a = None"
    and "(n, Call_occupy i) \<in> set (ap_open a) \<Longrightarrow> (m, c) \<in> set (ap_open a) \<Longrightarrow> awaits_session c \<Longrightarrow> (m, c) = (n, Call_occupy i)"
  using assms unfolding one_pending_def by blast+

lemma one_pendingI:
  assumes "\<And>n s. (n, Call_release s) \<in> set (ap_open a) \<Longrightarrow> ap_occupation a = None \<or> ap_occupation a = Some s"
    and "\<And>n i. (n, Call_occupy i) \<in> set (ap_open a) \<Longrightarrow> ap_occupation a = None"
    and "\<And>n i m c. (n, Call_occupy i) \<in> set (ap_open a) \<Longrightarrow> (m, c) \<in> set (ap_open a) \<Longrightarrow> awaits_session c \<Longrightarrow>
      (m, c) = (n, Call_occupy i)"
  shows "one_pending a"
  using assms unfolding one_pending_def by blast

lemma awaits_simps [simp]: "awaits_session (Call_occupy i)" "awaits_session (Call_release s)"
  by (simp_all add: awaits_session_def)

lemma one_pending_grow:
  assumes "one_pending a" "calls_grow a ev b" "\<And>i. ev \<noteq> Occupy_clicked i"
    and "ap_occupation b = ap_occupation a \<or> ap_occupation b = None"
  shows "one_pending b"
proof -
  have old: "(n, c) \<in> set (ap_open a) \<or> (\<exists>s. c = Call_release s \<and> ap_occupation a = Some s)"
    if "(n, c) \<in> set (ap_open b)" "awaits_session c" for n c
  proof -
    from assms(2) that(1) have "(n, c) \<in> set (ap_open a) \<or> new_call a ev c" unfolding calls_grow_def by blast
    with that(2) assms(3) show ?thesis by (cases c) (auto simp: awaits_session_def new_call_def)
  qed
  show ?thesis
  proof (rule one_pendingI)
    fix n s assume "(n, Call_release s) \<in> set (ap_open b)"
    then have "ap_occupation a = None \<or> ap_occupation a = Some s" using old one_pendingD(1) [OF assms(1)] by fastforce
    with assms(4) show "ap_occupation b = None \<or> ap_occupation b = Some s" by auto
  next
    fix n i assume "(n, Call_occupy i) \<in> set (ap_open b)"
    then have n: "(n, Call_occupy i) \<in> set (ap_open a)" using old by fastforce
    then have none: "ap_occupation a = None" by (rule one_pendingD(2) [OF assms(1)])
    with assms(4) show "ap_occupation b = None" by auto
    fix m c assume "(m, c) \<in> set (ap_open b)" "awaits_session c"
    then show "(m, c) = (n, Call_occupy i)" using old none one_pendingD(3) [OF assms(1) n] by fastforce
  qed
qed

lemma one_pending_none:
  assumes "ap_open b = ap_open a @ [(n, Call_occupy i)]" "list_all (\<lambda>(n, c). \<not> awaits_session c) (ap_open a)" "ap_occupation b = None"
  shows "one_pending b"
proof -
  have only: "(m, c) = (n, Call_occupy i)" if "(m, c) \<in> set (ap_open b)" "awaits_session c" for m c
    using that assms(1,2) by (auto simp: list_all_iff)
  show ?thesis
  proof (rule one_pendingI)
    fix m j k c assume "(m, Call_occupy j) \<in> set (ap_open b)" "(k, c) \<in> set (ap_open b)" "awaits_session c"
    then show "(k, c) = (m, Call_occupy j)" using only [of k c] only [of m "Call_occupy j"] by simp
  qed (simp_all add: assms(3))
qed

lemma occupy_answered_pending:
  assumes "one_pending a" "jget (ap_open a) n = Some (Call_occupy i)" "ap_open b = jdel n (ap_open a)"
  shows "one_pending b"
proof -
  have only: "(m, c) = (n, Call_occupy i)" if "(m, c) \<in> set (ap_open a)" "awaits_session c" for m c
    by (rule one_pendingD(3) [OF assms(1) jget_Some_in [OF assms(2)] that])
  have "\<not> awaits_session c" if "(m, c) \<in> set (ap_open b)" for m c
    using that only [of m c] assms(3) by (auto simp: jdel_filter)
  then show ?thesis by (intro one_pendingI) force+
qed

lemma app_handle_pending:
  assumes "in_step a" "calls_ok a" "one_pending a" "waits a ev" "app_handle limit now ev a = (b, rs)"
  shows "one_pending b"
proof -
  note grow = app_handle_grow [OF assms(5)]
  consider (occupy) i where "ev = Occupy_clicked i"
    | (held) "\<And>i. ev \<noteq> Occupy_clicked i" "ap_occupation b = ap_occupation a \<or> ap_occupation b = None"
    | (got) n i s where "ev = Answered n (Occupied_answer (Inr s))" "jget (ap_open a) n = Some (Call_occupy i)"
    using app_handle_moves [OF assms(1,2,5)] unfolding session_moved_def by (cases ev) auto
  then show ?thesis
  proof cases
    case (occupy i)
    show ?thesis
    proof (cases "occupy_enabled i a")
      case True
      then have "ap_occupation a = None" by (cases "ap_occupation a") (auto simp: occupy_enabled_def canOccupy_def)
      with True occupy assms(4,5) show ?thesis
        by (intro one_pending_none [of b a "ap_next a" i]) (auto simp: app_handle_def handleOccupy_def issue_def waits_def)
    qed (use assms(3,5) occupy in \<open>simp add: app_handle_def\<close>)
  next
    case held
    show ?thesis by (rule one_pending_grow [OF assms(3) grow held])
  next
    case (got n i s)
    with assms(5) have "ap_open b = jdel n (ap_open a)"
      by (auto simp: app_handle_def answer_call_def occupy_answered_def close_call_def)
    from occupy_answered_pending [OF assms(3) got(2) this] show ?thesis .
  qed
qed

lemma effects_pending: "one_pending b \<Longrightarrow> one_pending (fst (app_effects now a b))"
proof -
  assume b: "one_pending b"
  have "one_pending (fst (poll_effect a (storage_effect a b)))"
    by (rule one_pending_grow [OF b poll_effect_grow [of b View_lost a]])
      (auto simp: poll_effect_def storage_effect_def)
  moreover have "one_pending (hook_effect now a c) = one_pending c" for c
    by (simp add: hook_effect_def one_pending_def split: option.split)
  ultimately show "one_pending (fst (app_effects now a b))" by (simp add: app_effects_def split_def Let_def)
qed

lemma waiting_reached: "app_reached_waiting limit a \<Longrightarrow> app_reached limit a \<and> one_pending a"
proof (induction rule: app_reached_waiting.induct)
  case (start url token raw)
  have "one_pending (app_start url token raw)" by (simp add: app_start_def one_pending_def Let_def)
  then show ?case using app_reached.start by blast
next
  case (step a ev now)
  obtain b rs where h: "app_handle limit now ev a = (b, rs)" by fastforce
  have "one_pending b"
    using app_handle_pending [OF in_step_reached calls_ok_reached _ step.hyps(2) h] step.IH by blast
  then have "one_pending (fst (app_step limit now ev a))" using effects_pending h by (simp add: app_step_eq)
  then show ?case using step.IH app_reached.step by blast
qed

lemma waiting_moves:
  assumes "one_pending a" "session_moved a ev occupation'" "ap_occupation a = Some s" "occupation' \<noteq> Some s"
  shows "occupation' = None \<and> session_over a ev s"
proof -
  have no_occupy: "jget (ap_open a) n \<noteq> Some (Call_occupy i)" for n i
    using one_pendingD(2) [OF assms(1) jget_Some_in [of "ap_open a" n "Call_occupy i"]] assms(3) by auto
  have release: "s' = s" if "jget (ap_open a) n = Some (Call_release s')" for n s'
    using one_pendingD(1) [OF assms(1) jget_Some_in [OF that]] assms(3) by auto
  have "\<exists>s'. occupation' = None \<and> session_over a ev s' \<and>
      (ap_occupation a = Some s' \<or> (\<exists>n r. ev = Answered n (Released_answer r)))"
    using assms(2) no_occupy unfolding session_moved_def by fast
  then obtain s' where over: "occupation' = None" "session_over a ev s'"
      "ap_occupation a = Some s' \<or> (\<exists>n r. ev = Answered n (Released_answer r))" by blast
  then have "session_over a ev s" using release assms(3) unfolding session_over_def by fastforce
  with over(1) show ?thesis by blast
qed


text \<open>A run of the console: the events with their times.\<close>

fun app_run :: "jsnum \<Rightarrow> (int \<times> app_event) list \<Rightarrow> app \<Rightarrow> app \<times> app_request list" where
  "app_run limit [] a = (a, [])"
| "app_run limit ((now, ev) # evs) a =
    (let (b, r1) = app_step limit now ev a; (c, r2) = app_run limit evs b in (c, r1 @ r2))"

lemma app_run_reached: "app_reached limit a \<Longrightarrow> app_reached limit (fst (app_run limit evs a))"
proof (induction evs arbitrary: a)
  case (Cons e evs)
  obtain now ev where e: "e = (now, ev)" by fastforce
  have "app_reached limit (fst (app_step limit now ev a))" by (rule app_reached.step [OF Cons.prems])
  from Cons.IH [OF this] show ?case by (simp add: e split_def Let_def)
qed simp

definition console_token :: string where "console_token = ''0123456789abcdef01234567''"

definition with_session :: app where
  "with_session = fst (app_run (num 1800000) [(0, Connect_submitted ''http://one'' console_token)]
    (app_start [] [] (stored_session (Some (''d1'', ''secret'')))))"


section \<open>Where the console loses a session or gives it away\<close>

text \<open>
  The session does not know its server. Disconnecting keeps it, so after connecting to another server the
  keepalive of the hook sends the occupant id, which the first server handed out as the right to release the
  device, to the second one; and when that one answers 404 the session is gone.
\<close>

definition device_row_of :: "string \<Rightarrow> public_device" where
  "device_row_of i = \<lparr>pd_id = i, pd_name = i, pd_platform = Ios, pd_osVersion = ''18'', pd_tags = [], pd_status = Online,
    pd_agentId = None, pd_occupiedAt = None, pd_lastHeartbeatAt = None, pd_lastActivityAt = None, pd_isOccupied = False\<rparr>"

definition moved_console :: "app \<times> app_request list" where
  "moved_console = app_run (num 1800000)
    [(0, Disconnect_clicked), (1, Connect_submitted ''http://two'' console_token), (30001, Keepalive_tick)] with_session"

theorem session_goes_to_another_server:
  "map (\<lambda>q. (ar_serverUrl q, ar_call q)) (filter (\<lambda>q. \<exists>k. ar_call q = Call_keepalive k (''d1'', ''secret'')) (snd moved_console)) =
     [(''http://two'', Call_keepalive 3 (''d1'', ''secret''))] \<and>
   ap_occupation (fst (app_step (num 1800000) 30002 (Answered 4 (Kept_answer (Inl (Api_error 404 [])))) (fst moved_console))) = None"
proof -
  have "map (\<lambda>q. (ar_serverUrl q, ar_call q)) (snd moved_console) =
      [(''http://two'', Call_listDevices 2), (''http://two'', Call_keepalive 3 (''d1'', ''secret''))]" by code_simp
  then have "filter (\<lambda>p. \<exists>k. snd p = Call_keepalive k (''d1'', ''secret'')) (map (\<lambda>q. (ar_serverUrl q, ar_call q)) (snd moved_console)) =
      [(''http://two'', Call_keepalive 3 (''d1'', ''secret''))]" by simp
  moreover have "ap_occupation (fst (app_step (num 1800000) 30002 (Answered 4 (Kept_answer (Inl (Api_error 404 [])))) (fst moved_console))) = None"
    by code_simp
  ultimately show ?thesis by (simp add: filter_map comp_def)
qed

text \<open>
  The cards block a second occupy by the session the console holds, which is set only when the first one is
  answered. Two clicks in a row occupy two devices, and the occupant id of the first is overwritten: it
  stays locked until the server's idle sweep.
\<close>

definition two_devices :: app where
  "two_devices = fst (app_run (num 1800000)
    [(0, Connect_submitted ''http://one'' console_token), (1, Answered 0 (Listed (Inr [device_row_of ''d1'', device_row_of ''d2''])))]
    (app_start [] [] Stored_missing))"

theorem second_occupy_forgets_the_first:
  "map ar_call (snd (app_run (num 1800000) [(2, Occupy_clicked ''d1''), (3, Occupy_clicked ''d2'')] two_devices)) =
     [Call_occupy ''d1'', Call_occupy ''d2''] \<and>
   ap_occupation (fst (app_run (num 1800000) [(2, Occupy_clicked ''d1''), (3, Occupy_clicked ''d2''),
     (4, Answered 1 (Occupied_answer (Inr (''d1'', ''first'')))), (5, Answered 2 (Occupied_answer (Inr (''d2'', ''second''))))] two_devices)) =
     Some (''d2'', ''second'')"
  by (intro conjI) code_simp+

text \<open>
  The answer of a release ends the session the console holds by then. Two clicks on release, and a device
  occupied before the second one is answered: its refusal drops the new session, which nothing was wrong with.
\<close>

theorem late_release_drops_the_next_session:
  "map ar_call (snd (app_run (num 1800000) [(2, Occupy_clicked ''d1''), (3, Answered 1 (Occupied_answer (Inr (''d1'', ''first'')))),
     (4, Release_clicked), (5, Release_clicked)] two_devices)) =
     [Call_occupy ''d1'', Call_release (''d1'', ''first''), Call_release (''d1'', ''first'')] \<and>
   map (\<lambda>evs. ap_occupation (fst (app_run (num 1800000) ([(2, Occupy_clicked ''d1''), (3, Answered 1 (Occupied_answer (Inr (''d1'', ''first'')))),
     (4, Release_clicked), (5, Release_clicked), (6, Answered 3 (Released_answer (Inr (device_row_of ''d1'')))),
     (7, Occupy_clicked ''d2''), (8, Answered 5 (Occupied_answer (Inr (''d2'', ''second''))))] @ evs) two_devices)))
     [[], [(9, Answered 4 (Released_answer (Inl (Api_error 409 []))))]] = [Some (''d2'', ''second''), None]"
  by (intro conjI) code_simp+

end
