(* ===== verification/Agent_Discovery.thy ===== *)
theory Agent_Discovery
  imports Shared_Protocol Js_Text
begin

text \<open>
  How the Agent finds its devices: the parsers of \<open>adb devices -l\<close> (android-discovery.ts) and of the
  devicectl report (device-discovery.ts), the state that survives failed discoveries
  (discovery-state.ts) and the aggregation of the sources with the configured devices
  (discovery-aggregator.ts). The output of the tools, \<open>getprop\<close> included, is an argument.
\<close>

section \<open>Android: adb\<close>

record adb_entry =
  ad_serial :: string
  ad_state :: string
  ad_model :: "string option"

text \<open>\<open>split(/\s+/)\<close> on a trimmed text that is not empty.\<close>

fun split_words :: "string \<Rightarrow> string \<Rightarrow> string list" where
  "split_words w [] = (if w = [] then [] else [w])"
| "split_words w (c # cs) =
    (if is_ws c then (if w = [] then split_words [] cs else w # split_words [] cs) else split_words (w @ [c]) cs)"

definition adb_line :: "string \<Rightarrow> adb_entry option" where
  "adb_line line = (let trimmed = trim line in
    if trimmed = [] then None
    else if starts_with ''List of devices'' trimmed then None
    else if starts_with ''*'' trimmed then None
    else (case split_words [] trimmed of
        serial # state # attributes \<Rightarrow>
          Some \<lparr>ad_serial = serial, ad_state = state,
            ad_model = map_option (\<lambda>a. map (\<lambda>c. if c = CHR ''_'' then CHR '' '' else c) (drop (length ''model:'') a))
              (List.find (starts_with ''model:'') attributes)\<rparr>
      | _ \<Rightarrow> None))"

definition parseAdbDevices :: "string \<Rightarrow> adb_entry list" where
  "parseAdbDevices stdout = List.map_filter adb_line (split_on (CHR 0x0A) stdout)"

record adb_source =
  as_osVersions :: "(string, string) jsmap"
  as_warned :: "string list"

definition adb_init :: adb_source where
  "adb_init = \<lparr>as_osVersions = [], as_warned = []\<rparr>"

definition pruneCaches :: "string list \<Rightarrow> adb_source \<Rightarrow> adb_source" where
  "pruneCaches active s =
    s\<lparr>as_osVersions := filter (\<lambda>(serial, _). serial \<in> set active) (as_osVersions s),
      as_warned := filter (\<lambda>serial. serial \<in> set active) (as_warned s)\<rparr>"

definition warnOnce :: "string \<Rightarrow> adb_source \<Rightarrow> adb_source" where
  "warnOnce serial s = (if serial \<in> set (as_warned s) then s else s\<lparr>as_warned := as_warned s @ [serial]\<rparr>)"

text \<open>\<open>getProp\<close>: the trimmed property, or \<open>None\<close> when adb fails.\<close>

definition resolveOsVersion :: "(string \<Rightarrow> string option) \<Rightarrow> string \<Rightarrow> adb_source \<Rightarrow> string \<times> adb_source" where
  "resolveOsVersion getProp serial s =
    (case jget (as_osVersions s) serial of
      Some (c # cs) \<Rightarrow> (c # cs, s)
    | _ \<Rightarrow> (case getProp serial of
        None \<Rightarrow> (''unknown'', s)
      | Some version \<Rightarrow>
          if version = [] then (''unknown'', s)
          else (version, s\<lparr>as_osVersions := jset serial version (as_osVersions s)\<rparr>)))"

definition android_toRegisterInput ::
  "(string \<Rightarrow> string option) \<Rightarrow> adb_entry \<Rightarrow> adb_source \<Rightarrow> register_device option \<times> adb_source" where
  "android_toRegisterInput getProp entry s =
    (if ad_state entry \<noteq> ''device'' then (None, warnOnce (ad_serial entry) s)
     else if \<not> is_device_id (ad_serial entry) then (None, warnOnce (ad_serial entry) s)
     else case resolveOsVersion getProp (ad_serial entry) s of (version, s) \<Rightarrow>
       (Some \<lparr>rd_id = ad_serial entry,
          rd_name = (case ad_model entry of Some m \<Rightarrow> m | None \<Rightarrow> ad_serial entry),
          rd_platform = Android, rd_osVersion = version, rd_tags = []\<rparr>, s))"

fun android_devices ::
  "(string \<Rightarrow> string option) \<Rightarrow> adb_entry list \<Rightarrow> adb_source \<Rightarrow> register_device list \<times> adb_source" where
  "android_devices getProp [] s = ([], s)"
| "android_devices getProp (e # es) s =
    (case android_toRegisterInput getProp e s of (d, s) \<Rightarrow>
      case android_devices getProp es s of (ds, s) \<Rightarrow> ((case d of Some d \<Rightarrow> d # ds | None \<Rightarrow> ds), s))"

text \<open>\<open>discover\<close>: \<open>stdout\<close> is \<open>None\<close> when listing the devices fails.\<close>

definition android_discover ::
  "string option \<Rightarrow> (string \<Rightarrow> string option) \<Rightarrow> adb_source \<Rightarrow> register_device list option \<times> adb_source" where
  "android_discover stdout getProp s = (case stdout of
      None \<Rightarrow> (None, s)
    | Some raw \<Rightarrow>
        let entries = parseAdbDevices raw in
        case android_devices getProp entries (pruneCaches (map ad_serial entries) s) of (ds, s) \<Rightarrow> (Some ds, s))"

section \<open>iOS: devicectl\<close>

definition getRecord :: "json option \<Rightarrow> string \<Rightarrow> json option" where
  "getRecord value key = (case value of
      None \<Rightarrow> None
    | Some v \<Rightarrow> (case asRecord v of
        None \<Rightarrow> None
      | Some fs \<Rightarrow> (case jget fs key of
          Some (JObj child) \<Rightarrow> Some (JObj child)
        | Some (JArr child) \<Rightarrow> Some (JArr child)
        | _ \<Rightarrow> None)))"

definition getString :: "json option \<Rightarrow> string \<Rightarrow> string option" where
  "getString value key = (case value of
      None \<Rightarrow> None
    | Some v \<Rightarrow> (case asRecord v of
        None \<Rightarrow> None
      | Some fs \<Rightarrow> (case jget fs key of Some (JStr child) \<Rightarrow> Some child | _ \<Rightarrow> None)))"

definition lower_char :: "char \<Rightarrow> char" where
  "lower_char c = (if 65 \<le> code c \<and> code c \<le> 90 \<or> 192 \<le> code c \<and> code c \<le> 222 \<and> code c \<noteq> 215
    then char_of (code c + 32) else c)"

definition text_includes :: "string \<Rightarrow> string \<Rightarrow> bool" where
  "text_includes part s = list_ex (starts_with part) (suffixes s)"

definition isIosPlatform :: "json option \<Rightarrow> json option \<Rightarrow> bool" where
  "isIosPlatform hardware properties =
    (let hardwarePlatform = map lower_char (case getString hardware ''platform'' of Some p \<Rightarrow> p | None \<Rightarrow> []);
         platformId = (case getString properties ''platformIdentifier'' of Some p \<Rightarrow> p | None \<Rightarrow> [])
     in hardwarePlatform = ''ios'' \<or> hardwarePlatform = ''ipados'' \<or>
        text_includes ''iphoneos'' platformId \<or> text_includes ''ipados'' platformId)"

definition nonempty_text :: "string option \<Rightarrow> string option" where
  "nonempty_text s = (case s of Some (c # cs) \<Rightarrow> Some (c # cs) | _ \<Rightarrow> None)"

definition ios_toRegisterInput :: "json \<Rightarrow> register_device option" where
  "ios_toRegisterInput entry =
    (let hardware = getRecord (Some entry) ''hardwareProperties'';
         properties = getRecord (Some entry) ''deviceProperties'' in
     case (nonempty_text (getString hardware ''udid''), nonempty_text (getString properties ''name''),
           nonempty_text (getString properties ''osVersionNumber'')) of
       (Some udid, Some name, Some osVersion) \<Rightarrow>
         if \<not> isIosPlatform hardware properties then None
         else Some \<lparr>rd_id = udid, rd_name = name, rd_platform = Ios, rd_osVersion = osVersion, rd_tags = []\<rparr>
     | _ \<Rightarrow> None)"

definition isConnected :: "json \<Rightarrow> bool" where
  "isConnected entry =
    (let connection = getRecord (Some entry) ''connectionProperties'' in
     getString connection ''pairingState'' = Some ''paired'' \<and>
     getString connection ''tunnelState'' \<noteq> Some ''unavailable'')"

definition parseDevicectlOutput :: "json \<Rightarrow> register_device list" where
  "parseDevicectlOutput report = (case getRecord (Some report) ''result'' of
      Some (JObj fs) \<Rightarrow> (case jget fs ''devices'' of
          Some (JArr devices) \<Rightarrow> List.map_filter ios_toRegisterInput (filter isConnected devices)
        | _ \<Rightarrow> [])
    | _ \<Rightarrow> [])"

text \<open>\<open>discoverDevices\<close>: the report, or \<open>None\<close> when the tool or its output fails.\<close>

definition ios_discover :: "json option \<Rightarrow> register_device list option" where
  "ios_discover report = map_option parseDevicectlOutput report"

definition mergeWithStatic ::
  "register_device list option \<Rightarrow> register_device list \<Rightarrow> register_device list option" where
  "mergeWithStatic discovered staticDevices =
    (if staticDevices = [] then discovered
     else case discovered of
       None \<Rightarrow> Some staticDevices
     | Some ds \<Rightarrow> Some (filter (\<lambda>d. rd_id d \<notin> set (map rd_id staticDevices)) ds @ staticDevices))"

section \<open>The state that survives failures\<close>

definition max_consecutive_failures :: nat where "max_consecutive_failures = 5"

record discovery_state =
  ds_devices :: "register_device list"
  ds_failures :: nat

definition discovery_init :: discovery_state where
  "discovery_init = \<lparr>ds_devices = [], ds_failures = 0\<rparr>"

definition discovery_apply :: "register_device list option \<Rightarrow> discovery_state \<Rightarrow> discovery_state \<times> bool" where
  "discovery_apply result s = (case result of
      Some devices \<Rightarrow> (s\<lparr>ds_devices := devices, ds_failures := 0\<rparr>, True)
    | None \<Rightarrow>
        let s = s\<lparr>ds_failures := ds_failures s + 1\<rparr> in
        if ds_failures s < max_consecutive_failures then (s, False)
        else (s\<lparr>ds_devices := []\<rparr>, False))"

section \<open>The aggregation\<close>

text \<open>One state per source, in the order of the sources.\<close>

record aggregator =
  ag_states :: "(device_platform \<times> discovery_state) list"
  ag_static :: "register_device list"

definition aggregator_init :: "device_platform list \<Rightarrow> register_device list \<Rightarrow> aggregator" where
  "aggregator_init sources static = \<lparr>ag_states = map (\<lambda>p. (p, discovery_init)) sources, ag_static = static\<rparr>"

definition aggregator_refresh :: "register_device list option list \<Rightarrow> aggregator \<Rightarrow> aggregator \<times> bool" where
  "aggregator_refresh results g =
    (let applied = map2 (\<lambda>r (p, s). (p, discovery_apply r s)) results (ag_states g) in
     (g\<lparr>ag_states := map (\<lambda>(p, s, _). (p, s)) applied\<rparr>,
      ag_static g \<noteq> [] \<or> list_ex (\<lambda>(_, _, registered). registered) applied))"

definition aggregator_devices :: "aggregator \<Rightarrow> register_device list" where
  "aggregator_devices g =
    (case mergeWithStatic (Some (concat (map (\<lambda>(_, s). ds_devices s) (ag_states g)))) (ag_static g) of
      Some ds \<Rightarrow> ds | None \<Rightarrow> [])"

definition discoveredIds :: "device_platform \<Rightarrow> aggregator \<Rightarrow> string list" where
  "discoveredIds platform g =
    concat (map (\<lambda>(p, s). if p \<noteq> platform then []
      else filter (\<lambda>i. i \<notin> set (map rd_id (ag_static g))) (map rd_id (ds_devices s))) (ag_states g))"

section \<open>What is found\<close>

text \<open>The specification: the last success of a source counts until five failures in a row follow it.\<close>

definition failures_since :: "'a option list \<Rightarrow> nat" where
  "failures_since results = length (takeWhile (\<lambda>r. r = None) (rev results))"

definition last_success :: "'a list option list \<Rightarrow> 'a list" where
  "last_success results = (case List.find (\<lambda>r. r \<noteq> None) (rev results) of Some (Some ds) \<Rightarrow> ds | _ \<Rightarrow> [])"

definition discovery_run :: "register_device list option list \<Rightarrow> discovery_state" where
  "discovery_run results = fold (\<lambda>r s. fst (discovery_apply r s)) results discovery_init"

lemma discovery_run_snoc: "discovery_run (rs @ [r]) = fst (discovery_apply r (discovery_run rs))"
  by (simp add: discovery_run_def)

lemma discovery_run_spec:
  "ds_failures (discovery_run results) = failures_since results \<and>
    ds_devices (discovery_run results) =
      (if failures_since results < max_consecutive_failures then last_success results else [])"
proof (induction results rule: rev_induct)
  case Nil
  then show ?case
    by (simp add: discovery_run_def discovery_init_def failures_since_def last_success_def)
next
  case (snoc r rs)
  then show ?case
    by (cases r) (auto simp: discovery_run_snoc discovery_apply_def Let_def failures_since_def last_success_def
        max_consecutive_failures_def)
qed

definition aggregator_run :: "device_platform list \<Rightarrow> register_device list \<Rightarrow> register_device list option list list \<Rightarrow> aggregator" where
  "aggregator_run sources static cycles =
    fold (\<lambda>results g. fst (aggregator_refresh results g)) cycles (aggregator_init sources static)"

lemma aggregator_run_spec:
  "\<forall>results\<in>set cycles. length results = length sources \<Longrightarrow>
    ag_static (aggregator_run sources static cycles) = static \<and>
    ag_states (aggregator_run sources static cycles) =
      map2 (\<lambda>p k. (p, discovery_run (map (\<lambda>results. results ! k) cycles))) sources [0..<length sources]"
proof (induction cycles rule: rev_induct)
  case Nil
  have "map (\<lambda>p. (p, discovery_init)) sources = map2 (\<lambda>p k. (p, discovery_init)) sources [0..<length sources]"
    by (rule nth_equalityI) simp_all
  then show ?case by (simp add: aggregator_run_def aggregator_init_def discovery_run_def)
next
  case (snoc results cycles)
  let ?g = "aggregator_run sources static cycles"
  have "aggregator_run sources static (cycles @ [results]) = fst (aggregator_refresh results ?g)"
    by (simp add: aggregator_run_def)
  moreover have "ag_static ?g = static" and states: "ag_states ?g =
      map2 (\<lambda>p k. (p, discovery_run (map (\<lambda>results. results ! k) cycles))) sources [0..<length sources]"
    and len: "length results = length sources"
    using snoc by simp_all
  moreover have "map (\<lambda>(p, s, _). (p, s)) (map2 (\<lambda>r (p, s). (p, discovery_apply r s)) results (ag_states ?g)) =
      map2 (\<lambda>p k. (p, discovery_run (map (\<lambda>results. results ! k) (cycles @ [results])))) sources [0..<length sources]"
    by (rule nth_equalityI) (simp_all add: states len split_def discovery_run_snoc)
  ultimately show ?case by (simp add: aggregator_refresh_def Let_def)
qed

text \<open>What a source counts for after a history of results.\<close>

definition source_view :: "register_device list option list list \<Rightarrow> nat \<Rightarrow> register_device list" where
  "source_view cycles k = (let results = map (\<lambda>c. c ! k) cycles in
    if failures_since results < max_consecutive_failures then last_success results else [])"

lemma discovery_run_view: "ds_devices (discovery_run (map (\<lambda>c. c ! k) cycles)) = source_view cycles k"
  by (simp add: source_view_def discovery_run_spec Let_def)

lemma map_map2_upt:
  "map (\<lambda>(p, s). f p s) (map2 (\<lambda>p k. (p, h k)) xs [0..<length xs]) = map (\<lambda>k. f (xs ! k) (h k)) [0..<length xs]"
  by (rule nth_equalityI) simp_all

lemma android_input_valid:
  "android_toRegisterInput getProp e s = (Some d, s') \<Longrightarrow>
    is_device_id (rd_id d) \<and> rd_platform d = Android \<and> rd_id d = ad_serial e"
  by (auto simp: android_toRegisterInput_def split: prod.splits if_splits)

lemma android_device_valid:
  "android_devices getProp es s = (ds, s') \<Longrightarrow> d \<in> set ds \<Longrightarrow>
    is_device_id (rd_id d) \<and> rd_platform d = Android \<and> rd_id d \<in> set (map ad_serial es)"
proof (induction es arbitrary: s ds s')
  case (Cons e es)
  obtain d' s1 where e: "android_toRegisterInput getProp e s = (d', s1)" by fastforce
  obtain ds1 s2 where es: "android_devices getProp es s1 = (ds1, s2)" by fastforce
  show ?case
  proof (cases "d \<in> set ds1")
    case True
    from Cons.IH [OF es this] show ?thesis by auto
  next
    case False
    with Cons.prems e es have "d' = Some d" by (auto split: option.splits)
    with android_input_valid e show ?thesis by fastforce
  qed
qed simp

lemma refresh_register:
  "length results = length (ag_states g) \<Longrightarrow>
    snd (aggregator_refresh results g) \<longleftrightarrow> ag_static g \<noteq> [] \<or> (\<exists>r\<in>set results. r \<noteq> None)"
proof -
  assume len: "length results = length (ag_states g)"
  have registered: "snd (discovery_apply r s) \<longleftrightarrow> r \<noteq> None" for r s
    by (simp add: discovery_apply_def Let_def split: option.split)
  have "(\<exists>x\<in>set (zip results (ag_states g)). fst x \<noteq> None) \<longleftrightarrow> (\<exists>r\<in>fst ` set (zip results (ag_states g)). r \<noteq> None)"
    by blast
  also have "fst ` set (zip results (ag_states g)) = set results"
    using len by (simp only: set_map [symmetric] map_fst_zip)
  finally show ?thesis
    by (simp add: aggregator_refresh_def Let_def list_ex_iff split_def registered)
qed

text \<open>
  C32: What the Agent takes its devices to be: every source stands for its last successful discovery until
  five discoveries in a row have failed and for nothing after that, whatever the other sources do; the
  list offered to the server is the union of the sources without the ids that are configured
  statically, followed by the static devices; it is registered when some source succeeded or static
  devices exist; a listed Android device has an id the server accepts.
\<close>

theorem discovery_view:
  assumes "\<forall>results\<in>set cycles. length results = length sources" and "length results = length sources"
  shows "let g = aggregator_run sources static cycles;
             fresh = (\<lambda>k. filter (\<lambda>d. rd_id d \<notin> set (map rd_id static)) (source_view cycles k)) in
    aggregator_devices g = concat (map fresh [0..<length sources]) @ static \<and>
    discoveredIds p g =
      concat (map (\<lambda>k. if sources ! k = p then map rd_id (fresh k) else []) [0..<length sources]) \<and>
    (snd (aggregator_refresh results g) \<longleftrightarrow> static \<noteq> [] \<or> (\<exists>r\<in>set results. r \<noteq> None)) \<and>
    (case android_discover stdout getProp s of
      (None, _) \<Rightarrow> stdout = None
    | (Some ds, _) \<Rightarrow> (\<forall>d\<in>set ds. is_device_id (rd_id d) \<and> rd_platform d = Android))"
proof -
  let ?g = "aggregator_run sources static cycles"
  let ?fresh = "\<lambda>k. filter (\<lambda>d. rd_id d \<notin> set (map rd_id static)) (source_view cycles k)"
  have static: "ag_static ?g = static" and states: "ag_states ?g =
      map2 (\<lambda>p k. (p, discovery_run (map (\<lambda>results. results ! k) cycles))) sources [0..<length sources]"
    using aggregator_run_spec [OF assms(1)] by simp_all
  have "concat (map (\<lambda>(_, s). ds_devices s) (ag_states ?g)) = concat (map (source_view cycles) [0..<length sources])"
    unfolding states map_map2_upt discovery_run_view ..
  then have devices: "aggregator_devices ?g = concat (map ?fresh [0..<length sources]) @ static"
    by (simp add: aggregator_devices_def mergeWithStatic_def static filter_concat comp_def)
  have ids: "discoveredIds p ?g =
      concat (map (\<lambda>k. if sources ! k = p then map rd_id (?fresh k) else []) [0..<length sources])"
    unfolding discoveredIds_def states map_map2_upt discovery_run_view static
    by (intro arg_cong [of _ _ concat] map_cong refl) (simp add: filter_map comp_def)
  have "snd (aggregator_refresh results ?g) \<longleftrightarrow> static \<noteq> [] \<or> (\<exists>r\<in>set results. r \<noteq> None)"
    using refresh_register [of results ?g] assms(2) by (simp add: states static)
  moreover have "case android_discover stdout getProp s of
      (None, _) \<Rightarrow> stdout = None
    | (Some ds, _) \<Rightarrow> (\<forall>d\<in>set ds. is_device_id (rd_id d) \<and> rd_platform d = Android)"
    using android_device_valid [of getProp]
    by (cases stdout) (auto simp: android_discover_def Let_def split: prod.split)
  ultimately show ?thesis unfolding Let_def using devices ids by blast
qed

definition sample_found :: "string \<Rightarrow> register_device" where
  "sample_found i = \<lparr>rd_id = i, rd_name = i, rd_platform = Android, rd_osVersion = ''14'', rd_tags = []\<rparr>"

text \<open>iOS fails twice, Android finds two devices of which one is configured statically.\<close>

theorem discovery_view_witness:
  "aggregator_devices (aggregator_run [Ios, Android] [sample_found ''b'']
      [[None, Some [sample_found ''a'', sample_found ''b'']], [None, None]]) = [sample_found ''a'', sample_found ''b'']"
proof -
  let ?cycles = "[[None, Some [sample_found ''a'', sample_found ''b'']], [None, None]]"
  have "source_view ?cycles 0 = []" "source_view ?cycles 1 = [sample_found ''a'', sample_found ''b'']"
    by (simp_all add: source_view_def failures_since_def last_success_def max_consecutive_failures_def Let_def)
  then show ?thesis
    using discovery_view [of ?cycles "[Ios, Android]" "[None, None]" "[sample_found ''b'']"]
    by (simp add: Let_def upt_rec sample_found_def)
qed

end
