(* ===== verification/Agent_Tunnel.thy ===== *)
theory Agent_Tunnel
  imports Frame_Codec
begin

text \<open>
  The Agent's tunnel to the server: the frame backpressure policy (frame-backpressure.ts), the gate of
  the viewing demand (stream-demand-gate.ts) and the WebSocket client that reconnects by itself
  (server-tunnel.ts).

  A handler of the tunnel is a step; what it does to the outside is a list of effects. The state of
  the current socket is part of the tunnel's state, as the events of the socket change it; its
  \<open>bufferedAmount\<close> is read from the outside. A timer variable keeps its value after the timer has
  fired, until it is cleared.
\<close>

section \<open>Which frames are sent\<close>

definition frame_backpressure_bytes :: nat where "frame_backpressure_bytes = 512 * 1024"
definition frame_queue_max_bytes :: nat where "frame_queue_max_bytes = 2 * 1024 * 1024"

datatype frame_decision = Send_frame | Drop_backpressure | Drop_queue_full

definition decideFrameSend :: "bool \<Rightarrow> nat \<Rightarrow> frame_decision" where
  "decideFrameSend isKey bufferedBytes =
    (if bufferedBytes > frame_queue_max_bytes then Drop_queue_full
     else if \<not> isKey \<and> bufferedBytes > frame_backpressure_bytes then Drop_backpressure
     else Send_frame)"

record demand_gate =
  dg_demanded :: "string list"
  dg_hasSnapshot :: bool

definition gate_init :: demand_gate where
  "gate_init = \<lparr>dg_demanded = [], dg_hasSnapshot = False\<rparr>"

definition gate_apply :: "string list \<Rightarrow> demand_gate \<Rightarrow> demand_gate" where
  "gate_apply deviceIds g = g\<lparr>dg_hasSnapshot := True, dg_demanded := js_set deviceIds\<rparr>"

definition gate_reset :: "demand_gate \<Rightarrow> demand_gate" where
  "gate_reset g = g\<lparr>dg_hasSnapshot := False, dg_demanded := []\<rparr>"

definition shouldSend :: "demand_gate \<Rightarrow> string \<Rightarrow> bool" where
  "shouldSend g deviceId = (if \<not> dg_hasSnapshot g then True else deviceId \<in> set (dg_demanded g))"

section \<open>The tunnel\<close>

definition backoff_base_ms :: int where "backoff_base_ms = 1000"
definition backoff_max_ms :: int where "backoff_max_ms = 30000"

definition backoffDelayMs :: "nat \<Rightarrow> int" where
  "backoffDelayMs attempt = min (backoff_base_ms * 2 ^ attempt) backoff_max_ms"

definition terminal_close_codes :: "nat list" where
  "terminal_close_codes = [4400, 4401, 4409]"

datatype timer = Pending | Fired
datatype phase = Idle | Connecting | Open_ready | Closing

record tunnel =
  tn_phase :: phase
  tn_attempt :: nat
  tn_isClosed :: bool
  tn_reconnect :: "(timer \<times> int) option"
  tn_stable :: "timer option"
  tn_ping :: "timer option"
  tn_pong :: "timer option"
  tn_dropped :: nat
  tn_droppedKey :: nat
  tn_sent :: nat
  tn_sentBytes :: nat
  tn_peak :: nat

definition tunnel_init :: tunnel where
  "tunnel_init = \<lparr>tn_phase = Idle, tn_attempt = 0, tn_isClosed = False, tn_reconnect = None, tn_stable = None,
     tn_ping = None, tn_pong = None, tn_dropped = 0, tn_droppedKey = 0, tn_sent = 0, tn_sentBytes = 0, tn_peak = 0\<rparr>"

datatype tunnel_effect =
    Connect_socket
  | Text json
  | Binary bytes
  | Ping_socket
  | Terminate_socket
  | Close_socket
  | On_open
  | On_command string string string device_action
  | On_occupancy_ended string string
  | On_stream_demand "string list"
  | On_disconnect

definition tunnel_connect :: "tunnel \<Rightarrow> tunnel \<times> tunnel_effect list" where
  "tunnel_connect t = (if tn_isClosed t then (t, []) else (t\<lparr>tn_phase := Connecting\<rparr>, [Connect_socket]))"

text \<open>\<open>socket.on('open')\<close>, with \<open>startKeepalive\<close>.\<close>

definition on_open :: "tunnel \<Rightarrow> tunnel \<times> tunnel_effect list" where
  "on_open t = (t\<lparr>tn_phase := Open_ready, tn_stable := Some Pending, tn_ping := Some Pending\<rparr>, [On_open])"

definition on_stable :: "tunnel \<Rightarrow> tunnel" where
  "on_stable t = t\<lparr>tn_stable := Some Fired, tn_attempt := 0\<rparr>"

definition on_ping_tick :: "tunnel \<Rightarrow> tunnel \<times> tunnel_effect list" where
  "on_ping_tick t =
    (if tn_phase t \<noteq> Open_ready then (t, [])
     else case tn_pong t of
       Some _ \<Rightarrow> (t, [Ping_socket])
     | None \<Rightarrow> (t\<lparr>tn_pong := Some Pending\<rparr>, [Ping_socket]))"

definition on_pong :: "tunnel \<Rightarrow> tunnel" where
  "on_pong t = t\<lparr>tn_pong := None\<rparr>"

definition on_pong_timeout :: "tunnel \<Rightarrow> tunnel \<times> tunnel_effect list" where
  "on_pong_timeout t = (t\<lparr>tn_pong := Some Fired, tn_phase := Closing\<rparr>, [Terminate_socket])"

definition stopConnectionTimers :: "tunnel \<Rightarrow> tunnel" where
  "stopConnectionTimers t = t\<lparr>tn_stable := None, tn_ping := None, tn_pong := None\<rparr>"

definition scheduleReconnect :: "nat \<Rightarrow> tunnel \<Rightarrow> tunnel" where
  "scheduleReconnect closeCode t =
    (if tn_isClosed t then t
     else if closeCode \<in> set terminal_close_codes then t\<lparr>tn_reconnect := Some (Pending, backoff_max_ms)\<rparr>
     else t\<lparr>tn_attempt := tn_attempt t + 1, tn_reconnect := Some (Pending, backoffDelayMs (tn_attempt t))\<rparr>)"

definition on_close :: "nat \<Rightarrow> tunnel \<Rightarrow> tunnel \<times> tunnel_effect list" where
  "on_close closeCode t =
    (scheduleReconnect closeCode (stopConnectionTimers (t\<lparr>tn_phase := Idle\<rparr>)), [On_disconnect])"

definition on_reconnect_timer :: "tunnel \<Rightarrow> tunnel \<times> tunnel_effect list" where
  "on_reconnect_timer t = (case tn_reconnect t of
      Some (_, delay) \<Rightarrow> tunnel_connect (t\<lparr>tn_reconnect := Some (Fired, delay)\<rparr>)
    | None \<Rightarrow> (t, []))"

definition tunnel_close :: "tunnel \<Rightarrow> tunnel \<times> tunnel_effect list" where
  "tunnel_close t =
    (stopConnectionTimers (t\<lparr>tn_isClosed := True, tn_reconnect := None,
       tn_phase := (if tn_phase t = Idle then Idle else Closing)\<rparr>),
     if tn_phase t = Idle then [] else [Close_socket])"

definition tunnel_send :: "json \<Rightarrow> tunnel \<Rightarrow> bool \<times> tunnel_effect list" where
  "tunnel_send payload t = (if tn_phase t \<noteq> Open_ready then (False, []) else (True, [Text payload]))"

definition sendRegister :: "register_device list \<Rightarrow> tunnel \<Rightarrow> bool \<times> tunnel_effect list" where
  "sendRegister devices t = tunnel_send (buildRegisterMessage devices (Some device_action_kinds)) t"

definition sendHeartbeat :: "string list \<Rightarrow> tunnel \<Rightarrow> bool \<times> tunnel_effect list" where
  "sendHeartbeat deviceIds t = tunnel_send (buildHeartbeatMessage deviceIds) t"

definition sendOutcome :: "string \<Rightarrow> command_outcome \<Rightarrow> tunnel \<Rightarrow> bool \<times> tunnel_effect list" where
  "sendOutcome requestId outcome t = tunnel_send (buildCommandResultMessage requestId outcome) t"

text \<open>\<open>encodeAgentFrame\<close> may throw; the counters of the frame are then not updated, the peak is.\<close>

definition sendFrame :: "agent_frame \<Rightarrow> nat \<Rightarrow> tunnel \<Rightarrow> tunnel \<times> tunnel_effect list \<times> (frame_error + bool)" where
  "sendFrame frame buffered t =
    (if tn_phase t \<noteq> Open_ready then (t, [], Inr False)
     else let t = t\<lparr>tn_peak := max (tn_peak t) buffered\<rparr> in
       case decideFrameSend (af_isKey frame) buffered of
         Drop_queue_full \<Rightarrow>
           (t\<lparr>tn_droppedKey := tn_droppedKey t + 1, tn_dropped := tn_dropped t + 1\<rparr>, [], Inr False)
       | Drop_backpressure \<Rightarrow> (t\<lparr>tn_dropped := tn_dropped t + 1\<rparr>, [], Inr False)
       | Send_frame \<Rightarrow> (case encodeAgentFrame frame of
           Inl e \<Rightarrow> (t, [], Inl e)
         | Inr payload \<Rightarrow>
             (t\<lparr>tn_sent := tn_sent t + 1, tn_sentBytes := tn_sentBytes t + length payload\<rparr>, [Binary payload], Inr True)))"

text \<open>\<open>handleServerMessage\<close> up to the await of the command's outcome.\<close>

definition handleServerMessage :: "json option \<Rightarrow> tunnel_effect list" where
  "handleServerMessage raw = (case parseServerMessage raw of
      None \<Rightarrow> []
    | Some (StreamDemand deviceIds) \<Rightarrow> [On_stream_demand deviceIds]
    | Some (OccupancyEnded deviceId occupantId) \<Rightarrow> [On_occupancy_ended deviceId occupantId]
    | Some (Command requestId deviceId occupantId action) \<Rightarrow> [On_command requestId deviceId occupantId action])"

section \<open>Steps\<close>

datatype tunnel_event =
    Opened
  | Received "json option"
  | Pong_received
  | Closed nat
  | Stable_elapsed
  | Ping_elapsed
  | Pong_elapsed
  | Reconnect_elapsed
  | Shut_down
  | Frame agent_frame nat
  | Register_devices "register_device list"
  | Send_heartbeat "string list"
  | Command_settled string command_outcome

text \<open>When the event can occur: a timer is pending, the socket is in a state that emits it.\<close>

fun tunnel_enabled :: "tunnel_event \<Rightarrow> tunnel \<Rightarrow> bool" where
  "tunnel_enabled Opened t = (tn_phase t = Connecting)"
| "tunnel_enabled (Received _) t = (tn_phase t = Open_ready \<or> tn_phase t = Closing)"
| "tunnel_enabled Pong_received t = (tn_phase t = Open_ready \<or> tn_phase t = Closing)"
| "tunnel_enabled (Closed _) t = (tn_phase t \<noteq> Idle)"
| "tunnel_enabled Stable_elapsed t = (tn_stable t = Some Pending)"
| "tunnel_enabled Ping_elapsed t = (tn_ping t = Some Pending)"
| "tunnel_enabled Pong_elapsed t = (tn_pong t = Some Pending)"
| "tunnel_enabled Reconnect_elapsed t = (\<exists>delay\<in>set_option (tn_reconnect t). fst delay = Pending)"
| "tunnel_enabled _ t = True"

fun tunnel_handle :: "tunnel_event \<Rightarrow> tunnel \<Rightarrow> tunnel \<times> tunnel_effect list" where
  "tunnel_handle Opened t = on_open t"
| "tunnel_handle (Received raw) t = (t, handleServerMessage raw)"
| "tunnel_handle Pong_received t = (on_pong t, [])"
| "tunnel_handle (Closed c) t = on_close c t"
| "tunnel_handle Stable_elapsed t = (on_stable t, [])"
| "tunnel_handle Ping_elapsed t = on_ping_tick t"
| "tunnel_handle Pong_elapsed t = on_pong_timeout t"
| "tunnel_handle Reconnect_elapsed t = on_reconnect_timer t"
| "tunnel_handle Shut_down t = tunnel_close t"
| "tunnel_handle (Frame f buffered) t = (case sendFrame f buffered t of (t, effs, _) \<Rightarrow> (t, effs))"
| "tunnel_handle (Register_devices ds) t = (t, snd (sendRegister ds t))"
| "tunnel_handle (Send_heartbeat ids) t = (t, snd (sendHeartbeat ids t))"
| "tunnel_handle (Command_settled requestId outcome) t = (t, snd (sendOutcome requestId outcome t))"

definition tunnel_step :: "tunnel_event \<Rightarrow> tunnel \<Rightarrow> tunnel \<times> tunnel_effect list" where
  "tunnel_step ev t = (if tunnel_enabled ev t then tunnel_handle ev t else (t, []))"

text \<open>The states a tunnel goes through after its first \<open>connect\<close>.\<close>

inductive tunnel_reached :: "tunnel \<Rightarrow> bool" where
  start: "tunnel_reached (fst (tunnel_connect tunnel_init))"
| step: "tunnel_reached t \<Longrightarrow> tunnel_reached (fst (tunnel_step ev t))"

text \<open>
  Never stuck: unless it was shut down, a tunnel has a live socket or a pending reconnect of one to
  thirty seconds, never both; connection timers exist only with a connection that was established.
\<close>

definition tunnel_inv :: "tunnel \<Rightarrow> bool" where
  "tunnel_inv t \<longleftrightarrow>
    (tn_isClosed t \<longrightarrow> tn_reconnect t = None \<and> tn_stable t = None \<and> tn_ping t = None \<and> tn_pong t = None \<and>
       (tn_phase t = Idle \<or> tn_phase t = Closing)) \<and>
    (\<not> tn_isClosed t \<longrightarrow> (tn_phase t = Idle \<longleftrightarrow> (\<exists>delay. tn_reconnect t = Some (Pending, delay)))) \<and>
    (\<forall>tm delay. tn_reconnect t = Some (tm, delay) \<longrightarrow> 1000 \<le> delay \<and> delay \<le> backoff_max_ms) \<and>
    (tn_phase t = Idle \<or> tn_phase t = Connecting \<longrightarrow> tn_stable t = None \<and> tn_ping t = None \<and> tn_pong t = None) \<and>
    (tn_phase t = Open_ready \<longrightarrow> tn_ping t = Some Pending \<and> tn_pong t \<noteq> Some Fired) \<and>
    tn_droppedKey t \<le> tn_dropped t"

lemma backoff_bounds: "1000 \<le> backoffDelayMs n \<and> backoffDelayMs n \<le> backoff_max_ms"
proof -
  have "1 \<le> (2 :: int) ^ n" by simp
  then show ?thesis by (simp add: backoffDelayMs_def backoff_base_ms_def backoff_max_ms_def)
qed

lemmas tunnel_defs = tunnel_connect_def on_open_def on_stable_def on_ping_tick_def on_pong_def on_pong_timeout_def
  stopConnectionTimers_def scheduleReconnect_def on_close_def on_reconnect_timer_def tunnel_close_def

lemma sendFrame_keeps:
  "tunnel_inv t \<Longrightarrow> sendFrame f b t = (t', effs, r) \<Longrightarrow> tunnel_inv t'"
  by (auto simp: sendFrame_def Let_def tunnel_inv_def split: frame_decision.splits sum.splits if_splits)

lemma tunnel_step_inv: "tunnel_inv t \<Longrightarrow> tunnel_inv (fst (tunnel_step ev t))"
proof (cases "tunnel_enabled ev t")
  case True
  assume inv: "tunnel_inv t"
  show ?thesis
  proof (cases ev)
    case (Closed c)
    with inv backoff_bounds [of "tn_attempt t"] True show ?thesis
      by (auto simp: tunnel_step_def tunnel_inv_def tunnel_defs backoff_max_ms_def)
  next
    case (Frame f b)
    with sendFrame_keeps [OF inv] show ?thesis by (auto simp: tunnel_step_def split: prod.split)
  qed (use inv True in \<open>auto simp: tunnel_step_def tunnel_inv_def tunnel_defs split: option.splits\<close>)
qed (simp add: tunnel_step_def)

lemma tunnel_reached_inv: "tunnel_reached t \<Longrightarrow> tunnel_inv t"
proof (induction rule: tunnel_reached.induct)
  case start
  show ?case by (simp add: tunnel_inv_def tunnel_connect_def tunnel_init_def)
next
  case (step t ev)
  then show ?case by (intro tunnel_step_inv)
qed

fun tunnel_run :: "tunnel_event list \<Rightarrow> tunnel \<Rightarrow> tunnel \<times> tunnel_effect list" where
  "tunnel_run [] t = (t, [])"
| "tunnel_run (ev # evs) t =
    (let (t, effs) = tunnel_step ev t; (t, rest) = tunnel_run evs t in (t, effs @ rest))"

lemma tunnel_run_append: "tunnel_run (xs @ ys) t =
    (fst (tunnel_run ys (fst (tunnel_run xs t))),
     snd (tunnel_run xs t) @ snd (tunnel_run ys (fst (tunnel_run xs t))))"
  by (induction xs arbitrary: t) (simp_all add: split_def Let_def)

text \<open>\<open>n\<close> connections in a row that the other side ends with \<open>closeCode\<close> before they are stable.\<close>

definition short_connections :: "nat \<Rightarrow> nat \<Rightarrow> tunnel_event list" where
  "short_connections n closeCode = concat (replicate n [Closed closeCode, Reconnect_elapsed, Opened])"

lemma short_connections_state:
  "tn_phase t = Open_ready \<Longrightarrow> \<not> tn_isClosed t \<Longrightarrow> closeCode \<notin> set terminal_close_codes \<Longrightarrow>
    tn_phase (fst (tunnel_run (short_connections n closeCode) t)) = Open_ready \<and>
    \<not> tn_isClosed (fst (tunnel_run (short_connections n closeCode) t)) \<and>
    tn_attempt (fst (tunnel_run (short_connections n closeCode) t)) = tn_attempt t + n"
proof (induction n arbitrary: t)
  case 0
  then show ?case by (simp add: short_connections_def)
next
  case (Suc n)
  let ?t = "fst (tunnel_run [Closed closeCode, Reconnect_elapsed, Opened] t)"
  have "tn_phase ?t = Open_ready" "\<not> tn_isClosed ?t" "tn_attempt ?t = tn_attempt t + 1"
    using Suc.prems by (simp_all add: tunnel_step_def tunnel_defs)
  from Suc.IH [OF this(1,2) Suc.prems(3)] this(3) show ?case
    by (simp only: short_connections_def replicate_Suc concat.simps tunnel_run_append fst_conv) simp
qed

lemma handleServerMessage_callbacks:
  "e \<in> set (handleServerMessage raw) \<Longrightarrow>
    (\<exists>r d occ a. e = On_command r d occ a) \<or> (\<exists>d occ. e = On_occupancy_ended d occ) \<or> (\<exists>ids. e = On_stream_demand ids)"
  unfolding handleServerMessage_def
  by (cases "parseServerMessage raw"; simp; cases "the (parseServerMessage raw)"; simp)

lemma closed_stays_silent:
  "tn_isClosed t \<Longrightarrow> tunnel_inv t \<Longrightarrow>
    tn_isClosed (fst (tunnel_step ev t)) \<and> (\<forall>e\<in>set (snd (tunnel_step ev t)).
      e \<noteq> Connect_socket \<and> e \<noteq> Ping_socket \<and> e \<noteq> On_open \<and> (\<forall>j. e \<noteq> Text j) \<and> (\<forall>b. e \<noteq> Binary b))"
proof (cases ev)
  case (Received raw)
  assume "tn_isClosed t"
  then show ?thesis
    by (auto simp: Received tunnel_step_def dest!: handleServerMessage_callbacks)
qed (auto simp: tunnel_step_def tunnel_inv_def tunnel_defs sendFrame_def sendRegister_def sendHeartbeat_def
    sendOutcome_def tunnel_send_def)

lemma closed_stays_silent_run:
  "tn_isClosed t \<Longrightarrow> tunnel_inv t \<Longrightarrow> e \<in> set (snd (tunnel_run evs t)) \<Longrightarrow>
    e \<noteq> Connect_socket \<and> e \<noteq> Ping_socket \<and> e \<noteq> On_open \<and> (\<forall>j. e \<noteq> Text j) \<and> (\<forall>b. e \<noteq> Binary b)"
proof (induction evs arbitrary: t)
  case (Cons ev evs)
  then show ?case
    using closed_stays_silent [of t ev] tunnel_step_inv [of t ev] by (fastforce simp: split_def Let_def)
qed simp

text \<open>
  C20: The tunnel is never stuck and never floods: in every state it can be in, until it is shut down, it
  either has a live socket or one pending reconnect, not both, whose firing opens a new connection;
  a closed connection is retried after 30 seconds if the code is a terminal one and otherwise after
  min(1000 * 2^n, 30000) ms, n being the connections lost in a row since one was stable for 30 s
  (being established is not enough to reset n); and once shut down it never connects, pings or sends
  again.
\<close>

theorem tunnel_reconnects:
  assumes "tunnel_reached t"
  shows "(\<not> tn_isClosed t \<longrightarrow>
      (tn_phase t = Idle \<longleftrightarrow> (\<exists>delay. tn_reconnect t = Some (Pending, delay) \<and> 1000 \<le> delay \<and> delay \<le> 30000)) \<and>
      (tn_phase t = Idle \<longrightarrow>
        snd (tunnel_run [Reconnect_elapsed, Opened] t) = [Connect_socket, On_open] \<and>
        tn_phase (fst (tunnel_run [Reconnect_elapsed, Opened] t)) = Open_ready \<and>
        tn_attempt (fst (tunnel_run [Reconnect_elapsed, Opened] t)) = tn_attempt t)) \<and>
    (\<not> tn_isClosed t \<longrightarrow> tn_phase t \<noteq> Idle \<longrightarrow> closeCode \<in> set terminal_close_codes \<longrightarrow>
      tn_reconnect (fst (tunnel_step (Closed closeCode) t)) = Some (Pending, 30000)) \<and>
    (\<not> tn_isClosed t \<longrightarrow> tn_phase t = Open_ready \<longrightarrow> closeCode \<notin> set terminal_close_codes \<longrightarrow>
      tn_reconnect (fst (tunnel_run (Stable_elapsed # short_connections n closeCode @ [Closed closeCode]) t)) =
        Some (Pending, min (1000 * 2 ^ (if tn_stable t = Some Pending then n else tn_attempt t + n)) 30000)) \<and>
    (\<forall>e\<in>set (snd (tunnel_run evs (fst (tunnel_step Shut_down t)))).
      e \<noteq> Connect_socket \<and> e \<noteq> Ping_socket \<and> (\<forall>j. e \<noteq> Text j) \<and> (\<forall>b. e \<noteq> Binary b))"
proof -
  have inv: "tunnel_inv t" by (rule tunnel_reached_inv [OF assms])
  have "tn_isClosed (fst (tunnel_step Shut_down t))" by (simp add: tunnel_step_def tunnel_defs)
  note silent = closed_stays_silent_run [OF this tunnel_step_inv [OF inv]]
  have reconnect: "\<not> tn_isClosed t \<longrightarrow>
      (tn_phase t = Idle \<longleftrightarrow> (\<exists>delay. tn_reconnect t = Some (Pending, delay) \<and> 1000 \<le> delay \<and> delay \<le> 30000))"
    using inv unfolding tunnel_inv_def backoff_max_ms_def by blast
  have opens: "\<not> tn_isClosed t \<longrightarrow> tn_phase t = Idle \<longrightarrow>
        snd (tunnel_run [Reconnect_elapsed, Opened] t) = [Connect_socket, On_open] \<and>
        tn_phase (fst (tunnel_run [Reconnect_elapsed, Opened] t)) = Open_ready \<and>
        tn_attempt (fst (tunnel_run [Reconnect_elapsed, Opened] t)) = tn_attempt t"
    using reconnect by (auto simp: tunnel_step_def tunnel_defs)
  have terminal: "\<not> tn_isClosed t \<longrightarrow> tn_phase t \<noteq> Idle \<longrightarrow> closeCode \<in> set terminal_close_codes \<longrightarrow>
      tn_reconnect (fst (tunnel_step (Closed closeCode) t)) = Some (Pending, 30000)"
    by (simp add: tunnel_step_def tunnel_defs backoff_max_ms_def)
  have backoff: "tn_reconnect (fst (tunnel_run (Stable_elapsed # short_connections n closeCode @ [Closed closeCode]) t)) =
        Some (Pending, min (1000 * 2 ^ (if tn_stable t = Some Pending then n else tn_attempt t + n)) 30000)"
    if "\<not> tn_isClosed t" "tn_phase t = Open_ready" "closeCode \<notin> set terminal_close_codes"
  proof -
    let ?s = "fst (tunnel_step Stable_elapsed t)"
    have "tn_phase ?s = Open_ready" "\<not> tn_isClosed ?s"
      "tn_attempt ?s = (if tn_stable t = Some Pending then 0 else tn_attempt t)"
      using that by (simp_all add: tunnel_step_def on_stable_def)
    with short_connections_state [of ?s closeCode n] that(3) show ?thesis
      by (simp add: tunnel_run_append split_def Let_def tunnel_step_def [of "Closed closeCode"] tunnel_defs
          backoffDelayMs_def backoff_base_ms_def backoff_max_ms_def)
  qed
  show ?thesis using reconnect opens terminal backoff silent by blast
qed

theorem tunnel_reconnects_witness:
  "let t = fst (tunnel_step Opened (fst (tunnel_connect tunnel_init))) in
   tn_reconnect (fst (tunnel_run (Stable_elapsed # short_connections 3 1006 @ [Closed 1006]) t)) = Some (Pending, 8000)"
proof -
  let ?t = "fst (tunnel_step Opened (fst (tunnel_connect tunnel_init)))"
  have "tunnel_reached ?t" by (intro tunnel_reached.intros)
  moreover have "\<not> tn_isClosed ?t" "tn_phase ?t = Open_ready" "tn_stable ?t = Some Pending" by code_simp+
  moreover have "1006 \<notin> set terminal_close_codes" by (simp add: terminal_close_codes_def)
  ultimately show ?thesis using tunnel_reconnects [of ?t 1006 3] by simp
qed

end
