(* ===== verification/Packet_Parsers.thy ===== *)
theory Packet_Parsers
  imports Frame_Codec
begin

text \<open>
  The two incremental parsers of mirroring streams: \<open>HelperPacketParser\<close> (h264-stream.ts), which
  reads the packets of the iOS capture helper, and \<open>MirrorPacketParser\<close> (mirror-packet-parser.ts),
  which reads a preamble and then the packets of the Android mirror. A stream arrives in chunks cut
  anywhere; a damaged stream poisons the parser.

  \<open>packet_stream\<close> is the contract of one packet loop over a buffer, \<open>incremental_parser\<close> the contract
  of a parser fed with chunks: what it returns is what one parse of the whole stream returns.
\<close>

section \<open>The contracts\<close>

datatype 'p taken = Need_more | Corrupt | Taken 'p bytes

locale packet_stream =
  fixes take_packet :: "bytes \<Rightarrow> 'p taken"
    and packets :: "bytes \<Rightarrow> ('p list \<times> bytes) option"
  assumes packets_step: "packets buf = (case take_packet buf of
        Need_more \<Rightarrow> Some ([], buf)
      | Corrupt \<Rightarrow> None
      | Taken p rest \<Rightarrow> map_option (\<lambda>(ps, r). (p # ps, r)) (packets rest))"
    and taken_shorter: "take_packet buf = Taken p rest \<Longrightarrow> length rest < length buf"
    and taken_extends: "take_packet buf = Taken p rest \<Longrightarrow> take_packet (buf @ ext) = Taken p (rest @ ext)"
    and corrupt_extends: "take_packet buf = Corrupt \<Longrightarrow> take_packet (buf @ ext) = Corrupt"
begin

lemma packets_append:
  "packets (xs @ ys) = (case packets xs of
      None \<Rightarrow> None
    | Some (ps, r) \<Rightarrow> map_option (\<lambda>(qs, r'). (ps @ qs, r')) (packets (r @ ys)))"
proof (induction xs rule: length_induct)
  case (1 xs)
  show ?case
  proof (cases "take_packet xs")
    case Need_more
    then show ?thesis by (simp add: packets_step [of xs] option.map_ident case_prod_unfold)
  next
    case Corrupt
    then show ?thesis
      by (simp add: packets_step [of xs] packets_step [of "xs @ ys"] corrupt_extends)
  next
    case (Taken p rest)
    have IH: "packets (rest @ ys) = (case packets rest of None \<Rightarrow> None
        | Some (ps, r) \<Rightarrow> map_option (\<lambda>(qs, r'). (ps @ qs, r')) (packets (r @ ys)))"
      using "1.IH" taken_shorter [OF Taken] by blast
    then show ?thesis
      by (simp add: packets_step [of xs] packets_step [of "xs @ ys"] Taken taken_extends [OF Taken]
          option.map_comp case_prod_unfold comp_def split: option.split)
  qed
qed

lemma packets_residue: "packets xs = Some (ps, r) \<Longrightarrow> packets r = Some ([], r)"
proof (induction xs arbitrary: ps rule: length_induct)
  case (1 xs)
  show ?case
  proof (cases "take_packet xs")
    case (Taken p rest)
    then show ?thesis using "1.prems" "1.IH" taken_shorter [OF Taken] by (auto simp: packets_step [of xs])
  qed (use "1.prems" packets_step [of xs] in auto)
qed

end

definition feed :: "(bytes \<Rightarrow> 's \<Rightarrow> 's \<times> 'p list option) \<Rightarrow> bytes list \<Rightarrow> 's \<Rightarrow> 's \<times> 'p list option list" where
  "feed push chunks s = fold (\<lambda>c (s, out). let (s, r) = push c s in (s, out @ [r])) chunks (s, [])"

lemma feed_Nil [simp]: "feed push [] s = (s, [])"
  by (simp add: feed_def)

lemma feed_snoc: "feed push (cs @ [c]) s =
    (fst (push c (fst (feed push cs s))), snd (feed push cs s) @ [snd (push c (fst (feed push cs s)))])"
  by (simp add: feed_def split_def Let_def)

locale incremental_parser =
  fixes push :: "bytes \<Rightarrow> 's \<Rightarrow> 's \<times> 'p list option"
    and parse_all :: "bytes \<Rightarrow> 'p list option"
    and received :: "'s \<Rightarrow> bytes \<Rightarrow> bool"
    and dead :: "'s \<Rightarrow> bool"
  assumes push_ok: "received s xs \<Longrightarrow> parse_all xs = Some ps \<Longrightarrow> parse_all (xs @ c) = Some qs \<Longrightarrow>
      \<exists>s' new. push c s = (s', Some new) \<and> qs = ps @ new \<and> received s' (xs @ c)"
    and push_corrupt: "received s xs \<Longrightarrow> parse_all (xs @ c) = None \<Longrightarrow> snd (push c s) = None \<and> dead (fst (push c s))"
    and push_dead: "dead s \<Longrightarrow> push c s = (s, None)"
    and corrupt_stays: "parse_all xs = None \<Longrightarrow> parse_all (xs @ ys) = None"
    and parse_nothing: "parse_all [] = Some []"
begin

lemma feed_ok:
  "received s [] \<Longrightarrow> parse_all (concat cs) = Some ps \<Longrightarrow>
    None \<notin> set (snd (feed push cs s)) \<and> concat (map the (snd (feed push cs s))) = ps \<and>
    received (fst (feed push cs s)) (concat cs)"
proof (induction cs arbitrary: ps rule: rev_induct)
  case Nil
  then show ?case by (simp add: parse_nothing)
next
  case (snoc c cs)
  obtain qs where qs: "parse_all (concat cs) = Some qs"
    using corrupt_stays [of "concat cs" c] snoc.prems by (cases "parse_all (concat cs)") auto
  note IH = snoc.IH [OF snoc.prems(1) qs]
  then obtain s' new where "push c (fst (feed push cs s)) = (s', Some new)" "ps = qs @ new"
    "received s' (concat cs @ c)"
    using push_ok [of "fst (feed push cs s)" "concat cs" qs c ps] qs snoc.prems by auto
  then show ?case using IH by (simp add: feed_snoc)
qed

lemma feed_corrupt:
  "received s [] \<Longrightarrow> parse_all (concat cs) = None \<Longrightarrow>
    dead (fst (feed push cs s)) \<and> snd (feed push cs s) \<noteq> [] \<and> last (snd (feed push cs s)) = None"
proof (induction cs rule: rev_induct)
  case Nil
  then show ?case by (simp add: parse_nothing)
next
  case (snoc c cs)
  show ?case
  proof (cases "parse_all (concat cs)")
    case None
    then show ?thesis using snoc.IH [OF snoc.prems(1)] by (simp add: feed_snoc push_dead)
  next
    case (Some qs)
    then have "received (fst (feed push cs s)) (concat cs)" using feed_ok [OF snoc.prems(1)] by blast
    from push_corrupt [OF this] snoc.prems(2) show ?thesis by (simp add: feed_snoc)
  qed
qed

end

section \<open>HelperPacketParser\<close>

definition max_packet_bytes :: nat where "max_packet_bytes = 8 * 1024 * 1024"

record helper_packet =
  hp_isKey :: bool
  hp_payload :: bytes

record helper_parser =
  hp_buffer :: bytes
  hp_poisoned :: bool

definition helper_fresh :: helper_parser where
  "helper_fresh = \<lparr>hp_buffer = [], hp_poisoned = False\<rparr>"

text \<open>One turn of the loop over the buffer.\<close>

definition take_helper_packet :: "bytes \<Rightarrow> helper_packet taken" where
  "take_helper_packet buffer =
    (if length buffer \<ge> 5 then
       let len = rd32 buffer 0 in
       if len = 0 \<or> len > max_packet_bytes then Corrupt
       else if length buffer < 5 + len then Need_more
       else Taken \<lparr>hp_isKey = (buffer ! 4 = 1), hp_payload = take len (drop 5 buffer)\<rparr> (drop (5 + len) buffer)
     else Need_more)"

lemma take_helper_shorter: "take_helper_packet buffer = Taken p rest \<Longrightarrow> length rest < length buffer"
  by (auto simp: take_helper_packet_def Let_def split: if_splits)

function helper_packets :: "bytes \<Rightarrow> (helper_packet list \<times> bytes) option" where
  "helper_packets buffer = (case take_helper_packet buffer of
      Need_more \<Rightarrow> Some ([], buffer)
    | Corrupt \<Rightarrow> None
    | Taken p rest \<Rightarrow> map_option (\<lambda>(ps, r). (p # ps, r)) (helper_packets rest))"
  by auto

termination by (relation "measure length") (auto dest: take_helper_shorter)

declare helper_packets.simps [simp del]

definition helper_push :: "bytes \<Rightarrow> helper_parser \<Rightarrow> helper_parser \<times> helper_packet list option" where
  "helper_push chunk p =
    (if hp_poisoned p then (p, None)
     else (case helper_packets (hp_buffer p @ chunk) of
        None \<Rightarrow> (p\<lparr>hp_poisoned := True, hp_buffer := []\<rparr>, None)
      | Some (packets, rest) \<Rightarrow> (p\<lparr>hp_buffer := rest\<rparr>, Some packets)))"

definition helper_received :: "helper_parser \<Rightarrow> bytes \<Rightarrow> bool" where
  "helper_received p xs \<longleftrightarrow> \<not> hp_poisoned p \<and> (\<exists>ps. helper_packets xs = Some (ps, hp_buffer p))"

definition helper_parse_all :: "bytes \<Rightarrow> helper_packet list option" where
  "helper_parse_all xs = map_option fst (helper_packets xs)"

interpretation hs: packet_stream take_helper_packet helper_packets
proof unfold_locales
  fix buf show "helper_packets buf = (case take_helper_packet buf of Need_more \<Rightarrow> Some ([], buf) | Corrupt \<Rightarrow> None
      | Taken p rest \<Rightarrow> map_option (\<lambda>(ps, r). (p # ps, r)) (helper_packets rest))"
    by (rule helper_packets.simps)
next
  fix buf p rest show "take_helper_packet buf = Taken p rest \<Longrightarrow> length rest < length buf"
    by (rule take_helper_shorter)
next
  fix buf ext :: bytes and p rest
  show "take_helper_packet buf = Taken p rest \<Longrightarrow> take_helper_packet (buf @ ext) = Taken p (rest @ ext)"
    by (auto simp: take_helper_packet_def Let_def rd32_local nth_append split: if_splits)
next
  fix buf ext :: bytes
  show "take_helper_packet buf = Corrupt \<Longrightarrow> take_helper_packet (buf @ ext) = Corrupt"
    by (auto simp: take_helper_packet_def Let_def rd32_local split: if_splits)
qed

interpretation hp: incremental_parser helper_push helper_parse_all helper_received "\<lambda>p. hp_poisoned p \<and> hp_buffer p = []"
proof unfold_locales
  fix s xs ps c qs
  assume "helper_received s xs" "helper_parse_all xs = Some ps" "helper_parse_all (xs @ c) = Some qs"
  then show "\<exists>s' new. helper_push c s = (s', Some new) \<and> qs = ps @ new \<and> helper_received s' (xs @ c)"
    by (auto simp: helper_received_def helper_parse_all_def helper_push_def hs.packets_append [of xs c]
        split: option.splits prod.splits)
next
  fix s xs c
  assume "helper_received s xs" "helper_parse_all (xs @ c) = None"
  then show "snd (helper_push c s) = None \<and> hp_poisoned (fst (helper_push c s)) \<and> hp_buffer (fst (helper_push c s)) = []"
    by (auto simp: helper_received_def helper_parse_all_def helper_push_def hs.packets_append [of xs c]
        split: option.splits prod.splits)
qed (auto simp: helper_push_def helper_parse_all_def hs.packets_append helper_packets.simps [of "[]"]
      take_helper_packet_def split: option.splits)

lemma packets_residue_helper: "helper_packets xs = Some (ps, r) \<Longrightarrow> helper_packets r = Some ([], r)"
  by (rule hs.packets_residue)

lemma helper_received_fresh: "helper_received helper_fresh []"
  by (simp add: helper_received_def helper_fresh_def helper_packets.simps [of "[]"] take_helper_packet_def)

text \<open>What the helper writes for a packet.\<close>

definition helper_packet_bytes :: "helper_packet \<Rightarrow> bytes" where
  "helper_packet_bytes p = be32 (length (hp_payload p)) @ [if hp_isKey p then 1 else 0] @ hp_payload p"

definition valid_helper_packet :: "helper_packet \<Rightarrow> bool" where
  "valid_helper_packet p \<longleftrightarrow> hp_payload p \<noteq> [] \<and> length (hp_payload p) \<le> max_packet_bytes"

lemma take_helper_packet_bytes:
  "valid_helper_packet p \<Longrightarrow> take_helper_packet (helper_packet_bytes p @ rest) = Taken p rest"
  by (auto simp: take_helper_packet_def helper_packet_bytes_def valid_helper_packet_def Let_def rd32_be32
      max_packet_bytes_def nth_append)

lemma helper_packets_bytes:
  "list_all valid_helper_packet ps \<Longrightarrow> helper_packets (concat (map helper_packet_bytes ps) @ tail) =
    map_option (\<lambda>(qs, r). (ps @ qs, r)) (helper_packets tail)"
proof (induction ps)
  case Nil
  then show ?case by (simp add: option.map_ident case_prod_unfold)
next
  case (Cons p ps)
  then show ?case
    by (subst helper_packets.simps)
      (simp add: take_helper_packet_bytes option.map_comp comp_def case_prod_unfold)
qed

section \<open>MirrorPacketParser\<close>

definition mirror_magic :: nat where "mirror_magic = 0x4e424c41"
definition mirror_version :: nat where "mirror_version = 1"
definition codec_h264 :: u8 where "codec_h264 = 1"
definition preamble_bytes :: nat where "preamble_bytes = 16"
definition packet_header_bytes :: nat where "packet_header_bytes = 14"
definition flag_key :: u8 where "flag_key = 1"

record mirror_packet =
  mp_isKey :: bool
  mp_width :: nat
  mp_height :: nat
  mp_ptsMs :: nat
  mp_payload :: bytes

record mirror_preamble =
  pr_width :: nat
  pr_height :: nat

record mirror_parser =
  mr_buffer :: bytes
  mr_poisoned :: bool
  mr_preamble :: "mirror_preamble option"

definition mirror_fresh :: mirror_parser where
  "mirror_fresh = \<lparr>mr_buffer = [], mr_poisoned = False, mr_preamble = None\<rparr>"

definition consumePreamble :: "bytes \<Rightarrow> mirror_preamble taken" where
  "consumePreamble buffer =
    (if length buffer < preamble_bytes then Need_more
     else if rd32 buffer 0 \<noteq> mirror_magic then Corrupt
     else if rd16 buffer 4 \<noteq> mirror_version then Corrupt
     else if buffer ! 6 \<noteq> codec_h264 then Corrupt
     else let width = rd16 buffer 8; height = rd16 buffer 10 in
       if width = 0 \<or> height = 0 then Corrupt
       else Taken \<lparr>pr_width = width, pr_height = height\<rparr> (drop preamble_bytes buffer))"

definition take_mirror_packet :: "bytes \<Rightarrow> mirror_packet taken" where
  "take_mirror_packet buffer =
    (if length buffer \<ge> packet_header_bytes then
       let width = rd16 buffer 2; height = rd16 buffer 4; len = rd32 buffer 10 in
       if width = 0 \<or> height = 0 \<or> len = 0 \<or> len > max_packet_bytes then Corrupt
       else if length buffer < packet_header_bytes + len then Need_more
       else Taken \<lparr>mp_isKey = (and (buffer ! 0) flag_key \<noteq> 0), mp_width = width, mp_height = height,
              mp_ptsMs = rd32 buffer 6, mp_payload = take len (drop packet_header_bytes buffer)\<rparr>
            (drop (packet_header_bytes + len) buffer)
     else Need_more)"

lemma take_mirror_shorter: "take_mirror_packet buffer = Taken p rest \<Longrightarrow> length rest < length buffer"
  by (auto simp: take_mirror_packet_def Let_def packet_header_bytes_def split: if_splits)

function mirror_packets :: "bytes \<Rightarrow> (mirror_packet list \<times> bytes) option" where
  "mirror_packets buffer = (case take_mirror_packet buffer of
      Need_more \<Rightarrow> Some ([], buffer)
    | Corrupt \<Rightarrow> None
    | Taken p rest \<Rightarrow> map_option (\<lambda>(ps, r). (p # ps, r)) (mirror_packets rest))"
  by auto

termination by (relation "measure length") (auto dest: take_mirror_shorter)

declare mirror_packets.simps [simp del]

definition mirror_poison :: "mirror_parser \<Rightarrow> mirror_parser \<times> mirror_packet list option" where
  "mirror_poison p = (p\<lparr>mr_poisoned := True, mr_buffer := []\<rparr>, None)"

definition consumePackets :: "mirror_parser \<Rightarrow> mirror_parser \<times> mirror_packet list option" where
  "consumePackets p = (case mirror_packets (mr_buffer p) of
      None \<Rightarrow> mirror_poison p
    | Some (packets, rest) \<Rightarrow> (p\<lparr>mr_buffer := rest\<rparr>, Some packets))"

definition mirror_push :: "bytes \<Rightarrow> mirror_parser \<Rightarrow> mirror_parser \<times> mirror_packet list option" where
  "mirror_push chunk p =
    (if mr_poisoned p then (p, None)
     else let p = p\<lparr>mr_buffer := mr_buffer p @ chunk\<rparr> in
       case mr_preamble p of
         Some _ \<Rightarrow> consumePackets p
       | None \<Rightarrow> (case consumePreamble (mr_buffer p) of
           Need_more \<Rightarrow> (p, Some [])
         | Corrupt \<Rightarrow> mirror_poison p
         | Taken preamble rest \<Rightarrow> consumePackets (p\<lparr>mr_preamble := Some preamble, mr_buffer := rest\<rparr>)))"

definition mirror_received :: "mirror_parser \<Rightarrow> bytes \<Rightarrow> bool" where
  "mirror_received p xs \<longleftrightarrow> \<not> mr_poisoned p \<and> (case mr_preamble p of
      None \<Rightarrow> consumePreamble xs = Need_more \<and> mr_buffer p = xs
    | Some preamble \<Rightarrow> \<exists>rest ps. consumePreamble xs = Taken preamble rest \<and> mirror_packets rest = Some (ps, mr_buffer p))"

definition mirror_parse_all :: "bytes \<Rightarrow> mirror_packet list option" where
  "mirror_parse_all xs = (case consumePreamble xs of
      Need_more \<Rightarrow> Some []
    | Corrupt \<Rightarrow> None
    | Taken preamble rest \<Rightarrow> map_option fst (mirror_packets rest))"

lemma consumePreamble_extends:
  "consumePreamble buf = Taken p rest \<Longrightarrow> consumePreamble (buf @ ext) = Taken p (rest @ ext)"
  "consumePreamble buf = Corrupt \<Longrightarrow> consumePreamble (buf @ ext) = Corrupt"
  by (auto simp: consumePreamble_def preamble_bytes_def Let_def rd32_local rd16_local nth_append split: if_splits)

interpretation ms: packet_stream take_mirror_packet mirror_packets
proof unfold_locales
  fix buf show "mirror_packets buf = (case take_mirror_packet buf of Need_more \<Rightarrow> Some ([], buf) | Corrupt \<Rightarrow> None
      | Taken p rest \<Rightarrow> map_option (\<lambda>(ps, r). (p # ps, r)) (mirror_packets rest))"
    by (rule mirror_packets.simps)
next
  fix buf p rest show "take_mirror_packet buf = Taken p rest \<Longrightarrow> length rest < length buf"
    by (rule take_mirror_shorter)
next
  fix buf ext :: bytes and p rest
  show "take_mirror_packet buf = Taken p rest \<Longrightarrow> take_mirror_packet (buf @ ext) = Taken p (rest @ ext)"
    by (auto simp: take_mirror_packet_def packet_header_bytes_def Let_def rd32_local rd16_local nth_append
        split: if_splits)
next
  fix buf ext :: bytes
  show "take_mirror_packet buf = Corrupt \<Longrightarrow> take_mirror_packet (buf @ ext) = Corrupt"
    by (auto simp: take_mirror_packet_def packet_header_bytes_def Let_def rd32_local rd16_local split: if_splits)
qed

lemma mirror_packets_Nil [simp]: "mirror_packets [] = Some ([], [])"
  by (simp add: mirror_packets.simps [of "[]"] take_mirror_packet_def packet_header_bytes_def)

lemma mirror_push_ok:
  assumes "mirror_received s xs" "mirror_parse_all xs = Some ps" "mirror_parse_all (xs @ c) = Some qs"
  shows "\<exists>s' new. mirror_push c s = (s', Some new) \<and> qs = ps @ new \<and> mirror_received s' (xs @ c)"
proof (cases "mr_preamble s")
  case None
  with assms show ?thesis
    by (cases "consumePreamble (xs @ c)")
      (auto simp: mirror_received_def mirror_parse_all_def mirror_push_def consumePackets_def Let_def)
next
  case (Some preamble)
  with assms obtain rest ps' where "consumePreamble xs = Taken preamble rest" "mirror_packets rest = Some (ps', mr_buffer s)"
    by (auto simp: mirror_received_def)
  with assms Some show ?thesis
    by (auto simp: mirror_received_def mirror_parse_all_def mirror_push_def consumePackets_def Let_def
        consumePreamble_extends ms.packets_append [of rest c] split: option.splits prod.splits)
qed

lemma mirror_push_corrupt:
  assumes "mirror_received s xs" "mirror_parse_all (xs @ c) = None"
  shows "snd (mirror_push c s) = None \<and> mr_poisoned (fst (mirror_push c s)) \<and> mr_buffer (fst (mirror_push c s)) = []"
proof (cases "mr_preamble s")
  case None
  with assms show ?thesis
    by (cases "consumePreamble (xs @ c)")
      (auto simp: mirror_received_def mirror_parse_all_def mirror_push_def consumePackets_def mirror_poison_def Let_def)
next
  case (Some preamble)
  with assms obtain rest ps' where "consumePreamble xs = Taken preamble rest" "mirror_packets rest = Some (ps', mr_buffer s)"
    by (auto simp: mirror_received_def)
  with assms Some show ?thesis
    by (auto simp: mirror_parse_all_def mirror_push_def consumePackets_def mirror_poison_def mirror_received_def Let_def
        consumePreamble_extends ms.packets_append [of rest c] split: option.splits prod.splits)
qed

interpretation mp: incremental_parser mirror_push mirror_parse_all mirror_received
  "\<lambda>p. mr_poisoned p \<and> mr_buffer p = []"
proof unfold_locales
  fix xs ys show "mirror_parse_all xs = None \<Longrightarrow> mirror_parse_all (xs @ ys) = None"
    by (auto simp: mirror_parse_all_def consumePreamble_extends ms.packets_append split: taken.splits option.splits)
qed (auto simp: mirror_push_def mirror_parse_all_def consumePreamble_def preamble_bytes_def
      dest: mirror_push_ok mirror_push_corrupt)

text \<open>What the mirror writes: the preamble, then the packets.\<close>

definition mirror_preamble_bytes :: "mirror_preamble \<Rightarrow> bytes" where
  "mirror_preamble_bytes pr = be32 mirror_magic @ be16 mirror_version @ [codec_h264, 0] @
    be16 (pr_width pr) @ be16 (pr_height pr) @ be32 0"

definition mirror_packet_bytes :: "mirror_packet \<Rightarrow> bytes" where
  "mirror_packet_bytes p = [if mp_isKey p then flag_key else 0, 0] @ be16 (mp_width p) @ be16 (mp_height p) @
    be32 (mp_ptsMs p) @ be32 (length (mp_payload p)) @ mp_payload p"

definition valid_size :: "nat \<Rightarrow> nat \<Rightarrow> bool" where
  "valid_size w h \<longleftrightarrow> 0 < w \<and> w < 65536 \<and> 0 < h \<and> h < 65536"

definition valid_mirror_packet :: "mirror_packet \<Rightarrow> bool" where
  "valid_mirror_packet p \<longleftrightarrow> valid_size (mp_width p) (mp_height p) \<and> mp_ptsMs p < 2 ^ 32 \<and>
    mp_payload p \<noteq> [] \<and> length (mp_payload p) \<le> max_packet_bytes"

lemma consumePreamble_bytes:
  "valid_size (pr_width pr) (pr_height pr) \<Longrightarrow> consumePreamble (mirror_preamble_bytes pr @ rest) = Taken pr rest"
proof -
  assume "valid_size (pr_width pr) (pr_height pr)"
  moreover have "rd32 (mirror_preamble_bytes pr @ rest) 0 = mirror_magic"
    by (simp add: mirror_preamble_bytes_def rd32_be32 mirror_magic_def)
  moreover have "rd16 (mirror_preamble_bytes pr @ rest) 4 = mirror_version"
    by (simp add: mirror_preamble_bytes_def be32_def be16_def rd16_def mirror_version_def)
  moreover have "(mirror_preamble_bytes pr @ rest) ! 6 = codec_h264"
    by (simp add: mirror_preamble_bytes_def be32_def be16_def)
  moreover have "rd16 (mirror_preamble_bytes pr @ rest) 8 = rd16 (be16 (pr_width pr) @ be16 (pr_height pr) @ be32 0 @ rest) 0"
    by (simp add: mirror_preamble_bytes_def be32_def be16_def rd16_def)
  moreover have "rd16 (mirror_preamble_bytes pr @ rest) 10 = rd16 (be16 (pr_height pr) @ be32 0 @ rest) 0"
    by (simp add: mirror_preamble_bytes_def be32_def be16_def rd16_def)
  ultimately show ?thesis
    by (simp add: consumePreamble_def preamble_bytes_def valid_size_def rd16_be16 Let_def)
      (simp add: mirror_preamble_bytes_def be32_def be16_def)
qed

lemma take_mirror_packet_bytes:
  assumes "valid_mirror_packet p"
  shows "take_mirror_packet (mirror_packet_bytes p @ rest) = Taken p rest"
proof -
  let ?n = "length (mp_payload p)"
  define h where "h = [if mp_isKey p then flag_key else 0, 0] @ be16 (mp_width p) @ be16 (mp_height p) @
    be32 (mp_ptsMs p) @ be32 ?n"
  have buf: "mirror_packet_bytes p @ rest = h @ mp_payload p @ rest"
    by (simp add: mirror_packet_bytes_def h_def)
  have len: "length h = 14" and flag: "h ! 0 = (if mp_isKey p then flag_key else 0)"
    by (simp_all add: h_def)
  have n: "0 < ?n" "?n \<le> max_packet_bytes" "?n < 2 ^ 32"
    using assms by (simp_all add: valid_mirror_packet_def max_packet_bytes_def)
  have "rd16 h 2 = rd16 (be16 (mp_width p) @ []) 0" "rd16 h 4 = rd16 (be16 (mp_height p) @ []) 0"
    "rd32 h 6 = rd32 (be32 (mp_ptsMs p) @ []) 0" "rd32 h 10 = rd32 (be32 ?n @ []) 0"
    by (simp_all add: h_def be16_def be32_def rd16_def rd32_def)
  then have fields: "rd16 h 2 = mp_width p" "rd16 h 4 = mp_height p" "rd32 h 6 = mp_ptsMs p" "rd32 h 10 = ?n"
    using assms n rd16_be16 rd32_be32 by (simp_all only: valid_mirror_packet_def valid_size_def)
  have "take_mirror_packet (h @ mp_payload p @ rest) =
      Taken \<lparr>mp_isKey = (and (h ! 0) flag_key \<noteq> 0), mp_width = mp_width p, mp_height = mp_height p,
        mp_ptsMs = mp_ptsMs p, mp_payload = mp_payload p\<rparr> rest"
    using assms n
    by (simp add: take_mirror_packet_def packet_header_bytes_def len rd16_local rd32_local fields nth_append
        valid_mirror_packet_def valid_size_def Let_def)
  then show ?thesis by (simp add: buf flag flag_key_def)
qed

lemma mirror_packets_bytes:
  "list_all valid_mirror_packet ps \<Longrightarrow> mirror_packets (concat (map mirror_packet_bytes ps) @ tail) =
    map_option (\<lambda>(qs, r). (ps @ qs, r)) (mirror_packets tail)"
proof (induction ps)
  case Nil
  then show ?case by (simp add: option.map_ident case_prod_unfold)
next
  case (Cons p ps)
  then show ?case
    by (subst mirror_packets.simps)
      (simp add: take_mirror_packet_bytes option.map_comp comp_def case_prod_unfold)
qed

section \<open>The parsers give back what was written\<close>

text \<open>
  C26: Whatever the cuts between chunks, the helper parser returns exactly the packets the helper wrote,
  in order, and keeps the unfinished rest; when what follows them has an impossible length the parser
  ends poisoned and empty, its last answer is \<open>null\<close> and so is every later one.
\<close>

theorem helper_stream:
  assumes "list_all valid_helper_packet ps" and "concat chunks = concat (map helper_packet_bytes ps) @ tail"
  shows "case feed helper_push chunks helper_fresh of (p, out) \<Rightarrow>
    (case take_helper_packet tail of
      Need_more \<Rightarrow> None \<notin> set out \<and> concat (map the out) = ps \<and> p = \<lparr>hp_buffer = tail, hp_poisoned = False\<rparr>
    | Corrupt \<Rightarrow> last out = None \<and> p = \<lparr>hp_buffer = [], hp_poisoned = True\<rparr> \<and>
        (\<forall>chunk. helper_push chunk p = (p, None))
    | Taken _ _ \<Rightarrow> True)"
proof -
  note all = helper_packets_bytes [OF assms(1), of tail] helper_packets.simps [of tail]
  obtain p out where run: "feed helper_push chunks helper_fresh = (p, out)" by fastforce
  show ?thesis
  proof (cases "take_helper_packet tail")
    case Need_more
    then have "helper_parse_all (concat chunks) = Some ps" by (simp add: helper_parse_all_def assms(2) all)
    from hp.feed_ok [OF helper_received_fresh this] show ?thesis
      by (cases p) (simp add: run Need_more helper_received_def assms(2) all)
  next
    case Corrupt
    then have "helper_parse_all (concat chunks) = None" by (simp add: helper_parse_all_def assms(2) all)
    from hp.feed_corrupt [OF helper_received_fresh this] show ?thesis
      by (cases p) (simp add: run Corrupt helper_push_def)
  qed (simp add: run)
qed

lemma sample_helper_stream:
  "list_all valid_helper_packet [\<lparr>hp_isKey = True, hp_payload = [7, 8]\<rparr>]"
  "take_helper_packet [0, 0, 0, 0, 9] = Corrupt"
  "concat [[0, 0], [0, 2, 1, 7], [8, 0, 0, 0, 0, 9]] =
    concat (map helper_packet_bytes [\<lparr>hp_isKey = True, hp_payload = [7, 8]\<rparr>]) @ [0, 0, 0, 0, 9]"
  by (simp_all add: valid_helper_packet_def max_packet_bytes_def take_helper_packet_def rd32_def rd16_def
      helper_packet_bytes_def be32_def be16_def)

theorem helper_stream_witness:
  "last (snd (feed helper_push [[0, 0], [0, 2, 1, 7], [8, 0, 0, 0, 0, 9]] helper_fresh)) = None \<and>
   hp_poisoned (fst (feed helper_push [[0, 0], [0, 2, 1, 7], [8, 0, 0, 0, 0, 9]] helper_fresh))"
  using helper_stream [OF sample_helper_stream(1) sample_helper_stream(3)]
  by (simp add: split_def sample_helper_stream(2))

text \<open>
  Whatever the cuts between chunks, the mirror parser returns exactly the packets written after a
  valid preamble, each with its key flag, size and time, keeps the unfinished rest and the preamble;
  a packet header with a zero size, a zero length or one above the limit ends the stream for good.
\<close>

theorem mirror_stream:
  assumes "list_all valid_mirror_packet ps" and "valid_size (pr_width pr) (pr_height pr)"
    and "concat chunks = mirror_preamble_bytes pr @ concat (map mirror_packet_bytes ps) @ tail"
  shows "case feed mirror_push chunks mirror_fresh of (p, out) \<Rightarrow>
    (case take_mirror_packet tail of
      Need_more \<Rightarrow> None \<notin> set out \<and> concat (map the out) = ps \<and>
        p = \<lparr>mr_buffer = tail, mr_poisoned = False, mr_preamble = Some pr\<rparr>
    | Corrupt \<Rightarrow> last out = None \<and> mr_poisoned p \<and> mr_buffer p = [] \<and> (\<forall>chunk. mirror_push chunk p = (p, None))
    | Taken _ _ \<Rightarrow> True)"
proof -
  note all = mirror_packets_bytes [OF assms(1), of tail] mirror_packets.simps [of tail]
    consumePreamble_bytes [OF assms(2)]
  obtain p out where run: "feed mirror_push chunks mirror_fresh = (p, out)" by fastforce
  have fresh: "mirror_received mirror_fresh []"
    by (simp add: mirror_received_def mirror_fresh_def consumePreamble_def preamble_bytes_def)
  show ?thesis
  proof (cases "take_mirror_packet tail")
    case Need_more
    then have "mirror_parse_all (concat chunks) = Some ps" by (simp add: mirror_parse_all_def assms(3) all)
    from mp.feed_ok [OF fresh this] show ?thesis
      by (cases p) (auto simp: run Need_more mirror_received_def assms(3) all split: option.splits)
  next
    case Corrupt
    then have "mirror_parse_all (concat chunks) = None" by (simp add: mirror_parse_all_def assms(3) all)
    from mp.feed_corrupt [OF fresh this] show ?thesis
      by (cases p) (simp add: run Corrupt mirror_push_def)
  qed (simp add: run)
qed

definition sample_mirror_packet :: mirror_packet where
  "sample_mirror_packet =
    \<lparr>mp_isKey = True, mp_width = 1080, mp_height = 2400, mp_ptsMs = 70000, mp_payload = [1, 2, 3]\<rparr>"

definition sample_mirror_preamble :: mirror_preamble where
  "sample_mirror_preamble = \<lparr>pr_width = 1080, pr_height = 2400\<rparr>"

lemma sample_mirror_stream:
  "list_all valid_mirror_packet [sample_mirror_packet]"
  "valid_size (pr_width sample_mirror_preamble) (pr_height sample_mirror_preamble)"
  "take_mirror_packet [0, 0, 4] = Need_more"
  by (simp_all add: sample_mirror_packet_def sample_mirror_preamble_def valid_mirror_packet_def valid_size_def
      max_packet_bytes_def take_mirror_packet_def packet_header_bytes_def)

theorem mirror_stream_witness:
  "let stream = mirror_preamble_bytes sample_mirror_preamble @ concat (map mirror_packet_bytes [sample_mirror_packet]) @
         [0, 0, 4];
       (p, out) = feed mirror_push [take 9 stream, drop 9 stream] mirror_fresh
   in concat (map the out) = [sample_mirror_packet] \<and> mr_buffer p = [0, 0, 4] \<and>
      mr_preamble p = Some sample_mirror_preamble"
proof -
  let ?stream = "mirror_preamble_bytes sample_mirror_preamble @ concat (map mirror_packet_bytes [sample_mirror_packet]) @
    [0, 0, 4]"
  have "concat [take 9 ?stream, drop 9 ?stream] = ?stream"
    unfolding concat.simps append_Nil2 by (rule append_take_drop_id)
  from mirror_stream [OF sample_mirror_stream(1,2) this] show ?thesis
    unfolding Let_def split_def by (simp only: sample_mirror_stream(3) taken.case mirror_parser.simps)
qed

end
