(* ===== verification/Agent_Executor.thy ===== *)
theory Agent_Executor
  imports Shared_Protocol Js_Text "HOL-Library.Multiset"
begin

text \<open>
  The Agent's command path: the contract of a controller resolver (controller-registry.ts) and the
  composition of several (composite-resolver.ts), the request a controller is sent and the outcome
  read from its answer (controller-client.ts), and the per-device serial queue with its check of the
  occupation right before execution (command-executor.ts).

  The promise chain of a device is the list of the callbacks not yet run; a callback runs when the
  previous one has settled, so at most one controller request per device is in flight. What a
  controller answers is an event of the model.
\<close>

section \<open>Resolvers\<close>

record resolver =
  rs_resolve :: "string \<Rightarrow> string option"
  rs_isReady :: "string \<Rightarrow> bool"

text \<open>The contract: a ready device has an address, and addresses are not empty.\<close>

locale endpoint_resolver =
  fixes resolve :: "string \<Rightarrow> string option"
    and isReady :: "string \<Rightarrow> bool"
  assumes ready_resolves: "isReady i \<Longrightarrow> resolve i \<noteq> None"
    and address_nonempty: "resolve i \<noteq> Some []"
begin

lemma ready_address: "isReady i \<Longrightarrow> \<exists>url. resolve i = Some url \<and> url \<noteq> []"
  using ready_resolves [of i] address_nonempty [of i] by auto

lemma unresolved_not_ready: "resolve i = None \<Longrightarrow> \<not> isReady i"
  using ready_resolves [of i] by blast

end

fun composite_resolve :: "resolver list \<Rightarrow> string \<Rightarrow> string option" where
  "composite_resolve [] deviceId = None"
| "composite_resolve (r # rs) deviceId =
    (case rs_resolve r deviceId of
      None \<Rightarrow> composite_resolve rs deviceId
    | Some baseUrl \<Rightarrow> if baseUrl = [] then composite_resolve rs deviceId else Some baseUrl)"

definition composite_isReady :: "resolver list \<Rightarrow> string \<Rightarrow> bool" where
  "composite_isReady rs deviceId = list_ex (\<lambda>r. rs_resolve r deviceId \<noteq> None \<and> rs_isReady r deviceId) rs"

definition resolver_ok :: "resolver \<Rightarrow> bool" where
  "resolver_ok r \<longleftrightarrow> (\<forall>i. (rs_isReady r i \<longrightarrow> rs_resolve r i \<noteq> None) \<and> rs_resolve r i \<noteq> Some [])"

lemma composite_resolve_nonempty: "composite_resolve rs i \<noteq> Some []"
  by (induction rs) (auto split: option.splits)

lemma composite_resolve_None:
  "list_all resolver_ok rs \<Longrightarrow> composite_resolve rs i = None \<longleftrightarrow> list_all (\<lambda>r. rs_resolve r i = None) rs"
  by (induction rs) (auto simp: resolver_ok_def split: option.splits)

lemma composite_ok: "list_all resolver_ok rs \<Longrightarrow> endpoint_resolver (composite_resolve rs) (composite_isReady rs)"
  by unfold_locales
    (auto simp: composite_resolve_None composite_resolve_nonempty composite_isReady_def list_ex_iff list_all_iff)

section \<open>The controller's HTTP contract\<close>

definition toControllerRequest :: "device_action \<Rightarrow> string \<times> json" where
  "toControllerRequest action = (case action of
      Tap x y \<Rightarrow> (''/tap'', JObj [(''x'', json_num x), (''y'', json_num y)])
    | Swipe fx fy tx ty d \<Rightarrow> (''/swipe'', JObj
        [(''fromX'', json_num fx), (''fromY'', json_num fy), (''toX'', json_num tx), (''toY'', json_num ty),
         (''durationMs'', json_num d)])
    | TypeText t \<Rightarrow> (''/type'', JObj [(''text'', JStr t)])
    | Screenshot \<Rightarrow> (''/screenshot'', JObj [])
    | PressButton b \<Rightarrow> (''/press'', JObj [(''button'', JStr (button_name b))])
    | UiDump \<Rightarrow> (''/ui'', JObj []))"

text \<open>
  \<open>{ ...rest, coordWidth, coordHeight }\<close>: the remaining properties keep their order, an existing
  \<open>coordWidth\<close> keeps its place.
\<close>

definition normalizeScreenshotResult :: "json option \<Rightarrow> json option" where
  "normalizeScreenshotResult result = (case result of
      Some (JObj record) \<Rightarrow> (case (jget record ''widthPt'', jget record ''heightPt'') of
          (Some (JNum w), Some (JNum h)) \<Rightarrow>
            Some (JObj (jset ''coordHeight'' (JNum h) (jset ''coordWidth'' (JNum w)
              (jdel ''heightPt'' (jdel ''widthPt'' record)))))
        | _ \<Rightarrow> result)
    | _ \<Rightarrow> result)"

text \<open>What \<open>fetch\<close> gives: it throws or times out, an HTTP status, or a body (\<open>None\<close>: \<open>json()\<close> throws).\<close>

datatype http_answer = Fetch_failed | Http_status nat | Http_ok "json option"

definition headers_of :: "string option \<Rightarrow> (string \<times> string) list" where
  "headers_of controllerToken =
    (''content-type'', ''application/json'') #
    (case controllerToken of
      Some t \<Rightarrow> if t = [] then [] else [(''x-nebula-token'', t)]
    | None \<Rightarrow> [])"

definition client_outcome :: "device_action \<Rightarrow> http_answer \<Rightarrow> command_outcome" where
  "client_outcome action answer = (case answer of
      Fetch_failed \<Rightarrow> Failed ''controller connection failed or timed out''
    | Http_status status \<Rightarrow> Failed (''controller HTTP '' @ nat_text status)
    | Http_ok None \<Rightarrow> Failed ''controller connection failed or timed out''
    | Http_ok (Some result) \<Rightarrow>
        if action = Screenshot then Succeeded (normalizeScreenshotResult (Some result))
        else Succeeded (Some result))"

section \<open>The executor\<close>

definition max_queue_depth :: nat where "max_queue_depth = 5"
definition queue_stale_ms :: int where "queue_stale_ms = 15000"

record command =
  cm_requestId :: string
  cm_deviceId :: string
  cm_occupantId :: string
  cm_action :: device_action

record queued =
  q_command :: command
  q_baseUrl :: string
  q_enqueuedAtMs :: ms

record executor =
  ex_clients :: "string list"
  ex_queue :: "string \<Rightarrow> queued list"
  ex_running :: "string \<Rightarrow> queued option"
  ex_depths :: "(string, int) jsmap"
  ex_occupations :: "(string, string) jsmap"

definition executor_init :: executor where
  "executor_init = \<lparr>ex_clients = [], ex_queue = (\<lambda>_. []), ex_running = (\<lambda>_. None), ex_depths = [],
     ex_occupations = []\<rparr>"

datatype executor_output =
    Outcome command command_outcome
  | Request string queued

definition error_not_registered :: "string \<Rightarrow> string" where
  "error_not_registered i = ''controller of the device is not registered: '' @ i"

definition error_not_ready :: string where "error_not_ready = ''controller is getting ready''"
definition error_queue_full :: string where "error_queue_full = ''command queue is full''"
definition error_queue_stale :: string where "error_queue_stale = ''waited too long in the queue''"

definition depth_of :: "executor \<Rightarrow> string \<Rightarrow> int" where
  "depth_of ex i = (case jget (ex_depths ex) i of Some n \<Rightarrow> n | None \<Rightarrow> 0)"

definition enqueue :: "ms \<Rightarrow> string \<Rightarrow> command \<Rightarrow> executor \<Rightarrow> executor" where
  "enqueue now baseUrl c ex = (let i = cm_deviceId c in
    ex\<lparr>ex_clients := (if baseUrl \<in> set (ex_clients ex) then ex_clients ex else ex_clients ex @ [baseUrl]),
       ex_queue := (ex_queue ex)(i := ex_queue ex i @
         [\<lparr>q_command = c, q_baseUrl = baseUrl, q_enqueuedAtMs = now\<rparr>]),
       ex_depths := jset i (depth_of ex i + 1) (ex_depths ex),
       ex_occupations := jset i (cm_occupantId c) (ex_occupations ex)\<rparr>)"

text \<open>\<open>execute\<close> up to the promise it returns.\<close>

definition submit :: "resolver \<Rightarrow> ms \<Rightarrow> command \<Rightarrow> executor \<Rightarrow> executor \<times> executor_output list" where
  "submit r now c ex =
    (let i = cm_deviceId c; refuse = (\<lambda>e. (ex, [Outcome c (Failed e)])) in
     case rs_resolve r i of
       None \<Rightarrow> refuse (error_not_registered i)
     | Some baseUrl \<Rightarrow>
         if baseUrl = [] then refuse (error_not_registered i)
         else if \<not> rs_isReady r i then refuse error_not_ready
         else if depth_of ex i \<ge> int max_queue_depth then refuse error_queue_full
         else (enqueue now baseUrl c ex, []))"

text \<open>The \<open>finally\<close> of the stored tail.\<close>

definition settle_depth :: "string \<Rightarrow> executor \<Rightarrow> executor" where
  "settle_depth i ex =
    ex\<lparr>ex_depths := jset i ((case jget (ex_depths ex) i of Some n \<Rightarrow> n | None \<Rightarrow> 1) - 1) (ex_depths ex)\<rparr>"

text \<open>The callback of \<open>previous.then\<close>, once the previous command of the device has settled.\<close>

definition run_next :: "ms \<Rightarrow> string \<Rightarrow> executor \<Rightarrow> executor \<times> executor_output list" where
  "run_next now i ex =
    (case ex_running ex i of
      Some _ \<Rightarrow> (ex, [])
    | None \<Rightarrow> (case ex_queue ex i of
        [] \<Rightarrow> (ex, [])
      | q # rest \<Rightarrow>
          let ex = ex\<lparr>ex_queue := (ex_queue ex)(i := rest)\<rparr>; c = q_command q in
          if now - q_enqueuedAtMs q > queue_stale_ms
          then (settle_depth i ex, [Outcome c (Failed error_queue_stale)])
          else if jget (ex_occupations ex) (cm_deviceId c) \<noteq> Some (cm_occupantId c)
          then (settle_depth i ex, [Outcome c (Failed command_error_occupation_ended)])
          else (ex\<lparr>ex_running := (ex_running ex)(i := Some q)\<rparr>, [Request i q])))"

text \<open>The controller's answer to the request in flight.\<close>

definition request_done :: "string \<Rightarrow> http_answer \<Rightarrow> executor \<Rightarrow> executor \<times> executor_output list" where
  "request_done i answer ex =
    (case ex_running ex i of
      None \<Rightarrow> (ex, [])
    | Some q \<Rightarrow>
        (settle_depth i (ex\<lparr>ex_running := (ex_running ex)(i := None)\<rparr>),
         [Outcome (q_command q) (client_outcome (cm_action (q_command q)) answer)]))"

definition revokeOccupation :: "string \<Rightarrow> string \<Rightarrow> executor \<Rightarrow> executor" where
  "revokeOccupation deviceId occupantId ex =
    (if jget (ex_occupations ex) deviceId \<noteq> Some occupantId then ex
     else ex\<lparr>ex_occupations := jdel deviceId (ex_occupations ex)\<rparr>)"

definition revokeAllOccupations :: "executor \<Rightarrow> executor" where
  "revokeAllOccupations ex = ex\<lparr>ex_occupations := []\<rparr>"

section \<open>Runs of the executor\<close>

datatype executor_event =
    Submit resolver ms command
  | Run_next ms string
  | Request_done string http_answer
  | Revoke string string
  | Revoke_all

fun executor_step :: "executor_event \<Rightarrow> executor \<Rightarrow> executor \<times> executor_output list" where
  "executor_step (Submit r now c) ex = submit r now c ex"
| "executor_step (Run_next now i) ex = run_next now i ex"
| "executor_step (Request_done i a) ex = request_done i a ex"
| "executor_step (Revoke i occ) ex = (revokeOccupation i occ ex, [])"
| "executor_step Revoke_all ex = (revokeAllOccupations ex, [])"

fun executor_run :: "executor_event list \<Rightarrow> executor \<Rightarrow> executor \<times> executor_output list" where
  "executor_run [] ex = (ex, [])"
| "executor_run (ev # evs) ex =
    (let (ex, out) = executor_step ev ex; (ex, rest) = executor_run evs ex in (ex, out @ rest))"

definition waiting :: "executor \<Rightarrow> string \<Rightarrow> queued list" where
  "waiting ex i = (case ex_running ex i of None \<Rightarrow> [] | Some q \<Rightarrow> [q]) @ ex_queue ex i"

definition executor_inv :: "executor \<Rightarrow> bool" where
  "executor_inv ex \<longleftrightarrow> (\<forall>i. depth_of ex i = int (length (waiting ex i)) \<and> length (waiting ex i) \<le> max_queue_depth \<and>
    (\<forall>q\<in>set (waiting ex i). cm_deviceId (q_command q) = i))"

lemma executor_inv_init [simp]: "executor_inv executor_init"
  by (simp add: executor_inv_def executor_init_def depth_of_def waiting_def)

lemma settle_depth_simps [simp]:
  "ex_queue (settle_depth i ex) = ex_queue ex" "ex_running (settle_depth i ex) = ex_running ex"
  "ex_occupations (settle_depth i ex) = ex_occupations ex" "waiting (settle_depth i ex) j = waiting ex j"
  by (simp_all add: settle_depth_def waiting_def)

lemma depth_settle: "depth_of (settle_depth i ex) j =
    (if j = i then (case jget (ex_depths ex) i of None \<Rightarrow> 0 | Some n \<Rightarrow> n - 1) else depth_of ex j)"
  by (auto simp: settle_depth_def depth_of_def split: option.splits)

lemma depth_of_updates [simp]:
  "depth_of (ex\<lparr>ex_queue := qs\<rparr>) j = depth_of ex j" "depth_of (ex\<lparr>ex_running := rs\<rparr>) j = depth_of ex j"
  "depth_of (ex\<lparr>ex_occupations := os\<rparr>) j = depth_of ex j"
  by (simp_all add: depth_of_def)

lemma depth_settle_pos: "depth_of ex i > 0 \<Longrightarrow> depth_of (settle_depth i ex) j = depth_of ex j - (if j = i then 1 else 0)"
  by (simp add: depth_settle) (auto simp: depth_of_def split: option.splits)

text \<open>The five things a step can do to the commands of a device.\<close>

lemma submit_cases:
  obtains (refused) e where "submit r now c ex = (ex, [Outcome c (Failed e)])"
  | (accepted) baseUrl where "rs_resolve r (cm_deviceId c) = Some baseUrl" "rs_isReady r (cm_deviceId c)"
      "depth_of ex (cm_deviceId c) < int max_queue_depth" "submit r now c ex = (enqueue now baseUrl c ex, [])"
proof -
  have "(\<exists>e. submit r now c ex = (ex, [Outcome c (Failed e)])) \<or>
    (\<exists>u. rs_resolve r (cm_deviceId c) = Some u \<and> rs_isReady r (cm_deviceId c) \<and>
      depth_of ex (cm_deviceId c) < int max_queue_depth \<and> submit r now c ex = (enqueue now u c ex, []))"
    by (auto simp: submit_def Let_def split: option.split)
  then show thesis using refused accepted by blast
qed

lemma enqueue_simps [simp]:
  "ex_running (enqueue now u c ex) = ex_running ex"
  "ex_occupations (enqueue now u c ex) = jset (cm_deviceId c) (cm_occupantId c) (ex_occupations ex)"
  "waiting (enqueue now u c ex) j = waiting ex j @
    (if j = cm_deviceId c then [\<lparr>q_command = c, q_baseUrl = u, q_enqueuedAtMs = now\<rparr>] else [])"
  "depth_of (enqueue now u c ex) j = depth_of ex j + (if j = cm_deviceId c then 1 else 0)"
  by (auto simp: enqueue_def Let_def waiting_def depth_of_def split: option.splits)

lemma run_next_cases:
  obtains (idle) "ex_running ex i \<noteq> None \<or> ex_queue ex i = []" "run_next now i ex = (ex, [])"
  | (dropped) q rest e where "ex_running ex i = None" "ex_queue ex i = q # rest"
      "run_next now i ex = (settle_depth i (ex\<lparr>ex_queue := (ex_queue ex)(i := rest)\<rparr>), [Outcome (q_command q) (Failed e)])"
  | (sent) q rest where "ex_running ex i = None" "ex_queue ex i = q # rest"
      "run_next now i ex = (ex\<lparr>ex_queue := (ex_queue ex)(i := rest), ex_running := (ex_running ex)(i := Some q)\<rparr>,
         [Request i q])"
      "now - q_enqueuedAtMs q \<le> queue_stale_ms"
      "jget (ex_occupations ex) (cm_deviceId (q_command q)) = Some (cm_occupantId (q_command q))"
proof (cases "waiting ex i")
  case Nil
  then show ?thesis by (intro idle) (auto simp: waiting_def run_next_def split: option.splits)
next
  case (Cons q ws)
  show ?thesis
  proof (cases "ex_running ex i")
    case None
    with Cons have queue: "ex_queue ex i = q # ws" by (simp add: waiting_def)
    show ?thesis
    proof (cases "now - q_enqueuedAtMs q > queue_stale_ms \<or>
        jget (ex_occupations ex) (cm_deviceId (q_command q)) \<noteq> Some (cm_occupantId (q_command q))")
      case True
      then show ?thesis using None queue by (intro dropped [OF None queue,
            of "if now - q_enqueuedAtMs q > queue_stale_ms then error_queue_stale else command_error_occupation_ended"])
          (auto simp: run_next_def Let_def)
    next
      case False
      then show ?thesis using None queue by (intro sent [OF None queue]) (auto simp: run_next_def Let_def)
    qed
  qed (auto intro: idle simp: run_next_def)
qed

lemma request_done_cases:
  obtains (idle) "request_done i a ex = (ex, [])"
  | (answered) q where "ex_running ex i = Some q"
      "request_done i a ex = (settle_depth i (ex\<lparr>ex_running := (ex_running ex)(i := None)\<rparr>),
        [Outcome (q_command q) (client_outcome (cm_action (q_command q)) a)])"
  unfolding request_done_def by (cases "ex_running ex i") auto

lemma inv_depth_pos: "executor_inv ex \<Longrightarrow> waiting ex i \<noteq> [] \<Longrightarrow> depth_of ex i > 0"
  by (simp add: executor_inv_def)

lemma inv_pop:
  assumes "executor_inv ex" "waiting ex i \<noteq> []" "\<And>j. waiting ex' j = (if j = i then tl (waiting ex i) else waiting ex j)"
    and "\<And>j. depth_of ex' j = depth_of ex j - (if j = i then 1 else 0)"
  shows "executor_inv ex'"
  unfolding executor_inv_def
proof (intro allI)
  fix j
  have "depth_of ex j = int (length (waiting ex j))" "length (waiting ex j) \<le> max_queue_depth"
    "\<forall>q\<in>set (waiting ex j). cm_deviceId (q_command q) = j"
    using assms(1) by (simp_all add: executor_inv_def)
  then show "depth_of ex' j = int (length (waiting ex' j)) \<and> length (waiting ex' j) \<le> max_queue_depth \<and>
      (\<forall>q\<in>set (waiting ex' j). cm_deviceId (q_command q) = j)"
    using assms(2-4) by (cases "waiting ex i") auto
qed

lemma inv_same:
  "executor_inv ex \<Longrightarrow> (\<And>j. waiting ex' j = waiting ex j) \<Longrightarrow> (\<And>j. depth_of ex' j = depth_of ex j) \<Longrightarrow>
    executor_inv ex'"
  by (simp add: executor_inv_def)

lemma executor_step_inv: "executor_inv ex \<Longrightarrow> executor_inv (fst (executor_step ev ex))"
proof (cases ev)
  case (Submit r now c)
  assume inv: "executor_inv ex"
  show ?thesis unfolding Submit executor_step.simps
    by (rule submit_cases [of r now c ex])
      (use inv in \<open>auto simp: executor_inv_def max_queue_depth_def\<close>)
next
  case (Run_next now i)
  assume inv: "executor_inv ex"
  show ?thesis unfolding Run_next executor_step.simps
  proof (rule run_next_cases [of ex i now])
    fix q rest e assume *: "ex_running ex i = None" "ex_queue ex i = q # rest"
      "run_next now i ex = (settle_depth i (ex\<lparr>ex_queue := (ex_queue ex)(i := rest)\<rparr>), [Outcome (q_command q) (Failed e)])"
    then have w: "waiting ex i = q # rest" by (simp add: waiting_def)
    then have "depth_of ex i > 0" by (intro inv_depth_pos [OF inv]) simp
    then show "executor_inv (fst (run_next now i ex))"
      using * w by (intro inv_pop [OF inv, of i]) (auto simp: depth_settle_pos waiting_def)
  qed (auto intro: inv inv_same [OF inv] simp: waiting_def)
next
  case (Request_done i a)
  assume inv: "executor_inv ex"
  show ?thesis unfolding Request_done executor_step.simps
  proof (rule request_done_cases [of i a ex])
    fix q assume *: "ex_running ex i = Some q"
      "request_done i a ex = (settle_depth i (ex\<lparr>ex_running := (ex_running ex)(i := None)\<rparr>),
        [Outcome (q_command q) (client_outcome (cm_action (q_command q)) a)])"
    then have w: "waiting ex i = q # ex_queue ex i" by (simp add: waiting_def)
    then have "depth_of ex i > 0" by (intro inv_depth_pos [OF inv]) simp
    then show "executor_inv (fst (request_done i a ex))"
      using * w by (intro inv_pop [OF inv, of i]) (auto simp: depth_settle_pos waiting_def)
  qed (use inv in auto)
qed (auto simp: executor_inv_def waiting_def revokeOccupation_def revokeAllOccupations_def depth_of_def)

lemma executor_run_inv: "executor_inv ex \<Longrightarrow> executor_inv (fst (executor_run evs ex))"
  by (induction evs arbitrary: ex) (auto simp: split_def Let_def dest: executor_step_inv)

lemma executor_run_append:
  "executor_run (xs @ ys) ex =
    (fst (executor_run ys (fst (executor_run xs ex))),
     snd (executor_run xs ex) @ snd (executor_run ys (fst (executor_run xs ex))))"
  by (induction xs arbitrary: ex) (simp_all add: split_def Let_def)

section \<open>Every command is answered, once\<close>

fun submitted :: "executor_event list \<Rightarrow> command list" where
  "submitted [] = []"
| "submitted (Submit r now c # evs) = c # submitted evs"
| "submitted (_ # evs) = submitted evs"

definition answered :: "executor_output list \<Rightarrow> command list" where
  "answered out = concat (map (\<lambda>x. case x of Outcome c _ \<Rightarrow> [c] | Request _ _ \<Rightarrow> []) out)"

definition for_device :: "string \<Rightarrow> command list \<Rightarrow> command multiset" where
  "for_device i cs = mset (filter (\<lambda>c. cm_deviceId c = i) cs)"

lemma answered_simps [simp]:
  "answered [] = []" "answered (Outcome c r # out) = c # answered out" "answered (Request j q # out) = answered out"
  "answered (a @ b) = answered a @ answered b"
  by (simp_all add: answered_def)

lemma for_device_simps [simp]:
  "for_device i [] = {#}" "for_device i (a @ b) = for_device i a + for_device i b"
  "for_device i (c # cs) = (if cm_deviceId c = i then {#c#} else {#}) + for_device i cs"
  by (simp_all add: for_device_def)

lemma executor_step_accounts:
  "executor_inv ex \<Longrightarrow> for_device i (submitted [ev]) + mset (map q_command (waiting ex i)) =
    for_device i (answered (snd (executor_step ev ex))) + mset (map q_command (waiting (fst (executor_step ev ex)) i))"
proof (cases ev)
  case (Submit r now c)
  then show ?thesis by - (rule submit_cases [of r now c ex], auto)
next
  case (Run_next now j)
  assume inv: "executor_inv ex"
  show ?thesis unfolding Run_next executor_step.simps
    by (rule run_next_cases [of ex j now]) (use inv in \<open>auto simp: executor_inv_def waiting_def\<close>)
next
  case (Request_done j a)
  assume inv: "executor_inv ex"
  show ?thesis unfolding Request_done executor_step.simps
    by (rule request_done_cases [of j a ex]) (use inv in \<open>auto simp: executor_inv_def waiting_def\<close>)
qed (auto simp: waiting_def revokeOccupation_def revokeAllOccupations_def)

lemma submitted_Cons: "submitted (ev # evs) = submitted [ev] @ submitted evs"
  by (cases ev) simp_all

lemma submitted_append [simp]: "submitted (xs @ ys) = submitted xs @ submitted ys"
  by (induction xs rule: submitted.induct) simp_all

lemma executor_run_accounts:
  "executor_inv ex \<Longrightarrow> for_device i (submitted evs) + mset (map q_command (waiting ex i)) =
    for_device i (answered (snd (executor_run evs ex))) + mset (map q_command (waiting (fst (executor_run evs ex)) i))"
proof (induction evs arbitrary: ex)
  case Nil
  then show ?case by simp
next
  case (Cons ev evs)
  let ?ex = "fst (executor_step ev ex)"
  note step = executor_step_accounts [OF Cons.prems, of i ev]
  note rest = Cons.IH [OF executor_step_inv [OF Cons.prems], of ev]
  have "for_device i (submitted (ev # evs)) + mset (map q_command (waiting ex i)) =
      for_device i (submitted evs) + (for_device i (submitted [ev]) + mset (map q_command (waiting ex i)))"
    by (simp add: submitted_Cons [of ev evs] ac_simps)
  also have "\<dots> = for_device i (answered (snd (executor_step ev ex))) +
      (for_device i (submitted evs) + mset (map q_command (waiting ?ex i)))"
    by (simp only: step ac_simps)
  also have "\<dots> = for_device i (answered (snd (executor_run (ev # evs) ex))) +
      mset (map q_command (waiting (fst (executor_run (ev # evs) ex)) i))"
    by (simp only: rest) (simp add: split_def Let_def ac_simps)
  finally show ?case .
qed

text \<open>The device's chain runs to its end: the request in flight is answered, and each callback in turn.\<close>

definition drain :: "ms \<Rightarrow> http_answer \<Rightarrow> string \<Rightarrow> nat \<Rightarrow> executor_event list" where
  "drain now a i n = concat (replicate n [Run_next now i, Request_done i a])"

lemma submitted_drain [simp]: "submitted (drain now a i n) = []"
  by (induction n) (simp_all add: drain_def)

lemma drain_Suc: "drain now a i (Suc n) = Run_next now i # Request_done i a # drain now a i n"
  by (simp add: drain_def)

lemma drain_one:
  "ex_running ex i = None \<Longrightarrow>
    ex_running (fst (request_done i a (fst (run_next now i ex)))) i = None \<and>
    ex_queue (fst (request_done i a (fst (run_next now i ex)))) i = tl (ex_queue ex i)"
  by (rule run_next_cases [of ex i now]) (auto simp: request_done_def)

lemma drain_empties:
  "ex_running ex i = None \<Longrightarrow> length (ex_queue ex i) \<le> n \<Longrightarrow> waiting (fst (executor_run (drain now a i n) ex)) i = []"
proof (induction n arbitrary: ex)
  case 0
  then show ?case by (simp add: drain_def waiting_def)
next
  case (Suc n)
  let ?ex = "fst (request_done i a (fst (run_next now i ex)))"
  from drain_one [of ex i a now] Suc.prems have "ex_running ?ex i = None" "length (ex_queue ?ex i) \<le> n"
    by auto
  from Suc.IH [OF this] show ?case by (simp add: drain_Suc split_def Let_def)
qed

text \<open>
  C14: Every command the executor is given is answered exactly once, whatever the interleaving: at any
  moment the commands submitted for a device are those answered and those still waiting, of which
  there are at most five, counted exactly by the depth; and once the request in flight and the
  callbacks of the chain have run, the answered commands are exactly the submitted ones.
\<close>

theorem executor_answers:
  "let (ex, out) = executor_run evs executor_init;
       (ex', out') = executor_run (evs @ Request_done i a # drain now a i max_queue_depth) executor_init
   in for_device i (submitted evs) = for_device i (answered out) + mset (map q_command (waiting ex i)) \<and>
      depth_of ex i = int (length (waiting ex i)) \<and> length (waiting ex i) \<le> max_queue_depth \<and>
      for_device i (answered out') = for_device i (submitted evs) \<and> waiting ex' i = []"
proof -
  let ?s = "Request_done i a # drain now a i max_queue_depth"
  have init: "waiting executor_init i = []" by (simp add: executor_init_def waiting_def)
  have inv: "executor_inv (fst (executor_run evs executor_init))" by (rule executor_run_inv) simp
  let ?m = "fst (request_done i a (fst (executor_run evs executor_init)))"
  have "length (waiting (fst (executor_run evs executor_init)) i) \<le> max_queue_depth"
    using inv by (simp add: executor_inv_def)
  then have "ex_running ?m i = None" "length (ex_queue ?m i) \<le> max_queue_depth"
    by (auto simp: request_done_def waiting_def split: option.splits)
  then have empty: "waiting (fst (executor_run (evs @ ?s) executor_init)) i = []"
    by (simp add: executor_run_append split_def Let_def drain_empties)
  have "for_device i (submitted evs) = for_device i (answered (snd (executor_run evs executor_init))) +
      mset (map q_command (waiting (fst (executor_run evs executor_init)) i))"
    using executor_run_accounts [of executor_init i evs] init by simp
  moreover have "for_device i (answered (snd (executor_run (evs @ ?s) executor_init))) = for_device i (submitted evs)"
    using executor_run_accounts [of executor_init i "evs @ ?s"] init empty by simp
  ultimately show ?thesis
    using inv empty by (simp add: split_def Let_def executor_inv_def)
qed

section \<open>No ghost input\<close>

definition from_submits :: "executor_event list \<Rightarrow> executor \<Rightarrow> bool" where
  "from_submits evs ex \<longleftrightarrow> (\<forall>i. \<forall>q\<in>set (waiting ex i). \<exists>r. Submit r (q_enqueuedAtMs q) (q_command q) \<in> set evs \<and>
    rs_resolve r i = Some (q_baseUrl q) \<and> rs_isReady r i)"

lemma from_submits_subset:
  "from_submits evs ex \<Longrightarrow> (\<And>j. set (waiting ex' j) \<subseteq> set (waiting ex j)) \<Longrightarrow> from_submits (evs @ [ev]) ex'"
  unfolding from_submits_def by (metis Un_iff set_append subsetD)

lemma executor_step_from_submits: "from_submits evs ex \<Longrightarrow> from_submits (evs @ [ev]) (fst (executor_step ev ex))"
proof (cases ev)
  case (Submit r now c)
  assume old: "from_submits evs ex"
  show ?thesis unfolding Submit executor_step.simps
  proof (rule submit_cases [of r now c ex])
    fix u assume *: "rs_resolve r (cm_deviceId c) = Some u" "rs_isReady r (cm_deviceId c)"
      "submit r now c ex = (enqueue now u c ex, [])"
    then show "from_submits (evs @ [Submit r now c]) (fst (submit r now c ex))"
      using from_submits_subset [OF old, of ex "Submit r now c"] by (auto simp: from_submits_def)
  qed (auto intro: from_submits_subset [OF old])
next
  case (Run_next now i)
  assume old: "from_submits evs ex"
  show ?thesis unfolding Run_next executor_step.simps
    by (rule run_next_cases [of ex i now]; rule from_submits_subset [OF old]) (auto simp: waiting_def)
next
  case (Request_done i a)
  assume old: "from_submits evs ex"
  show ?thesis unfolding Request_done executor_step.simps
    by (rule request_done_cases [of i a ex]; rule from_submits_subset [OF old]) (auto simp: waiting_def)
qed (rule from_submits_subset, assumption, simp add: waiting_def revokeOccupation_def revokeAllOccupations_def)+

lemma executor_run_from_submits: "from_submits evs (fst (executor_run evs executor_init))"
proof (induction evs rule: rev_induct)
  case Nil
  show ?case by (simp add: from_submits_def executor_init_def waiting_def)
next
  case (snoc ev evs)
  from executor_step_from_submits [OF this, of ev] show ?case
    by (simp add: executor_run_append split_def Let_def)
qed

text \<open>The events that end the occupation of a device by an occupant.\<close>

fun ends_occupation :: "string \<Rightarrow> string \<Rightarrow> executor_event \<Rightarrow> executor \<Rightarrow> bool" where
  "ends_occupation i occ (Revoke j occ') ex \<longleftrightarrow> j = i \<and> occ' = occ"
| "ends_occupation i occ Revoke_all ex \<longleftrightarrow> True"
| "ends_occupation i occ (Submit r now c) ex \<longleftrightarrow>
    cm_deviceId c = i \<and> cm_occupantId c \<noteq> occ \<and> snd (submit r now c ex) = []"
| "ends_occupation i occ _ ex \<longleftrightarrow> False"

lemma ends_occupation_clears:
  "ends_occupation i occ ev ex \<Longrightarrow> jget (ex_occupations (fst (executor_step ev ex))) i \<noteq> Some occ"
proof (cases ev)
  case (Submit r now c)
  assume "ends_occupation i occ ev ex"
  then show ?thesis unfolding Submit by - (rule submit_cases [of r now c ex], auto)
qed (auto simp: revokeOccupation_def revokeAllOccupations_def)

lemma occupation_stays_ended:
  "jget (ex_occupations ex) i \<noteq> Some occ \<Longrightarrow> \<forall>c\<in>set (submitted [ev]). \<not> (cm_deviceId c = i \<and> cm_occupantId c = occ) \<Longrightarrow>
    jget (ex_occupations (fst (executor_step ev ex))) i \<noteq> Some occ"
proof (cases ev)
  case (Submit r now c)
  assume "jget (ex_occupations ex) i \<noteq> Some occ" "\<forall>c\<in>set (submitted [ev]). \<not> (cm_deviceId c = i \<and> cm_occupantId c = occ)"
  then show ?thesis unfolding Submit by - (rule submit_cases [of r now c ex], auto)
next
  case (Run_next now j)
  assume "jget (ex_occupations ex) i \<noteq> Some occ"
  then show ?thesis unfolding Run_next by - (rule run_next_cases [of ex j now], auto)
next
  case (Request_done j a)
  assume "jget (ex_occupations ex) i \<noteq> Some occ"
  then show ?thesis unfolding Request_done by - (rule request_done_cases [of j a ex], auto)
qed (auto simp: revokeOccupation_def revokeAllOccupations_def)

lemma request_needs_occupation:
  "executor_inv ex \<Longrightarrow> Request j q \<in> set (snd (executor_step ev ex)) \<Longrightarrow>
    \<exists>now. ev = Run_next now j \<and> cm_deviceId (q_command q) = j \<and> q \<in> set (waiting ex j) \<and>
      now - q_enqueuedAtMs q \<le> queue_stale_ms \<and> jget (ex_occupations ex) j = Some (cm_occupantId (q_command q))"
proof (cases ev)
  case (Submit r now c)
  assume "Request j q \<in> set (snd (executor_step ev ex))"
  then show ?thesis unfolding Submit by - (rule submit_cases [of r now c ex], auto)
next
  case (Run_next now i)
  assume inv: "executor_inv ex" and req: "Request j q \<in> set (snd (executor_step ev ex))"
  show ?thesis
  proof (rule run_next_cases [of ex i now])
    fix q' rest assume *: "ex_running ex i = None" "ex_queue ex i = q' # rest"
      "run_next now i ex = (ex\<lparr>ex_queue := (ex_queue ex)(i := rest), ex_running := (ex_running ex)(i := Some q')\<rparr>,
         [Request i q'])"
      "now - q_enqueuedAtMs q' \<le> queue_stale_ms"
      "jget (ex_occupations ex) (cm_deviceId (q_command q')) = Some (cm_occupantId (q_command q'))"
    then have "q' \<in> set (waiting ex i)" by (simp add: waiting_def)
    moreover from this inv have "cm_deviceId (q_command q') = i" unfolding executor_inv_def by blast
    ultimately show ?thesis using * req Run_next by auto
  qed (use req Run_next in auto)
next
  case (Request_done i a)
  assume "Request j q \<in> set (snd (executor_step ev ex))"
  then show ?thesis unfolding Request_done by - (rule request_done_cases [of i a ex], auto)
qed auto

lemma no_request_after_end:
  "executor_inv ex \<Longrightarrow> jget (ex_occupations ex) i \<noteq> Some occ \<Longrightarrow>
    \<forall>c\<in>set (submitted evs). \<not> (cm_deviceId c = i \<and> cm_occupantId c = occ) \<Longrightarrow>
    Request i q \<in> set (snd (executor_run evs ex)) \<Longrightarrow> cm_occupantId (q_command q) \<noteq> occ"
proof (induction evs arbitrary: ex)
  case Nil
  then show ?case by simp
next
  case (Cons ev evs)
  from Cons.prems(4) consider (now) "Request i q \<in> set (snd (executor_step ev ex))"
    | (later) "Request i q \<in> set (snd (executor_run evs (fst (executor_step ev ex))))"
    by (auto simp: split_def Let_def)
  then show ?case
  proof cases
    case now
    from request_needs_occupation [OF Cons.prems(1) now] Cons.prems(2) show ?thesis by auto
  next
    case later
    have "\<forall>c\<in>set (submitted [ev]) \<union> set (submitted evs). \<not> (cm_deviceId c = i \<and> cm_occupantId c = occ)"
      using Cons.prems(3) by (simp only: submitted_Cons [of ev evs] set_append)
    then show ?thesis
      using later by (intro Cons.IH [OF executor_step_inv [OF Cons.prems(1)]] occupation_stays_ended [OF Cons.prems(2)]) auto
  qed
qed

text \<open>
  No ghost input. Whatever the Agent has been through, a request leaves for a controller only for
  a command the executor was given, to the address its device had then, at most fifteen seconds
  after it was queued and while the command's occupation is the device's current one; and once an
  occupation of a device has been revoked, cleared by a broken tunnel or replaced by a new
  occupant's command, no command of it is sent any more unless the server submits a new one.
\<close>

theorem no_ghost_input:
  "let ex = fst (executor_run evs executor_init) in
   (Request i q \<in> set (snd (executor_step ev ex)) \<longrightarrow>
     (\<exists>now r. ev = Run_next now i \<and> Submit r (q_enqueuedAtMs q) (q_command q) \<in> set evs \<and>
       rs_resolve r i = Some (q_baseUrl q) \<and> rs_isReady r i \<and> cm_deviceId (q_command q) = i \<and>
       now - q_enqueuedAtMs q \<le> queue_stale_ms \<and>
       jget (ex_occupations ex) i = Some (cm_occupantId (q_command q)))) \<and>
   (ends_occupation i occ ev ex \<longrightarrow>
     (\<forall>c\<in>set (submitted evs'). \<not> (cm_deviceId c = i \<and> cm_occupantId c = occ)) \<longrightarrow>
     Request i q \<in> set (snd (executor_run evs' (fst (executor_step ev ex)))) \<longrightarrow>
     cm_occupantId (q_command q) \<noteq> occ)"
proof -
  let ?ex = "fst (executor_run evs executor_init)"
  have inv: "executor_inv ?ex" by (rule executor_run_inv) simp
  have "Request i q \<in> set (snd (executor_step ev ?ex)) \<Longrightarrow>
     \<exists>now r. ev = Run_next now i \<and> Submit r (q_enqueuedAtMs q) (q_command q) \<in> set evs \<and>
       rs_resolve r i = Some (q_baseUrl q) \<and> rs_isReady r i \<and> cm_deviceId (q_command q) = i \<and>
       now - q_enqueuedAtMs q \<le> queue_stale_ms \<and>
       jget (ex_occupations ?ex) i = Some (cm_occupantId (q_command q))"
    using request_needs_occupation [OF inv] executor_run_from_submits [of evs] unfolding from_submits_def by blast
  then show ?thesis
    using no_request_after_end [OF executor_step_inv [OF inv] ends_occupation_clears] unfolding Let_def by blast
qed

definition sample_resolver :: resolver where
  "sample_resolver = \<lparr>rs_resolve = (\<lambda>i. if i = ''d'' then Some ''http://127.0.0.1:8100'' else None), rs_isReady = (\<lambda>_. True)\<rparr>"

definition sample_command :: "string \<Rightarrow> string \<Rightarrow> command" where
  "sample_command rid occ = \<lparr>cm_requestId = rid, cm_deviceId = ''d'', cm_occupantId = occ, cm_action = TypeText ''a''\<rparr>"

definition sample_queued :: "string \<Rightarrow> string \<Rightarrow> ms \<Rightarrow> queued" where
  "sample_queued rid occ t =
    \<lparr>q_command = sample_command rid occ, q_baseUrl = ''http://127.0.0.1:8100'', q_enqueuedAtMs = t\<rparr>"

lemma sample_requests:
  "let first = Submit sample_resolver 0 (sample_command ''r1'' ''o1'');
       second = Submit sample_resolver 5 (sample_command ''r2'' ''o2'') in
   snd (executor_step (Run_next 9 ''d'') (fst (executor_run [first] executor_init))) =
     [Request ''d'' (sample_queued ''r1'' ''o1'' 0)] \<and>
   ends_occupation ''d'' ''o1'' second (fst (executor_run [first] executor_init)) \<and>
   snd (executor_run [Run_next 9 ''d'', Run_next 9 ''d''] (fst (executor_step second (fst (executor_run [first] executor_init))))) =
     [Outcome (sample_command ''r1'' ''o1'') (Failed command_error_occupation_ended),
      Request ''d'' (sample_queued ''r2'' ''o2'' 5)]"
  by code_simp

text \<open>A command typed by the first occupant leaves; after the second occupant's command only that one does.\<close>

theorem no_ghost_input_witness:
  "(\<exists>now. Run_next 9 ''d'' = Run_next now ''d'' \<and> now - q_enqueuedAtMs (sample_queued ''r1'' ''o1'' 0) \<le> queue_stale_ms) \<and>
   cm_occupantId (q_command (sample_queued ''r2'' ''o2'' 5)) \<noteq> ''o1''"
proof
  let ?first = "Submit sample_resolver 0 (sample_command ''r1'' ''o1'')"
  let ?second = "Submit sample_resolver 5 (sample_command ''r2'' ''o2'')"
  show "\<exists>now. Run_next 9 ''d'' = Run_next now ''d'' \<and> now - q_enqueuedAtMs (sample_queued ''r1'' ''o1'' 0) \<le> queue_stale_ms"
    using no_ghost_input [of "[?first]" "''d''" "sample_queued ''r1'' ''o1'' 0" "Run_next 9 ''d''"] sample_requests
    unfolding Let_def by auto
  show "cm_occupantId (q_command (sample_queued ''r2'' ''o2'' 5)) \<noteq> ''o1''"
    using no_ghost_input [of "[?first]" "''d''" "sample_queued ''r2'' ''o2'' 5" ?second "''o1''"
        "[Run_next 9 ''d'', Run_next 9 ''d'']"] sample_requests
    unfolding Let_def by simp
qed

end
