(* ===== verification/Agent_Supervisor.thy ===== *)
theory Agent_Supervisor
  imports Agent_Executor
begin

text \<open>
  The supervisor of the iOS controllers (controller-supervisor.ts) with the process helpers it uses
  (process-tree.ts): a session per discovered device, its two child processes, the health polling, the
  restarts with backoff and the reuse of ports.

  A session that was stopped leaves the map with \<open>isStopping\<close> set, and every late callback of it
  returns at once: in the model a callback names its session by a number, and finds no session with
  that number in the map. A child process is a number too; \<open>sv_exited\<close> holds the \<open>hasExited\<close> flags,
  \<open>sv_terminating\<close> the processes signalled to end. Whether a spawn throws is an argument, per process.
\<close>

section \<open>Ports\<close>

text \<open>\<open>pp_cooling\<close> are the ports of the cooldown timers not yet fired.\<close>

record port_pool =
  pp_base :: nat
  pp_next :: nat
  pp_free :: "nat list"
  pp_cooling :: "nat list"

definition allocatePort :: "port_pool \<Rightarrow> nat \<times> port_pool" where
  "allocatePort p = (case pp_free p of
      reused # rest \<Rightarrow> (reused, p\<lparr>pp_free := rest\<rparr>)
    | [] \<Rightarrow> (pp_base p + pp_next p, p\<lparr>pp_next := pp_next p + 1\<rparr>))"

definition release_port :: "nat \<Rightarrow> port_pool \<Rightarrow> port_pool" where
  "release_port port p = p\<lparr>pp_cooling := pp_cooling p @ [port]\<rparr>"

definition cooldown_elapsed :: "nat \<Rightarrow> port_pool \<Rightarrow> port_pool" where
  "cooldown_elapsed port p =
    (if port \<in> set (pp_cooling p)
     then p\<lparr>pp_cooling := remove1 port (pp_cooling p), pp_free := pp_free p @ [port]\<rparr> else p)"

definition pool_inv :: "nat set \<Rightarrow> port_pool \<Rightarrow> bool" where
  "pool_inv used p \<longleftrightarrow> distinct (pp_cooling p @ pp_free p) \<and> used \<inter> set (pp_cooling p @ pp_free p) = {} \<and>
    (\<forall>port\<in>used \<union> set (pp_cooling p @ pp_free p). pp_base p \<le> port \<and> port < pp_base p + pp_next p)"

lemma allocatePort_inv:
  "pool_inv used p \<Longrightarrow> allocatePort p = (port, p') \<Longrightarrow>
    port \<notin> used \<and> pool_inv (insert port used) p' \<and> pp_base p' = pp_base p"
  by (auto simp: pool_inv_def allocatePort_def less_Suc_eq split: list.splits)

lemma release_port_inv:
  "pool_inv used p \<Longrightarrow> port \<in> used \<Longrightarrow> pool_inv (used - {port}) (release_port port p)"
  by (auto simp: pool_inv_def release_port_def)

lemma cooldown_inv: "pool_inv used p \<Longrightarrow> pool_inv used (cooldown_elapsed port p)"
  by (auto simp: pool_inv_def cooldown_elapsed_def)

text \<open>The numbers and ports of the sessions of a table.\<close>

definition slots_inv :: "nat \<Rightarrow> port_pool \<Rightarrow> nat list \<Rightarrow> nat list \<Rightarrow> bool" where
  "slots_inv nextId p ids ports \<longleftrightarrow>
    distinct ids \<and> (\<forall>i\<in>set ids. i < nextId) \<and> distinct ports \<and> pool_inv (set ports) p"

lemma slots_add:
  "slots_inv n p ids ports \<Longrightarrow> allocatePort p = (port, p') \<Longrightarrow> slots_inv (Suc n) p' (ids @ [n]) (ports @ [port])"
  by (auto simp: slots_inv_def dest: allocatePort_inv)

lemma slots_remove:
  "slots_inv n p ids ports \<Longrightarrow> distinct ids' \<Longrightarrow> set ids' \<subseteq> set ids \<Longrightarrow> distinct ports' \<Longrightarrow>
    set ports' = set ports - {port} \<Longrightarrow> port \<in> set ports \<Longrightarrow> slots_inv n (release_port port p) ids' ports'"
  by (auto simp: slots_inv_def release_port_inv)

lemma slots_cooldown: "slots_inv n p ids ports \<Longrightarrow> slots_inv n (cooldown_elapsed port p) ids ports"
  by (simp add: slots_inv_def cooldown_inv)

lemma cooldown_base [simp]: "pp_base (cooldown_elapsed port p) = pp_base p" "pp_base (release_port port p) = pp_base p"
  by (simp_all add: cooldown_elapsed_def release_port_def)

lemma allocate_base: "allocatePort p = (port, p') \<Longrightarrow> pp_base p' = pp_base p"
  by (auto simp: allocatePort_def split: list.splits)

section \<open>Sessions\<close>

record ios_session =
  is_id :: nat
  is_port :: nat
  is_runner :: "nat option"
  is_proxy :: "nat option"
  is_ready :: bool
  is_failCount :: nat
  is_attempt :: nat
  is_healthTimer :: bool
  is_restart :: "int option"
  is_generation :: nat
  is_launchedAt :: ms

record supervisor =
  sv_sessions :: "(string, ios_session) jsmap"
  sv_nextId :: nat
  sv_ports :: port_pool
  sv_terminating :: "nat list"
  sv_exited :: "nat list"
  sv_nextPid :: nat

definition supervisor_init :: "nat \<Rightarrow> supervisor" where
  "supervisor_init basePort = \<lparr>sv_sessions = [], sv_nextId = 0,
     sv_ports = \<lparr>pp_base = basePort, pp_next = 0, pp_free = [], pp_cooling = []\<rparr>,
     sv_terminating = [], sv_exited = [], sv_nextPid = 0\<rparr>"

datatype signal = SIGTERM | SIGKILL

datatype process_effect =
    Spawned nat string string nat
  | Signalled nat signal

definition health_fail_threshold :: nat where "health_fail_threshold = 3"
definition restart_base_ms :: int where "restart_base_ms = 2000"
definition restart_max_ms :: int where "restart_max_ms = 60000"
definition ready_deadline_ms :: int where "ready_deadline_ms = 10 * 60000"

text \<open>\<open>signalProcessTree\<close>: the group, or the process itself.\<close>

definition signalProcessTree :: "signal \<Rightarrow> supervisor \<Rightarrow> nat \<Rightarrow> process_effect list" where
  "signalProcessTree sig sv pid = (if pid \<in> set (sv_exited sv) then [] else [Signalled pid sig])"

definition put_session :: "string \<Rightarrow> ios_session \<Rightarrow> supervisor \<Rightarrow> supervisor" where
  "put_session deviceId s sv = sv\<lparr>sv_sessions := jset deviceId s (sv_sessions sv)\<rparr>"

definition children :: "ios_session \<Rightarrow> nat list" where
  "children s = (case is_runner s of Some p \<Rightarrow> [p] | None \<Rightarrow> []) @ (case is_proxy s of Some p \<Rightarrow> [p] | None \<Rightarrow> [])"

definition teardownProcesses :: "ios_session \<Rightarrow> supervisor \<Rightarrow> ios_session \<times> supervisor \<times> process_effect list" where
  "teardownProcesses s sv =
    (s\<lparr>is_healthTimer := False, is_ready := False, is_runner := None, is_proxy := None\<rparr>,
     sv\<lparr>sv_terminating := sv_terminating sv @ children s\<rparr>,
     concat (map (signalProcessTree SIGTERM sv) (children s)))"

definition restart_delay :: "nat \<Rightarrow> int" where
  "restart_delay attempt = min (restart_base_ms * 2 ^ attempt) restart_max_ms"

definition supervisor_scheduleRestart ::
  "string \<Rightarrow> ios_session \<Rightarrow> supervisor \<Rightarrow> supervisor \<times> process_effect list" where
  "supervisor_scheduleRestart deviceId s sv =
    (if is_restart s \<noteq> None then (put_session deviceId s sv, [])
     else case teardownProcesses s sv of (s, sv, effs) \<Rightarrow>
       (put_session deviceId (s\<lparr>is_attempt := is_attempt s + 1, is_restart := Some (restart_delay (is_attempt s))\<rparr>) sv,
        effs))"

definition launchProcesses ::
  "(nat \<Rightarrow> bool) \<Rightarrow> ms \<Rightarrow> string \<Rightarrow> ios_session \<Rightarrow> supervisor \<Rightarrow> supervisor \<times> process_effect list" where
  "launchProcesses ok now deviceId s sv =
    (let s = s\<lparr>is_ready := False, is_failCount := 0, is_generation := is_generation s + 1, is_launchedAt := now\<rparr>;
         runner = sv_nextPid sv; sv = sv\<lparr>sv_nextPid := runner + 1\<rparr> in
     if \<not> ok runner then supervisor_scheduleRestart deviceId s (sv\<lparr>sv_exited := sv_exited sv @ [runner]\<rparr>)
     else
       let s = s\<lparr>is_runner := Some runner\<rparr>; started = Spawned runner ''xcodebuild'' deviceId (is_port s);
           proxy = sv_nextPid sv; sv = sv\<lparr>sv_nextPid := proxy + 1\<rparr> in
       if \<not> ok proxy then
         (case supervisor_scheduleRestart deviceId s (sv\<lparr>sv_exited := sv_exited sv @ [proxy]\<rparr>) of
           (sv, effs) \<Rightarrow> (sv, started # effs))
       else (put_session deviceId (s\<lparr>is_proxy := Some proxy, is_healthTimer := True\<rparr>) sv,
             [started, Spawned proxy ''iproxy'' deviceId (is_port s)]))"

definition startSession :: "(nat \<Rightarrow> bool) \<Rightarrow> ms \<Rightarrow> string \<Rightarrow> supervisor \<Rightarrow> supervisor \<times> process_effect list" where
  "startSession ok now deviceId sv =
    (case allocatePort (sv_ports sv) of (port, ports) \<Rightarrow>
      let s = \<lparr>is_id = sv_nextId sv, is_port = port, is_runner = None, is_proxy = None, is_ready = False,
                is_failCount = 0, is_attempt = 0, is_healthTimer = False, is_restart = None, is_generation = 0,
                is_launchedAt = now\<rparr>
      in launchProcesses ok now deviceId s
           (put_session deviceId s (sv\<lparr>sv_nextId := sv_nextId sv + 1, sv_ports := ports\<rparr>)))"

definition stopSession :: "string \<Rightarrow> supervisor \<Rightarrow> supervisor \<times> process_effect list" where
  "stopSession deviceId sv =
    (case jget (sv_sessions sv) deviceId of
      None \<Rightarrow> (sv, [])
    | Some s \<Rightarrow> (case teardownProcesses s sv of (s, sv, effs) \<Rightarrow>
        (sv\<lparr>sv_sessions := jdel deviceId (sv_sessions sv), sv_ports := release_port (is_port s) (sv_ports sv)\<rparr>, effs)))"

definition for_each :: "('a \<Rightarrow> 's \<Rightarrow> 's \<times> 'e list) \<Rightarrow> 'a list \<Rightarrow> 's \<Rightarrow> 's \<times> 'e list" where
  "for_each f xs s = fold (\<lambda>x (s, effs). case f x s of (s, new) \<Rightarrow> (s, effs @ new)) xs (s, [])"

definition start_missing :: "(nat \<Rightarrow> bool) \<Rightarrow> ms \<Rightarrow> string \<Rightarrow> supervisor \<Rightarrow> supervisor \<times> process_effect list" where
  "start_missing ok now deviceId sv =
    (if jhas (sv_sessions sv) deviceId then (sv, []) else startSession ok now deviceId sv)"

definition stop_gone :: "string list \<Rightarrow> string \<Rightarrow> supervisor \<Rightarrow> supervisor \<times> process_effect list" where
  "stop_gone current deviceId sv = (if deviceId \<in> set current then (sv, []) else stopSession deviceId sv)"

definition syncDevices ::
  "(nat \<Rightarrow> bool) \<Rightarrow> ms \<Rightarrow> string list \<Rightarrow> supervisor \<Rightarrow> supervisor \<times> process_effect list" where
  "syncDevices ok now deviceIds sv =
    (let current = js_set deviceIds in
     case for_each (start_missing ok now) current sv of (sv, started) \<Rightarrow>
     case for_each (stop_gone current) (jkeys (sv_sessions sv)) sv of (sv, stopped) \<Rightarrow> (sv, started @ stopped))"

definition supervisor_stopAll :: "supervisor \<Rightarrow> supervisor \<times> process_effect list" where
  "supervisor_stopAll sv = for_each stopSession (jkeys (sv_sessions sv)) sv"

definition base_url :: "nat \<Rightarrow> string" where
  "base_url port = ''http://127.0.0.1:'' @ nat_text port"

definition supervisor_resolve :: "supervisor \<Rightarrow> string \<Rightarrow> string option" where
  "supervisor_resolve sv deviceId = map_option (\<lambda>s. base_url (is_port s)) (jget (sv_sessions sv) deviceId)"

definition supervisor_isReady :: "supervisor \<Rightarrow> string \<Rightarrow> bool" where
  "supervisor_isReady sv deviceId = (case jget (sv_sessions sv) deviceId of Some s \<Rightarrow> is_ready s | None \<Rightarrow> False)"

interpretation ios: endpoint_resolver "supervisor_resolve sv" "supervisor_isReady sv"
  by unfold_locales (auto simp: supervisor_resolve_def supervisor_isReady_def base_url_def split: option.splits)

text \<open>The session a callback belongs to, if it still lives.\<close>

definition live_session :: "nat \<Rightarrow> supervisor \<Rightarrow> (string \<times> ios_session) option" where
  "live_session sid sv = List.find (\<lambda>(_, s). is_id s = sid) (sv_sessions sv)"

definition handleChildFailure :: "nat \<Rightarrow> nat \<Rightarrow> supervisor \<Rightarrow> supervisor \<times> process_effect list" where
  "handleChildFailure sid generation sv = (case live_session sid sv of
      None \<Rightarrow> (sv, [])
    | Some (deviceId, s) \<Rightarrow>
        if is_generation s \<noteq> generation then (sv, []) else supervisor_scheduleRestart deviceId s sv)"

text \<open>The \<open>exit\<close> or \<open>error\<close> event of a child.\<close>

definition child_ended :: "nat \<Rightarrow> nat \<Rightarrow> nat \<Rightarrow> supervisor \<Rightarrow> supervisor \<times> process_effect list" where
  "child_ended pid sid generation sv = handleChildFailure sid generation (sv\<lparr>sv_exited := sv_exited sv @ [pid]\<rparr>)"

text \<open>\<open>pollHealth\<close> after its await.\<close>

definition health_polled :: "bool \<Rightarrow> ms \<Rightarrow> nat \<Rightarrow> nat \<Rightarrow> supervisor \<Rightarrow> supervisor \<times> process_effect list" where
  "health_polled isHealthy now sid generation sv = (case live_session sid sv of
      None \<Rightarrow> (sv, [])
    | Some (deviceId, s) \<Rightarrow>
        if is_generation s \<noteq> generation \<or> is_runner s = None then (sv, [])
        else if isHealthy then
          (put_session deviceId (s\<lparr>is_ready := True, is_failCount := 0, is_attempt := 0\<rparr>) sv, [])
        else let s = s\<lparr>is_failCount := is_failCount s + 1\<rparr> in
          if \<not> is_ready s then
            if now - is_launchedAt s < ready_deadline_ms then (put_session deviceId s sv, [])
            else supervisor_scheduleRestart deviceId s sv
          else if is_failCount s < health_fail_threshold then (put_session deviceId s sv, [])
          else supervisor_scheduleRestart deviceId s sv)"

definition restart_elapsed :: "(nat \<Rightarrow> bool) \<Rightarrow> ms \<Rightarrow> nat \<Rightarrow> supervisor \<Rightarrow> supervisor \<times> process_effect list" where
  "restart_elapsed ok now sid sv = (case live_session sid sv of
      None \<Rightarrow> (sv, [])
    | Some (deviceId, s) \<Rightarrow>
        if is_restart s = None then (sv, [])
        else launchProcesses ok now deviceId (s\<lparr>is_restart := None\<rparr>) sv)"

definition escalation_elapsed :: "nat \<Rightarrow> supervisor \<Rightarrow> process_effect list" where
  "escalation_elapsed pid sv = signalProcessTree SIGKILL sv pid"

text \<open>\<open>awaitTermination\<close>: a turn of its loop, and what it does when the wait is over.\<close>

definition await_turn :: "supervisor \<Rightarrow> supervisor" where
  "await_turn sv = sv\<lparr>sv_terminating := filter (\<lambda>pid. pid \<notin> set (sv_exited sv)) (sv_terminating sv)\<rparr>"

definition await_over :: "supervisor \<Rightarrow> process_effect list" where
  "await_over sv = concat (map (signalProcessTree SIGKILL sv) (sv_terminating sv))"

section \<open>Steps\<close>

datatype supervisor_event =
    Sync_devices "nat \<Rightarrow> bool" ms "string list"
  | Child_ended nat nat nat
  | Health_polled bool ms nat nat
  | Restart_due "nat \<Rightarrow> bool" ms nat
  | Cooldown_due nat
  | Escalation_due nat
  | Stop_all_sessions
  | Await_turn
  | Await_over

fun supervisor_step :: "supervisor_event \<Rightarrow> supervisor \<Rightarrow> supervisor \<times> process_effect list" where
  "supervisor_step (Sync_devices ok now ids) sv = syncDevices ok now ids sv"
| "supervisor_step (Child_ended pid sid gen) sv = child_ended pid sid gen sv"
| "supervisor_step (Health_polled healthy now sid gen) sv = health_polled healthy now sid gen sv"
| "supervisor_step (Restart_due ok now sid) sv = restart_elapsed ok now sid sv"
| "supervisor_step (Cooldown_due port) sv = (sv\<lparr>sv_ports := cooldown_elapsed port (sv_ports sv)\<rparr>, [])"
| "supervisor_step (Escalation_due pid) sv = (sv, escalation_elapsed pid sv)"
| "supervisor_step Stop_all_sessions sv = supervisor_stopAll sv"
| "supervisor_step Await_turn sv = (await_turn sv, [])"
| "supervisor_step Await_over sv = (sv, await_over sv)"

inductive supervised :: "nat \<Rightarrow> supervisor \<Rightarrow> bool" for basePort where
  init: "supervised basePort (supervisor_init basePort)"
| step: "supervised basePort sv \<Longrightarrow> supervised basePort (fst (supervisor_step ev sv))"

section \<open>The invariant\<close>

definition session_ok :: "ios_session \<Rightarrow> bool" where
  "session_ok s \<longleftrightarrow> (case is_restart s of
      Some delay \<Rightarrow> is_runner s = None \<and> is_proxy s = None \<and> \<not> is_ready s \<and> \<not> is_healthTimer s \<and>
        restart_base_ms \<le> delay \<and> delay \<le> restart_max_ms
    | None \<Rightarrow> is_runner s \<noteq> None \<and> is_proxy s \<noteq> None \<and> is_healthTimer s)"

definition sv_slots :: "nat \<Rightarrow> supervisor \<Rightarrow> bool" where
  "sv_slots base sv \<longleftrightarrow> jwf (sv_sessions sv) \<and> pp_base (sv_ports sv) = base \<and>
    slots_inv (sv_nextId sv) (sv_ports sv) (map (\<lambda>x. is_id (snd x)) (sv_sessions sv))
      (map (\<lambda>x. is_port (snd x)) (sv_sessions sv))"

definition owned :: "supervisor \<Rightarrow> nat \<Rightarrow> bool" where
  "owned sv pid \<longleftrightarrow> (\<exists>(d, s)\<in>set (sv_sessions sv). pid \<in> set (children s))"

text \<open>The invariant but for the session of \<open>dev\<close> and for the processes of \<open>X\<close>.\<close>

definition sv_but :: "nat \<Rightarrow> string \<Rightarrow> nat set \<Rightarrow> supervisor \<Rightarrow> bool" where
  "sv_but base dev X sv \<longleftrightarrow> sv_slots base sv \<and>
    (\<forall>(d, s)\<in>set (sv_sessions sv). d \<noteq> dev \<longrightarrow> session_ok s) \<and>
    (\<forall>pid < sv_nextPid sv. pid \<in> set (sv_exited sv) \<or> pid \<in> set (sv_terminating sv) \<or> pid \<in> X \<or> owned sv pid)"

definition sv_inv :: "nat \<Rightarrow> supervisor \<Rightarrow> bool" where
  "sv_inv base sv \<longleftrightarrow> sv_slots base sv \<and> (\<forall>(d, s)\<in>set (sv_sessions sv). session_ok s) \<and>
    (\<forall>pid < sv_nextPid sv. pid \<in> set (sv_exited sv) \<or> pid \<in> set (sv_terminating sv) \<or> owned sv pid)"

lemma restart_delay_bounds: "restart_base_ms \<le> restart_delay n \<and> restart_delay n \<le> restart_max_ms"
proof -
  have "1 \<le> (2 :: int) ^ n" by simp
  then show ?thesis by (simp add: restart_delay_def restart_base_ms_def restart_max_ms_def)
qed

lemma in_children: "is_runner s = Some p \<or> is_proxy s = Some p \<Longrightarrow> p \<in> set (children s)"
  by (auto simp: children_def)

lemma sv_inv_but: "sv_inv base sv \<Longrightarrow> sv_but base dev {} sv"
  by (auto simp: sv_inv_def sv_but_def)

lemma live_session_get:
  "sv_inv base sv \<Longrightarrow> live_session sid sv = Some (dev, s) \<Longrightarrow> jget (sv_sessions sv) dev = Some s \<and> is_id s = sid"
  by (auto simp: live_session_def sv_inv_def sv_slots_def dest!: find_Some_iff_in intro: jget_in_wf)

lemma sv_inv_session_ok: "sv_inv base sv \<Longrightarrow> jget (sv_sessions sv) dev = Some s \<Longrightarrow> session_ok s"
  by (auto simp: sv_inv_def dest!: jget_Some_in)

lemma put_session_inv:
  assumes "sv_but base dev X sv" "jget (sv_sessions sv) dev = Some s0" "is_port s = is_port s0" "is_id s = is_id s0"
    and "session_ok s"
    and "set (children s0) \<union> X \<subseteq> set (children s) \<union> set (sv_terminating sv) \<union> set (sv_exited sv)"
  shows "sv_inv base (put_session dev s sv)"
proof -
  let ?m = "sv_sessions sv"
  have wf: "jwf ?m" using assms(1) by (simp add: sv_but_def sv_slots_def)
  have own: "owned sv pid \<Longrightarrow> pid \<in> set (children s0) \<or> owned (put_session dev s sv) pid" for pid
    using jset_values_cover [OF wf assms(2), of _ _ pid "\<lambda>s. set (children s)" s]
    unfolding owned_def put_session_def by auto
  have new: "pid \<in> set (children s) \<Longrightarrow> owned (put_session dev s sv) pid" for pid
    using jset_key_in [of dev s ?m] unfolding owned_def put_session_def by auto
  have ok: "\<forall>(d, s')\<in>set (jset dev s ?m). session_ok s'"
    using in_jset [OF wf] assms(1,5) unfolding sv_but_def by fastforce
  have "\<forall>pid < sv_nextPid sv. pid \<in> set (sv_exited sv) \<or> pid \<in> set (sv_terminating sv) \<or>
      owned (put_session dev s sv) pid"
    using assms(1,6) own new unfolding sv_but_def by blast
  then show ?thesis
    using assms(1) wf ok map_jset_same [OF assms(2), of is_port s] map_jset_same [OF assms(2), of is_id s] assms(3,4)
    by (simp add: sv_inv_def sv_but_def sv_slots_def put_session_def)
qed

lemma schedule_inv:
  assumes "sv_but base dev X sv" "jget (sv_sessions sv) dev = Some s0" "is_port s = is_port s0" "is_id s = is_id s0"
    and "is_restart s = None"
    and "set (children s0) \<union> X \<subseteq> set (children s) \<union> set (sv_terminating sv) \<union> set (sv_exited sv)"
  shows "sv_inv base (fst (supervisor_scheduleRestart dev s sv))"
proof -
  let ?sv = "sv\<lparr>sv_terminating := sv_terminating sv @ children s\<rparr>"
  have "sv_but base dev X ?sv" using assms(1) by (auto simp: sv_but_def sv_slots_def owned_def)
  note put = put_session_inv [OF this, of s0 "s\<lparr>is_healthTimer := False, is_ready := False, is_runner := None,
      is_proxy := None, is_attempt := is_attempt s + 1, is_restart := Some (restart_delay (is_attempt s))\<rparr>"]
  have "sv_inv base (put_session dev (s\<lparr>is_healthTimer := False, is_ready := False, is_runner := None,
      is_proxy := None, is_attempt := is_attempt s + 1, is_restart := Some (restart_delay (is_attempt s))\<rparr>) ?sv)"
    by (rule put) (use assms(2-4,6) restart_delay_bounds in \<open>auto simp: session_ok_def\<close>)
  then show ?thesis
    by (simp add: supervisor_scheduleRestart_def teardownProcesses_def assms(5))
qed

lemma launch_inv:
  assumes but: "sv_but base dev {} sv" and s0: "jget (sv_sessions sv) dev = Some s0" "is_port s = is_port s0"
      "is_id s = is_id s0" "children s0 = []"
    and s: "is_runner s = None" "is_proxy s = None" "is_restart s = None"
  shows "sv_inv base (fst (launchProcesses ok now dev s sv))"
proof -
  let ?p = "sv_nextPid sv"
  have failed: "sv_but base dev X (sv\<lparr>sv_nextPid := Suc n, sv_exited := sv_exited sv @ [n]\<rparr>)"
    if "sv_but base dev X (sv\<lparr>sv_nextPid := n\<rparr>)" for X n
    using that by (auto simp: sv_but_def sv_slots_def owned_def less_Suc_eq)
  have started: "sv_but base dev {?p} (sv\<lparr>sv_nextPid := Suc ?p\<rparr>)"
    "sv_but base dev {?p, Suc ?p} (sv\<lparr>sv_nextPid := Suc (Suc ?p)\<rparr>)"
    using but by (auto simp: sv_but_def sv_slots_def owned_def less_Suc_eq)
  let ?s = "s\<lparr>is_ready := False, is_failCount := 0, is_generation := is_generation s + 1, is_launchedAt := now\<rparr>"
  consider "\<not> ok ?p" | "ok ?p" "\<not> ok (Suc ?p)" | "ok ?p" "ok (Suc ?p)" by blast
  then show ?thesis
  proof cases
    case 1
    then have "fst (launchProcesses ok now dev s sv) =
        fst (supervisor_scheduleRestart dev ?s (sv\<lparr>sv_nextPid := Suc ?p, sv_exited := sv_exited sv @ [?p]\<rparr>))"
      by (simp add: launchProcesses_def Let_def)
    moreover have "sv_but base dev {} (sv\<lparr>sv_nextPid := Suc ?p, sv_exited := sv_exited sv @ [?p]\<rparr>)"
      using failed [of "{}" ?p] but by simp
    note schedule_inv [OF this, of s0 ?s]
    ultimately show ?thesis using s s0 by simp
  next
    case 2
    then have "fst (launchProcesses ok now dev s sv) = fst (supervisor_scheduleRestart dev (?s\<lparr>is_runner := Some ?p\<rparr>)
        (sv\<lparr>sv_nextPid := Suc (Suc ?p), sv_exited := sv_exited sv @ [Suc ?p]\<rparr>))"
      by (simp add: launchProcesses_def Let_def split_def)
    moreover have "sv_but base dev {?p} (sv\<lparr>sv_nextPid := Suc (Suc ?p), sv_exited := sv_exited sv @ [Suc ?p]\<rparr>)"
      using failed [of "{?p}" "Suc ?p"] started(1) by simp
    note schedule_inv [OF this, of s0 "?s\<lparr>is_runner := Some ?p\<rparr>"]
    ultimately show ?thesis using s s0 by (simp add: in_children)
  next
    case 3
    let ?t = "?s\<lparr>is_runner := Some ?p, is_proxy := Some (Suc ?p), is_healthTimer := True\<rparr>"
    have "fst (launchProcesses ok now dev s sv) = put_session dev ?t (sv\<lparr>sv_nextPid := Suc (Suc ?p)\<rparr>)"
      using 3 by (simp add: launchProcesses_def Let_def)
    moreover have "session_ok ?t" using s by (simp add: session_ok_def)
    ultimately show ?thesis using put_session_inv [OF started(2), of s0 ?t] s0 by (simp add: in_children)
  qed
qed

lemma start_missing_inv: "sv_inv base sv \<Longrightarrow> sv_inv base (fst (start_missing ok now dev sv))"
proof (cases "jhas (sv_sessions sv) dev")
  case False
  assume inv: "sv_inv base sv"
  obtain port ports where alloc: "allocatePort (sv_ports sv) = (port, ports)" by fastforce
  let ?s = "\<lparr>is_id = sv_nextId sv, is_port = port, is_runner = None, is_proxy = None, is_ready = False,
    is_failCount = 0, is_attempt = 0, is_healthTimer = False, is_restart = None, is_generation = 0, is_launchedAt = now\<rparr>"
  let ?sv = "put_session dev ?s (sv\<lparr>sv_nextId := sv_nextId sv + 1, sv_ports := ports\<rparr>)"
  have none: "jget (sv_sessions sv) dev = None" using False by (simp add: jhas_def)
  have "sv_slots base ?sv"
    using inv slots_add [OF _ alloc] allocate_base [OF alloc] jmap_wf(1) [of "sv_sessions sv" dev ?s]
    by (simp add: sv_inv_def sv_slots_def put_session_def jget_None_append [OF none])
  then have "sv_but base dev {} ?sv"
    using inv by (auto simp: sv_inv_def sv_but_def put_session_def owned_def jget_None_append [OF none])
  moreover have "jget (sv_sessions ?sv) dev = Some ?s" by (simp add: put_session_def)
  ultimately show ?thesis
    using False launch_inv [of base dev ?sv ?s ?s]
    by (simp add: start_missing_def startSession_def alloc Let_def children_def)
qed (simp add: start_missing_def)

lemma stopSession_inv: "sv_inv base sv \<Longrightarrow> sv_inv base (fst (stopSession dev sv))"
proof (cases "jget (sv_sessions sv) dev")
  case (Some s)
  assume inv: "sv_inv base sv"
  let ?m = "sv_sessions sv"
  have wf: "jwf ?m" using inv by (simp add: sv_inv_def sv_slots_def)
  have slots: "slots_inv (sv_nextId sv) (sv_ports sv) (map (\<lambda>x. is_id (snd x)) ?m) (map (\<lambda>x. is_port (snd x)) ?m)"
    using inv by (simp add: sv_inv_def sv_slots_def)
  have "distinct (map (\<lambda>x. is_id (snd x)) ?m)" "distinct (map (\<lambda>x. is_port (snd x)) ?m)"
    using slots by (simp_all add: slots_inv_def)
  note ids = jdel_distinct_values [OF wf Some this(1)] and ports = jdel_distinct_values [OF wf Some this(2)]
  have "is_port s \<in> set (map (\<lambda>x. is_port (snd x)) ?m)" using jget_Some_in [OF Some] by force
  then have "slots_inv (sv_nextId sv) (release_port (is_port s) (sv_ports sv))
      (map (\<lambda>x. is_id (snd x)) (jdel dev ?m)) (map (\<lambda>x. is_port (snd x)) (jdel dev ?m))"
    using ids ports by (intro slots_remove [OF slots]) auto
  moreover have "owned sv pid \<Longrightarrow> pid \<in> set (children s) \<or> (\<exists>(d, s)\<in>set (jdel dev ?m). pid \<in> set (children s))" for pid
    using jdel_values_cover [OF wf Some, of _ _ pid "\<lambda>s. set (children s)"] unfolding owned_def by auto
  moreover have "(\<forall>(d, s)\<in>set (jdel dev ?m). session_ok s)"
    using inv by (auto simp: sv_inv_def jdel_filter)
  moreover have "jwf (jdel dev ?m)" using wf by auto
  moreover have "pp_base (sv_ports sv) = base" and
    "\<forall>pid < sv_nextPid sv. pid \<in> set (sv_exited sv) \<or> pid \<in> set (sv_terminating sv) \<or> owned sv pid"
    using inv by (simp_all add: sv_inv_def sv_slots_def)
  ultimately show ?thesis
    unfolding stopSession_def Some sv_inv_def sv_slots_def teardownProcesses_def
    by (simp add: owned_def) blast
qed (simp add: stopSession_def)

lemma for_each_inv:
  "(\<And>x s. P s \<Longrightarrow> P (fst (f x s))) \<Longrightarrow> P s \<Longrightarrow> P (fst (for_each f xs s))"
proof (induction xs rule: rev_induct)
  case (snoc x xs)
  then show ?case by (simp add: for_each_def split_def)
qed (simp add: for_each_def)

lemma for_each_from:
  "fold (\<lambda>x (s, effs). case f x s of (s, new) \<Rightarrow> (s, effs @ new)) xs (s, pre) =
    (fst (for_each f xs s), pre @ snd (for_each f xs s))"
proof (induction xs arbitrary: s pre)
  case (Cons x xs)
  obtain s' new where "f x s = (s', new)" by fastforce
  then show ?case using Cons [of s' "pre @ new"] Cons [of s' new] by (simp add: for_each_def)
qed (simp add: for_each_def)

lemma for_each_Cons:
  "for_each f (x # xs) s = (fst (for_each f xs (fst (f x s))), snd (f x s) @ snd (for_each f xs (fst (f x s))))"
  using for_each_from [of f xs "fst (f x s)" "snd (f x s)"] by (simp add: for_each_def split_def)

lemma for_each_Nil [simp]: "for_each f [] s = (s, [])"
  by (simp add: for_each_def)

lemma each_effects:
  assumes "\<And>k sv e. e \<in> set (snd (f k sv)) \<Longrightarrow> P e" "e \<in> set (snd (for_each f ks sv))"
  shows "P e"
proof -
  have "\<forall>e\<in>set (snd (for_each f ks sv)). P e"
  proof (induction ks rule: rev_induct)
    case (snoc k ks)
    then show ?case using assms(1) by (auto simp: for_each_def split_def)
  qed (simp add: for_each_def)
  then show ?thesis using assms(2) by blast
qed

lemma sync_inv: "sv_inv base sv \<Longrightarrow> sv_inv base (fst (syncDevices ok now ids sv))"
proof -
  assume inv: "sv_inv base sv"
  let ?sv = "fst (for_each (start_missing ok now) (js_set ids) sv)"
  have "sv_inv base ?sv" by (rule for_each_inv [where P = "sv_inv base"]) (auto intro: start_missing_inv inv)
  from for_each_inv [where P = "sv_inv base", OF _ this, of "stop_gone (js_set ids)" "jkeys (sv_sessions ?sv)"]
  have "sv_inv base (fst (for_each (stop_gone (js_set ids)) (jkeys (sv_sessions ?sv)) ?sv))"
    by (simp add: stop_gone_def stopSession_inv)
  then show ?thesis by (simp add: syncDevices_def Let_def split_def)
qed

lemma stopAll_inv: "sv_inv base sv \<Longrightarrow> sv_inv base (fst (supervisor_stopAll sv))"
  unfolding supervisor_stopAll_def by (rule for_each_inv [where P = "sv_inv base"]) (rule stopSession_inv)

text \<open>A change of a session that keeps its number, its port and its children.\<close>

lemma put_same_inv:
  assumes "sv_inv base sv" "jget (sv_sessions sv) dev = Some s0"
    and "is_port s = is_port s0" "is_id s = is_id s0" "children s = children s0" "session_ok s"
  shows "sv_inv base (put_session dev s sv)"
  by (rule put_session_inv [OF sv_inv_but [OF assms(1)] assms(2-4,6)]) (use assms(5) in auto)

lemma schedule_same_inv:
  assumes "sv_inv base sv" "jget (sv_sessions sv) dev = Some s0"
    and "is_port s = is_port s0" "is_id s = is_id s0" "children s = children s0"
    and "is_restart s \<noteq> None \<longrightarrow> session_ok s"
  shows "sv_inv base (fst (supervisor_scheduleRestart dev s sv))"
proof (cases "is_restart s")
  case None
  show ?thesis by (rule schedule_inv [OF sv_inv_but [OF assms(1)] assms(2-4) None]) (use assms(5) in auto)
next
  case Some
  then show ?thesis using put_same_inv [OF assms(1-5)] assms(6) by (simp add: supervisor_scheduleRestart_def)
qed

lemma health_polled_inv: "sv_inv base sv \<Longrightarrow> sv_inv base (fst (health_polled healthy now sid gen sv))"
proof (cases "live_session sid sv")
  case (Some ds)
  assume inv: "sv_inv base sv"
  obtain dev s where ds: "ds = (dev, s)" by fastforce
  have s: "jget (sv_sessions sv) dev = Some s" using live_session_get [OF inv] Some ds by blast
  have ok: "session_ok s" by (rule sv_inv_session_ok [OF inv s])
  show ?thesis
  proof (cases "is_generation s = gen \<and> is_runner s \<noteq> None")
    case True
    then have "is_restart s = None" using ok by (auto simp: session_ok_def split: option.splits)
    then show ?thesis
      using True ok Some ds put_same_inv [OF inv s] schedule_same_inv [OF inv s]
      by (auto simp: health_polled_def Let_def session_ok_def children_def)
  qed (use Some ds inv in \<open>auto simp: health_polled_def\<close>)
qed (simp add: health_polled_def)

lemma child_ended_inv: "sv_inv base sv \<Longrightarrow> sv_inv base (fst (child_ended pid sid gen sv))"
proof -
  let ?sv = "sv\<lparr>sv_exited := sv_exited sv @ [pid]\<rparr>"
  assume "sv_inv base sv"
  then have inv: "sv_inv base ?sv" by (auto simp: sv_inv_def sv_slots_def owned_def)
  show ?thesis
  proof (cases "live_session sid ?sv")
    case (Some ds)
    obtain dev s where ds: "ds = (dev, s)" by fastforce
    have s: "jget (sv_sessions ?sv) dev = Some s" using live_session_get [OF inv] Some ds by blast
    show ?thesis
      using schedule_same_inv [OF inv s refl refl refl] sv_inv_session_ok [OF inv s] inv Some ds
      by (simp add: child_ended_def handleChildFailure_def)
  qed (use inv in \<open>simp add: child_ended_def handleChildFailure_def\<close>)
qed

lemma restart_elapsed_inv: "sv_inv base sv \<Longrightarrow> sv_inv base (fst (restart_elapsed ok now sid sv))"
proof (cases "live_session sid sv")
  case (Some ds)
  assume inv: "sv_inv base sv"
  obtain dev s where ds: "ds = (dev, s)" by fastforce
  have s: "jget (sv_sessions sv) dev = Some s" using live_session_get [OF inv] Some ds by blast
  have "session_ok s" by (rule sv_inv_session_ok [OF inv s])
  then show ?thesis
    using launch_inv [OF sv_inv_but [OF inv] s, of "s\<lparr>is_restart := None\<rparr>" ok now] inv Some ds
    by (auto simp: restart_elapsed_def session_ok_def children_def)
qed (simp add: restart_elapsed_def)

lemma supervisor_step_inv: "sv_inv base sv \<Longrightarrow> sv_inv base (fst (supervisor_step ev sv))"
proof (cases ev)
  case (Cooldown_due port)
  assume "sv_inv base sv"
  then show ?thesis by (simp add: Cooldown_due sv_inv_def sv_slots_def slots_cooldown owned_def)
next
  case Await_turn
  assume "sv_inv base sv"
  then show ?thesis by (auto simp: Await_turn await_turn_def sv_inv_def sv_slots_def owned_def)
qed (simp_all add: sync_inv child_ended_inv health_polled_inv restart_elapsed_inv stopAll_inv)

lemma supervised_inv: "supervised base sv \<Longrightarrow> sv_inv base sv"
proof (induction rule: supervised.induct)
  case init
  show ?case by (simp add: supervisor_init_def sv_inv_def sv_slots_def slots_inv_def pool_inv_def)
next
  case (step sv ev)
  then show ?case by (intro supervisor_step_inv)
qed

section \<open>Readiness\<close>

lemma isReady_put:
  "supervisor_isReady (put_session dev s sv) d = (if d = dev then is_ready s else supervisor_isReady sv d)"
  by (simp add: supervisor_isReady_def put_session_def)

lemma isReady_schedule:
  "supervisor_isReady (fst (supervisor_scheduleRestart dev s sv)) d \<Longrightarrow>
    d = dev \<and> is_ready s \<and> is_restart s \<noteq> None \<or> d \<noteq> dev \<and> supervisor_isReady sv d"
  by (auto simp: supervisor_scheduleRestart_def teardownProcesses_def isReady_put supervisor_isReady_def
      put_session_def split: if_splits)

lemma isReady_updates [simp]:
  "supervisor_isReady (sv\<lparr>sv_nextPid := n\<rparr>) d = supervisor_isReady sv d"
  "supervisor_isReady (sv\<lparr>sv_exited := es\<rparr>) d = supervisor_isReady sv d"
  by (simp_all add: supervisor_isReady_def)

lemma isReady_launch:
  "supervisor_isReady (fst (launchProcesses ok now dev s sv)) d \<Longrightarrow> d \<noteq> dev \<and> supervisor_isReady sv d"
  unfolding launchProcesses_def Let_def
  by (auto simp: isReady_put split_def split: if_splits dest!: isReady_schedule)

lemma isReady_stop: "supervisor_isReady (fst (stopSession dev sv)) d \<Longrightarrow> supervisor_isReady sv d"
  by (auto simp: stopSession_def teardownProcesses_def supervisor_isReady_def split: option.splits if_splits)

lemma isReady_more_updates [simp]:
  "supervisor_isReady (sv\<lparr>sv_ports := ps\<rparr>) d = supervisor_isReady sv d"
  "supervisor_isReady (sv\<lparr>sv_terminating := ts\<rparr>) d = supervisor_isReady sv d"
  "supervisor_isReady (sv\<lparr>sv_nextId := n\<rparr>) d = supervisor_isReady sv d"
  "supervisor_isReady (sv\<lparr>sv_nextId := n, sv_ports := ps\<rparr>) d = supervisor_isReady sv d"
  by (simp_all add: supervisor_isReady_def)

lemma isReady_start: "supervisor_isReady (fst (start_missing ok now dev sv)) d \<Longrightarrow> supervisor_isReady sv d"
  unfolding start_missing_def startSession_def Let_def
  by (auto simp: isReady_put split_def split: if_splits dest!: isReady_launch)

lemma isReady_sync:
  assumes "supervisor_isReady (fst (syncDevices ok now ids sv)) d"
  shows "supervisor_isReady sv d"
proof -
  let ?P = "\<lambda>s. supervisor_isReady s d \<longrightarrow> supervisor_isReady sv d"
  let ?sv = "fst (for_each (start_missing ok now) (js_set ids) sv)"
  have "?P ?sv" by (rule for_each_inv [where P = ?P]) (auto dest: isReady_start)
  then have "?P (fst (for_each (stop_gone (js_set ids)) (jkeys (sv_sessions ?sv)) ?sv))"
    by (intro for_each_inv [where P = ?P and s = ?sv]) (auto simp: stop_gone_def dest: isReady_stop)
  then show ?thesis using assms by (simp add: syncDevices_def Let_def split_def)
qed

lemma isReady_stopAll: "supervisor_isReady (fst (supervisor_stopAll sv)) d \<Longrightarrow> supervisor_isReady sv d"
proof -
  let ?P = "\<lambda>s. supervisor_isReady s d \<longrightarrow> supervisor_isReady sv d"
  have "?P (fst (for_each stopSession (jkeys (sv_sessions sv)) sv))"
    by (rule for_each_inv [where P = ?P]) (auto dest: isReady_stop)
  then show "supervisor_isReady (fst (supervisor_stopAll sv)) d \<Longrightarrow> supervisor_isReady sv d"
    by (simp add: supervisor_stopAll_def)
qed

lemma isReady_health:
  assumes inv: "sv_inv base sv" and new: "supervisor_isReady (fst (health_polled healthy now sid gen sv)) d"
    and old: "\<not> supervisor_isReady sv d"
  shows "healthy \<and> (\<exists>s. jget (sv_sessions sv) d = Some s \<and> is_id s = sid \<and> is_generation s = gen \<and> is_runner s \<noteq> None)"
proof (cases "live_session sid sv")
  case None
  then show ?thesis using new old by (simp add: health_polled_def)
next
  case (Some ds)
  obtain dev s where ds: "ds = (dev, s)" by fastforce
  have s: "jget (sv_sessions sv) dev = Some s" "is_id s = sid" using live_session_get [OF inv] Some ds by blast+
  have ready: "supervisor_isReady sv dev = is_ready s" using s by (simp add: supervisor_isReady_def)
  show ?thesis
    using new old s ready unfolding health_polled_def Some ds Let_def
    by (auto simp: isReady_put split: if_splits dest!: isReady_schedule)
qed

lemma isReady_child:
  "supervisor_isReady (fst (child_ended pid sid gen sv)) d \<Longrightarrow> sv_inv base sv \<Longrightarrow> supervisor_isReady sv d"
proof -
  let ?sv = "sv\<lparr>sv_exited := sv_exited sv @ [pid]\<rparr>"
  assume new: "supervisor_isReady (fst (child_ended pid sid gen sv)) d" and "sv_inv base sv"
  then have inv: "sv_inv base ?sv" by (auto simp: sv_inv_def sv_slots_def owned_def)
  show ?thesis
  proof (cases "live_session sid ?sv")
    case (Some ds)
    obtain dev s where ds: "ds = (dev, s)" by fastforce
    have "jget (sv_sessions ?sv) dev = Some s" using live_session_get [OF inv] Some ds by blast
    then have "supervisor_isReady sv dev = is_ready s" by (simp add: supervisor_isReady_def)
    then show ?thesis
      using new unfolding child_ended_def handleChildFailure_def Some ds
      by (auto split: if_splits dest!: isReady_schedule)
  qed (use new in \<open>simp add: child_ended_def handleChildFailure_def\<close>)
qed

lemma isReady_restart:
  "supervisor_isReady (fst (restart_elapsed ok now sid sv)) d \<Longrightarrow> supervisor_isReady sv d"
  by (auto simp: restart_elapsed_def split: option.splits prod.splits if_splits dest: isReady_launch)

lemma isReady_only_by_health:
  "sv_inv base sv \<Longrightarrow> supervisor_isReady (fst (supervisor_step ev sv)) d \<Longrightarrow> \<not> supervisor_isReady sv d \<Longrightarrow>
    \<exists>now s. jget (sv_sessions sv) d = Some s \<and> is_runner s \<noteq> None \<and> ev = Health_polled True now (is_id s) (is_generation s)"
proof (cases ev)
  case (Health_polled healthy now sid gen)
  assume "sv_inv base sv" "supervisor_isReady (fst (supervisor_step ev sv)) d" "\<not> supervisor_isReady sv d"
  then show ?thesis using isReady_health [of base sv healthy now sid gen d] Health_polled by auto
qed (auto dest: isReady_sync isReady_child isReady_restart isReady_stopAll simp: await_turn_def)

lemma live_session_of:
  assumes "sv_inv base sv" "jget (sv_sessions sv) d = Some s"
  shows "live_session (is_id s) sv = Some (d, s)"
proof -
  have dist: "distinct (map (\<lambda>x. is_id (snd x)) (sv_sessions sv))"
    using assms(1) by (simp add: sv_inv_def sv_slots_def slots_inv_def)
  have mem: "(d, s) \<in> set (sv_sessions sv)" by (rule jget_Some_in [OF assms(2)])
  then obtain x where x: "live_session (is_id s) sv = Some x"
    unfolding live_session_def by (cases "List.find (\<lambda>(_, s'). is_id s' = is_id s) (sv_sessions sv)")
      (auto dest: find_None_all)
  then have "x \<in> set (sv_sessions sv)" "is_id (snd x) = is_id s"
    by (auto simp: live_session_def dest!: find_Some_iff_in)
  then have "x = (d, s)" using dist mem by (auto simp: distinct_map inj_on_def)
  then show ?thesis using x by simp
qed

lemma child_failure_restarts:
  assumes inv: "sv_inv base sv" and s: "jget (sv_sessions sv) d = Some s"
  shows "\<exists>s'. jget (sv_sessions (fst (child_ended pid (is_id s) (is_generation s) sv))) d = Some s' \<and>
    \<not> is_ready s' \<and> is_restart s' \<noteq> None \<and> (is_restart s = None \<longrightarrow> is_restart s' = Some (restart_delay (is_attempt s)))"
proof -
  let ?sv = "sv\<lparr>sv_exited := sv_exited sv @ [pid]\<rparr>"
  have "sv_inv base ?sv" using inv by (auto simp: sv_inv_def sv_slots_def owned_def)
  from live_session_of [OF this, of d s] s have "live_session (is_id s) ?sv = Some (d, s)" by simp
  then show ?thesis
    using sv_inv_session_ok [OF inv s]
    by (auto simp: child_ended_def handleChildFailure_def supervisor_scheduleRestart_def teardownProcesses_def
        put_session_def session_ok_def)
qed

text \<open>
  C16: The iOS supervisor in every state it can reach: a session either runs both its processes under
  health polling or waits, not ready, for a restart in 2 to 60 seconds, so none is wedged; two devices
  never share a port, and the ports of live sessions are neither free nor cooling down; no process is
  orphaned, as each is the child of a live session, signalled and awaited, or has exited; a device
  becomes ready only through a successful health check of its current session and generation, and the
  failure of a child of the current generation makes it not ready and schedules the restart with the
  backoff.
\<close>

theorem supervisor_sound:
  assumes "supervised base sv"
  shows "(jget (sv_sessions sv) d = Some s \<longrightarrow>
      (is_restart s = None \<and> is_runner s \<noteq> None \<and> is_proxy s \<noteq> None \<and> is_healthTimer s \<or>
       (\<exists>delay. is_restart s = Some delay \<and> 2000 \<le> delay \<and> delay \<le> 60000 \<and> \<not> is_ready s \<and> children s = [])) \<and>
      base \<le> is_port s \<and> is_port s \<notin> set (pp_free (sv_ports sv)) \<union> set (pp_cooling (sv_ports sv)) \<and>
      (jget (sv_sessions sv) d' = Some s' \<longrightarrow> is_port s' = is_port s \<longrightarrow> d' = d) \<and>
      (\<exists>t. jget (sv_sessions (fst (supervisor_step (Child_ended pid (is_id s) (is_generation s)) sv))) d = Some t \<and>
        \<not> is_ready t \<and> is_restart t \<noteq> None \<and>
        (is_restart s = None \<longrightarrow> is_restart t = Some (min (2000 * 2 ^ is_attempt s) 60000)))) \<and>
    (pid < sv_nextPid sv \<longrightarrow> pid \<in> set (sv_exited sv) \<or> pid \<in> set (sv_terminating sv) \<or>
      (\<exists>(d, s)\<in>set (sv_sessions sv). pid \<in> set (children s))) \<and>
    (supervisor_isReady (fst (supervisor_step ev sv)) d \<longrightarrow> \<not> supervisor_isReady sv d \<longrightarrow>
      (\<exists>now s. jget (sv_sessions sv) d = Some s \<and> is_runner s \<noteq> None \<and>
        ev = Health_polled True now (is_id s) (is_generation s)))"
proof -
  have inv: "sv_inv base sv" by (rule supervised_inv [OF assms])
  then have slots: "slots_inv (sv_nextId sv) (sv_ports sv) (map (\<lambda>x. is_id (snd x)) (sv_sessions sv))
      (map (\<lambda>x. is_port (snd x)) (sv_sessions sv))" and base: "pp_base (sv_ports sv) = base"
    by (simp_all add: sv_inv_def sv_slots_def)
  have session: "is_restart s = None \<and> is_runner s \<noteq> None \<and> is_proxy s \<noteq> None \<and> is_healthTimer s \<or>
      (\<exists>delay. is_restart s = Some delay \<and> 2000 \<le> delay \<and> delay \<le> 60000 \<and> \<not> is_ready s \<and> children s = [])"
    if "jget (sv_sessions sv) d = Some s"
    using sv_inv_session_ok [OF inv that]
    by (auto simp: session_ok_def children_def restart_base_ms_def restart_max_ms_def split: option.splits)
  have port: "base \<le> is_port s \<and> is_port s \<notin> set (pp_free (sv_ports sv)) \<union> set (pp_cooling (sv_ports sv))"
    if "jget (sv_sessions sv) d = Some s"
  proof -
    have "is_port s \<in> set (map (\<lambda>x. is_port (snd x)) (sv_sessions sv))" using jget_Some_in [OF that] by force
    then show ?thesis using slots base unfolding slots_inv_def pool_inv_def by auto
  qed
  have unique: "d' = d" if "jget (sv_sessions sv) d = Some s" "jget (sv_sessions sv) d' = Some s'" "is_port s' = is_port s"
    using slots jget_Some_in [OF that(1)] jget_Some_in [OF that(2)] that(3)
    by (fastforce simp: slots_inv_def distinct_map inj_on_def)
  have orphan: "pid < sv_nextPid sv \<longrightarrow> pid \<in> set (sv_exited sv) \<or> pid \<in> set (sv_terminating sv) \<or>
      (\<exists>(d, s)\<in>set (sv_sessions sv). pid \<in> set (children s))"
    using inv unfolding sv_inv_def owned_def by blast
  have failure: "\<exists>t. jget (sv_sessions (fst (supervisor_step (Child_ended pid (is_id s) (is_generation s)) sv))) d = Some t \<and>
        \<not> is_ready t \<and> is_restart t \<noteq> None \<and>
        (is_restart s = None \<longrightarrow> is_restart t = Some (min (2000 * 2 ^ is_attempt s) 60000))"
    if "jget (sv_sessions sv) d = Some s"
    using child_failure_restarts [OF inv that, of pid]
    by (simp add: restart_delay_def restart_base_ms_def restart_max_ms_def)
  note ready = isReady_only_by_health [OF inv]
  show ?thesis
    by (intro conjI impI, fact session, fact port [THEN conjunct1], fact port [THEN conjunct2], fact unique,
      fact failure, fact orphan [THEN mp], fact ready)
qed

lemma sample_supervised: "supervised 8200 (fst (supervisor_step (Sync_devices (\<lambda>_. True) 0 [''a'']) (supervisor_init 8200)))"
  by (intro supervised.intros)

theorem supervisor_sound_witness:
  "let sv = fst (supervisor_step (Sync_devices (\<lambda>_. True) 0 [''a'']) (supervisor_init 8200)) in
   supervisor_resolve sv ''a'' = Some (base_url 8200) \<and>
   (\<exists>t. jget (sv_sessions (fst (supervisor_step (Child_ended 1 0 1) sv))) ''a'' = Some t \<and> is_restart t = Some 2000)"
proof -
  let ?sv = "fst (supervisor_step (Sync_devices (\<lambda>_. True) 0 [''a'']) (supervisor_init 8200))"
  let ?s = "\<lparr>is_id = 0, is_port = 8200, is_runner = Some 0, is_proxy = Some 1, is_ready = False, is_failCount = 0,
    is_attempt = 0, is_healthTimer = True, is_restart = None, is_generation = 1, is_launchedAt = 0\<rparr>"
  have s: "jget (sv_sessions ?sv) ''a'' = Some ?s"
    by (simp add: syncDevices_def for_each_def js_set_def start_missing_def stop_gone_def startSession_def allocatePort_def
        launchProcesses_def put_session_def supervisor_init_def jhas_def jkeys_def Let_def)
  then show ?thesis
    using supervisor_sound [OF sample_supervised, of "''a''" ?s "''a''" ?s 1]
    by (auto simp: Let_def supervisor_resolve_def simp del: supervisor_step.simps)
qed

end
