(* ===== verification/Android_Supervisor.thy ===== *)
theory Android_Supervisor
  imports Agent_Supervisor
begin

text \<open>
  The supervisor of the Android runners (android-supervisor.ts). The preparation of a device is a chain of
  adb calls, each awaited: a launch under way is a record in \<open>ad_launches\<close> with the call it waits for, and
  the end of the call is an event. \<open>ad_polls\<close> are the health checks under way, by session and generation. Sessions, callbacks and processes are numbered as in the supervisor of
  iOS; a stopped session stays in \<open>ad_dead\<close> for the launch that still reads it.
\<close>

section \<open>State\<close>

record android_tuning =
  at_healthIntervalMs :: int
  at_healthFailThreshold :: nat
  at_restartBaseMs :: int
  at_restartMaxMs :: int
  at_killEscalationMs :: int
  at_portCooldownMs :: int
  at_readyDeadlineMs :: int
  at_reinstallAfterFailures :: nat

definition default_supervisor_tuning :: android_tuning where
  "default_supervisor_tuning = \<lparr>at_healthIntervalMs = 10000, at_healthFailThreshold = 3, at_restartBaseMs = 2000,
     at_restartMaxMs = 60000, at_killEscalationMs = 3000, at_portCooldownMs = 5000, at_readyDeadlineMs = 60000,
     at_reinstallAfterFailures = 3\<rparr>"

record android_session =
  an_id :: nat
  an_port :: nat
  an_instrument :: "nat option"
  an_ready :: bool
  an_installed :: bool
  an_failCount :: nat
  an_attempt :: nat
  an_healthTimer :: bool
  an_restart :: "int option"
  an_generation :: nat
  an_launchedAt :: ms

datatype launch_stage = At_stayon | At_install | At_forward | At_force_stop

record launch =
  la_sid :: nat
  la_generation :: nat
  la_serial :: string
  la_port :: nat
  la_stage :: launch_stage

record android_supervisor =
  ad_sessions :: "(string, android_session) jsmap"
  ad_dead :: "android_session list"
  ad_nextId :: nat
  ad_ports :: port_pool
  ad_terminating :: "nat list"
  ad_exited :: "nat list"
  ad_nextPid :: nat
  ad_launches :: "launch list"
  ad_polls :: "(nat \<times> nat) list"
  ad_cleanups :: nat

definition android_init :: "nat \<Rightarrow> android_supervisor" where
  "android_init basePort = \<lparr>ad_sessions = [], ad_dead = [], ad_nextId = 0,
     ad_ports = \<lparr>pp_base = basePort, pp_next = 0, pp_free = [], pp_cooling = []\<rparr>,
     ad_terminating = [], ad_exited = [], ad_nextPid = 0, ad_launches = [], ad_polls = [], ad_cleanups = 0\<rparr>"

datatype adb_call = Stay_on | Install_runner | Forward_port nat | Remove_forward nat | Force_stop

datatype android_effect =
    Adb string adb_call
  | Spawned_instrument nat string
  | Signalled_instrument nat signal
  | Check_health string

text \<open>The command lines handed to adb.\<close>

definition DEVICE_RUNNER_PORT :: nat where "DEVICE_RUNNER_PORT = 8300"
definition RUNNER_COMPONENT :: string where "RUNNER_COMPONENT = ''com.nebula.controller/.ControllerInstrumentation''"
definition RUNNER_PACKAGE :: string where "RUNNER_PACKAGE = ''com.nebula.controller''"

record runner_tuning =
  rt_actionTimeoutMs :: nat
  rt_swipeStepMs :: nat
  rt_maxSwipeDurationMs :: nat

fun adb_args :: "string \<Rightarrow> string \<Rightarrow> adb_call \<Rightarrow> string list" where
  "adb_args apk serial Stay_on = [''-s'', serial, ''shell'', ''svc'', ''power'', ''stayon'', ''usb'']"
| "adb_args apk serial Install_runner = [''-s'', serial, ''install'', ''-r'', ''-t'', ''-g'', apk]"
| "adb_args apk serial (Forward_port p) =
    [''-s'', serial, ''forward'', ''tcp:'' @ nat_text p, ''tcp:'' @ nat_text DEVICE_RUNNER_PORT]"
| "adb_args apk serial (Remove_forward p) = [''-s'', serial, ''forward'', ''--remove'', ''tcp:'' @ nat_text p]"
| "adb_args apk serial Force_stop = [''-s'', serial, ''shell'', ''am'', ''force-stop'', RUNNER_PACKAGE]"

definition tokenArgs :: "string option \<Rightarrow> string list" where
  "tokenArgs token = (case token of
      None \<Rightarrow> []
    | Some t \<Rightarrow> if t = [] then [] else [''-e'', ''nebulaToken'', t])"

definition runnerTuningArgs :: "runner_tuning option \<Rightarrow> string list" where
  "runnerTuningArgs tuning = (case tuning of
      None \<Rightarrow> []
    | Some t \<Rightarrow>
        [''-e'', ''nebulaActionTimeoutMs'', nat_text (rt_actionTimeoutMs t),
         ''-e'', ''nebulaSwipeStepMs'', nat_text (rt_swipeStepMs t),
         ''-e'', ''nebulaMaxSwipeMs'', nat_text (rt_maxSwipeDurationMs t)])"

definition instrument_args :: "string option \<Rightarrow> runner_tuning option \<Rightarrow> string \<Rightarrow> string list" where
  "instrument_args token tuning serial =
    [''-s'', serial, ''shell'', ''am'', ''instrument'', ''-w'', ''-r'', ''--no-hidden-api-checks'',
     ''-e'', ''nebulaPort'', nat_text DEVICE_RUNNER_PORT] @ tokenArgs token @ runnerTuningArgs tuning @ [RUNNER_COMPONENT]"

definition put_android :: "string \<Rightarrow> android_session \<Rightarrow> android_supervisor \<Rightarrow> android_supervisor" where
  "put_android serial s sv = sv\<lparr>ad_sessions := jset serial s (ad_sessions sv)\<rparr>"

definition signal_instrument :: "signal \<Rightarrow> android_supervisor \<Rightarrow> nat \<Rightarrow> android_effect list" where
  "signal_instrument sig sv pid = (if pid \<in> set (ad_exited sv) then [] else [Signalled_instrument pid sig])"

definition android_teardown ::
  "android_session \<Rightarrow> android_supervisor \<Rightarrow> android_session \<times> android_supervisor \<times> android_effect list" where
  "android_teardown s sv =
    (let t = s\<lparr>an_healthTimer := False, an_instrument := None\<rparr> in
     case an_instrument s of
       None \<Rightarrow> (t, sv, [])
     | Some pid \<Rightarrow>
         if pid \<in> set (ad_exited sv) then (t, sv, [])
         else (t, sv\<lparr>ad_terminating := ad_terminating sv @ [pid]\<rparr>, signal_instrument SIGTERM sv pid))"

definition android_delay :: "android_tuning \<Rightarrow> nat \<Rightarrow> int" where
  "android_delay T attempt = min (at_restartBaseMs T * 2 ^ attempt) (at_restartMaxMs T)"

definition android_scheduleRestart ::
  "android_tuning \<Rightarrow> string \<Rightarrow> android_session \<Rightarrow> android_supervisor \<Rightarrow> android_supervisor \<times> android_effect list" where
  "android_scheduleRestart T serial s sv =
    (if an_restart s \<noteq> None then (put_android serial s sv, [])
     else case android_teardown s sv of (s, sv, effs) \<Rightarrow>
       (put_android serial
         (s\<lparr>an_generation := an_generation s + 1, an_ready := False, an_failCount := 0,
            an_attempt := an_attempt s + 1, an_restart := Some (android_delay T (an_attempt s))\<rparr>) sv, effs))"

text \<open>The session a callback names, and whether it is stale for that generation.\<close>

definition android_live :: "nat \<Rightarrow> android_supervisor \<Rightarrow> (string \<times> android_session) option" where
  "android_live sid sv = List.find (\<lambda>(_, s). an_id s = sid) (ad_sessions sv)"

definition isStale :: "nat \<Rightarrow> nat \<Rightarrow> android_supervisor \<Rightarrow> bool" where
  "isStale sid generation sv = (case android_live sid sv of
      None \<Rightarrow> True
    | Some (_, s) \<Rightarrow> an_generation s \<noteq> generation)"

text \<open>\<open>launch\<close> up to its first await.\<close>

definition android_launch ::
  "ms \<Rightarrow> string \<Rightarrow> android_session \<Rightarrow> android_supervisor \<Rightarrow> android_supervisor \<times> android_effect list" where
  "android_launch now serial s sv =
    (put_android serial (s\<lparr>an_launchedAt := now\<rparr>)
       (sv\<lparr>ad_launches := ad_launches sv @ [\<lparr>la_sid = an_id s, la_generation = an_generation s, la_serial = serial,
          la_port = an_port s, la_stage = At_stayon\<rparr>]\<rparr>),
     [Adb serial Stay_on])"

definition android_startSession :: "ms \<Rightarrow> string \<Rightarrow> android_supervisor \<Rightarrow> android_supervisor \<times> android_effect list" where
  "android_startSession now serial sv =
    (case allocatePort (ad_ports sv) of (port, ports) \<Rightarrow>
      let s = \<lparr>an_id = ad_nextId sv, an_port = port, an_instrument = None, an_ready = False, an_installed = False,
                an_failCount = 0, an_attempt = 0, an_healthTimer = False, an_restart = None, an_generation = 0,
                an_launchedAt = 0\<rparr>
      in android_launch now serial s
           (put_android serial s (sv\<lparr>ad_nextId := ad_nextId sv + 1, ad_ports := ports\<rparr>)))"

definition android_stopSession :: "string \<Rightarrow> android_supervisor \<Rightarrow> android_supervisor \<times> android_effect list" where
  "android_stopSession serial sv =
    (case jget (ad_sessions sv) serial of
      None \<Rightarrow> (sv, [])
    | Some s \<Rightarrow> (case android_teardown s sv of (s, sv, effs) \<Rightarrow>
        (sv\<lparr>ad_sessions := jdel serial (ad_sessions sv), ad_dead := ad_dead sv @ [s],
            ad_cleanups := ad_cleanups sv + 2, ad_ports := release_port (an_port s) (ad_ports sv)\<rparr>,
         effs @ [Adb serial Force_stop, Adb serial (Remove_forward (an_port s))])))"

definition android_start_missing :: "ms \<Rightarrow> string \<Rightarrow> android_supervisor \<Rightarrow> android_supervisor \<times> android_effect list" where
  "android_start_missing now serial sv =
    (if jhas (ad_sessions sv) serial then (sv, []) else android_startSession now serial sv)"

definition android_stop_gone :: "string list \<Rightarrow> string \<Rightarrow> android_supervisor \<Rightarrow> android_supervisor \<times> android_effect list" where
  "android_stop_gone wanted serial sv = (if serial \<in> set wanted then (sv, []) else android_stopSession serial sv)"

definition android_syncDevices :: "ms \<Rightarrow> string list \<Rightarrow> android_supervisor \<Rightarrow> android_supervisor \<times> android_effect list" where
  "android_syncDevices now serials sv =
    (let wanted = js_set serials in
     case for_each (android_start_missing now) wanted sv of (sv, started) \<Rightarrow>
     case for_each (android_stop_gone wanted) (jkeys (ad_sessions sv)) sv of (sv, stopped) \<Rightarrow> (sv, started @ stopped))"

definition android_stopAll :: "android_supervisor \<Rightarrow> android_supervisor \<times> android_effect list" where
  "android_stopAll sv = for_each android_stopSession (jkeys (ad_sessions sv)) sv"

definition android_resolve :: "android_supervisor \<Rightarrow> string \<Rightarrow> string option" where
  "android_resolve sv deviceId = map_option (\<lambda>s. base_url (an_port s)) (jget (ad_sessions sv) deviceId)"

definition android_isReady :: "android_supervisor \<Rightarrow> string \<Rightarrow> bool" where
  "android_isReady sv deviceId = (case jget (ad_sessions sv) deviceId of Some s \<Rightarrow> an_ready s | None \<Rightarrow> False)"

interpretation android: endpoint_resolver "android_resolve sv" "android_isReady sv"
  by unfold_locales (auto simp: android_resolve_def android_isReady_def base_url_def split: option.splits)

section \<open>The launch, call by call\<close>

definition drop_launch :: "launch \<Rightarrow> android_supervisor \<Rightarrow> android_supervisor" where
  "drop_launch l sv = sv\<lparr>ad_launches := remove1 l (ad_launches sv)\<rparr>"

definition next_stage :: "launch \<Rightarrow> launch_stage \<Rightarrow> android_supervisor \<Rightarrow> android_supervisor" where
  "next_stage l stage sv = sv\<lparr>ad_launches := map (\<lambda>m. if m = l then m\<lparr>la_stage := stage\<rparr> else m) (ad_launches sv)\<rparr>"

text \<open>The \<open>catch\<close> of \<open>launch\<close>.\<close>

definition launch_failed :: "android_tuning \<Rightarrow> launch \<Rightarrow> android_supervisor \<Rightarrow> android_supervisor \<times> android_effect list" where
  "launch_failed T l sv =
    (let sv = drop_launch l sv in
     if isStale (la_sid l) (la_generation l) sv then (sv, [])
     else (case android_live (la_sid l) sv of
        Some (serial, s) \<Rightarrow> android_scheduleRestart T serial s sv
      | None \<Rightarrow> (sv, [])))"

definition launch_stale :: "launch \<Rightarrow> android_supervisor \<Rightarrow> android_supervisor \<times> android_effect list" where
  "launch_stale l sv =
    ((drop_launch l sv)\<lparr>ad_cleanups := ad_cleanups sv + 1\<rparr>, [Adb (la_serial l) (Remove_forward (la_port l))])"

definition needsInstall :: "android_tuning \<Rightarrow> launch \<Rightarrow> android_supervisor \<Rightarrow> bool" where
  "needsInstall T l sv =
    (case (case android_live (la_sid l) sv of
             Some (_, s) \<Rightarrow> Some s
           | None \<Rightarrow> List.find (\<lambda>s. an_id s = la_sid l) (ad_dead sv)) of
       Some s \<Rightarrow> \<not> an_installed s \<or> an_attempt s \<ge> at_reinstallAfterFailures T
     | None \<Rightarrow> True)"

definition mark_installed :: "nat \<Rightarrow> android_supervisor \<Rightarrow> android_supervisor" where
  "mark_installed sid sv = sv\<lparr>
     ad_sessions := map (\<lambda>(k, s). (k, if an_id s = sid then s\<lparr>an_installed := True\<rparr> else s)) (ad_sessions sv),
     ad_dead := map (\<lambda>s. if an_id s = sid then s\<lparr>an_installed := True\<rparr> else s) (ad_dead sv)\<rparr>"

definition after_install :: "launch \<Rightarrow> android_supervisor \<Rightarrow> android_supervisor \<times> android_effect list" where
  "after_install l sv =
    (if isStale (la_sid l) (la_generation l) sv then launch_stale l sv
     else (next_stage l At_forward sv, [Adb (la_serial l) (Forward_port (la_port l))]))"

definition spawnInstrument ::
  "android_tuning \<Rightarrow> (nat \<Rightarrow> bool) \<Rightarrow> launch \<Rightarrow> android_supervisor \<Rightarrow> android_supervisor \<times> android_effect list" where
  "spawnInstrument T ok l sv =
    (let pid = ad_nextPid sv in
     if \<not> ok pid then launch_failed T l (sv\<lparr>ad_nextPid := pid + 1, ad_exited := ad_exited sv @ [pid]\<rparr>)
     else (case android_live (la_sid l) sv of
        Some (serial, s) \<Rightarrow>
          (put_android serial (s\<lparr>an_instrument := Some pid, an_healthTimer := True\<rparr>)
             (drop_launch l (sv\<lparr>ad_nextPid := pid + 1\<rparr>)),
           [Spawned_instrument pid serial])
      | None \<Rightarrow> (sv, [])))"

text \<open>The adb call a launch waits for has ended, well or not.\<close>

definition adb_done ::
  "android_tuning \<Rightarrow> (nat \<Rightarrow> bool) \<Rightarrow> launch \<Rightarrow> bool \<Rightarrow> android_supervisor \<Rightarrow> android_supervisor \<times> android_effect list" where
  "adb_done T ok l well sv =
    (if l \<notin> set (ad_launches sv) then (sv, [])
     else case la_stage l of
       At_stayon \<Rightarrow>
         if needsInstall T l sv then (next_stage l At_install sv, [Adb (la_serial l) Install_runner])
         else after_install l sv
     | At_install \<Rightarrow> if well then after_install l (mark_installed (la_sid l) sv) else launch_failed T l sv
     | At_forward \<Rightarrow>
         if well then (next_stage l At_force_stop sv, [Adb (la_serial l) Force_stop]) else launch_failed T l sv
     | At_force_stop \<Rightarrow>
         if \<not> well then launch_failed T l sv
         else if isStale (la_sid l) (la_generation l) sv then launch_stale l sv
         else spawnInstrument T ok l sv)"

section \<open>Callbacks\<close>

definition instrument_ended ::
  "android_tuning \<Rightarrow> nat \<Rightarrow> nat \<Rightarrow> nat \<Rightarrow> android_supervisor \<Rightarrow> android_supervisor \<times> android_effect list" where
  "instrument_ended T pid sid generation sv =
    (let sv = sv\<lparr>ad_exited := ad_exited sv @ [pid]\<rparr> in
     if isStale sid generation sv then (sv, [])
     else (case android_live sid sv of
        Some (serial, s) \<Rightarrow> android_scheduleRestart T serial s sv
      | None \<Rightarrow> (sv, [])))"

text \<open>The health timer of a device fires: \<open>pollHealth\<close> up to its await, and what follows it.\<close>

definition android_health_tick :: "string \<Rightarrow> android_supervisor \<Rightarrow> android_supervisor \<times> android_effect list" where
  "android_health_tick serial sv = (case jget (ad_sessions sv) serial of
      None \<Rightarrow> (sv, [])
    | Some s \<Rightarrow>
        if \<not> an_healthTimer s then (sv, [])
        else (sv\<lparr>ad_polls := ad_polls sv @ [(an_id s, an_generation s)]\<rparr>, [Check_health (base_url (an_port s))]))"

definition android_health_polled ::
  "android_tuning \<Rightarrow> bool \<Rightarrow> ms \<Rightarrow> nat \<Rightarrow> nat \<Rightarrow> android_supervisor \<Rightarrow> android_supervisor \<times> android_effect list" where
  "android_health_polled T healthy now sid generation sv =
    (if (sid, generation) \<notin> set (ad_polls sv) then (sv, [])
     else let sv = sv\<lparr>ad_polls := remove1 (sid, generation) (ad_polls sv)\<rparr> in
     if isStale sid generation sv then (sv, [])
     else (case android_live sid sv of
        None \<Rightarrow> (sv, [])
      | Some (serial, s) \<Rightarrow>
          if healthy then
            (put_android serial (s\<lparr>an_ready := True, an_failCount := 0, an_attempt := 0\<rparr>) sv, [])
          else if \<not> an_ready s \<and> now - an_launchedAt s > at_readyDeadlineMs T then android_scheduleRestart T serial s sv
          else if \<not> an_ready s then (sv, [])
          else let s = s\<lparr>an_failCount := an_failCount s + 1\<rparr> in
            if an_failCount s < at_healthFailThreshold T then (put_android serial s sv, [])
            else android_scheduleRestart T serial s sv))"

definition android_restart_elapsed :: "ms \<Rightarrow> nat \<Rightarrow> android_supervisor \<Rightarrow> android_supervisor \<times> android_effect list" where
  "android_restart_elapsed now sid sv = (case android_live sid sv of
      None \<Rightarrow> (sv, [])
    | Some (serial, s) \<Rightarrow>
        if an_restart s = None then (sv, []) else android_launch now serial (s\<lparr>an_restart := None\<rparr>) sv)"

definition cleanup_done :: "android_supervisor \<Rightarrow> android_supervisor" where
  "cleanup_done sv = sv\<lparr>ad_cleanups := ad_cleanups sv - 1\<rparr>"

definition android_await_turn :: "android_supervisor \<Rightarrow> android_supervisor" where
  "android_await_turn sv = sv\<lparr>ad_terminating := filter (\<lambda>pid. pid \<notin> set (ad_exited sv)) (ad_terminating sv)\<rparr>"

definition android_await_over :: "android_supervisor \<Rightarrow> android_effect list" where
  "android_await_over sv = concat (map (signal_instrument SIGKILL sv) (ad_terminating sv))"

datatype android_event =
    Android_sync ms "string list"
  | Adb_done "nat \<Rightarrow> bool" launch bool
  | Instrument_ended nat nat nat
  | Android_health_tick string
  | Android_health bool ms nat nat
  | Android_restart ms nat
  | Android_cooldown nat
  | Android_escalation nat
  | Android_stop_all
  | Cleanup_done
  | Android_await_turn
  | Android_await_over

fun android_step ::
  "android_tuning \<Rightarrow> android_event \<Rightarrow> android_supervisor \<Rightarrow> android_supervisor \<times> android_effect list" where
  "android_step T (Android_sync now serials) sv = android_syncDevices now serials sv"
| "android_step T (Adb_done ok l well) sv = adb_done T ok l well sv"
| "android_step T (Instrument_ended pid sid gen) sv = instrument_ended T pid sid gen sv"
| "android_step T (Android_health_tick serial) sv = android_health_tick serial sv"
| "android_step T (Android_health healthy now sid gen) sv = android_health_polled T healthy now sid gen sv"
| "android_step T (Android_restart now sid) sv = android_restart_elapsed now sid sv"
| "android_step T (Android_cooldown port) sv = (sv\<lparr>ad_ports := cooldown_elapsed port (ad_ports sv)\<rparr>, [])"
| "android_step T (Android_escalation pid) sv = (sv, signal_instrument SIGKILL sv pid)"
| "android_step T Android_stop_all sv = android_stopAll sv"
| "android_step T Cleanup_done sv = (cleanup_done sv, [])"
| "android_step T Android_await_turn sv = (android_await_turn sv, [])"
| "android_step T Android_await_over sv = (sv, android_await_over sv)"

inductive android_reached :: "android_tuning \<Rightarrow> nat \<Rightarrow> android_supervisor \<Rightarrow> bool" for T basePort where
  init: "android_reached T basePort (android_init basePort)"
| step: "android_reached T basePort sv \<Longrightarrow> android_reached T basePort (fst (android_step T ev sv))"

section \<open>The invariant\<close>

text \<open>What is under way for a session and generation: a launch (\<open>False\<close>) or a health check (\<open>True\<close>).\<close>

definition token :: "launch \<Rightarrow> nat \<times> nat \<times> bool" where
  "token l = (la_sid l, la_generation l, False)"

definition poll_tokens :: "android_supervisor \<Rightarrow> (nat \<times> nat \<times> bool) set" where
  "poll_tokens sv = (\<lambda>(i, g). (i, g, True)) ` set (ad_polls sv)"

definition tokens :: "android_supervisor \<Rightarrow> (nat \<times> nat \<times> bool) set" where
  "tokens sv = token ` set (ad_launches sv) \<union> poll_tokens sv"

lemma token_updates [simp]:
  "poll_tokens (sv\<lparr>ad_sessions := x0\<rparr>) = poll_tokens sv" "tokens (sv\<lparr>ad_sessions := x0\<rparr>) = tokens sv"
  "poll_tokens (sv\<lparr>ad_dead := x1\<rparr>) = poll_tokens sv" "tokens (sv\<lparr>ad_dead := x1\<rparr>) = tokens sv"
  "poll_tokens (sv\<lparr>ad_nextId := x2\<rparr>) = poll_tokens sv" "tokens (sv\<lparr>ad_nextId := x2\<rparr>) = tokens sv"
  "poll_tokens (sv\<lparr>ad_ports := x3\<rparr>) = poll_tokens sv" "tokens (sv\<lparr>ad_ports := x3\<rparr>) = tokens sv"
  "poll_tokens (sv\<lparr>ad_terminating := x4\<rparr>) = poll_tokens sv" "tokens (sv\<lparr>ad_terminating := x4\<rparr>) = tokens sv"
  "poll_tokens (sv\<lparr>ad_exited := x5\<rparr>) = poll_tokens sv" "tokens (sv\<lparr>ad_exited := x5\<rparr>) = tokens sv"
  "poll_tokens (sv\<lparr>ad_nextPid := x6\<rparr>) = poll_tokens sv" "tokens (sv\<lparr>ad_nextPid := x6\<rparr>) = tokens sv"
  "poll_tokens (sv\<lparr>ad_cleanups := x7\<rparr>) = poll_tokens sv" "tokens (sv\<lparr>ad_cleanups := x7\<rparr>) = tokens sv"
  "poll_tokens (sv\<lparr>ad_launches := x9\<rparr>) = poll_tokens sv"
  by (simp_all add: tokens_def poll_tokens_def)

definition tuning_ok :: "android_tuning \<Rightarrow> bool" where
  "tuning_ok T \<longleftrightarrow> 0 < at_restartBaseMs T \<and> 0 < at_restartMaxMs T"

text \<open>A session waits for a restart, or is being launched, or runs under health polling.\<close>

definition android_ok :: "android_tuning \<Rightarrow> (nat \<times> nat \<times> bool) set \<Rightarrow> android_session \<Rightarrow> bool" where
  "android_ok T L s \<longleftrightarrow> (\<forall>g b. (an_id s, g, b) \<in> L \<longrightarrow> g \<le> an_generation s) \<and>
    (case an_restart s of
      Some delay \<Rightarrow> an_instrument s = None \<and> \<not> an_ready s \<and> \<not> an_healthTimer s \<and>
        (\<forall>b. (an_id s, an_generation s, b) \<notin> L) \<and> 0 < delay \<and> delay \<le> at_restartMaxMs T
    | None \<Rightarrow>
        if (an_id s, an_generation s, False) \<in> L
        then an_instrument s = None \<and> \<not> an_ready s \<and> \<not> an_healthTimer s \<and> (an_id s, an_generation s, True) \<notin> L
        else an_instrument s \<noteq> None \<and> an_healthTimer s)"

definition ad_slots :: "nat \<Rightarrow> android_supervisor \<Rightarrow> bool" where
  "ad_slots base sv \<longleftrightarrow> jwf (ad_sessions sv) \<and> pp_base (ad_ports sv) = base \<and>
    slots_inv (ad_nextId sv) (ad_ports sv) (map (\<lambda>x. an_id (snd x)) (ad_sessions sv))
      (map (\<lambda>x. an_port (snd x)) (ad_sessions sv)) \<and>
    distinct (map token (ad_launches sv)) \<and> (\<forall>(i, _)\<in>tokens sv. i < ad_nextId sv)"

definition runs_in :: "android_supervisor \<Rightarrow> nat \<Rightarrow> bool" where
  "runs_in sv pid \<longleftrightarrow> (\<exists>(d, s)\<in>set (ad_sessions sv). an_instrument s = Some pid)"

definition ad_but :: "android_tuning \<Rightarrow> nat \<Rightarrow> string \<Rightarrow> nat set \<Rightarrow> android_supervisor \<Rightarrow> bool" where
  "ad_but T base dev X sv \<longleftrightarrow> ad_slots base sv \<and>
    (\<forall>(d, s)\<in>set (ad_sessions sv). d \<noteq> dev \<longrightarrow> android_ok T (tokens sv) s) \<and>
    (\<forall>pid < ad_nextPid sv. pid \<in> set (ad_exited sv) \<or> pid \<in> set (ad_terminating sv) \<or> pid \<in> X \<or> runs_in sv pid)"

definition ad_inv :: "android_tuning \<Rightarrow> nat \<Rightarrow> android_supervisor \<Rightarrow> bool" where
  "ad_inv T base sv \<longleftrightarrow> ad_slots base sv \<and> (\<forall>(d, s)\<in>set (ad_sessions sv). android_ok T (tokens sv) s) \<and>
    (\<forall>pid < ad_nextPid sv. pid \<in> set (ad_exited sv) \<or> pid \<in> set (ad_terminating sv) \<or> runs_in sv pid)"

lemma android_delay_bounds: "tuning_ok T \<Longrightarrow> 0 < android_delay T n \<and> android_delay T n \<le> at_restartMaxMs T"
  by (simp add: tuning_ok_def android_delay_def)

lemma ad_inv_but: "ad_inv T base sv \<Longrightarrow> ad_but T base dev {} sv"
  by (auto simp: ad_inv_def ad_but_def)

lemma android_ok_cong:
  "android_ok T L s \<Longrightarrow> (\<And>g b. (an_id s, g, b) \<in> L' \<Longrightarrow> (an_id s, g, b) \<in> L) \<Longrightarrow>
    ((an_id s, an_generation s, False) \<in> L \<Longrightarrow> (an_id s, an_generation s, False) \<in> L') \<Longrightarrow> android_ok T L' s"
  unfolding android_ok_def by (cases "an_restart s") (auto split: if_splits)

lemma same_session:
  "ad_slots base sv \<Longrightarrow> (d, s) \<in> set (ad_sessions sv) \<Longrightarrow> (d', s') \<in> set (ad_sessions sv) \<Longrightarrow>
    an_id s = an_id s' \<Longrightarrow> (d, s) = (d', s')"
  using inj_onD [of "\<lambda>x. an_id (snd x)" "set (ad_sessions sv)" "(d, s)" "(d', s')"]
  by (simp add: ad_slots_def slots_inv_def distinct_map)

lemma android_live_get:
  "ad_slots base sv \<Longrightarrow> android_live sid sv = Some (dev, s) \<Longrightarrow>
    jget (ad_sessions sv) dev = Some s \<and> an_id s = sid \<and> (dev, s) \<in> set (ad_sessions sv)"
  by (auto simp: android_live_def ad_slots_def dest!: find_Some_iff_in intro: jget_in_wf)

lemma android_live_None: "android_live sid sv = None \<Longrightarrow> (d, s) \<in> set (ad_sessions sv) \<Longrightarrow> an_id s \<noteq> sid"
  by (auto simp: android_live_def dest: find_None_all)

lemma not_stale:
  "\<not> isStale sid gen sv \<Longrightarrow> \<exists>dev s. android_live sid sv = Some (dev, s) \<and> an_generation s = gen"
  by (auto simp: isStale_def split: option.splits)

lemma put_android_inv:
  assumes "ad_but T base dev X sv" "jget (ad_sessions sv) dev = Some s0" "an_port s = an_port s0" "an_id s = an_id s0"
    and "android_ok T (tokens sv) s"
    and "set_option (an_instrument s0) \<union> X \<subseteq> set_option (an_instrument s) \<union> set (ad_terminating sv) \<union> set (ad_exited sv)"
  shows "ad_inv T base (put_android dev s sv)"
proof -
  let ?m = "ad_sessions sv"
  have wf: "jwf ?m" using assms(1) by (simp add: ad_but_def ad_slots_def)
  have own: "runs_in sv pid \<Longrightarrow> pid \<in> set_option (an_instrument s0) \<or> runs_in (put_android dev s sv) pid" for pid
    using jset_values_cover [OF wf assms(2), of _ _ pid "\<lambda>s. set_option (an_instrument s)" s]
    unfolding runs_in_def put_android_def by fastforce
  have new: "pid \<in> set_option (an_instrument s) \<Longrightarrow> runs_in (put_android dev s sv) pid" for pid
    using jset_key_in [of dev s ?m] unfolding runs_in_def put_android_def by auto
  have ok: "\<forall>(d, s')\<in>set (jset dev s ?m). android_ok T (tokens sv) s'"
    using in_jset [OF wf] assms(1,5) unfolding ad_but_def by fastforce
  have "\<forall>pid < ad_nextPid sv. pid \<in> set (ad_exited sv) \<or> pid \<in> set (ad_terminating sv) \<or>
      runs_in (put_android dev s sv) pid"
    using assms(1,6) own new unfolding ad_but_def by blast
  then show ?thesis
    using assms(1) wf ok map_jset_same [OF assms(2), of an_port s] map_jset_same [OF assms(2), of an_id s] assms(3,4)
    by (simp add: ad_inv_def ad_but_def ad_slots_def put_android_def tokens_def poll_tokens_def)
qed

lemma ad_but_terminating:
  "ad_but T base dev X sv \<Longrightarrow> ad_but T base dev X (sv\<lparr>ad_terminating := ad_terminating sv @ ps\<rparr>)"
  by (auto simp: ad_but_def ad_slots_def runs_in_def tokens_def poll_tokens_def)

lemma teardown_but:
  assumes "ad_but T base dev X sv" "android_teardown s sv = (t, sv', effs)"
  shows "ad_but T base dev X sv'" "ad_sessions sv' = ad_sessions sv" "tokens sv' = tokens sv"
    "t = s\<lparr>an_healthTimer := False, an_instrument := None\<rparr>" "ad_exited sv' = ad_exited sv"
    "set_option (an_instrument s) \<union> set (ad_terminating sv) \<subseteq> set (ad_terminating sv') \<union> set (ad_exited sv')"
  using assms ad_but_terminating [of T base dev X sv]
  by (auto simp: android_teardown_def Let_def tokens_def split: option.splits if_splits)

lemma android_schedule_inv:
  assumes T: "tuning_ok T" and but: "ad_but T base dev X sv" and s0: "jget (ad_sessions sv) dev = Some s0"
      "an_port s = an_port s0" "an_id s = an_id s0"
    and gen: "\<And>g b. (an_id s, g, b) \<in> tokens sv \<Longrightarrow> g \<le> an_generation s"
    and ok: "an_restart s \<noteq> None \<Longrightarrow> android_ok T (tokens sv) s"
    and procs: "set_option (an_instrument s0) \<union> X \<subseteq> set_option (an_instrument s) \<union> set (ad_terminating sv) \<union> set (ad_exited sv)"
  shows "ad_inv T base (fst (android_scheduleRestart T dev s sv))"
proof (cases "an_restart s")
  case Some
  then show ?thesis using put_android_inv [OF but s0 ok procs] by (simp add: android_scheduleRestart_def)
next
  case None
  obtain t sv' effs where t: "android_teardown s sv = (t, sv', effs)" by (cases "android_teardown s sv")
  note td = teardown_but [OF but t]
  let ?t = "t\<lparr>an_generation := an_generation t + 1, an_ready := False, an_failCount := 0,
    an_attempt := an_attempt t + 1, an_restart := Some (android_delay T (an_attempt t))\<rparr>"
  have "(an_id s, Suc (an_generation s), b) \<notin> tokens sv" for b using gen [of "Suc (an_generation s)" b] by auto
  then have "android_ok T (tokens sv') ?t"
    using gen android_delay_bounds [OF T] by (auto simp: android_ok_def td(3,4) le_SucI)
  moreover have "jget (ad_sessions sv') dev = Some s0" "an_port ?t = an_port s0" "an_id ?t = an_id s0"
    using s0 td(2,4) by simp_all
  moreover have "set_option (an_instrument s0) \<union> X \<subseteq> set_option (an_instrument ?t) \<union> set (ad_terminating sv') \<union> set (ad_exited sv')"
    using procs td(4-6) by auto
  ultimately have "ad_inv T base (put_android dev ?t sv')" by (intro put_android_inv [OF td(1)])
  then show ?thesis using None t by (simp add: android_scheduleRestart_def)
qed

lemma android_launch_inv:
  assumes but: "ad_but T base dev {} sv" and s0: "jget (ad_sessions sv) dev = Some s0" "an_port s = an_port s0"
      "an_id s = an_id s0" "an_instrument s0 = None"
    and s: "an_restart s = None" "an_instrument s = None" "\<not> an_ready s" "\<not> an_healthTimer s"
    and fresh: "\<And>b. (an_id s, an_generation s, b) \<notin> tokens sv" "\<And>g b. (an_id s, g, b) \<in> tokens sv \<Longrightarrow> g \<le> an_generation s"
  shows "ad_inv T base (fst (android_launch now dev s sv))"
proof -
  let ?l = "\<lparr>la_sid = an_id s, la_generation = an_generation s, la_serial = dev, la_port = an_port s, la_stage = At_stayon\<rparr>"
  let ?sv = "sv\<lparr>ad_launches := ad_launches sv @ [?l]\<rparr>"
  have tok: "tokens ?sv = insert (an_id s, an_generation s, False) (tokens sv)"
    by (simp add: tokens_def token_def poll_tokens_def poll_tokens_def)
  have slots: "ad_slots base sv" using but by (simp add: ad_but_def)
  have "(dev, s0) \<in> set (ad_sessions sv)" by (rule jget_Some_in [OF s0(1)])
  then have other: "an_id s' \<noteq> an_id s" if "(d, s') \<in> set (ad_sessions sv)" "d \<noteq> dev" for d s'
    using same_session [OF slots that(1), of dev s0] that(2) s0(3) by auto
  have "an_id s < ad_nextId sv"
    using slots \<open>(dev, s0) \<in> _\<close> s0(3) unfolding ad_slots_def slots_inv_def by force
  moreover have "token ?l \<notin> set (map token (ad_launches sv))"
    using fresh(1) [of False] by (simp add: tokens_def token_def)
  ultimately have "ad_slots base ?sv" using slots unfolding ad_slots_def tok by auto
  moreover have "android_ok T (tokens ?sv) s'" if "(d, s') \<in> set (ad_sessions sv)" "d \<noteq> dev" for d s'
    using but that other [OF that] unfolding tok ad_but_def by (auto intro: android_ok_cong)
  ultimately have but': "ad_but T base dev {} ?sv"
    using but by (auto simp: ad_but_def runs_in_def)
  have "android_ok T (tokens ?sv) (s\<lparr>an_launchedAt := now\<rparr>)"
    using s fresh(1) [of True] fresh(2) by (auto simp: android_ok_def tok)
  then have "ad_inv T base (put_android dev (s\<lparr>an_launchedAt := now\<rparr>) ?sv)"
    using s0 by (intro put_android_inv [OF but', of s0]) auto
  then show ?thesis by (simp add: android_launch_def put_android_def)
qed

lemma android_start_missing_inv: "ad_inv T base sv \<Longrightarrow> ad_inv T base (fst (android_start_missing now dev sv))"
proof (cases "jhas (ad_sessions sv) dev")
  case False
  assume inv: "ad_inv T base sv"
  obtain port ports where alloc: "allocatePort (ad_ports sv) = (port, ports)" by fastforce
  let ?s = "\<lparr>an_id = ad_nextId sv, an_port = port, an_instrument = None, an_ready = False, an_installed = False,
    an_failCount = 0, an_attempt = 0, an_healthTimer = False, an_restart = None, an_generation = 0, an_launchedAt = 0\<rparr>"
  let ?sv = "put_android dev ?s (sv\<lparr>ad_nextId := ad_nextId sv + 1, ad_ports := ports\<rparr>)"
  have none: "jget (ad_sessions sv) dev = None" using False by (simp add: jhas_def)
  have tok: "tokens ?sv = tokens sv" by (simp add: tokens_def put_android_def poll_tokens_def)
  have old: "ad_slots base sv" using inv by (simp add: ad_inv_def)
  then have "\<forall>(i, _)\<in>tokens ?sv. i < Suc (ad_nextId sv)" unfolding tok ad_slots_def by (auto intro: less_SucI)
  then have "ad_slots base ?sv"
    using old slots_add [OF _ alloc] allocate_base [OF alloc] jmap_wf(1) [of "ad_sessions sv" dev ?s]
    unfolding ad_slots_def by (simp add: put_android_def jget_None_append [OF none])
  then have "ad_but T base dev {} ?sv"
    using inv unfolding ad_but_def tok
    by (auto simp: ad_inv_def put_android_def runs_in_def jget_None_append [OF none])
  moreover have "(ad_nextId sv, g, b) \<notin> tokens ?sv" for g b
    using inv unfolding tok by (auto simp: ad_inv_def ad_slots_def)
  moreover have "jget (ad_sessions ?sv) dev = Some ?s" by (simp add: put_android_def)
  ultimately show ?thesis
    using False android_launch_inv [of T base dev ?sv ?s ?s now]
    by (simp add: android_start_missing_def android_startSession_def alloc Let_def)
qed (simp add: android_start_missing_def)

lemma android_stop_inv: "ad_inv T base sv \<Longrightarrow> ad_inv T base (fst (android_stopSession dev sv))"
proof (cases "jget (ad_sessions sv) dev")
  case (Some s)
  assume inv: "ad_inv T base sv"
  obtain t sv' effs where t: "android_teardown s sv = (t, sv', effs)" by (cases "android_teardown s sv")
  note td = teardown_but [OF ad_inv_but [OF inv, of dev] t]
  let ?m = "ad_sessions sv"
  have wf: "jwf ?m" and slots: "slots_inv (ad_nextId sv) (ad_ports sv) (map (\<lambda>x. an_id (snd x)) ?m) (map (\<lambda>x. an_port (snd x)) ?m)"
    using inv by (simp_all add: ad_inv_def ad_slots_def)
  have "distinct (map (\<lambda>x. an_id (snd x)) ?m)" "distinct (map (\<lambda>x. an_port (snd x)) ?m)"
    using slots by (simp_all add: slots_inv_def)
  note ids = jdel_distinct_values [OF wf Some this(1)] and ports = jdel_distinct_values [OF wf Some this(2)]
  have "is_port \<in> set (map (\<lambda>x. an_port (snd x)) ?m)" if "is_port = an_port s" for is_port
    using jget_Some_in [OF Some] that by force
  then have "slots_inv (ad_nextId sv) (release_port (an_port s) (ad_ports sv))
      (map (\<lambda>x. an_id (snd x)) (jdel dev ?m)) (map (\<lambda>x. an_port (snd x)) (jdel dev ?m))"
    using ids ports by (intro slots_remove [OF slots]) auto
  moreover have cover: "runs_in sv pid \<Longrightarrow> pid \<in> set_option (an_instrument s) \<or> (\<exists>(d, s)\<in>set (jdel dev ?m). an_instrument s = Some pid)" for pid
    using jdel_values_cover [OF wf Some, of _ _ pid "\<lambda>s. set_option (an_instrument s)"] unfolding runs_in_def by fastforce
  moreover have "jwf (jdel dev ?m)" using wf by auto
  moreover have rest: "ad_nextId sv' = ad_nextId sv" "ad_ports sv' = ad_ports sv" "ad_launches sv' = ad_launches sv"
    "ad_nextPid sv' = ad_nextPid sv" "poll_tokens sv' = poll_tokens sv"
    using t by (auto simp: android_teardown_def Let_def poll_tokens_def split: option.splits if_splits)
  moreover have oks: "\<forall>(d, s)\<in>set (jdel dev ?m). android_ok T (tokens sv) s"
    using inv by (auto simp: ad_inv_def jdel_filter)
  let ?sv = "fst (android_stopSession dev sv)"
  have new: "?sv = sv'\<lparr>ad_sessions := jdel dev ?m, ad_dead := ad_dead sv' @ [t],
      ad_cleanups := ad_cleanups sv' + 2, ad_ports := release_port (an_port s) (ad_ports sv)\<rparr>"
    using td(2,4) rest by (simp add: android_stopSession_def Some t)
  have tok: "tokens ?sv = tokens sv" using rest by (simp add: new tokens_def poll_tokens_def)
  have "\<forall>(i, _)\<in>tokens sv. i < ad_nextId sv" "distinct (map token (ad_launches sv))" "pp_base (ad_ports sv) = base"
    using inv by (simp_all add: ad_inv_def ad_slots_def)
  ultimately have "ad_slots base ?sv"
    unfolding ad_slots_def tok by (simp add: new)
  moreover have "pid \<in> set (ad_exited ?sv) \<or> pid \<in> set (ad_terminating ?sv) \<or> runs_in ?sv pid" if "pid < ad_nextPid ?sv" for pid
  proof -
    have "pid \<in> set (ad_exited sv) \<or> pid \<in> set (ad_terminating sv) \<or> runs_in sv pid"
      using inv that rest by (simp add: ad_inv_def new)
    then show ?thesis using cover [of pid] td(5,6) by (auto simp: new runs_in_def)
  qed
  ultimately show ?thesis using oks unfolding ad_inv_def tok by (simp add: new)
qed (simp add: android_stopSession_def)

lemma android_sync_inv: "ad_inv T base sv \<Longrightarrow> ad_inv T base (fst (android_syncDevices now ids sv))"
proof -
  assume inv: "ad_inv T base sv"
  let ?sv = "fst (for_each (android_start_missing now) (js_set ids) sv)"
  have "ad_inv T base ?sv"
    by (rule for_each_inv [where P = "ad_inv T base"]) (auto intro: android_start_missing_inv inv)
  from for_each_inv [where P = "ad_inv T base", OF _ this, of "android_stop_gone (js_set ids)" "jkeys (ad_sessions ?sv)"]
  have "ad_inv T base (fst (for_each (android_stop_gone (js_set ids)) (jkeys (ad_sessions ?sv)) ?sv))"
    by (simp add: android_stop_gone_def android_stop_inv)
  then show ?thesis by (simp add: android_syncDevices_def Let_def split_def)
qed

lemma android_stopAll_inv: "ad_inv T base sv \<Longrightarrow> ad_inv T base (fst (android_stopAll sv))"
  unfolding android_stopAll_def by (rule for_each_inv [where P = "ad_inv T base"]) (rule android_stop_inv)

section \<open>Steps of a launch keep it\<close>

lemma drop_tokens:
  "ad_slots base sv \<Longrightarrow> l \<in> set (ad_launches sv) \<Longrightarrow> tokens (drop_launch l sv) = tokens sv - {token l}"
proof -
  assume "ad_slots base sv" "l \<in> set (ad_launches sv)"
  then have d: "distinct (map token (ad_launches sv))" and l: "l \<in> set (ad_launches sv)" by (simp_all add: ad_slots_def)
  then have "distinct (ad_launches sv)" "inj_on token (set (ad_launches sv))" by (simp_all add: distinct_map)
  moreover have "token l \<notin> poll_tokens sv" by (auto simp: token_def poll_tokens_def)
  ultimately show ?thesis using l by (auto simp: tokens_def drop_launch_def set_remove1_eq inj_on_def)
qed

lemma drop_tokens_sub: "x \<in> tokens (drop_launch l sv) \<Longrightarrow> x \<in> tokens sv"
  by (auto simp: tokens_def drop_launch_def dest: set_remove1_subset [THEN subsetD])

lemma drop_slots: "ad_slots base sv \<Longrightarrow> ad_slots base (drop_launch l sv)"
  using drop_tokens_sub [of _ l sv]
  by (auto simp: ad_slots_def drop_launch_def distinct_map distinct_remove1 inj_on_diff
      intro: inj_on_subset [OF _ set_remove1_subset] dest: notin_set_remove1)

lemma drop_fields [simp]:
  "ad_sessions (drop_launch l sv) = ad_sessions sv" "ad_exited (drop_launch l sv) = ad_exited sv"
  "ad_terminating (drop_launch l sv) = ad_terminating sv" "ad_nextPid (drop_launch l sv) = ad_nextPid sv"
  "runs_in (drop_launch l sv) = runs_in sv" "isStale i g (drop_launch l sv) = isStale i g sv"
  "android_live i (drop_launch l sv) = android_live i sv"
  by (simp_all add: drop_launch_def runs_in_def isStale_def android_live_def fun_eq_iff)

text \<open>Dropping a launch leaves every session in order but the one it was launching.\<close>

lemma drop_but:
  assumes inv: "ad_inv T base sv" and l: "l \<in> set (ad_launches sv)"
    and dev: "\<And>s d. (d, s) \<in> set (ad_sessions sv) \<Longrightarrow> an_id s = la_sid l \<Longrightarrow> an_generation s = la_generation l \<Longrightarrow> d = dev"
  shows "ad_but T base dev {} (drop_launch l sv)"
proof -
  have slots: "ad_slots base sv" using inv by (simp add: ad_inv_def)
  note tok = drop_tokens [OF slots l]
  have "android_ok T (tokens (drop_launch l sv)) s" if "(d, s) \<in> set (ad_sessions sv)" "d \<noteq> dev" for d s
  proof -
    have "android_ok T (tokens sv) s" using inv that by (auto simp: ad_inv_def)
    moreover have "(an_id s, an_generation s, False) \<noteq> token l" using dev [OF that(1)] that(2) by (auto simp: token_def)
    ultimately show ?thesis by (rule_tac android_ok_cong) (auto simp: tok)
  qed
  then show ?thesis using inv drop_slots [OF slots] by (auto simp: ad_but_def ad_inv_def)
qed

lemma drop_stale_inv:
  assumes inv: "ad_inv T base sv" and l: "l \<in> set (ad_launches sv)" and stale: "isStale (la_sid l) (la_generation l) sv"
  shows "ad_inv T base (drop_launch l sv)"
proof -
  have slots: "ad_slots base sv" using inv by (simp add: ad_inv_def)
  have no: "\<not> (an_id s = la_sid l \<and> an_generation s = la_generation l)" if "(d, s) \<in> set (ad_sessions sv)" for d s
  proof
    assume s: "an_id s = la_sid l \<and> an_generation s = la_generation l"
    then obtain x where x: "android_live (la_sid l) sv = Some x"
      using android_live_None [OF _ \<open>(d, s) \<in> _\<close>, of "la_sid l"] by (cases "android_live (la_sid l) sv") simp_all
    then have "x = (d, s)"
      using android_live_get [OF slots, of _ "fst x" "snd x"] same_session [OF slots that, of "fst x" "snd x"] s by simp
    then show False using stale x s by (simp add: isStale_def)
  qed
  have "ad_but T base d {} (drop_launch l sv)" for d
    using drop_but [OF inv l, of d] no by blast
  then have but: "\<And>d. ad_but T base d {} (drop_launch l sv)" .
  have "android_ok T (tokens (drop_launch l sv)) s" if "(d, s) \<in> set (ad_sessions sv)" for d s
    using but [of "CHR ''x'' # d"] that unfolding ad_but_def by auto
  then show ?thesis using but [of "[]"] by (auto simp: ad_but_def ad_inv_def)
qed

lemma launch_failed_inv:
  assumes T: "tuning_ok T" and inv: "ad_inv T base sv" and l: "l \<in> set (ad_launches sv)"
  shows "ad_inv T base (fst (launch_failed T l sv))"
proof (cases "isStale (la_sid l) (la_generation l) sv")
  case True
  then show ?thesis using drop_stale_inv [OF inv l] by (simp add: launch_failed_def Let_def)
next
  case False
  have slots: "ad_slots base sv" using inv by (simp add: ad_inv_def)
  obtain dev s where s: "android_live (la_sid l) sv = Some (dev, s)" "an_generation s = la_generation l"
    using not_stale [OF False] by blast
  note get = android_live_get [OF slots s(1)]
  have ok: "android_ok T (tokens sv) s" using inv get by (auto simp: ad_inv_def)
  have "(an_id s, an_generation s, False) \<in> tokens sv" using l get s(2) by (force simp: tokens_def token_def)
  then have none: "an_restart s = None" "an_instrument s = None" using ok by (auto simp: android_ok_def split: option.splits)
  have but: "ad_but T base dev {} (drop_launch l sv)"
    by (rule drop_but [OF inv l]) (use same_session [OF slots, of _ _ dev s] get in auto)
  have gen: "g \<le> an_generation s" if "(an_id s, g, b) \<in> tokens (drop_launch l sv)" for g b
    using that ok by (auto simp: drop_tokens [OF slots l] android_ok_def)
  have "ad_inv T base (fst (android_scheduleRestart T dev s (drop_launch l sv)))"
    using none get gen by (intro android_schedule_inv [OF T but, of s]) auto
  then show ?thesis using False s by (simp add: launch_failed_def Let_def)
qed

lemma next_stage_inv: "ad_inv T base sv \<Longrightarrow> ad_inv T base (next_stage l stage sv)"
proof -
  let ?f = "\<lambda>m. if m = l then m\<lparr>la_stage := stage\<rparr> else m"
  have f: "token (?f m) = token m" for m by (simp add: token_def)
  have mt: "map token (map ?f (ad_launches sv)) = map token (ad_launches sv)"
    unfolding map_map comp_def f ..
  have launches: "ad_launches (next_stage l stage sv) = map ?f (ad_launches sv)"
    by (simp add: next_stage_def)
  have tok: "tokens (next_stage l stage sv) = tokens sv"
    using mt [THEN arg_cong, of set] unfolding tokens_def launches
    by (simp only: set_map) (simp add: next_stage_def)
  have "runs_in (next_stage l stage sv) = runs_in sv" by (simp add: runs_in_def next_stage_def fun_eq_iff)
  then show "ad_inv T base sv \<Longrightarrow> ad_inv T base (next_stage l stage sv)"
    unfolding ad_inv_def ad_slots_def tok launches mt by (simp add: next_stage_def)
qed

lemma mark_installed_inv: "ad_inv T base sv \<Longrightarrow> ad_inv T base (mark_installed sid sv)"
proof -
  let ?f = "\<lambda>(k, s). (k, if an_id s = sid then s\<lparr>an_installed := True\<rparr> else s)"
  have maps: "map (\<lambda>x. an_id (snd x)) (map ?f m) = map (\<lambda>x. an_id (snd x)) m"
    "map (\<lambda>x. an_port (snd x)) (map ?f m) = map (\<lambda>x. an_port (snd x)) m" "map fst (map ?f m) = map fst m" for m
    by (induction m) auto
  have ok: "android_ok T L (s\<lparr>an_installed := b\<rparr>) = android_ok T L s" for L s b
    by (cases "an_restart s") (simp_all add: android_ok_def)
  have new: "ad_sessions (mark_installed sid sv) = map ?f (ad_sessions sv)" by (simp add: mark_installed_def)
  have "tokens (mark_installed sid sv) = tokens sv" by (simp add: mark_installed_def)
  moreover have "runs_in (mark_installed sid sv) = runs_in sv"
    by (rule ext) (force simp: runs_in_def new split_beta)
  moreover have "(\<forall>(d, s)\<in>set (map ?f (ad_sessions sv)). android_ok T L s) =
      (\<forall>(d, s)\<in>set (ad_sessions sv). android_ok T L s)" for L
    by (simp add: split_beta ok if_distrib [of "android_ok T L"] cong: ball_cong)
  moreover have "jwf (map ?f (ad_sessions sv)) = jwf (ad_sessions sv)" by (simp only: jwf_def maps(3))
  ultimately show "ad_inv T base sv \<Longrightarrow> ad_inv T base (mark_installed sid sv)"
    unfolding ad_inv_def ad_slots_def new maps by (simp add: mark_installed_def)
qed

lemma mark_installed_launches: "ad_launches (mark_installed sid sv) = ad_launches sv"
  by (simp add: mark_installed_def)

lemma stale_end_inv:
  "ad_inv T base sv \<Longrightarrow> l \<in> set (ad_launches sv) \<Longrightarrow> isStale (la_sid l) (la_generation l) sv \<Longrightarrow>
    ad_inv T base (fst (launch_stale l sv))"
  using drop_stale_inv [of T base sv l]
  by (simp add: launch_stale_def ad_inv_def ad_slots_def runs_in_def tokens_def poll_tokens_def)

lemma after_install_inv:
  "ad_inv T base sv \<Longrightarrow> l \<in> set (ad_launches sv) \<Longrightarrow> ad_inv T base (fst (after_install l sv))"
  by (simp add: after_install_def stale_end_inv next_stage_inv)

lemma spawnInstrument_inv:
  assumes T: "tuning_ok T" and inv: "ad_inv T base sv" and l: "l \<in> set (ad_launches sv)"
    and fresh: "\<not> isStale (la_sid l) (la_generation l) sv"
  shows "ad_inv T base (fst (spawnInstrument T ok l sv))"
proof (cases "ok (ad_nextPid sv)")
  case False
  let ?sv = "sv\<lparr>ad_nextPid := ad_nextPid sv + 1, ad_exited := ad_exited sv @ [ad_nextPid sv]\<rparr>"
  have "ad_inv T base ?sv"
    using inv by (auto simp: ad_inv_def ad_slots_def runs_in_def tokens_def poll_tokens_def less_Suc_eq)
  then show ?thesis using launch_failed_inv [OF T, of base ?sv l] l False by (simp add: spawnInstrument_def Let_def)
next
  case True
  have slots: "ad_slots base sv" using inv by (simp add: ad_inv_def)
  obtain dev s where s: "android_live (la_sid l) sv = Some (dev, s)" "an_generation s = la_generation l"
    using not_stale [OF fresh] by blast
  note get = android_live_get [OF slots s(1)]
  have okay: "android_ok T (tokens sv) s" using inv get by (auto simp: ad_inv_def)
  have tok: "(an_id s, an_generation s, False) = token l" using get s(2) by (simp add: token_def)
  then have "(an_id s, an_generation s, False) \<in> tokens sv" using l by (auto simp: tokens_def poll_tokens_def)
  then have none: "an_restart s = None" "an_instrument s = None" using okay by (auto simp: android_ok_def split: option.splits)
  let ?d = "drop_launch l sv" and ?t = "s\<lparr>an_instrument := Some (ad_nextPid sv), an_healthTimer := True\<rparr>"
  let ?sv = "?d\<lparr>ad_nextPid := Suc (ad_nextPid sv)\<rparr>"
  have "ad_but T base dev {} ?d"
    by (rule drop_but [OF inv l]) (use same_session [OF slots, of _ _ dev s] get in auto)
  then have but: "ad_but T base dev {ad_nextPid sv} ?sv"
    by (auto simp: ad_but_def ad_slots_def runs_in_def tokens_def poll_tokens_def less_Suc_eq)
  have "tokens ?sv = tokens sv - {token l}" using drop_tokens [OF slots l] by (simp add: tokens_def poll_tokens_def)
  then have "android_ok T (tokens ?sv) ?t" using okay none tok by (auto simp: android_ok_def)
  moreover have "jget (ad_sessions ?sv) dev = Some s" using get by simp
  ultimately have "ad_inv T base (put_android dev ?t ?sv)"
    using none by (intro put_android_inv [OF but, of s]) auto
  moreover have "drop_launch l (sv\<lparr>ad_nextPid := Suc (ad_nextPid sv)\<rparr>) = ?sv" by (simp add: drop_launch_def)
  ultimately show ?thesis using True s by (simp add: spawnInstrument_def Let_def)
qed

lemma adb_done_inv: "tuning_ok T \<Longrightarrow> ad_inv T base sv \<Longrightarrow> ad_inv T base (fst (adb_done T ok l well sv))"
  unfolding adb_done_def
  by (auto simp: next_stage_inv after_install_inv launch_failed_inv stale_end_inv spawnInstrument_inv
      mark_installed_inv mark_installed_launches split: launch_stage.split)

section \<open>Callbacks keep it\<close>

lemma live_session_inv:
  assumes "ad_inv T base sv" "\<not> isStale sid gen sv"
  obtains dev s where "android_live sid sv = Some (dev, s)" "jget (ad_sessions sv) dev = Some s" "an_id s = sid"
    "an_generation s = gen" "android_ok T (tokens sv) s"
  using not_stale [OF assms(2)] android_live_get [of base sv sid] assms(1) unfolding ad_inv_def by blast

lemma android_schedule_same_inv:
  assumes "tuning_ok T" "ad_inv T base sv" "jget (ad_sessions sv) dev = Some s0" "android_ok T (tokens sv) s"
    and "an_port s = an_port s0" "an_id s = an_id s0" "an_instrument s = an_instrument s0"
  shows "ad_inv T base (fst (android_scheduleRestart T dev s sv))"
  by (rule android_schedule_inv [OF assms(1) ad_inv_but [OF assms(2)] assms(3,5,6)])
    (use assms(4,7) in \<open>auto simp: android_ok_def\<close>)

lemma android_put_same_inv:
  assumes "ad_inv T base sv" "jget (ad_sessions sv) dev = Some s0" "android_ok T (tokens sv) s"
    and "an_port s = an_port s0" "an_id s = an_id s0" "an_instrument s = an_instrument s0"
  shows "ad_inv T base (put_android dev s sv)"
  by (rule put_android_inv [OF ad_inv_but [OF assms(1)] assms(2,4,5,3)]) (use assms(6) in auto)

lemma instrument_ended_inv:
  "tuning_ok T \<Longrightarrow> ad_inv T base sv \<Longrightarrow> ad_inv T base (fst (instrument_ended T pid sid gen sv))"
proof -
  let ?sv = "sv\<lparr>ad_exited := ad_exited sv @ [pid]\<rparr>"
  assume T: "tuning_ok T" and "ad_inv T base sv"
  then have inv: "ad_inv T base ?sv" by (auto simp: ad_inv_def ad_slots_def runs_in_def tokens_def poll_tokens_def)
  show ?thesis
  proof (cases "isStale sid gen ?sv")
    case False
    then obtain dev s where s: "android_live sid ?sv = Some (dev, s)" "jget (ad_sessions ?sv) dev = Some s"
      "android_ok T (tokens ?sv) s" by (rule live_session_inv [OF inv])
    then show ?thesis
      using android_schedule_same_inv [OF T inv s(2,3) refl refl refl] False
      by (simp add: instrument_ended_def Let_def)
  qed (use inv in \<open>simp add: instrument_ended_def Let_def\<close>)
qed

lemma android_ok_ready:
  "android_ok T L s \<Longrightarrow> (an_id s, an_generation s, True) \<in> L \<Longrightarrow>
    android_ok T L (s\<lparr>an_ready := r, an_failCount := n, an_attempt := a\<rparr>)"
  by (cases "an_restart s") (auto simp: android_ok_def split: if_splits)

lemma poll_dropped:
  assumes "ad_inv T base sv"
  shows "ad_inv T base (sv\<lparr>ad_polls := remove1 p (ad_polls sv)\<rparr>)"
proof -
  let ?sv = "sv\<lparr>ad_polls := remove1 p (ad_polls sv)\<rparr>"
  have sub: "x \<in> tokens ?sv \<Longrightarrow> x \<in> tokens sv" for x
    by (auto simp: tokens_def poll_tokens_def dest: set_remove1_subset [THEN subsetD])
  have keep: "(i, g, False) \<in> tokens sv \<Longrightarrow> (i, g, False) \<in> tokens ?sv" for i g
    by (auto simp: tokens_def poll_tokens_def)
  have "android_ok T (tokens ?sv) s" if "android_ok T (tokens sv) s" for s
    by (rule android_ok_cong [OF that]) (auto intro: sub keep)
  then show ?thesis using assms sub unfolding ad_inv_def ad_slots_def runs_in_def by auto
qed

lemma health_tick_inv: "ad_inv T base sv \<Longrightarrow> ad_inv T base (fst (android_health_tick serial sv))"
proof (cases "jget (ad_sessions sv) serial")
  case (Some s)
  assume inv: "ad_inv T base sv"
  let ?sv = "sv\<lparr>ad_polls := ad_polls sv @ [(an_id s, an_generation s)]\<rparr>"
  have slots: "ad_slots base sv" using inv by (simp add: ad_inv_def)
  note mem = jget_Some_in [OF Some]
  have ok: "android_ok T (tokens sv) s" using inv mem by (auto simp: ad_inv_def)
  have tok: "tokens ?sv = insert (an_id s, an_generation s, True) (tokens sv)"
    by (auto simp: tokens_def poll_tokens_def)
  have "an_id s < ad_nextId sv" using slots mem unfolding ad_slots_def slots_inv_def by force
  then have "ad_slots base ?sv" using slots unfolding ad_slots_def tok by simp
  moreover have "android_ok T (tokens ?sv) s'" if timer: "an_healthTimer s" and s': "(d, s') \<in> set (ad_sessions sv)" for d s'
  proof (cases "an_id s' = an_id s")
    case True
    then have "s' = s" using same_session [OF slots s' mem] by simp
    then show ?thesis using ok timer unfolding tok android_ok_def by (auto split: option.splits if_splits)
  next
    case False
    have "android_ok T (tokens sv) s'" using inv s' by (auto simp: ad_inv_def)
    then show ?thesis by (rule android_ok_cong) (use False in \<open>auto simp: tok\<close>)
  qed
  ultimately show ?thesis
    using inv by (auto simp: android_health_tick_def Some ad_inv_def runs_in_def)
qed (simp add: android_health_tick_def)

lemma android_polled_inv:
  assumes T: "tuning_ok T" and inv0: "ad_inv T base sv0"
  shows "ad_inv T base (fst (android_health_polled T healthy now sid gen sv0))"
proof (cases "(sid, gen) \<in> set (ad_polls sv0)")
  case True
  let ?sv = "sv0\<lparr>ad_polls := remove1 (sid, gen) (ad_polls sv0)\<rparr>"
  note inv = poll_dropped [OF inv0, of "(sid, gen)"]
  show ?thesis
  proof (cases "isStale sid gen ?sv")
    case False
    obtain dev s where s: "android_live sid ?sv = Some (dev, s)" "jget (ad_sessions ?sv) dev = Some s"
      "android_ok T (tokens ?sv) s" "an_id s = sid" "an_generation s = gen"
      using False by (rule live_session_inv [OF inv])
    have "jget (ad_sessions sv0) dev = Some s" using s(2) by simp
    then have "android_ok T (tokens sv0) s" using inv0 jget_Some_in by (fastforce simp: ad_inv_def)
    moreover have "(sid, gen, True) \<in> tokens sv0" using True by (auto simp: tokens_def poll_tokens_def)
    ultimately have run: "an_restart s = None" "(sid, gen, False) \<notin> tokens sv0"
      using s(4,5) by (auto simp: android_ok_def split: option.splits if_splits)
    then have no: "(sid, gen, False) \<notin> tokens ?sv" by (auto simp: tokens_def poll_tokens_def)
    have ok: "android_ok T (tokens ?sv) (s\<lparr>an_ready := r, an_failCount := n, an_attempt := a\<rparr>)" for r n a
      using s(3-5) run(1) no by (auto simp: android_ok_def)
    have ok': "android_ok T (tokens ?sv) (s\<lparr>an_failCount := n\<rparr>)" for n
      using s(3-5) run(1) no by (auto simp: android_ok_def)
    note sched = android_schedule_same_inv [OF T inv s(2)] and put = android_put_same_inv [OF inv s(2)]
    show ?thesis
      using True False s(1) sched [OF s(3)] sched [OF ok'] put [OF ok] put [OF ok'] inv
      by (simp add: android_health_polled_def Let_def)
  qed (use True inv in \<open>simp add: android_health_polled_def Let_def\<close>)
qed (use inv0 in \<open>simp add: android_health_polled_def\<close>)

lemma restart_inv:
  assumes inv: "ad_inv T base sv"
  shows "ad_inv T base (fst (android_restart_elapsed now sid sv))"
proof (cases "android_live sid sv")
  case (Some x)
  obtain dev s where x: "x = (dev, s)" by (cases x)
  have "ad_slots base sv" using inv by (simp add: ad_inv_def)
  from android_live_get [OF this, of sid dev s] Some x
  have s: "jget (ad_sessions sv) dev = Some s" "(dev, s) \<in> set (ad_sessions sv)" by simp_all
  have ok: "android_ok T (tokens sv) s" using inv s(2) by (auto simp: ad_inv_def)
  show ?thesis
  proof (cases "an_restart s = None")
    case False
    then have "ad_inv T base (fst (android_launch now dev (s\<lparr>an_restart := None\<rparr>) sv))"
      using ok by (intro android_launch_inv [OF ad_inv_but [OF inv] s(1)]) (auto simp: android_ok_def)
    then show ?thesis using Some x False by (auto simp: android_restart_elapsed_def)
  qed (use Some x inv in \<open>simp add: android_restart_elapsed_def\<close>)
qed (use inv in \<open>simp add: android_restart_elapsed_def\<close>)

lemma await_turn_inv: "ad_inv T base sv \<Longrightarrow> ad_inv T base (android_await_turn sv)"
  unfolding ad_inv_def ad_slots_def android_await_turn_def runs_in_def by auto

theorem android_step_inv: "tuning_ok T \<Longrightarrow> ad_inv T base sv \<Longrightarrow> ad_inv T base (fst (android_step T ev sv))"
proof (cases ev)
  case (Android_cooldown port)
  assume "ad_inv T base sv"
  then show ?thesis using Android_cooldown
    by (simp add: ad_inv_def ad_slots_def runs_in_def slots_cooldown)
next
  case Cleanup_done
  assume "ad_inv T base sv"
  then show ?thesis using Cleanup_done
    by (simp add: ad_inv_def ad_slots_def runs_in_def cleanup_done_def)
qed (simp_all add: android_sync_inv adb_done_inv instrument_ended_inv health_tick_inv android_polled_inv restart_inv
    android_stopAll_inv await_turn_inv)

lemma android_reached_inv:
  assumes "android_reached T base sv" "tuning_ok T"
  shows "ad_inv T base sv"
  using assms
proof (induction rule: android_reached.induct)
  case init
  show ?case by (simp add: android_init_def ad_inv_def ad_slots_def slots_inv_def pool_inv_def tokens_def poll_tokens_def jwf_def)
qed (simp add: android_step_inv)

section \<open>Who becomes ready, who is spawned\<close>

lemma ready_put: "android_isReady (put_android dev s sv) d = (if d = dev then an_ready s else android_isReady sv d)"
  by (simp add: android_isReady_def put_android_def)

lemma ready_same: "ad_sessions a = ad_sessions b \<Longrightarrow> android_isReady a d = android_isReady b d"
  by (simp add: android_isReady_def)

lemma teardown_sessions: "ad_sessions (fst (snd (android_teardown s sv))) = ad_sessions sv"
  by (simp add: android_teardown_def Let_def split: option.split)

lemma ready_schedule: "android_isReady (fst (android_scheduleRestart T dev s sv)) d \<Longrightarrow>
    d = dev \<and> an_ready s \<or> d \<noteq> dev \<and> android_isReady sv d"
  by (auto simp: android_scheduleRestart_def ready_put split_def Let_def ready_same [OF teardown_sessions]
      split: if_splits)

lemma ready_stop: "android_isReady (fst (android_stopSession dev sv)) d \<Longrightarrow> android_isReady sv d"
  by (auto simp: android_stopSession_def android_teardown_def android_isReady_def Let_def split: option.splits if_splits)

lemma ready_start: "android_isReady (fst (android_start_missing now dev sv)) d \<Longrightarrow> android_isReady sv d"
  by (auto simp: android_start_missing_def android_startSession_def android_launch_def android_isReady_def
      put_android_def Let_def split: prod.splits if_splits)

lemma ready_each:
  assumes "\<And>k sv. android_isReady (fst (f k sv)) d \<Longrightarrow> android_isReady sv d" "android_isReady (fst (for_each f ks sv)) d"
  shows "android_isReady sv d"
  using for_each_inv [where P = "\<lambda>s. android_isReady s d \<longrightarrow> android_isReady sv d" and f = f and s = sv, of ks] assms by blast

lemma ready_sync: "android_isReady (fst (android_syncDevices now ids sv)) d \<Longrightarrow> android_isReady sv d"
  unfolding android_syncDevices_def Let_def split_def fst_conv
  by (drule ready_each [rotated]; (drule ready_each [rotated])?)
    (auto simp: android_stop_gone_def dest: ready_stop ready_start split: if_splits)

lemma ready_live:
  "ad_inv T base sv \<Longrightarrow> android_live sid sv = Some (dev, s) \<Longrightarrow> an_ready s = android_isReady sv dev"
  using android_live_get [of base sv sid dev s] by (simp add: ad_inv_def android_isReady_def)

lemma ready_failed: "ad_inv T base sv \<Longrightarrow> android_isReady (fst (launch_failed T' l sv)) d \<Longrightarrow> android_isReady sv d"
  by (auto simp: launch_failed_def Let_def isStale_def split: if_splits option.splits prod.splits
      dest!: ready_schedule simp: ready_live ready_same [of "drop_launch l sv" sv])

lemma ready_adb: "ad_inv T base sv \<Longrightarrow> android_isReady (fst (adb_done T' ok l well sv)) d \<Longrightarrow> android_isReady sv d"
proof -
  assume inv: "ad_inv T base sv" and new: "android_isReady (fst (adb_done T' ok l well sv)) d"
  have marked: "android_isReady (mark_installed i sv) d = android_isReady sv d" for i
  proof -
    have "jget (map (\<lambda>(k, s). (k, if an_id s = i then s\<lparr>an_installed := True\<rparr> else s)) m) d =
        map_option (\<lambda>s. if an_id s = i then s\<lparr>an_installed := True\<rparr> else s) (jget m d)" for m :: "(string, android_session) jsmap"
      by (induction m) auto
    then show ?thesis by (cases "jget (ad_sessions sv) d") (simp_all add: android_isReady_def mark_installed_def)
  qed
  have stage: "android_isReady (next_stage l st s) d = android_isReady s d" for st s
    by (rule ready_same) (simp add: next_stage_def)
  have stale: "android_isReady (fst (launch_stale l s)) d = android_isReady s d" for s
    by (rule ready_same) (simp add: launch_stale_def)
  have install: "android_isReady (fst (after_install l s)) d = android_isReady s d" for s
    by (simp add: after_install_def stage stale)
  have spawn: "android_isReady (fst (spawnInstrument T' ok l sv)) d \<Longrightarrow> android_isReady sv d"
  proof (cases "ok (ad_nextPid sv)")
    case True
    assume new: "android_isReady (fst (spawnInstrument T' ok l sv)) d"
    show ?thesis
    proof (cases "android_live (la_sid l) sv")
      case (Some x)
      obtain dev s where x: "x = (dev, s)" by (cases x)
      have "ad_sessions (drop_launch l (sv\<lparr>ad_nextPid := Suc (ad_nextPid sv)\<rparr>)) = ad_sessions sv" by simp
      from ready_same [OF this] new True Some x ready_live [OF inv, of "la_sid l" dev s]
      show ?thesis by (simp add: spawnInstrument_def Let_def ready_put split: if_splits)
    qed (use new True in \<open>simp add: spawnInstrument_def Let_def\<close>)
  next
    case False
    let ?sv = "sv\<lparr>ad_nextPid := Suc (ad_nextPid sv), ad_exited := ad_exited sv @ [ad_nextPid sv]\<rparr>"
    have "ad_inv T base ?sv"
      using inv by (auto simp: ad_inv_def ad_slots_def runs_in_def less_Suc_eq)
    moreover assume "android_isReady (fst (spawnInstrument T' ok l sv)) d"
    ultimately have "android_isReady ?sv d" using False ready_failed by (simp add: spawnInstrument_def Let_def)
    then show ?thesis by (simp add: android_isReady_def)
  qed
  show ?thesis
    using new unfolding adb_done_def
    by (auto simp: stage stale install marked spawn split: if_splits launch_stage.splits dest: ready_failed [OF inv])
qed

lemma ready_ended:
  assumes "ad_inv T base sv" "android_isReady (fst (instrument_ended T' pid sid gen sv)) d"
  shows "android_isReady sv d"
proof -
  let ?sv = "sv\<lparr>ad_exited := ad_exited sv @ [pid]\<rparr>"
  have inv: "ad_inv T base ?sv" using assms(1) by (auto simp: ad_inv_def ad_slots_def runs_in_def)
  have same: "android_isReady ?sv e = android_isReady sv e" for e by (rule ready_same) simp
  show ?thesis
    using assms(2) by (auto simp: instrument_ended_def Let_def same ready_live [OF inv]
      split: if_splits option.splits prod.splits dest!: ready_schedule)
qed

lemma ready_restart: "ad_inv T base sv \<Longrightarrow> android_isReady (fst (android_restart_elapsed now sid sv)) d \<Longrightarrow> android_isReady sv d"
proof -
  have same: "android_isReady (sv\<lparr>ad_launches := x\<rparr>) e = android_isReady sv e" for e x by (rule ready_same) simp
  show "ad_inv T base sv \<Longrightarrow> android_isReady (fst (android_restart_elapsed now sid sv)) d \<Longrightarrow> android_isReady sv d"
    by (auto simp: android_restart_elapsed_def android_launch_def ready_put same ready_live split: option.splits prod.splits if_splits)
qed

lemma ready_health:
  assumes inv: "ad_inv T base sv" and new: "android_isReady (fst (android_health_polled T' healthy now sid gen sv)) d"
    and old: "\<not> android_isReady sv d"
  shows "healthy \<and> (\<exists>s. jget (ad_sessions sv) d = Some s \<and> an_id s = sid \<and> an_generation s = gen \<and> an_instrument s \<noteq> None)"
proof -
  let ?sv = "sv\<lparr>ad_polls := remove1 (sid, gen) (ad_polls sv)\<rparr>"
  have same: "android_isReady ?sv e = android_isReady sv e" for e by (rule ready_same) simp
  have poll: "(sid, gen) \<in> set (ad_polls sv)" and fresh: "\<not> isStale sid gen ?sv"
    using new old same by (auto simp: android_health_polled_def Let_def split: if_splits)
  obtain dev s where s: "android_live sid ?sv = Some (dev, s)" "jget (ad_sessions ?sv) dev = Some s"
    "an_id s = sid" "an_generation s = gen"
    using fresh by (rule live_session_inv [OF poll_dropped [OF inv]])
  then have get: "jget (ad_sessions sv) dev = Some s" by simp
  then have "android_ok T (tokens sv) s" using inv jget_Some_in by (fastforce simp: ad_inv_def)
  moreover have "(sid, gen, True) \<in> tokens sv" using poll by (auto simp: tokens_def poll_tokens_def)
  ultimately have runs: "an_instrument s \<noteq> None"
    using s(3,4) by (auto simp: android_ok_def split: option.splits if_splits)
  have ready: "an_ready s = android_isReady sv dev" using get by (simp add: android_isReady_def)
  have "healthy \<and> d = dev"
    using new old poll fresh s(1) ready same
    by (auto simp: android_health_polled_def Let_def ready_put split: if_splits dest!: ready_schedule)
  then show ?thesis using get s(3,4) runs by auto
qed

lemma ready_only_by_health:
  assumes inv: "ad_inv T base sv" and "android_isReady (fst (android_step T' ev sv)) d" "\<not> android_isReady sv d"
  shows "\<exists>now s. jget (ad_sessions sv) d = Some s \<and> an_instrument s \<noteq> None \<and> ev = Android_health True now (an_id s) (an_generation s)"
proof (cases ev)
  case (Android_health healthy now sid gen)
  then show ?thesis using assms ready_health [OF inv, of T' healthy now sid gen d] by auto
next
  case (Android_health_tick serial)
  have "ad_sessions (fst (android_health_tick serial sv)) = ad_sessions sv"
    by (simp add: android_health_tick_def split: option.split)
  from ready_same [OF this, of d] show ?thesis using assms Android_health_tick by simp
next
  case Android_stop_all
  have "android_isReady (fst (for_each android_stopSession (jkeys (ad_sessions sv)) sv)) d"
    using assms(2) Android_stop_all by (simp add: android_stopAll_def)
  then have "android_isReady sv d" by (rule ready_each [rotated]) (rule ready_stop)
  then show ?thesis using assms(3) by simp
next
  case (Android_cooldown port)
  then show ?thesis using assms ready_same [of "fst (android_step T' ev sv)" sv d] by simp
next
  case Cleanup_done
  then show ?thesis using assms ready_same [of "fst (android_step T' ev sv)" sv d] by (simp add: cleanup_done_def)
next
  case Android_await_turn
  then show ?thesis using assms ready_same [of "fst (android_step T' ev sv)" sv d] by (simp add: android_await_turn_def)
next
  case (Android_sync now ids)
  then show ?thesis using assms(3) ready_sync [OF assms(2) [unfolded Android_sync android_step.simps]] by simp
next
  case (Adb_done ok l well)
  then show ?thesis using assms(3) ready_adb [OF inv assms(2) [unfolded Adb_done android_step.simps]] by simp
next
  case (Instrument_ended pid sid gen)
  then show ?thesis using assms(3) ready_ended [OF inv assms(2) [unfolded Instrument_ended android_step.simps]] by simp
next
  case (Android_restart now sid)
  then show ?thesis using assms(3) ready_restart [OF inv assms(2) [unfolded Android_restart android_step.simps]] by simp
qed (use assms(2,3) in simp_all)

text \<open>A runner is started only for the present launch of a session that has none.\<close>

definition spawns :: "android_effect \<Rightarrow> bool" where
  "spawns e \<longleftrightarrow> (\<exists>pid dev. e = Spawned_instrument pid dev)"

lemma no_spawn_simps [simp]: "\<not> spawns (Adb serial c)" "\<not> spawns (Signalled_instrument p sig)" "\<not> spawns (Check_health u)"
    "spawns (Spawned_instrument p serial)"
  by (simp_all add: spawns_def)

lemma no_spawn_schedule: "e \<in> set (snd (android_scheduleRestart T dev s sv)) \<Longrightarrow> \<not> spawns e"
  by (auto simp: android_scheduleRestart_def android_teardown_def signal_instrument_def Let_def split: option.splits if_splits)

lemma schedule_spawns_none [simp]: "Spawned_instrument pid d \<notin> set (snd (android_scheduleRestart T dev s sv))"
  using no_spawn_schedule [of "Spawned_instrument pid d"] by auto

lemma no_spawn_stop: "e \<in> set (snd (android_stopSession dev sv)) \<Longrightarrow> \<not> spawns e"
  by (auto simp: android_stopSession_def android_teardown_def signal_instrument_def Let_def split: option.splits if_splits)

lemma no_spawn_gone: "e \<in> set (snd (android_stop_gone ids dev sv)) \<Longrightarrow> \<not> spawns e"
  by (simp add: android_stop_gone_def no_spawn_stop split: if_splits)

lemma no_spawn_start: "e \<in> set (snd (android_start_missing now dev sv)) \<Longrightarrow> \<not> spawns e"
  by (auto simp: android_start_missing_def android_startSession_def android_launch_def Let_def split: prod.splits if_splits)

lemma no_spawn_failed: "e \<in> set (snd (launch_failed T l sv)) \<Longrightarrow> \<not> spawns e"
  by (auto simp: launch_failed_def Let_def split: if_splits option.splits dest: no_spawn_schedule)

lemma spawn_only_fresh:
  assumes "Spawned_instrument pid dev \<in> set (snd (android_step T' ev sv))"
  shows "\<exists>ok l s. ev = Adb_done ok l True \<and> l \<in> set (ad_launches sv) \<and> android_live (la_sid l) sv = Some (dev, s) \<and>
    an_generation s = la_generation l \<and> pid = ad_nextPid sv"
proof -
  have sync: "e \<in> set (snd (android_syncDevices now ids sv)) \<Longrightarrow> \<not> spawns e" for e now ids
    using each_effects [of "android_start_missing now" "\<lambda>e. \<not> spawns e" e "js_set ids", OF no_spawn_start]
      each_effects [of "android_stop_gone (js_set ids)" "\<lambda>e. \<not> spawns e" e, OF no_spawn_gone]
    by (auto simp: android_syncDevices_def Let_def split_def)
  have all: "e \<in> set (snd (android_stopAll sv)) \<Longrightarrow> \<not> spawns e" for e
    using each_effects [of android_stopSession "\<lambda>e. \<not> spawns e" e] by (auto simp: android_stopAll_def no_spawn_stop)
  show ?thesis
  proof (cases ev)
    case (Adb_done ok l well)
    then show ?thesis
      using assms not_stale [of "la_sid l" "la_generation l" sv]
      by (auto simp: adb_done_def after_install_def launch_stale_def spawnInstrument_def Let_def
          split: if_splits launch_stage.splits option.splits dest: no_spawn_failed)
  next
    case (Android_sync now ids)
    then show ?thesis using assms sync [of "Spawned_instrument pid dev" now ids] by simp
  next
    case Android_stop_all
    then show ?thesis using assms all [of "Spawned_instrument pid dev"] by simp
  qed (use assms in \<open>auto simp: instrument_ended_def android_health_tick_def android_health_polled_def
        android_restart_elapsed_def android_launch_def android_await_over_def signal_instrument_def Let_def
        split: if_splits option.splits dest: no_spawn_schedule\<close>)
qed

text \<open>
  C17: The Android supervisor, in every state it can reach with positive restart delays: a session waits,
  not ready, for its restart within the maximal delay, or has exactly one launch of its generation under
  way and no runner, or has a runner under health polling, so none is wedged; two devices never share a
  port and the ports of live sessions are neither free nor cooling down; no runner process is orphaned; a
  device becomes ready only through a successful health check of its present generation while it has a
  runner; and a runner is started only by the present launch of a session that has none, however late
  the adb calls of older launches end.
\<close>

theorem android_supervisor_sound:
  assumes "android_reached T base sv" "tuning_ok T"
  shows "(jget (ad_sessions sv) d = Some s \<longrightarrow>
      (case an_restart s of
         Some delay \<Rightarrow> 0 < delay \<and> delay \<le> at_restartMaxMs T \<and> \<not> an_ready s \<and> an_instrument s = None \<and>
           (\<forall>l\<in>set (ad_launches sv). \<not> (la_sid l = an_id s \<and> la_generation l = an_generation s))
       | None \<Rightarrow>
           if an_instrument s = None
           then \<not> an_ready s \<and> (\<exists>!l. l \<in> set (ad_launches sv) \<and> la_sid l = an_id s \<and> la_generation l = an_generation s)
           else an_healthTimer s) \<and>
      base \<le> an_port s \<and> an_port s \<notin> set (pp_free (ad_ports sv)) \<union> set (pp_cooling (ad_ports sv)) \<and>
      (jget (ad_sessions sv) d' = Some s' \<longrightarrow> an_port s' = an_port s \<longrightarrow> d' = d)) \<and>
    (pid < ad_nextPid sv \<longrightarrow> pid \<in> set (ad_exited sv) \<or> pid \<in> set (ad_terminating sv) \<or>
      (\<exists>(d, s)\<in>set (ad_sessions sv). an_instrument s = Some pid)) \<and>
    (android_isReady (fst (android_step T ev sv)) d \<longrightarrow> \<not> android_isReady sv d \<longrightarrow>
      (\<exists>now s. jget (ad_sessions sv) d = Some s \<and> an_instrument s \<noteq> None \<and>
        ev = Android_health True now (an_id s) (an_generation s))) \<and>
    (Spawned_instrument pid d \<in> set (snd (android_step T ev sv)) \<longrightarrow>
      (\<exists>s. jget (ad_sessions sv) d = Some s \<and> an_instrument s = None \<and> an_restart s = None))"
proof -
  have inv: "ad_inv T base sv" by (rule android_reached_inv [OF assms])
  then have slots: "ad_slots base sv" by (simp add: ad_inv_def)
  then have sl: "slots_inv (ad_nextId sv) (ad_ports sv) (map (\<lambda>x. an_id (snd x)) (ad_sessions sv))
      (map (\<lambda>x. an_port (snd x)) (ad_sessions sv))" and base: "pp_base (ad_ports sv) = base"
    and inj: "inj_on token (set (ad_launches sv))"
    by (simp_all add: ad_slots_def distinct_map)
  have okay: "android_ok T (tokens sv) s" if "jget (ad_sessions sv) d = Some s" for d s
    using inv jget_Some_in [OF that] by (auto simp: ad_inv_def)
  have tok: "(an_id s, an_generation s, False) \<in> tokens sv \<longleftrightarrow>
      (\<exists>l\<in>set (ad_launches sv). la_sid l = an_id s \<and> la_generation l = an_generation s)" for s
    by (force simp: tokens_def token_def poll_tokens_def)
  have one: "l = l'" if "l \<in> set (ad_launches sv)" "l' \<in> set (ad_launches sv)" "la_sid l = la_sid l'"
      "la_generation l = la_generation l'" for l l'
    using inj_onD [OF inj, of l l'] that by (simp add: token_def)
  have phase: "case an_restart s of
         Some delay \<Rightarrow> 0 < delay \<and> delay \<le> at_restartMaxMs T \<and> \<not> an_ready s \<and> an_instrument s = None \<and>
           (\<forall>l\<in>set (ad_launches sv). \<not> (la_sid l = an_id s \<and> la_generation l = an_generation s))
       | None \<Rightarrow>
           if an_instrument s = None
           then \<not> an_ready s \<and> (\<exists>!l. l \<in> set (ad_launches sv) \<and> la_sid l = an_id s \<and> la_generation l = an_generation s)
           else an_healthTimer s"
    if s: "jget (ad_sessions sv) d = Some s"
    using okay [OF s] tok [of s] one unfolding android_ok_def
    by (auto split: option.splits if_splits)
  have port: "base \<le> an_port s \<and> an_port s \<notin> set (pp_free (ad_ports sv)) \<union> set (pp_cooling (ad_ports sv))"
    if "jget (ad_sessions sv) d = Some s"
  proof -
    have "an_port s \<in> set (map (\<lambda>x. an_port (snd x)) (ad_sessions sv))" using jget_Some_in [OF that] by force
    then show ?thesis using sl base unfolding slots_inv_def pool_inv_def by auto
  qed
  have unique: "d' = d" if "jget (ad_sessions sv) d = Some s" "jget (ad_sessions sv) d' = Some s'" "an_port s' = an_port s"
    using sl jget_Some_in [OF that(1)] jget_Some_in [OF that(2)] that(3)
    by (fastforce simp: slots_inv_def distinct_map inj_on_def)
  have orphan: "pid < ad_nextPid sv \<longrightarrow> pid \<in> set (ad_exited sv) \<or> pid \<in> set (ad_terminating sv) \<or>
      (\<exists>(d, s)\<in>set (ad_sessions sv). an_instrument s = Some pid)"
    using inv unfolding ad_inv_def runs_in_def by blast
  have spawn: "\<exists>s. jget (ad_sessions sv) d = Some s \<and> an_instrument s = None \<and> an_restart s = None"
    if sp: "Spawned_instrument pid d \<in> set (snd (android_step T ev sv))"
  proof -
    obtain l t where l: "l \<in> set (ad_launches sv)" "android_live (la_sid l) sv = Some (d, t)" "an_generation t = la_generation l"
      using spawn_only_fresh [OF sp] by blast
    have t: "jget (ad_sessions sv) d = Some t" "an_id t = la_sid l"
      using android_live_get [OF slots l(2)] by simp_all
    then have "(an_id t, an_generation t, False) \<in> tokens sv" using tok [of t] l by auto
    then show ?thesis using okay [OF t(1)] t(1) by (auto simp: android_ok_def split: option.splits)
  qed
  note ready = ready_only_by_health [OF inv]
  show ?thesis
    by (intro conjI impI, fact phase, fact port [THEN conjunct1], fact port [THEN conjunct2], fact unique,
      fact orphan [THEN mp], fact ready, fact spawn)
qed

text \<open>One device: its launch runs to the end and the health check makes it ready.\<close>

lemma default_tuning_ok: "tuning_ok default_supervisor_tuning"
  by (simp add: tuning_ok_def default_supervisor_tuning_def)

theorem android_supervisor_sound_witness:
  "let T = default_supervisor_tuning; sv = fst (android_step T (Android_sync 0 [''x'']) (android_init 8300)) in
   \<exists>s. jget (ad_sessions sv) ''x'' = Some s \<and> an_port s = 8300 \<and> an_instrument s = None \<and> an_restart s = None \<and>
     (\<exists>!l. l \<in> set (ad_launches sv) \<and> la_sid l = an_id s \<and> la_generation l = an_generation s)"
proof -
  let ?T = default_supervisor_tuning
  let ?sv = "fst (android_step ?T (Android_sync 0 [''x'']) (android_init 8300))"
  let ?s = "\<lparr>an_id = 0, an_port = 8300, an_instrument = None, an_ready = False, an_installed = False,
    an_failCount = 0, an_attempt = 0, an_healthTimer = False, an_restart = None, an_generation = 0, an_launchedAt = 0\<rparr>"
  have s: "jget (ad_sessions ?sv) ''x'' = Some ?s"
    by (simp add: android_syncDevices_def for_each_def js_set_def android_start_missing_def android_stop_gone_def
        android_startSession_def allocatePort_def android_launch_def put_android_def android_init_def jhas_def jkeys_def Let_def)
  have "android_reached ?T 8300 ?sv" by (intro android_reached.intros)
  from android_supervisor_sound [OF this default_tuning_ok, of "''x''" ?s "''x''" ?s] s
  have "\<exists>!l. l \<in> set (ad_launches ?sv) \<and> la_sid l = an_id ?s \<and> la_generation l = an_generation ?s"
    by (simp del: android_step.simps)
  then show ?thesis using s by (auto simp: Let_def simp del: android_step.simps)
qed

end
