(* ===== verification/H264_Stream.thy ===== *)
theory H264_Stream
  imports Agent_Supervisor Packet_Parsers
begin

text \<open>
  The mirroring stream of one iOS device (h264-stream.ts, \<open>H264Stream\<close>): a capture helper, its packets
  forwarded as frames once the helper has logged the resolution, its restarts and its end. Helpers are
  numbered; each handler of the class is one step. \<open>hs_exited\<close> and \<open>hs_killed\<close> are facts of the system: the
  helpers that have ended and those sent SIGKILL. The text of the helper's log is a list of UTF-16 code units.
\<close>

section \<open>State\<close>

definition HELPER_RESTART_BASE_MS :: int where "HELPER_RESTART_BASE_MS = 2000"
definition HELPER_RESTART_MAX_MS :: int where "HELPER_RESTART_MAX_MS = 60000"

record h264_config =
  hc_helperPath :: string
  hc_deviceName :: string
  hc_deviceId :: string

record h264_stream =
  hs_child :: "nat option"
  hs_terminating :: "nat option"
  hs_active :: bool
  hs_restart :: "int option"
  hs_resolution :: "nat option"
  hs_attempt :: nat
  hs_width :: nat
  hs_height :: nat
  hs_dropped :: nat
  hs_parsers :: "(nat, helper_parser) jsmap"
  hs_nextChild :: nat
  hs_exited :: "nat list"
  hs_killed :: "nat list"

definition h264_new :: h264_stream where
  "h264_new = \<lparr>hs_child = None, hs_terminating = None, hs_active = False, hs_restart = None, hs_resolution = None,
     hs_attempt = 0, hs_width = 0, hs_height = 0, hs_dropped = 0, hs_parsers = [], hs_nextChild = 0,
     hs_exited = [], hs_killed = []\<rparr>"

datatype stream_effect =
    Spawn_helper nat string "string list"
  | Kill_helper nat signal
  | Emit_frame agent_frame

section \<open>Operations\<close>

definition clearResolutionTimer :: "h264_stream \<Rightarrow> h264_stream" where
  "clearResolutionTimer s = s\<lparr>hs_resolution := None\<rparr>"

definition h264_kill :: "nat \<Rightarrow> h264_stream \<Rightarrow> h264_stream \<times> stream_effect list" where
  "h264_kill child s = (s\<lparr>hs_killed := hs_killed s @ [child]\<rparr>, [Kill_helper child SIGKILL])"

definition h264_launch :: "h264_config \<Rightarrow> h264_stream \<Rightarrow> h264_stream \<times> stream_effect list" where
  "h264_launch cfg s =
    (let child = hs_nextChild s in
     (s\<lparr>hs_width := 0, hs_height := 0, hs_dropped := 0, hs_nextChild := child + 1,
        hs_parsers := jset child helper_fresh (hs_parsers s), hs_child := Some child, hs_resolution := Some child\<rparr>,
      [Spawn_helper child (hc_helperPath cfg) [''--name'', hc_deviceName cfg]]))"

definition h264_start :: "h264_config \<Rightarrow> h264_stream \<Rightarrow> h264_stream \<times> stream_effect list" where
  "h264_start cfg s = (if hs_active s then (s, []) else h264_launch cfg (s\<lparr>hs_active := True\<rparr>))"

definition h264_stop :: "h264_stream \<Rightarrow> h264_stream \<times> stream_effect list" where
  "h264_stop s =
    (let t = clearResolutionTimer (s\<lparr>hs_active := False, hs_restart := None\<rparr>)\<lparr>hs_child := None\<rparr> in
     case hs_child s of
       None \<Rightarrow> (t, [])
     | Some child \<Rightarrow> (t\<lparr>hs_terminating := Some child\<rparr>, [Kill_helper child SIGTERM]))"

definition helper_delay :: "nat \<Rightarrow> int" where
  "helper_delay attempt = min (HELPER_RESTART_BASE_MS * 2 ^ attempt) HELPER_RESTART_MAX_MS"

definition h264_scheduleRestart :: "h264_stream \<Rightarrow> h264_stream" where
  "h264_scheduleRestart s =
    (if \<not> hs_active s \<or> hs_restart s \<noteq> None then s
     else (clearResolutionTimer s)\<lparr>hs_attempt := hs_attempt s + 1, hs_restart := Some (helper_delay (hs_attempt s))\<rparr>)"

definition h264_frame :: "h264_config \<Rightarrow> ms \<Rightarrow> h264_stream \<Rightarrow> helper_packet \<Rightarrow> agent_frame" where
  "h264_frame cfg now s p = \<lparr>af_deviceId = hc_deviceId cfg, af_format = frame_format_h264, af_isKey = hp_isKey p,
     af_width = num (int (hs_width s)), af_height = num (int (hs_height s)), af_stampMs = num now,
     af_payload = hp_payload p\<rparr>"

definition emit :: "h264_config \<Rightarrow> ms \<Rightarrow> helper_packet \<Rightarrow> h264_stream \<Rightarrow> h264_stream \<times> stream_effect list" where
  "emit cfg now p s =
    (if \<not> hs_active s then (s, [])
     else if hs_width s = 0 then (s\<lparr>hs_dropped := hs_dropped s + 1\<rparr>, [])
     else (s, [Emit_frame (h264_frame cfg now s p)]))"

text \<open>The marker of the log line, then the digits of the width, an x and the digits of the height.\<close>

definition encoder_marker :: "nat list" where
  "encoder_marker = [0xC778, 0xCF54, 0xB354, 0x20, 0xCD08, 0xAE30, 0xD654, 0x3A, 0x20]"

definition unit_digit :: "nat \<Rightarrow> bool" where
  "unit_digit u \<longleftrightarrow> 48 \<le> u \<and> u \<le> 57"

definition unit_number :: "nat list \<Rightarrow> nat" where
  "unit_number us = fold (\<lambda>u n. 10 * n + (u - 48)) us 0"

definition resolution_here :: "nat list \<Rightarrow> (nat \<times> nat) option" where
  "resolution_here text =
    (if take (length encoder_marker) text \<noteq> encoder_marker then None
     else let rest = drop (length encoder_marker) text;
              width = takeWhile unit_digit rest;
              after = dropWhile unit_digit rest;
              height = takeWhile unit_digit (tl after)
          in if width = [] \<or> after = [] \<or> hd after \<noteq> 0x78 \<or> height = [] then None
             else Some (unit_number width, unit_number height))"

fun find_resolution :: "nat list \<Rightarrow> (nat \<times> nat) option" where
  "find_resolution [] = None"
| "find_resolution (u # us) = (case resolution_here (u # us) of
      Some r \<Rightarrow> Some r
    | None \<Rightarrow> find_resolution us)"

definition parseHelperLog :: "nat list \<Rightarrow> h264_stream \<Rightarrow> h264_stream" where
  "parseHelperLog text s = (case find_resolution text of
      None \<Rightarrow> s
    | Some (width, height) \<Rightarrow> clearResolutionTimer (s\<lparr>hs_width := width, hs_height := height, hs_attempt := 0\<rparr>))"

section \<open>Handlers\<close>

definition helper_stdout :: "h264_config \<Rightarrow> nat \<Rightarrow> bytes \<Rightarrow> ms \<Rightarrow> h264_stream \<Rightarrow> h264_stream \<times> stream_effect list" where
  "helper_stdout cfg child chunk now s = (case jget (hs_parsers s) child of
      None \<Rightarrow> (s, [])
    | Some parser \<Rightarrow> (case helper_push chunk parser of
        (parser, None) \<Rightarrow> (s\<lparr>hs_parsers := jset child parser (hs_parsers s)\<rparr>, [Kill_helper child SIGTERM])
      | (parser, Some packets) \<Rightarrow>
          for_each (emit cfg now) packets (s\<lparr>hs_parsers := jset child parser (hs_parsers s)\<rparr>)))"

definition helper_error :: "nat \<Rightarrow> h264_stream \<Rightarrow> h264_stream" where
  "helper_error child s = h264_scheduleRestart (s\<lparr>hs_exited := hs_exited s @ [child]\<rparr>)"

definition helper_exit :: "nat \<Rightarrow> h264_stream \<Rightarrow> h264_stream" where
  "helper_exit child s =
    (let s = s\<lparr>hs_exited := hs_exited s @ [child]\<rparr> in
     if \<not> hs_active s then s else h264_scheduleRestart s)"

definition resolution_deadline :: "h264_stream \<Rightarrow> h264_stream \<times> stream_effect list" where
  "resolution_deadline s = (case hs_resolution s of
      None \<Rightarrow> (s, [])
    | Some child \<Rightarrow>
        let s = s\<lparr>hs_resolution := None\<rparr> in
        if \<not> hs_active s \<or> hs_child s \<noteq> Some child \<or> hs_width s \<noteq> 0 then (s, [])
        else (s, [Kill_helper child SIGTERM]))"

definition helper_restart_elapsed :: "h264_config \<Rightarrow> h264_stream \<Rightarrow> h264_stream \<times> stream_effect list" where
  "helper_restart_elapsed cfg s =
    (if hs_restart s = None then (s, [])
     else let s = s\<lparr>hs_restart := None\<rparr> in
       if \<not> hs_active s then (s, []) else h264_launch cfg s)"

definition helper_escalation :: "nat \<Rightarrow> h264_stream \<Rightarrow> h264_stream \<times> stream_effect list" where
  "helper_escalation child s = (if child \<in> set (hs_exited s) then (s, []) else h264_kill child s)"

definition h264_await_turn :: "h264_stream \<Rightarrow> h264_stream" where
  "h264_await_turn s = (case hs_terminating s of
      Some child \<Rightarrow> if child \<in> set (hs_exited s) then s\<lparr>hs_terminating := None\<rparr> else s
    | None \<Rightarrow> s)"

definition h264_await_over :: "h264_stream \<Rightarrow> h264_stream \<times> stream_effect list" where
  "h264_await_over s = (case hs_terminating s of
      None \<Rightarrow> (s, [])
    | Some child \<Rightarrow> h264_kill child (s\<lparr>hs_terminating := None\<rparr>))"

datatype h264_event =
    H264_stop
  | Helper_stdout nat bytes ms
  | Helper_stderr "nat list"
  | Helper_error nat
  | Helper_exit nat
  | Resolution_deadline
  | Helper_restart
  | Helper_escalation nat
  | H264_await_turn
  | H264_await_over

text \<open>A helper ends once, by an error or an exit; the escalation is armed by \<open>stop\<close> for the helper it ends.\<close>

fun h264_step :: "h264_config \<Rightarrow> h264_event \<Rightarrow> h264_stream \<Rightarrow> h264_stream \<times> stream_effect list" where
  "h264_step cfg H264_stop s = h264_stop s"
| "h264_step cfg (Helper_stdout child chunk now) s = helper_stdout cfg child chunk now s"
| "h264_step cfg (Helper_stderr text) s = (parseHelperLog text s, [])"
| "h264_step cfg (Helper_error child) s =
    (if child < hs_nextChild s \<and> child \<notin> set (hs_exited s) then (helper_error child s, []) else (s, []))"
| "h264_step cfg (Helper_exit child) s =
    (if child < hs_nextChild s \<and> child \<notin> set (hs_exited s) then (helper_exit child s, []) else (s, []))"
| "h264_step cfg Resolution_deadline s = resolution_deadline s"
| "h264_step cfg Helper_restart s = helper_restart_elapsed cfg s"
| "h264_step cfg (Helper_escalation child) s =
    (if \<not> hs_active s then helper_escalation child s else (s, []))"
| "h264_step cfg H264_await_turn s = (h264_await_turn s, [])"
| "h264_step cfg H264_await_over s = h264_await_over s"

text \<open>The life of a stream as its manager makes it: started once when created.\<close>

inductive h264_reached :: "h264_config \<Rightarrow> h264_stream \<Rightarrow> bool" for cfg where
  started: "h264_reached cfg (fst (h264_start cfg h264_new))"
| step: "h264_reached cfg s \<Longrightarrow> h264_reached cfg (fst (h264_step cfg ev s))"

section \<open>The invariant\<close>

definition h264_inv :: "h264_stream \<Rightarrow> bool" where
  "h264_inv s \<longleftrightarrow>
    (\<forall>c < hs_nextChild s. jget (hs_parsers s) c \<noteq> None) \<and>
    (\<forall>c. hs_child s = Some c \<longrightarrow> c < hs_nextChild s) \<and>
    (if hs_active s
     then hs_terminating s = None \<and> (\<forall>c < hs_nextChild s. c \<in> set (hs_exited s) \<or> hs_child s = Some c) \<and>
       (case hs_restart s of
          None \<Rightarrow> \<exists>c. hs_child s = Some c \<and> c \<notin> set (hs_exited s)
        | Some delay \<Rightarrow> (\<forall>c. hs_child s = Some c \<longrightarrow> c \<in> set (hs_exited s)) \<and> hs_resolution s = None \<and>
            2000 \<le> delay \<and> delay \<le> 60000)
     else hs_child s = None \<and> hs_restart s = None \<and> hs_resolution s = None \<and>
       (\<forall>c < hs_nextChild s. c \<in> set (hs_exited s) \<or> c \<in> set (hs_killed s) \<or> hs_terminating s = Some c)) \<and>
    (\<forall>c. hs_resolution s = Some c \<longrightarrow> hs_child s = Some c) \<and>
    set (hs_exited s) \<subseteq> {..<hs_nextChild s}"

lemma helper_delay_bounds: "2000 \<le> helper_delay n \<and> helper_delay n \<le> 60000"
proof -
  have "(1::int) \<le> 2 ^ n" by simp
  then show ?thesis by (auto simp: helper_delay_def HELPER_RESTART_BASE_MS_def HELPER_RESTART_MAX_MS_def min_def)
qed

lemma launch_keeps:
  assumes "\<forall>c < hs_nextChild s. jget (hs_parsers s) c \<noteq> None \<and> c \<in> set (hs_exited s)" "hs_active s"
    "hs_terminating s = None" "hs_restart s = None" "set (hs_exited s) \<subseteq> {..<hs_nextChild s}"
  shows "h264_inv (fst (h264_launch cfg s))"
  using assms by (auto simp: h264_inv_def h264_launch_def Let_def less_Suc_eq)

lemma h264_started: "h264_inv (fst (h264_start cfg h264_new))"
  by (simp add: h264_start_def h264_new_def launch_keeps)

lemma h264_stop_inv: "h264_inv s \<Longrightarrow> h264_inv (fst (h264_stop s))"
  by (cases "hs_child s") (auto simp: h264_inv_def h264_stop_def clearResolutionTimer_def Let_def split: if_splits)

lemma helper_schedule_inv:
  assumes "h264_inv s" "child < hs_nextChild s" "child \<notin> set (hs_exited s)"
  shows "h264_inv (h264_scheduleRestart (s\<lparr>hs_exited := hs_exited s @ [child]\<rparr>))"
  using assms helper_delay_bounds [of "hs_attempt s"]
  by (auto simp: h264_inv_def h264_scheduleRestart_def clearResolutionTimer_def split: option.splits if_splits)

lemma inactive_schedule: "\<not> hs_active s \<Longrightarrow> h264_scheduleRestart s = s"
  by (simp add: h264_scheduleRestart_def)

lemma helper_ended_inv:
  "h264_inv s \<Longrightarrow> child < hs_nextChild s \<Longrightarrow> child \<notin> set (hs_exited s) \<Longrightarrow> h264_inv (helper_error child s)"
  "h264_inv s \<Longrightarrow> child < hs_nextChild s \<Longrightarrow> child \<notin> set (hs_exited s) \<Longrightarrow> h264_inv (helper_exit child s)"
  using helper_schedule_inv [of s child] inactive_schedule [of "s\<lparr>hs_exited := hs_exited s @ [child]\<rparr>"]
  by (cases "hs_active s"; simp add: helper_error_def helper_exit_def Let_def)+

lemma emit_inv: "h264_inv s \<Longrightarrow> h264_inv (fst (emit cfg now p s))"
  by (auto simp: emit_def h264_inv_def split: option.splits)

lemma stdout_inv: "h264_inv s \<Longrightarrow> h264_inv (fst (helper_stdout cfg child chunk now s))"
proof -
  assume inv: "h264_inv s"
  have "h264_inv (s\<lparr>hs_parsers := jset child p (hs_parsers s)\<rparr>)" for p
    using inv by (auto simp: h264_inv_def split: option.splits)
  then show ?thesis using inv
    by (auto simp: helper_stdout_def emit_inv intro!: for_each_inv [where P = h264_inv] split: option.split prod.split)
qed

lemma stderr_inv: "h264_inv s \<Longrightarrow> h264_inv (parseHelperLog text s)"
  by (auto simp: parseHelperLog_def h264_inv_def clearResolutionTimer_def split: option.split)

lemma helper_restart_inv: "h264_inv s \<Longrightarrow> h264_inv (fst (helper_restart_elapsed cfg s))"
proof (cases "hs_restart s")
  case (Some delay)
  assume inv: "h264_inv s"
  then have active: "hs_active s" using Some by (auto simp: h264_inv_def split: if_splits)
  have "\<forall>c < hs_nextChild s. jget (hs_parsers s) c \<noteq> None \<and> c \<in> set (hs_exited s)"
    using inv Some active by (auto simp: h264_inv_def)
  then have "h264_inv (fst (h264_launch cfg (s\<lparr>hs_restart := None\<rparr>)))"
    using inv active by (intro launch_keeps) (simp_all add: h264_inv_def)
  then show ?thesis using Some active by (simp add: helper_restart_elapsed_def)
qed (simp add: helper_restart_elapsed_def)

lemma kill_inv: "h264_inv s \<Longrightarrow> \<not> hs_active s \<Longrightarrow> h264_inv (fst (h264_kill child s))"
  by (auto simp: h264_inv_def h264_kill_def)

lemma await_inv:
  "h264_inv s \<Longrightarrow> h264_inv (h264_await_turn s)" "h264_inv s \<Longrightarrow> h264_inv (fst (h264_await_over s))"
  by (auto simp: h264_inv_def h264_await_turn_def h264_await_over_def h264_kill_def split: option.splits if_splits)

theorem h264_step_inv: "h264_inv s \<Longrightarrow> h264_inv (fst (h264_step cfg ev s))"
proof (cases ev)
  case Resolution_deadline
  assume "h264_inv s"
  then show ?thesis using Resolution_deadline
    by (auto simp: resolution_deadline_def h264_inv_def Let_def split: option.splits)
qed (auto simp: h264_stop_inv stdout_inv stderr_inv helper_ended_inv helper_restart_inv helper_escalation_def kill_inv await_inv)

lemma h264_reached_inv: "h264_reached cfg s \<Longrightarrow> h264_inv s"
  by (induction rule: h264_reached.induct) (simp_all add: h264_started h264_step_inv)

section \<open>What leaves a stream\<close>

lemma emit_all:
  "hs_active s \<Longrightarrow> hs_width s \<noteq> 0 \<Longrightarrow>
    for_each (emit cfg now) ps s = (s, map (\<lambda>p. Emit_frame (h264_frame cfg now s p)) ps)"
  by (induction ps rule: rev_induct) (simp_all add: for_each_def emit_def)

lemma emit_none:
  "\<not> (hs_active s \<and> hs_width s \<noteq> 0) \<Longrightarrow> \<exists>n. for_each (emit cfg now) ps s = (s\<lparr>hs_dropped := n\<rparr>, [])"
proof (induction ps rule: rev_induct)
  case Nil
  show ?case by (rule exI [of _ "hs_dropped s"]) (simp add: for_each_def)
next
  case (snoc p ps)
  then obtain n where "for_each (emit cfg now) ps s = (s\<lparr>hs_dropped := n\<rparr>, [])" by blast
  then show ?case using snoc.prems by (auto simp: for_each_def emit_def)
qed

lemma frame_parsers [simp]: "h264_frame cfg now (s\<lparr>hs_parsers := x\<rparr>) = h264_frame cfg now s"
  by (simp add: h264_frame_def fun_eq_iff)

lemma stdout_active: "hs_active (fst (helper_stdout cfg child chunk now s)) = hs_active s"
proof -
  have "hs_active (fst (for_each (emit cfg now) ps t)) = hs_active t" for ps t
    using emit_all [of t cfg now ps] emit_none [of t cfg now ps] by (cases "hs_active t \<and> hs_width t \<noteq> 0") auto
  then show ?thesis by (simp add: helper_stdout_def split: option.split prod.split)
qed

lemma stdout_frames:
  "helper_stdout cfg child chunk now s = (s', effs) \<Longrightarrow> Emit_frame f \<in> set effs \<Longrightarrow>
    hs_active s \<and> hs_width s \<noteq> 0 \<and>
    (\<exists>p. f = h264_frame cfg now s p)"
proof -
  let ?s = "\<lambda>parser. s\<lparr>hs_parsers := jset child parser (hs_parsers s)\<rparr>"
  assume out: "helper_stdout cfg child chunk now s = (s', effs)" and f: "Emit_frame f \<in> set effs"
  then obtain parser q ps where p: "jget (hs_parsers s) child = Some parser" "helper_push chunk parser = (q, Some ps)"
    and each: "for_each (emit cfg now) ps (?s q) = (s', effs)"
    by (auto simp: helper_stdout_def split: option.splits prod.splits)
  show ?thesis
  proof (cases "hs_active s \<and> hs_width s \<noteq> 0")
    case True
    then show ?thesis using emit_all [of "?s q" cfg now ps] each f by auto
  next
    case False
    then show ?thesis using emit_none [of "?s q" cfg now ps] each f by auto
  qed
qed

lemma frames_only_stdout:
  "Emit_frame f \<in> set (snd (h264_step cfg ev s)) \<Longrightarrow>
    \<exists>child chunk now p. ev = Helper_stdout child chunk now \<and> hs_active s \<and> hs_width s \<noteq> 0 \<and> f = h264_frame cfg now s p"
proof (cases ev)
  case (Helper_stdout child chunk now)
  assume "Emit_frame f \<in> set (snd (h264_step cfg ev s))"
  then show ?thesis
    using Helper_stdout stdout_frames [of cfg child chunk now s _ _ f]
    by (cases "helper_stdout cfg child chunk now s") auto
qed (auto simp: h264_stop_def resolution_deadline_def helper_restart_elapsed_def h264_launch_def helper_escalation_def
    h264_kill_def h264_await_over_def Let_def split: option.splits if_splits)

lemma spawn_only_restart:
  "Spawn_helper c path args \<in> set (snd (h264_step cfg ev s)) \<Longrightarrow> ev = Helper_restart \<and> hs_active s"
proof (cases ev)
  case (Helper_stdout child chunk now)
  have "Spawn_helper c path args \<notin> set (snd (for_each (emit cfg now) ps t))" for ps t
    using emit_all [of t cfg now ps] emit_none [of t cfg now ps] by (cases "hs_active t \<and> hs_width t \<noteq> 0") auto
  moreover assume "Spawn_helper c path args \<in> set (snd (h264_step cfg ev s))"
  ultimately show ?thesis
    using Helper_stdout by (auto simp: helper_stdout_def split: option.splits prod.splits)
qed (auto simp: h264_stop_def resolution_deadline_def helper_restart_elapsed_def h264_launch_def helper_escalation_def
    h264_kill_def h264_await_over_def Let_def split: option.splits if_splits)

text \<open>What the handlers that start and end helpers do to the process and to the stream.\<close>

lemma stop_signals:
  "hs_child s = Some c \<Longrightarrow> \<exists>t. h264_step cfg H264_stop s = (t, [Kill_helper c SIGTERM]) \<and>
    \<not> hs_active t \<and> hs_restart t = None \<and> hs_resolution t = None \<and> hs_terminating t = Some c"
  by (simp add: h264_stop_def clearResolutionTimer_def Let_def)

lemma escalation_kills:
  "\<not> hs_active s \<Longrightarrow> c \<notin> set (hs_exited s) \<Longrightarrow> snd (h264_step cfg (Helper_escalation c) s) = [Kill_helper c SIGKILL]"
  "hs_terminating s = Some c \<Longrightarrow> snd (h264_step cfg H264_await_over s) = [Kill_helper c SIGKILL]"
  by (simp_all add: helper_escalation_def h264_await_over_def h264_kill_def)

lemma restart_launches:
  assumes "h264_inv s" "hs_restart s = Some delay"
  shows "\<exists>t. h264_step cfg Helper_restart s =
      (t, [Spawn_helper (hs_nextChild s) (hc_helperPath cfg) [''--name'', hc_deviceName cfg]]) \<and>
    hs_active t \<and> hs_child t = Some (hs_nextChild s) \<and> hs_width t = 0 \<and> hs_height t = 0 \<and> hs_resolution t = Some (hs_nextChild s)"
proof -
  have "hs_active s" using assms by (auto simp: h264_inv_def split: if_splits)
  then show ?thesis using assms(2) by (simp add: helper_restart_elapsed_def h264_launch_def Let_def)
qed

lemma end_schedules:
  assumes "h264_inv s" "hs_active s" "hs_restart s = None" "hs_child s = Some c" "ev = Helper_exit c \<or> ev = Helper_error c"
  shows "hs_restart (fst (h264_step cfg ev s)) = Some (min (2000 * 2 ^ hs_attempt s) 60000) \<and>
    hs_attempt (fst (h264_step cfg ev s)) = hs_attempt s + 1"
proof -
  have "c < hs_nextChild s" "c \<notin> set (hs_exited s)" using assms(1-4) by (auto simp: h264_inv_def)
  then show ?thesis using assms(2,3,5)
    by (auto simp: helper_exit_def helper_error_def h264_scheduleRestart_def clearResolutionTimer_def helper_delay_def
        HELPER_RESTART_BASE_MS_def HELPER_RESTART_MAX_MS_def Let_def)
qed

lemma log_resolves:
  "find_resolution told = Some (w, h) \<Longrightarrow> \<exists>t. h264_step cfg (Helper_stderr told) s = (t, []) \<and>
    hs_width t = w \<and> hs_height t = h \<and> hs_attempt t = 0 \<and> hs_resolution t = None"
  by (simp add: parseHelperLog_def clearResolutionTimer_def)

text \<open>
  C18: The mirroring stream of an iOS device in every state it can reach. While it is active it has a live
  helper or a restart in 2 to 60 seconds, and never two live helpers; a helper that ends schedules the restart,
  after 2 s doubled with every attempt in a row up to 60 s, and the restart launches the next helper with the
  resolution of the last one forgotten and the deadline for its own armed; a helper that has not told its
  resolution when the deadline fires, or whose stream is corrupt, is sent SIGTERM. A stop sends SIGTERM to its
  helper and keeps it as the one to wait for, the escalation and the end of the wait send SIGKILL to a helper still
  there; once stopped the stream starts no helper and sends no frame, and every helper it ever had has exited,
  was sent SIGKILL, or is that last one, which was sent SIGTERM. A frame is sent only for a packet of a helper,
  under the device's id and the resolution its log told, and once the resolution is known the packets of
  a chunk leave as frames, all of them and in order. (Whether the manager does wait is the manager's: for a stream
  stopped because its device has gone it does not.)
\<close>

theorem h264_stream_sound:
  assumes "h264_reached cfg s"
  shows "(hs_active s \<longrightarrow>
      (case hs_restart s of
         None \<Rightarrow> \<exists>c. hs_child s = Some c \<and> c < hs_nextChild s \<and> c \<notin> set (hs_exited s)
       | Some delay \<Rightarrow> 2000 \<le> delay \<and> delay \<le> 60000) \<and>
      (\<forall>c < hs_nextChild s. c \<notin> set (hs_exited s) \<longrightarrow> hs_child s = Some c) \<and>
      (\<forall>c. hs_resolution s = Some c \<longrightarrow> hs_width s = 0 \<longrightarrow>
        snd (h264_step cfg Resolution_deadline s) = [Kill_helper c SIGTERM])) \<and>
    (\<not> hs_active s \<longrightarrow>
      (\<forall>c < hs_nextChild s. c \<in> set (hs_exited s) \<or> c \<in> set (hs_killed s) \<or> hs_terminating s = Some c) \<and>
      \<not> hs_active (fst (h264_step cfg ev s)) \<and>
      (\<forall>c path args f. Spawn_helper c path args \<notin> set (snd (h264_step cfg ev s)) \<and>
        Emit_frame f \<notin> set (snd (h264_step cfg ev s)))) \<and>
    (Emit_frame f \<in> set (snd (h264_step cfg ev s)) \<longrightarrow>
      hs_width s \<noteq> 0 \<and> (\<exists>child chunk now p. ev = Helper_stdout child chunk now \<and> f = h264_frame cfg now s p)) \<and>
    (hs_active s \<longrightarrow> hs_width s \<noteq> 0 \<longrightarrow> jget (hs_parsers s) child = Some parser \<longrightarrow>
      helper_push chunk parser = (parser', Some packets) \<longrightarrow>
      snd (h264_step cfg (Helper_stdout child chunk now) s) = map (\<lambda>p. Emit_frame (h264_frame cfg now s p)) packets) \<and>
    (jget (hs_parsers s) child = Some parser \<longrightarrow> helper_push chunk parser = (parser', None) \<longrightarrow>
      snd (h264_step cfg (Helper_stdout child chunk now) s) = [Kill_helper child SIGTERM]) \<and>
    (hs_child s = Some c \<longrightarrow> (\<exists>t. h264_step cfg H264_stop s = (t, [Kill_helper c SIGTERM]) \<and>
      \<not> hs_active t \<and> hs_restart t = None \<and> hs_resolution t = None \<and> hs_terminating t = Some c)) \<and>
    (\<not> hs_active s \<longrightarrow> c \<notin> set (hs_exited s) \<longrightarrow> snd (h264_step cfg (Helper_escalation c) s) = [Kill_helper c SIGKILL]) \<and>
    (hs_terminating s = Some c \<longrightarrow> snd (h264_step cfg H264_await_over s) = [Kill_helper c SIGKILL]) \<and>
    (hs_active s \<longrightarrow> hs_restart s = None \<longrightarrow> hs_child s = Some c \<longrightarrow> ended = Helper_exit c \<or> ended = Helper_error c \<longrightarrow>
      hs_restart (fst (h264_step cfg ended s)) = Some (min (2000 * 2 ^ hs_attempt s) 60000) \<and>
      hs_attempt (fst (h264_step cfg ended s)) = hs_attempt s + 1) \<and>
    (hs_restart s = Some delay \<longrightarrow> (\<exists>t. h264_step cfg Helper_restart s =
        (t, [Spawn_helper (hs_nextChild s) (hc_helperPath cfg) [''--name'', hc_deviceName cfg]]) \<and>
      hs_active t \<and> hs_child t = Some (hs_nextChild s) \<and> hs_width t = 0 \<and> hs_height t = 0 \<and>
      hs_resolution t = Some (hs_nextChild s))) \<and>
    (find_resolution told = Some (w, h) \<longrightarrow> (\<exists>t. h264_step cfg (Helper_stderr told) s = (t, []) \<and>
      hs_width t = w \<and> hs_height t = h \<and> hs_attempt t = 0 \<and> hs_resolution t = None))"
proof -
  have inv: "h264_inv s" by (rule h264_reached_inv [OF assms])
  have alive: "case hs_restart s of
         None \<Rightarrow> \<exists>c. hs_child s = Some c \<and> c < hs_nextChild s \<and> c \<notin> set (hs_exited s)
       | Some delay \<Rightarrow> 2000 \<le> delay \<and> delay \<le> 60000" if "hs_active s"
    using inv that by (auto simp: h264_inv_def split: option.splits)
  have single: "\<forall>c < hs_nextChild s. c \<notin> set (hs_exited s) \<longrightarrow> hs_child s = Some c" if "hs_active s"
    using inv that by (auto simp: h264_inv_def)
  have deadline: "snd (h264_step cfg Resolution_deadline s) = [Kill_helper c SIGTERM]"
    if "hs_active s" "hs_resolution s = Some c" "hs_width s = 0" for c
    using inv that by (simp add: h264_inv_def resolution_deadline_def Let_def)
  have dead: "\<forall>c < hs_nextChild s. c \<in> set (hs_exited s) \<or> c \<in> set (hs_killed s) \<or> hs_terminating s = Some c" if "\<not> hs_active s"
    using inv that by (simp add: h264_inv_def)
  have stays: "\<not> hs_active (fst (h264_step cfg ev s))" if "\<not> hs_active s"
    using that by (cases ev) (auto simp: stdout_active h264_stop_def parseHelperLog_def clearResolutionTimer_def helper_error_def helper_exit_def
      inactive_schedule resolution_deadline_def helper_restart_elapsed_def helper_escalation_def h264_kill_def
      h264_await_turn_def h264_await_over_def Let_def split: option.split)
  have chunk: "snd (h264_step cfg (Helper_stdout child chunk now) s) = map (\<lambda>p. Emit_frame (h264_frame cfg now s p)) packets"
    if "hs_active s" "hs_width s \<noteq> 0" "jget (hs_parsers s) child = Some parser" "helper_push chunk parser = (parser', Some packets)"
    using that emit_all [of "s\<lparr>hs_parsers := jset child parser' (hs_parsers s)\<rparr>" cfg now packets]
    by (simp add: helper_stdout_def)
  have corrupt: "snd (h264_step cfg (Helper_stdout child chunk now) s) = [Kill_helper child SIGTERM]"
    if "jget (hs_parsers s) child = Some parser" "helper_push chunk parser = (parser', None)"
    using that by (simp add: helper_stdout_def)
  show ?thesis
    by (rule conjI, use alive single deadline in blast,
      rule conjI, use dead stays frames_only_stdout [of _ cfg ev s] spawn_only_restart [of _ _ _ cfg ev s] in blast,
      rule conjI, use frames_only_stdout [of f cfg ev s] in blast,
      rule conjI, use chunk in blast,
      rule conjI, use corrupt in blast,
      rule conjI, use stop_signals [of s c cfg] in blast,
      rule conjI, use escalation_kills(1) [of s c cfg] in blast,
      rule conjI, use escalation_kills(2) [of s c cfg] in blast,
      rule conjI, use end_schedules [OF inv, of c ended cfg] in blast,
      rule conjI, use restart_launches [OF inv, of delay cfg] in blast,
      use log_resolves [of told w h cfg s] in blast)
qed

definition sample_h264 :: h264_config where
  "sample_h264 = \<lparr>hc_helperPath = ''helper'', hc_deviceName = ''phone'', hc_deviceId = ''d1''\<rparr>"

definition sample_resolved :: h264_stream where
  "sample_resolved = fst (h264_step sample_h264 (Helper_stderr (65 # encoder_marker @ [49, 50, 0x78, 50, 52, 10]))
     (fst (h264_start sample_h264 h264_new)))"

lemma sample_resolved: "sample_resolved = \<lparr>hs_child = Some 0, hs_terminating = None, hs_active = True, hs_restart = None,
    hs_resolution = None, hs_attempt = 0, hs_width = 12, hs_height = 24, hs_dropped = 0, hs_parsers = [(0, helper_fresh)],
    hs_nextChild = 1, hs_exited = [], hs_killed = []\<rparr>"
  by (simp add: sample_resolved_def h264_start_def h264_new_def h264_launch_def parseHelperLog_def resolution_here_def
      encoder_marker_def unit_digit_def unit_number_def clearResolutionTimer_def Let_def)

theorem h264_stream_sound_witness:
  "\<exists>q p. helper_push [0, 0, 0, 2, 1, 7, 8] helper_fresh = (q, Some [p]) \<and>
    snd (h264_step sample_h264 (Helper_stdout 0 [0, 0, 0, 2, 1, 7, 8] 5) sample_resolved) =
      [Emit_frame \<lparr>af_deviceId = ''d1'', af_format = frame_format_h264, af_isKey = True, af_width = num 12,
         af_height = num 24, af_stampMs = num 5, af_payload = [7, 8]\<rparr>]"
proof -
  let ?p = "\<lparr>hp_isKey = True, hp_payload = [7, 8 :: u8]\<rparr>"
  have push: "helper_push [0, 0, 0, 2, 1, 7, 8] helper_fresh = (\<lparr>hp_buffer = [], hp_poisoned = False\<rparr>, Some [?p])"
    using helper_packets_bytes [of "[?p]" "[]"]
    by (simp add: helper_push_def helper_fresh_def valid_helper_packet_def max_packet_bytes_def helper_packet_bytes_def
        be32_def be16_def helper_packets.simps [of "[]"] take_helper_packet_def)
  have "h264_reached sample_h264 sample_resolved"
    unfolding sample_resolved_def by (intro h264_reached.intros)
  from h264_stream_sound [OF this, of "Helper_stdout 0 [0, 0, 0, 2, 1, 7, 8] 5" undefined 0 helper_fresh] push
  show ?thesis
    by (simp add: sample_resolved h264_frame_def sample_h264_def del: h264_step.simps)
qed

end
