(* ===== verification/Android_Stream.thy ===== *)
theory Android_Stream
  imports Agent_Supervisor Packet_Parsers
begin

text \<open>
  The mirroring stream of one Android device (android-stream.ts, \<open>AndroidStream\<close>): pushing and starting the
  daemon, the forwarded socket, the preamble deadline, the frames and the restarts. \<open>launch\<close> is split at its
  awaits. Sessions, daemon processes and sockets are numbered; \<open>dm_open\<close> and \<open>as_exited\<close> are facts of the
  system: a socket closes once and a process ends once.
\<close>

section \<open>State\<close>

definition DEVICE_DEX_PATH :: string where "DEVICE_DEX_PATH = ''/data/local/tmp/nebula-mirror.jar''"
definition SOCKET_NAME :: string where "SOCKET_NAME = ''nebula-mirror''"
definition DAEMON_ENTRY :: string where "DAEMON_ENTRY = ''com.nebula.mirror.MirrorDaemonKt''"

record mirror_tuning =
  mt_restartBaseMs :: int
  mt_restartMaxMs :: int
  mt_errorThreshold :: nat
  mt_killEscalationMs :: int
  mt_preambleDeadlineMs :: int
  mt_connectRetryMs :: int
  mt_bitRate :: nat
  mt_fps :: nat
  mt_iframeIntervalSec :: nat
  mt_repeatFrameMs :: nat
  mt_swapPollMs :: nat
  mt_acceptDeadlineMs :: nat

definition default_mirror_tuning :: mirror_tuning where
  "default_mirror_tuning = \<lparr>mt_restartBaseMs = 2000, mt_restartMaxMs = 60000, mt_errorThreshold = 5,
     mt_killEscalationMs = 2000, mt_preambleDeadlineMs = 10000, mt_connectRetryMs = 500, mt_bitRate = 8000000, mt_fps = 60,
     mt_iframeIntervalSec = 1, mt_repeatFrameMs = 100, mt_swapPollMs = 500, mt_acceptDeadlineMs = 30000\<rparr>"

record mirror_config =
  mc_serial :: string
  mc_dexPath :: string
  mc_port :: nat
  mc_tuning :: mirror_tuning

datatype daemon_stage = Pushing | Forwarding | Connected

record daemon_session =
  dm_id :: nat
  dm_stage :: daemon_stage
  dm_tracked :: "nat option"
  dm_socket :: "nat option"
  dm_open :: bool
  dm_parser :: mirror_parser

record android_stream =
  as_session :: "daemon_session option"
  as_active :: bool
  as_restart :: "int option"
  as_preamble :: "nat option"
  as_connect :: "nat option"
  as_attempt :: nat
  as_terminating :: "nat list"
  as_exited :: "nat list"
  as_nextSession :: nat
  as_nextPid :: nat
  as_nextSocket :: nat

definition mirror_new :: android_stream where
  "mirror_new = \<lparr>as_session = None, as_active = False, as_restart = None, as_preamble = None, as_connect = None,
     as_attempt = 0, as_terminating = [], as_exited = [], as_nextSession = 0, as_nextPid = 0, as_nextSocket = 0\<rparr>"

datatype mirror_effect =
    Mirror_adb "string list"
  | Spawn_daemon nat "string list"
  | Signal_daemon nat signal
  | Connect_mirror nat nat
  | Destroy_socket nat
  | Mirror_frame agent_frame

text \<open>The command lines.\<close>

definition daemon_args :: "mirror_config \<Rightarrow> string list" where
  "daemon_args cfg =
    (let t = mc_tuning cfg in
     [''-s'', mc_serial cfg, ''shell'', ''CLASSPATH='' @ DEVICE_DEX_PATH, ''app_process'', ''/'', DAEMON_ENTRY,
      ''--bitrate'', nat_text (mt_bitRate t), ''--fps'', nat_text (mt_fps t),
      ''--iframe'', nat_text (mt_iframeIntervalSec t), ''--repeat-ms'', nat_text (mt_repeatFrameMs t),
      ''--swap-poll-ms'', nat_text (mt_swapPollMs t), ''--accept-deadline-ms'', nat_text (mt_acceptDeadlineMs t)])"

definition push_args :: "mirror_config \<Rightarrow> string list" where
  "push_args cfg = [''-s'', mc_serial cfg, ''push'', mc_dexPath cfg, DEVICE_DEX_PATH]"

definition forward_args :: "mirror_config \<Rightarrow> string list" where
  "forward_args cfg = [''-s'', mc_serial cfg, ''forward'', ''tcp:'' @ nat_text (mc_port cfg),
     ''localabstract:'' @ SOCKET_NAME]"

definition unforward_args :: "mirror_config \<Rightarrow> string list" where
  "unforward_args cfg = [''-s'', mc_serial cfg, ''forward'', ''--remove'', ''tcp:'' @ nat_text (mc_port cfg)]"

section \<open>Operations\<close>

definition mirror_clearTimers :: "android_stream \<Rightarrow> android_stream" where
  "mirror_clearTimers s = s\<lparr>as_restart := None, as_connect := None, as_preamble := None\<rparr>"

definition teardownSession :: "android_stream \<Rightarrow> android_stream \<times> mirror_effect list" where
  "teardownSession s =
    (let t = s\<lparr>as_session := None\<rparr> in
     case as_session s of
       None \<Rightarrow> (t, [])
     | Some d \<Rightarrow>
         let destroyed = (case dm_socket d of None \<Rightarrow> [] | Some c \<Rightarrow> [Destroy_socket c]) in
         (case dm_tracked d of
            None \<Rightarrow> (t, destroyed)
          | Some pid \<Rightarrow>
              if pid \<in> set (as_exited s) then (t, destroyed)
              else (t\<lparr>as_terminating := as_terminating s @ [pid]\<rparr>, destroyed @ [Signal_daemon pid SIGTERM])))"

definition mirror_delay :: "mirror_config \<Rightarrow> nat \<Rightarrow> int" where
  "mirror_delay cfg attempt = min (mt_restartBaseMs (mc_tuning cfg) * 2 ^ attempt) (mt_restartMaxMs (mc_tuning cfg))"

definition mirror_scheduleRestart :: "mirror_config \<Rightarrow> android_stream \<Rightarrow> android_stream \<times> mirror_effect list" where
  "mirror_scheduleRestart cfg s =
    (if \<not> as_active s \<or> as_restart s \<noteq> None then (s, [])
     else case teardownSession (mirror_clearTimers s) of (s, effs) \<Rightarrow>
       (s\<lparr>as_attempt := as_attempt s + 1, as_restart := Some (mirror_delay cfg (as_attempt s))\<rparr>, effs))"

text \<open>\<open>launch\<close> up to its first await.\<close>

definition mirror_launch :: "mirror_config \<Rightarrow> android_stream \<Rightarrow> android_stream \<times> mirror_effect list" where
  "mirror_launch cfg s =
    (s\<lparr>as_session := Some \<lparr>dm_id = as_nextSession s, dm_stage = Pushing, dm_tracked = None, dm_socket = None,
          dm_open = False, dm_parser = mirror_fresh\<rparr>,
       as_nextSession := as_nextSession s + 1\<rparr>,
     [Mirror_adb (push_args cfg)])"

definition mirror_start :: "mirror_config \<Rightarrow> android_stream \<Rightarrow> android_stream \<times> mirror_effect list" where
  "mirror_start cfg s = (if as_active s then (s, []) else mirror_launch cfg (s\<lparr>as_active := True\<rparr>))"

definition mirror_stop :: "mirror_config \<Rightarrow> android_stream \<Rightarrow> android_stream \<times> mirror_effect list" where
  "mirror_stop cfg s =
    (case teardownSession (mirror_clearTimers (s\<lparr>as_active := False\<rparr>)) of (s, effs) \<Rightarrow>
      (s, effs @ [Mirror_adb (unforward_args cfg)]))"

text \<open>The test \<open>!this.isActive || this.session !== session\<close> of a callback, by the session's number.\<close>

definition mirror_current :: "nat \<Rightarrow> android_stream \<Rightarrow> daemon_session option" where
  "mirror_current sid s = (case as_session s of
      Some d \<Rightarrow> if as_active s \<and> dm_id d = sid then Some d else None
    | None \<Rightarrow> None)"

definition connectSocket :: "mirror_config \<Rightarrow> daemon_session \<Rightarrow> android_stream \<Rightarrow> android_stream \<times> mirror_effect list" where
  "connectSocket cfg d s =
    (let c = as_nextSocket s in
     (s\<lparr>as_session := Some (d\<lparr>dm_socket := Some c, dm_open := True\<rparr>), as_nextSocket := c + 1\<rparr>,
      [Connect_mirror c (mc_port cfg)]))"

section \<open>Handlers\<close>

text \<open>The push has ended; \<open>ok\<close> tells whether starting the daemon succeeds.\<close>

definition push_done :: "mirror_config \<Rightarrow> bool \<Rightarrow> nat \<Rightarrow> bool \<Rightarrow> android_stream \<Rightarrow> android_stream \<times> mirror_effect list" where
  "push_done cfg ok sid well s = (case mirror_current sid s of
      None \<Rightarrow> (s, [])
    | Some d \<Rightarrow>
        if dm_stage d \<noteq> Pushing then (s, [])
        else if \<not> well \<or> \<not> ok then mirror_scheduleRestart cfg s
        else let pid = as_nextPid s in
          (s\<lparr>as_session := Some (d\<lparr>dm_tracked := Some pid, dm_stage := Forwarding\<rparr>), as_nextPid := pid + 1\<rparr>,
           [Spawn_daemon pid (daemon_args cfg), Mirror_adb (forward_args cfg)]))"

definition forward_done :: "mirror_config \<Rightarrow> nat \<Rightarrow> bool \<Rightarrow> android_stream \<Rightarrow> android_stream \<times> mirror_effect list" where
  "forward_done cfg sid well s = (case mirror_current sid s of
      None \<Rightarrow> (s, [])
    | Some d \<Rightarrow>
        if dm_stage d \<noteq> Forwarding then (s, [])
        else if \<not> well then mirror_scheduleRestart cfg s
        else connectSocket cfg (d\<lparr>dm_stage := Connected\<rparr>) (s\<lparr>as_preamble := Some sid\<rparr>))"

definition daemon_ended :: "mirror_config \<Rightarrow> nat \<Rightarrow> android_stream \<Rightarrow> android_stream \<times> mirror_effect list" where
  "daemon_ended cfg pid s =
    (let s = s\<lparr>as_exited := as_exited s @ [pid]\<rparr> in
     case as_session s of
       None \<Rightarrow> (s, [])
     | Some d \<Rightarrow>
         if \<not> as_active s \<or> dm_tracked d \<noteq> Some pid then (s, []) else mirror_scheduleRestart cfg s)"

definition mirror_frame :: "mirror_config \<Rightarrow> ms \<Rightarrow> mirror_packet \<Rightarrow> agent_frame" where
  "mirror_frame cfg now p = \<lparr>af_deviceId = mc_serial cfg, af_format = frame_format_h264, af_isKey = mp_isKey p,
     af_width = num (int (mp_width p)), af_height = num (int (mp_height p)), af_stampMs = num now,
     af_payload = mp_payload p\<rparr>"

definition handleChunk ::
  "mirror_config \<Rightarrow> daemon_session \<Rightarrow> bytes \<Rightarrow> ms \<Rightarrow> android_stream \<Rightarrow> android_stream \<times> mirror_effect list" where
  "handleChunk cfg d chunk now s =
    (case mirror_push chunk (dm_parser d) of (parser, result) \<Rightarrow>
      let hadPreamble = mr_preamble (dm_parser d) \<noteq> None;
          s = s\<lparr>as_session := Some (d\<lparr>dm_parser := parser\<rparr>)\<rparr> in
      case result of
        None \<Rightarrow> mirror_scheduleRestart cfg s
      | Some packets \<Rightarrow>
          let s = (if \<not> hadPreamble \<and> mr_preamble parser \<noteq> None then s\<lparr>as_attempt := 0, as_preamble := None\<rparr> else s) in
          (s, map (\<lambda>p. Mirror_frame (mirror_frame cfg now p)) packets))"

text \<open>Data and close of the socket numbered \<open>c\<close>; \<open>dm_open\<close> is the socket's own state.\<close>

definition socket_data :: "mirror_config \<Rightarrow> nat \<Rightarrow> bytes \<Rightarrow> ms \<Rightarrow> android_stream \<Rightarrow> android_stream \<times> mirror_effect list" where
  "socket_data cfg c chunk now s = (case as_session s of
      None \<Rightarrow> (s, [])
    | Some d \<Rightarrow> if dm_socket d \<noteq> Some c \<or> \<not> dm_open d then (s, []) else handleChunk cfg d chunk now s)"

definition socket_close :: "mirror_config \<Rightarrow> nat \<Rightarrow> android_stream \<Rightarrow> android_stream \<times> mirror_effect list" where
  "socket_close cfg c s = (case as_session s of
      None \<Rightarrow> (s, [])
    | Some d \<Rightarrow>
        if dm_socket d \<noteq> Some c \<or> \<not> dm_open d then (s, [])
        else let s = s\<lparr>as_session := Some (d\<lparr>dm_open := False\<rparr>)\<rparr> in
          if \<not> as_active s then (s, [])
          else if mr_preamble (dm_parser d) = None then (s\<lparr>as_connect := Some (dm_id d)\<rparr>, [])
          else mirror_scheduleRestart cfg s)"

definition connect_retry :: "mirror_config \<Rightarrow> android_stream \<Rightarrow> android_stream \<times> mirror_effect list" where
  "connect_retry cfg s = (case as_connect s of
      None \<Rightarrow> (s, [])
    | Some sid \<Rightarrow>
        let s = s\<lparr>as_connect := None\<rparr> in
        (case mirror_current sid s of
           None \<Rightarrow> (s, [])
         | Some d \<Rightarrow> connectSocket cfg d s))"

definition preamble_deadline :: "mirror_config \<Rightarrow> android_stream \<Rightarrow> android_stream \<times> mirror_effect list" where
  "preamble_deadline cfg s = (case as_preamble s of
      None \<Rightarrow> (s, [])
    | Some sid \<Rightarrow>
        let s = s\<lparr>as_preamble := None\<rparr> in
        (case mirror_current sid s of
           None \<Rightarrow> (s, [])
         | Some d \<Rightarrow> if mr_preamble (dm_parser d) \<noteq> None then (s, []) else mirror_scheduleRestart cfg s))"

definition mirror_restart_elapsed :: "mirror_config \<Rightarrow> android_stream \<Rightarrow> android_stream \<times> mirror_effect list" where
  "mirror_restart_elapsed cfg s =
    (if as_restart s = None then (s, [])
     else let s = s\<lparr>as_restart := None\<rparr> in
       if \<not> as_active s then (s, []) else mirror_launch cfg s)"

definition signal_daemon :: "signal \<Rightarrow> android_stream \<Rightarrow> nat \<Rightarrow> mirror_effect list" where
  "signal_daemon sig s pid = (if pid \<in> set (as_exited s) then [] else [Signal_daemon pid sig])"

definition mirror_await_turn :: "android_stream \<Rightarrow> android_stream" where
  "mirror_await_turn s = s\<lparr>as_terminating := filter (\<lambda>pid. pid \<notin> set (as_exited s)) (as_terminating s)\<rparr>"

definition mirror_await_over :: "android_stream \<Rightarrow> mirror_effect list" where
  "mirror_await_over s = concat (map (signal_daemon SIGKILL s) (as_terminating s))"

datatype mirror_event =
    Mirror_start
  | Mirror_stop
  | Push_done bool nat bool
  | Forward_done nat bool
  | Daemon_ended nat
  | Socket_data nat bytes ms
  | Socket_close nat
  | Connect_retry
  | Preamble_deadline
  | Mirror_restart
  | Daemon_escalation nat
  | Mirror_await_turn
  | Mirror_await_over

fun mirror_step :: "mirror_config \<Rightarrow> mirror_event \<Rightarrow> android_stream \<Rightarrow> android_stream \<times> mirror_effect list" where
  "mirror_step cfg Mirror_start s = mirror_start cfg s"
| "mirror_step cfg Mirror_stop s = mirror_stop cfg s"
| "mirror_step cfg (Push_done ok sid well) s = push_done cfg ok sid well s"
| "mirror_step cfg (Forward_done sid well) s = forward_done cfg sid well s"
| "mirror_step cfg (Daemon_ended pid) s =
    (if pid < as_nextPid s \<and> pid \<notin> set (as_exited s) then daemon_ended cfg pid s else (s, []))"
| "mirror_step cfg (Socket_data c chunk now) s = socket_data cfg c chunk now s"
| "mirror_step cfg (Socket_close c) s = socket_close cfg c s"
| "mirror_step cfg Connect_retry s = connect_retry cfg s"
| "mirror_step cfg Preamble_deadline s = preamble_deadline cfg s"
| "mirror_step cfg Mirror_restart s = mirror_restart_elapsed cfg s"
| "mirror_step cfg (Daemon_escalation pid) s = (s, signal_daemon SIGKILL s pid)"
| "mirror_step cfg Mirror_await_turn s = (mirror_await_turn s, [])"
| "mirror_step cfg Mirror_await_over s = (s, mirror_await_over s)"

inductive mirror_reached :: "mirror_config \<Rightarrow> android_stream \<Rightarrow> bool" for cfg where
  init: "mirror_reached cfg mirror_new"
| step: "mirror_reached cfg s \<Longrightarrow> mirror_reached cfg (fst (mirror_step cfg ev s))"

section \<open>The invariant\<close>

definition mirror_tuning_ok :: "mirror_config \<Rightarrow> bool" where
  "mirror_tuning_ok cfg \<longleftrightarrow> 0 < mt_restartBaseMs (mc_tuning cfg) \<and> 0 < mt_restartMaxMs (mc_tuning cfg)"

definition daemon_ok :: "android_stream \<Rightarrow> daemon_session \<Rightarrow> bool" where
  "daemon_ok s d \<longleftrightarrow> (case dm_stage d of
      Pushing \<Rightarrow> dm_tracked d = None \<and> dm_socket d = None \<and> as_preamble s = None \<and> as_connect s = None \<and>
        dm_parser d = mirror_fresh
    | Forwarding \<Rightarrow> (\<exists>pid. dm_tracked d = Some pid \<and> pid < as_nextPid s \<and> pid \<notin> set (as_exited s)) \<and>
        dm_socket d = None \<and> as_preamble s = None \<and> as_connect s = None \<and> dm_parser d = mirror_fresh
    | Connected \<Rightarrow> (\<exists>pid. dm_tracked d = Some pid \<and> pid < as_nextPid s \<and> pid \<notin> set (as_exited s)) \<and>
        dm_socket d \<noteq> None \<and>
        (if mr_preamble (dm_parser d) = None
         then as_preamble s = Some (dm_id d) \<and> as_connect s = (if dm_open d then None else Some (dm_id d))
         else as_preamble s = None \<and> dm_open d \<and> as_connect s = None))"

definition mirror_procs :: "android_stream \<Rightarrow> bool" where
  "mirror_procs s \<longleftrightarrow> (\<forall>pid < as_nextPid s. pid \<in> set (as_exited s) \<or> pid \<in> set (as_terminating s) \<or>
      (\<exists>d. as_session s = Some d \<and> dm_tracked d = Some pid)) \<and>
    set (as_exited s) \<subseteq> {..<as_nextPid s}"

definition mirror_phase :: "mirror_config \<Rightarrow> android_stream \<Rightarrow> bool" where
  "mirror_phase cfg s \<longleftrightarrow>
    (if as_active s
     then (case as_restart s of
         Some delay \<Rightarrow> 0 < delay \<and> delay \<le> mt_restartMaxMs (mc_tuning cfg) \<and> as_session s = None \<and>
           as_preamble s = None \<and> as_connect s = None
       | None \<Rightarrow> \<exists>d. as_session s = Some d \<and> daemon_ok s d)
     else as_session s = None \<and> as_restart s = None \<and> as_preamble s = None \<and> as_connect s = None)"

definition mirror_inv :: "mirror_config \<Rightarrow> android_stream \<Rightarrow> bool" where
  "mirror_inv cfg s \<longleftrightarrow> mirror_phase cfg s \<and> mirror_procs s"

lemma mirror_delay_bounds:
  "mirror_tuning_ok cfg \<Longrightarrow> 0 < mirror_delay cfg n \<and> mirror_delay cfg n \<le> mt_restartMaxMs (mc_tuning cfg)"
  by (simp add: mirror_tuning_ok_def mirror_delay_def)

lemma teardown_procs:
  "mirror_procs s \<Longrightarrow> mirror_procs (fst (teardownSession s))"
  by (auto simp: mirror_procs_def teardownSession_def Let_def split: option.split)

lemma teardown_fields [simp]:
  "as_session (fst (teardownSession s)) = None" "as_active (fst (teardownSession s)) = as_active s"
  "as_restart (fst (teardownSession s)) = as_restart s" "as_preamble (fst (teardownSession s)) = as_preamble s"
  "as_connect (fst (teardownSession s)) = as_connect s" "as_attempt (fst (teardownSession s)) = as_attempt s"
  by (simp_all add: teardownSession_def Let_def split: option.split)

lemma procs_timers [simp]:
  "mirror_procs (mirror_clearTimers s) = mirror_procs s" "mirror_procs (s\<lparr>as_restart := r\<rparr>) = mirror_procs s"
  "mirror_procs (s\<lparr>as_preamble := p\<rparr>) = mirror_procs s" "mirror_procs (s\<lparr>as_connect := c\<rparr>) = mirror_procs s"
  "mirror_procs (s\<lparr>as_attempt := a\<rparr>) = mirror_procs s" "mirror_procs (s\<lparr>as_active := x\<rparr>) = mirror_procs s"
  "mirror_procs (s\<lparr>as_nextSession := n\<rparr>) = mirror_procs s" "mirror_procs (s\<lparr>as_nextSocket := n\<rparr>) = mirror_procs s"
  by (simp_all add: mirror_procs_def mirror_clearTimers_def)

lemma procs_session:
  "mirror_procs s \<Longrightarrow> as_session s = Some d \<Longrightarrow> dm_tracked d' = dm_tracked d \<Longrightarrow> mirror_procs (s\<lparr>as_session := Some d'\<rparr>)"
  by (simp add: mirror_procs_def)

lemma timers_fields [simp]:
  "as_session (mirror_clearTimers s) = as_session s" "as_active (mirror_clearTimers s) = as_active s"
  "as_restart (mirror_clearTimers s) = None" "as_preamble (mirror_clearTimers s) = None" "as_connect (mirror_clearTimers s) = None"
  "as_attempt (mirror_clearTimers s) = as_attempt s"
  by (simp_all add: mirror_clearTimers_def)

lemma mirror_schedule_inv:
  assumes "mirror_tuning_ok cfg" "mirror_procs s" "as_active s" "as_restart s = None"
  shows "mirror_inv cfg (fst (mirror_scheduleRestart cfg s))"
  using assms(2-4) mirror_delay_bounds [OF assms(1), of "as_attempt s"] teardown_procs [of "mirror_clearTimers s"]
  by (simp add: mirror_scheduleRestart_def mirror_inv_def mirror_phase_def split_def)

lemma mirror_launch_inv:
  "mirror_procs s \<Longrightarrow> as_active s \<Longrightarrow> as_session s = None \<Longrightarrow> as_restart s = None \<Longrightarrow> as_preamble s = None \<Longrightarrow>
    as_connect s = None \<Longrightarrow> mirror_inv cfg (fst (mirror_launch cfg s))"
  by (auto simp: mirror_launch_def mirror_inv_def mirror_phase_def mirror_procs_def daemon_ok_def)

lemma running_session:
  "mirror_inv cfg s \<Longrightarrow> as_session s = Some d \<Longrightarrow> as_active s \<and> as_restart s = None \<and> daemon_ok s d \<and> mirror_procs s"
  by (auto simp: mirror_inv_def mirror_phase_def split: if_splits option.splits)

lemma current_session: "mirror_current sid s = Some d \<Longrightarrow> as_session s = Some d \<and> dm_id d = sid"
  by (auto simp: mirror_current_def split: option.splits if_splits)

lemma running_inv:
  "as_active s \<Longrightarrow> as_restart s = None \<Longrightarrow> as_session s = Some d \<Longrightarrow> daemon_ok s d \<Longrightarrow> mirror_procs s \<Longrightarrow> mirror_inv cfg s"
  by (simp add: mirror_inv_def mirror_phase_def)

lemma mirror_start_inv: "mirror_inv cfg s \<Longrightarrow> mirror_inv cfg (fst (mirror_start cfg s))"
  using mirror_launch_inv [of "s\<lparr>as_active := True\<rparr>" cfg]
  by (cases "as_active s") (simp_all add: mirror_start_def mirror_inv_def mirror_phase_def)

lemma mirror_stop_inv: "mirror_inv cfg s \<Longrightarrow> mirror_inv cfg (fst (mirror_stop cfg s))"
  using teardown_procs [of "mirror_clearTimers (s\<lparr>as_active := False\<rparr>)"]
  by (simp add: mirror_stop_def mirror_inv_def mirror_phase_def split_def)

lemma push_done_inv:
  assumes T: "mirror_tuning_ok cfg" and inv: "mirror_inv cfg s"
  shows "mirror_inv cfg (fst (push_done cfg ok sid well s))"
proof (cases "mirror_current sid s")
  case (Some d)
  note d = current_session [OF Some]
  note run = running_session [OF inv d [THEN conjunct1]]
  have sched: "mirror_inv cfg (fst (mirror_scheduleRestart cfg s))" using mirror_schedule_inv [OF T] run by blast
  have "mirror_inv cfg (s\<lparr>as_session := Some (d\<lparr>dm_tracked := Some (as_nextPid s), dm_stage := Forwarding\<rparr>),
      as_nextPid := Suc (as_nextPid s)\<rparr>)" if "dm_stage d = Pushing"
    using run that d
    by (intro running_inv [of _ "d\<lparr>dm_tracked := Some (as_nextPid s), dm_stage := Forwarding\<rparr>"])
      (auto simp: daemon_ok_def mirror_procs_def less_Suc_eq)
  then show ?thesis using Some inv sched by (simp add: push_done_def Let_def)
qed (use inv in \<open>simp add: push_done_def\<close>)

lemma forward_done_inv:
  assumes T: "mirror_tuning_ok cfg" and inv: "mirror_inv cfg s"
  shows "mirror_inv cfg (fst (forward_done cfg sid well s))"
proof (cases "mirror_current sid s")
  case (Some d)
  note d = current_session [OF Some]
  note run = running_session [OF inv d [THEN conjunct1]]
  have sched: "mirror_inv cfg (fst (mirror_scheduleRestart cfg s))" using mirror_schedule_inv [OF T] run by blast
  have "mirror_inv cfg (fst (connectSocket cfg (d\<lparr>dm_stage := Connected\<rparr>) (s\<lparr>as_preamble := Some sid\<rparr>)))"
    if "dm_stage d = Forwarding"
    using run that d procs_session [of s d "d\<lparr>dm_stage := Connected, dm_socket := Some (as_nextSocket s), dm_open := True\<rparr>"]
    by (auto simp: connectSocket_def Let_def mirror_inv_def mirror_phase_def daemon_ok_def mirror_fresh_def mirror_procs_def)
  then show ?thesis using Some inv sched by (simp add: forward_done_def)
qed (use inv in \<open>simp add: forward_done_def\<close>)

lemma daemon_ended_inv:
  assumes T: "mirror_tuning_ok cfg" and inv: "mirror_inv cfg s" and pid: "pid < as_nextPid s" "pid \<notin> set (as_exited s)"
  shows "mirror_inv cfg (fst (daemon_ended cfg pid s))"
proof -
  let ?s = "s\<lparr>as_exited := as_exited s @ [pid]\<rparr>"
  have procs: "mirror_procs ?s" using inv pid by (auto simp: mirror_inv_def mirror_procs_def)
  show ?thesis
  proof (cases "as_session s")
    case (Some d)
    note run = running_session [OF inv Some]
    have "mirror_inv cfg (fst (mirror_scheduleRestart cfg ?s))"
      using run by (intro mirror_schedule_inv [OF T procs]) simp_all
    moreover have "mirror_inv cfg ?s" if "dm_tracked d \<noteq> Some pid"
      using run that Some by (intro running_inv [OF _ _ _ _ procs, of d]) (auto simp: daemon_ok_def split: daemon_stage.splits if_splits)
    ultimately show ?thesis using Some run by (simp add: daemon_ended_def Let_def)
  next
    case None
    then show ?thesis using inv procs
      by (auto simp: daemon_ended_def Let_def mirror_inv_def mirror_phase_def split: option.splits)
  qed
qed

lemma handleChunk_inv:
  assumes T: "mirror_tuning_ok cfg" and inv: "mirror_inv cfg s" and d: "as_session s = Some d" "dm_socket d = Some c" "dm_open d"
  shows "mirror_inv cfg (fst (handleChunk cfg d chunk now s))"
proof -
  note run = running_session [OF inv d(1)]
  obtain parser result where push: "mirror_push chunk (dm_parser d) = (parser, result)" by fastforce
  let ?s = "s\<lparr>as_session := Some (d\<lparr>dm_parser := parser\<rparr>)\<rparr>"
  have procs: "mirror_procs ?s" using run d procs_session [of s d "d\<lparr>dm_parser := parser\<rparr>"] by simp
  have stage: "dm_stage d = Connected" using run d by (auto simp: daemon_ok_def split: daemon_stage.splits)
  have keep: "mr_preamble parser \<noteq> None" if "mr_preamble (dm_parser d) \<noteq> None"
    using that push by (auto simp: mirror_push_def consumePackets_def mirror_poison_def Let_def split: if_splits option.splits prod.splits)
  have "mirror_inv cfg (fst (mirror_scheduleRestart cfg ?s))"
    using run by (intro mirror_schedule_inv [OF T procs]) simp_all
  moreover have "mirror_inv cfg (if mr_preamble (dm_parser d) = None \<and> mr_preamble parser \<noteq> None
      then ?s\<lparr>as_attempt := 0, as_preamble := None\<rparr> else ?s)"
    using run d stage keep procs
    by (cases "mr_preamble (dm_parser d)")
      (auto intro!: running_inv [of _ "d\<lparr>dm_parser := parser\<rparr>"] simp: daemon_ok_def)
  ultimately show ?thesis by (auto simp: handleChunk_def push Let_def split: option.split)
qed

lemma socket_data_inv:
  "mirror_tuning_ok cfg \<Longrightarrow> mirror_inv cfg s \<Longrightarrow> mirror_inv cfg (fst (socket_data cfg c chunk now s))"
  by (auto simp: socket_data_def handleChunk_inv split: option.split)

lemma socket_close_inv:
  assumes T: "mirror_tuning_ok cfg" and inv: "mirror_inv cfg s"
  shows "mirror_inv cfg (fst (socket_close cfg c s))"
proof (cases "as_session s")
  case (Some d)
  note run = running_session [OF inv Some]
  let ?s = "s\<lparr>as_session := Some (d\<lparr>dm_open := False\<rparr>)\<rparr>"
  have procs: "mirror_procs ?s" using run procs_session [of s d "d\<lparr>dm_open := False\<rparr>"] Some by simp
  then have "mirror_inv cfg (fst (mirror_scheduleRestart cfg ?s))"
    using run by (intro mirror_schedule_inv [OF T procs]) simp_all
  moreover have "mirror_inv cfg (?s\<lparr>as_connect := Some (dm_id d)\<rparr>)"
    if "mr_preamble (dm_parser d) = None" "dm_socket d = Some c" "dm_open d"
    using run that procs
    by (intro running_inv [of _ "d\<lparr>dm_open := False\<rparr>"]) (auto simp: daemon_ok_def split: daemon_stage.splits)
  ultimately show ?thesis using run Some inv by (simp add: socket_close_def Let_def)
qed (use inv in \<open>simp add: socket_close_def\<close>)

lemma connect_retry_inv:
  assumes inv: "mirror_inv cfg s"
  shows "mirror_inv cfg (fst (connect_retry cfg s))"
proof (cases "as_connect s")
  case (Some sid)
  then obtain d where d: "as_session s = Some d"
    using inv by (auto simp: mirror_inv_def mirror_phase_def split: if_splits option.splits)
  note run = running_session [OF inv d]
  have c: "dm_stage d = Connected" "mr_preamble (dm_parser d) = None" "dm_id d = sid"
    using run Some by (auto simp: daemon_ok_def split: daemon_stage.splits if_splits)
  let ?s = "s\<lparr>as_connect := None\<rparr>"
  have "mirror_procs (fst (connectSocket cfg d ?s))"
    using run d by (simp add: connectSocket_def Let_def mirror_procs_def)
  then have "mirror_inv cfg (fst (connectSocket cfg d ?s))"
    using run c by (auto simp: connectSocket_def Let_def mirror_inv_def mirror_phase_def daemon_ok_def)
  moreover have "mirror_current sid ?s = Some d" using run d c(3) by (simp add: mirror_current_def)
  ultimately show ?thesis using Some by (simp add: connect_retry_def)
qed (use inv in \<open>simp add: connect_retry_def\<close>)

lemma preamble_deadline_inv:
  assumes T: "mirror_tuning_ok cfg" and inv: "mirror_inv cfg s"
  shows "mirror_inv cfg (fst (preamble_deadline cfg s))"
proof (cases "as_preamble s")
  case (Some sid)
  then obtain d where d: "as_session s = Some d"
    using inv by (auto simp: mirror_inv_def mirror_phase_def split: if_splits option.splits)
  note run = running_session [OF inv d]
  have c: "mr_preamble (dm_parser d) = None" "dm_id d = sid"
    using run Some by (auto simp: daemon_ok_def split: daemon_stage.splits if_splits)
  have "mirror_inv cfg (fst (mirror_scheduleRestart cfg (s\<lparr>as_preamble := None\<rparr>)))"
    using run by (intro mirror_schedule_inv [OF T]) simp_all
  moreover have "mirror_current sid (s\<lparr>as_preamble := None\<rparr>) = Some d" using run d c(2) by (simp add: mirror_current_def)
  ultimately show ?thesis using Some c by (simp add: preamble_deadline_def)
qed (use inv in \<open>simp add: preamble_deadline_def\<close>)

lemma mirror_restart_inv: "mirror_inv cfg s \<Longrightarrow> mirror_inv cfg (fst (mirror_restart_elapsed cfg s))"
proof (cases "as_restart s")
  case (Some delay)
  assume inv: "mirror_inv cfg s"
  then have "as_active s" "as_session s = None" "as_preamble s = None" "as_connect s = None" "mirror_procs s"
    using Some by (auto simp: mirror_inv_def mirror_phase_def split: if_splits)
  then show ?thesis using Some mirror_launch_inv [of "s\<lparr>as_restart := None\<rparr>" cfg] by (simp add: mirror_restart_elapsed_def)
qed (simp add: mirror_restart_elapsed_def)

lemma mirror_await_inv: "mirror_inv cfg s \<Longrightarrow> mirror_inv cfg (mirror_await_turn s)"
proof -
  have "daemon_ok (mirror_await_turn s) d = daemon_ok s d" for d by (simp add: daemon_ok_def mirror_await_turn_def cong: daemon_stage.case_cong)
  then have "mirror_phase cfg (mirror_await_turn s) = mirror_phase cfg s"
    by (simp add: mirror_phase_def mirror_await_turn_def split: option.split)
  moreover have "mirror_procs s \<Longrightarrow> mirror_procs (mirror_await_turn s)" by (auto simp: mirror_procs_def mirror_await_turn_def)
  ultimately show "mirror_inv cfg s \<Longrightarrow> mirror_inv cfg (mirror_await_turn s)" by (simp add: mirror_inv_def)
qed

theorem mirror_step_inv: "mirror_tuning_ok cfg \<Longrightarrow> mirror_inv cfg s \<Longrightarrow> mirror_inv cfg (fst (mirror_step cfg ev s))"
  by (cases ev) (simp_all add: mirror_start_inv mirror_stop_inv push_done_inv forward_done_inv daemon_ended_inv socket_data_inv
      socket_close_inv connect_retry_inv preamble_deadline_inv mirror_restart_inv mirror_await_inv)

lemma mirror_reached_inv: "mirror_reached cfg s \<Longrightarrow> mirror_tuning_ok cfg \<Longrightarrow> mirror_inv cfg s"
proof (induction rule: mirror_reached.induct)
  case init
  show ?case by (simp add: mirror_new_def mirror_inv_def mirror_phase_def mirror_procs_def)
qed (simp add: mirror_step_inv)

section \<open>What leaves a stream\<close>

definition stream_output :: "mirror_effect \<Rightarrow> bool" where
  "stream_output e \<longleftrightarrow> (\<exists>f. e = Mirror_frame f) \<or> (\<exists>pid args. e = Spawn_daemon pid args) \<or> (\<exists>c port. e = Connect_mirror c port)"

lemma stream_output_simps [simp]:
  "stream_output (Mirror_frame f)" "stream_output (Spawn_daemon pid args)" "stream_output (Connect_mirror c port)"
  "\<not> stream_output (Mirror_adb args')" "\<not> stream_output (Signal_daemon pid sig)" "\<not> stream_output (Destroy_socket c)"
  by (simp_all add: stream_output_def)

lemma teardown_quiet: "e \<in> set (snd (teardownSession s)) \<Longrightarrow> \<not> stream_output e"
  by (auto simp: teardownSession_def Let_def split: option.splits if_splits)

lemma schedule_quiet: "e \<in> set (snd (mirror_scheduleRestart cfg s)) \<Longrightarrow> \<not> stream_output e"
  by (auto simp: mirror_scheduleRestart_def split_def dest: teardown_quiet split: if_splits)

lemma schedule_quiet_simps [simp]:
  "Mirror_frame f \<notin> set (snd (mirror_scheduleRestart cfg s))" "Spawn_daemon pid args \<notin> set (snd (mirror_scheduleRestart cfg s))"
  "Connect_mirror c port \<notin> set (snd (mirror_scheduleRestart cfg s))"
  using schedule_quiet by fastforce+

lemma stop_quiet [simp]:
  "Mirror_frame f \<notin> set (snd (mirror_stop cfg s))" "Spawn_daemon pid args \<notin> set (snd (mirror_stop cfg s))"
  "Connect_mirror c port \<notin> set (snd (mirror_stop cfg s))"
  using teardown_quiet [of _ "mirror_clearTimers (s\<lparr>as_active := False\<rparr>)"] by (fastforce simp: mirror_stop_def split_def)+

lemma no_session_quiet:
  assumes "as_session s = None" "as_restart s = None" "\<not> as_active s" "ev \<noteq> Mirror_start" "e \<in> set (snd (mirror_step cfg ev s))"
  shows "\<not> stream_output e"
  using assms
  by (cases ev) (auto simp: push_done_def forward_done_def daemon_ended_def socket_data_def socket_close_def connect_retry_def
      preamble_deadline_def mirror_current_def mirror_restart_elapsed_def signal_daemon_def mirror_await_over_def mirror_stop_def
      split_def Let_def dest: teardown_quiet split: if_splits option.splits)

lemma frames_only_data:
  "Mirror_frame f \<in> set (snd (mirror_step cfg ev s)) \<Longrightarrow>
    \<exists>c chunk now d parser ps. ev = Socket_data c chunk now \<and> as_session s = Some d \<and> dm_socket d = Some c \<and> dm_open d \<and>
      mirror_push chunk (dm_parser d) = (parser, Some ps) \<and> f \<in> mirror_frame cfg now ` set ps"
  by (cases ev) (auto simp: mirror_start_def mirror_launch_def push_done_def forward_done_def connectSocket_def daemon_ended_def
      socket_data_def handleChunk_def socket_close_def connect_retry_def preamble_deadline_def mirror_restart_elapsed_def
      signal_daemon_def mirror_await_over_def Let_def split: if_splits option.splits prod.splits)

section \<open>How a session goes on and how it ends\<close>

text \<open>The session of \<open>s\<close> has been torn down in \<open>t\<close>: its socket is destroyed and a daemon still alive is sent SIGTERM and awaited.\<close>

definition session_ended :: "android_stream \<Rightarrow> android_stream \<Rightarrow> mirror_effect list \<Rightarrow> bool" where
  "session_ended s t effs \<longleftrightarrow> as_session t = None \<and>
    (\<forall>d pid. as_session s = Some d \<longrightarrow> dm_tracked d = Some pid \<longrightarrow> pid \<notin> set (as_exited t) \<longrightarrow>
      Signal_daemon pid SIGTERM \<in> set effs \<and> pid \<in> set (as_terminating t)) \<and>
    (\<forall>d c. as_session s = Some d \<longrightarrow> dm_socket d = Some c \<longrightarrow> Destroy_socket c \<in> set effs)"

lemma teardown_ends: "session_ended s (fst (teardownSession s)) (snd (teardownSession s))"
  by (auto simp: session_ended_def teardownSession_def Let_def split: option.split)

text \<open>The same tracked daemon and socket: what a session keeps while its other fields change.\<close>

lemma session_ended_same:
  assumes "session_ended s' t effs" "as_session s = Some d" "as_session s' = Some d'"
    "dm_tracked d' = dm_tracked d" "dm_socket d' = dm_socket d"
  shows "session_ended s t effs"
  using assms by (simp add: session_ended_def)

text \<open>A restart is scheduled with the documented delay, and nothing of the session is left.\<close>

definition restarts_after :: "mirror_config \<Rightarrow> android_stream \<Rightarrow> android_stream \<times> mirror_effect list \<Rightarrow> bool" where
  "restarts_after cfg s r \<longleftrightarrow> session_ended s (fst r) (snd r) \<and> as_active (fst r) \<and>
    as_restart (fst r) = Some (min (mt_restartBaseMs (mc_tuning cfg) * 2 ^ as_attempt s) (mt_restartMaxMs (mc_tuning cfg))) \<and>
    as_attempt (fst r) = as_attempt s + 1"

lemma schedule_restarts:
  assumes "as_active s'" "as_restart s' = None" "as_attempt s' = as_attempt s" "as_session s = Some d" "as_session s' = Some d'"
    "dm_tracked d' = dm_tracked d" "dm_socket d' = dm_socket d"
  shows "restarts_after cfg s (mirror_scheduleRestart cfg s')"
proof -
  obtain t effs where t: "teardownSession (mirror_clearTimers s') = (t, effs)" by fastforce
  have "session_ended (mirror_clearTimers s') t effs" "as_active t = as_active s'" "as_attempt t = as_attempt s'"
    using teardown_ends [of "mirror_clearTimers s'"] teardown_fields [of "mirror_clearTimers s'"] t by simp_all
  then have "session_ended s t effs" using assms(4-7) session_ended_same [of "mirror_clearTimers s'" t effs s d d'] by simp
  then show ?thesis
    using assms(1-3) t \<open>as_active t = _\<close> \<open>as_attempt t = _\<close>
    by (simp add: mirror_scheduleRestart_def restarts_after_def session_ended_def mirror_delay_def)
qed

text \<open>The events that end the session \<open>d\<close>: a failed push, start or forward, the end of its daemon, the deadline of
  the preamble, a close after the preamble, a corrupt stream.\<close>

fun ends_session :: "android_stream \<Rightarrow> daemon_session \<Rightarrow> mirror_event \<Rightarrow> bool" where
  "ends_session s d (Push_done ok sid well) = (sid = dm_id d \<and> dm_stage d = Pushing \<and> \<not> (ok \<and> well))"
| "ends_session s d (Forward_done sid well) = (sid = dm_id d \<and> dm_stage d = Forwarding \<and> \<not> well)"
| "ends_session s d (Daemon_ended pid) = (dm_tracked d = Some pid)"
| "ends_session s d Preamble_deadline = (as_preamble s \<noteq> None)"
| "ends_session s d (Socket_close c) = (dm_socket d = Some c \<and> dm_open d \<and> mr_preamble (dm_parser d) \<noteq> None)"
| "ends_session s d (Socket_data c chunk now) =
    (dm_socket d = Some c \<and> dm_open d \<and> snd (mirror_push chunk (dm_parser d)) = None)"
| "ends_session s d _ = False"

lemma ended_session_restarts:
  assumes inv: "mirror_inv cfg s" and d: "as_session s = Some d" and ev: "ends_session s d ev"
  shows "restarts_after cfg s (mirror_step cfg ev s)"
proof -
  note run = running_session [OF inv d]
  have cur: "mirror_current (dm_id d) s = Some d" using run d by (simp add: mirror_current_def)
  show ?thesis
  proof (cases ev)
    case (Push_done ok sid well)
    then show ?thesis using ev run d cur by (auto simp: push_done_def schedule_restarts)
  next
    case (Forward_done sid well)
    then show ?thesis using ev run d cur by (simp add: forward_done_def schedule_restarts)
  next
    case (Daemon_ended pid)
    then have "pid < as_nextPid s \<and> pid \<notin> set (as_exited s)"
      using ev run by (auto simp: daemon_ok_def split: daemon_stage.splits)
    then show ?thesis using Daemon_ended ev run d by (simp add: daemon_ended_def Let_def schedule_restarts)
  next
    case Preamble_deadline
    then obtain sid where sid: "as_preamble s = Some sid" using ev by auto
    then have "sid = dm_id d" "mr_preamble (dm_parser d) = None"
      using run by (auto simp: daemon_ok_def split: daemon_stage.splits if_splits)
    then show ?thesis using Preamble_deadline sid run d
      by (simp add: preamble_deadline_def mirror_current_def schedule_restarts)
  next
    case (Socket_data c chunk now)
    then show ?thesis using ev run d
      by (cases "mirror_push chunk (dm_parser d)") (simp add: socket_data_def handleChunk_def Let_def schedule_restarts)
  next
    case (Socket_close c)
    then show ?thesis using ev run d by (auto simp: socket_close_def Let_def schedule_restarts)
  qed (use ev in simp_all)
qed

lemma stop_ends:
  "session_ended s (fst (mirror_step cfg Mirror_stop s)) (snd (mirror_step cfg Mirror_stop s)) \<and>
    Mirror_adb (unforward_args cfg) \<in> set (snd (mirror_step cfg Mirror_stop s)) \<and> \<not> as_active (fst (mirror_step cfg Mirror_stop s))"
proof -
  let ?s = "mirror_clearTimers (s\<lparr>as_active := False\<rparr>)"
  have "session_ended s (fst (teardownSession ?s)) (snd (teardownSession ?s))"
    using teardown_ends [of ?s] by (simp add: session_ended_def)
  then show ?thesis by (simp add: mirror_stop_def split_def session_ended_def)
qed

lemma session_goes_on:
  assumes inv: "mirror_inv cfg s" and d: "as_session s = Some d"
  shows "dm_stage d = Pushing \<Longrightarrow> snd (mirror_step cfg (Push_done True (dm_id d) True) s) =
      [Spawn_daemon (as_nextPid s) (daemon_args cfg), Mirror_adb (forward_args cfg)]"
    and "dm_stage d = Forwarding \<Longrightarrow> snd (mirror_step cfg (Forward_done (dm_id d) True) s) =
        [Connect_mirror (as_nextSocket s) (mc_port cfg)] \<and>
      as_preamble (fst (mirror_step cfg (Forward_done (dm_id d) True) s)) = Some (dm_id d)"
    and "as_connect s = Some sid \<Longrightarrow> snd (mirror_step cfg Connect_retry s) = [Connect_mirror (as_nextSocket s) (mc_port cfg)]"
    and "dm_socket d = Some c \<Longrightarrow> dm_open d \<Longrightarrow> mirror_push chunk (dm_parser d) = (parser, Some packets) \<Longrightarrow>
      mr_preamble (dm_parser d) = None \<Longrightarrow> mr_preamble parser \<noteq> None \<Longrightarrow>
      as_attempt (fst (mirror_step cfg (Socket_data c chunk now) s)) = 0 \<and>
      as_preamble (fst (mirror_step cfg (Socket_data c chunk now) s)) = None"
proof -
  note run = running_session [OF inv d]
  have cur: "mirror_current (dm_id d) s = Some d" using run d by (simp add: mirror_current_def)
  show "dm_stage d = Pushing \<Longrightarrow> snd (mirror_step cfg (Push_done True (dm_id d) True) s) =
      [Spawn_daemon (as_nextPid s) (daemon_args cfg), Mirror_adb (forward_args cfg)]"
    using cur by (simp add: push_done_def Let_def)
  show "dm_stage d = Forwarding \<Longrightarrow> snd (mirror_step cfg (Forward_done (dm_id d) True) s) =
        [Connect_mirror (as_nextSocket s) (mc_port cfg)] \<and>
      as_preamble (fst (mirror_step cfg (Forward_done (dm_id d) True) s)) = Some (dm_id d)"
    using cur by (simp add: forward_done_def connectSocket_def Let_def)
  show "snd (mirror_step cfg Connect_retry s) = [Connect_mirror (as_nextSocket s) (mc_port cfg)]" if "as_connect s = Some sid"
  proof -
    have "sid = dm_id d" using run that by (auto simp: daemon_ok_def split: daemon_stage.splits if_splits)
    then show ?thesis using run d that by (simp add: connect_retry_def mirror_current_def connectSocket_def Let_def)
  qed
  show "dm_socket d = Some c \<Longrightarrow> dm_open d \<Longrightarrow> mirror_push chunk (dm_parser d) = (parser, Some packets) \<Longrightarrow>
      mr_preamble (dm_parser d) = None \<Longrightarrow> mr_preamble parser \<noteq> None \<Longrightarrow>
      as_attempt (fst (mirror_step cfg (Socket_data c chunk now) s)) = 0 \<and>
      as_preamble (fst (mirror_step cfg (Socket_data c chunk now) s)) = None"
    using d by (simp add: socket_data_def handleChunk_def Let_def)
qed

lemma mirror_kills:
  "pid \<notin> set (as_exited s) \<Longrightarrow> snd (mirror_step cfg (Daemon_escalation pid) s) = [Signal_daemon pid SIGKILL]"
  "pid \<notin> set (as_exited s) \<Longrightarrow> pid \<in> set (as_terminating s) \<Longrightarrow>
    Signal_daemon pid SIGKILL \<in> set (snd (mirror_step cfg Mirror_await_over s))"
  by (auto simp: signal_daemon_def mirror_await_over_def)

lemma restart_pushes:
  "mirror_inv cfg s \<Longrightarrow> as_restart s = Some delay \<Longrightarrow>
    snd (mirror_step cfg Mirror_restart s) = [Mirror_adb (push_args cfg)] \<and> as_session (fst (mirror_step cfg Mirror_restart s)) \<noteq> None"
  by (auto simp: mirror_restart_elapsed_def mirror_launch_def mirror_inv_def mirror_phase_def split: if_splits)


definition sample_mirror :: mirror_config where
  "sample_mirror = \<lparr>mc_serial = ''s1'', mc_dexPath = ''dex'', mc_port = 8400, mc_tuning = default_mirror_tuning\<rparr>"

definition sample_connected :: android_stream where
  "sample_connected = fst (mirror_step sample_mirror (Forward_done 0 True)
     (fst (mirror_step sample_mirror (Push_done True 0 True) (fst (mirror_step sample_mirror Mirror_start mirror_new)))))"

lemma sample_connected: "sample_connected = \<lparr>as_session = Some \<lparr>dm_id = 0, dm_stage = Connected, dm_tracked = Some 0,
      dm_socket = Some 0, dm_open = True, dm_parser = mirror_fresh\<rparr>, as_active = True, as_restart = None,
    as_preamble = Some 0, as_connect = None, as_attempt = 0, as_terminating = [], as_exited = [], as_nextSession = 1,
    as_nextPid = 1, as_nextSocket = 1\<rparr>"
  by (simp add: sample_connected_def mirror_new_def mirror_start_def mirror_launch_def push_done_def forward_done_def
      mirror_current_def connectSocket_def Let_def)


end
