(* ===== verification/Stream_Manager.thy ===== *)
theory Stream_Manager
  imports H264_Stream Android_Stream
begin

text \<open>
  The manager that keeps one mirroring stream per discovered device (stream-manager.ts) and the factory the
  Agent gives it (\<open>createStreamManager\<close> in main.ts). Stream objects live in the store \<open>sm_objects\<close> and are
  named by their position, as the manager, its list of stopped streams and the callbacks share them.
  The contract of a stream is the locale \<open>device_stream\<close>.
\<close>

section \<open>The manager\<close>

record 's stream_manager =
  sm_objects :: "'s list"
  sm_streams :: "(string, nat) jsmap"
  sm_stopped :: "nat list"
  sm_ports :: "(string, nat) jsmap"

definition manager_new :: "'s stream_manager" where
  "manager_new = \<lparr>sm_objects = [], sm_streams = [], sm_stopped = [], sm_ports = []\<rparr>"

text \<open>\<open>create\<close> is the factory: it may allocate a port, and gives no stream when none can be made.\<close>

type_synonym 's factory = "string \<Rightarrow> (string, nat) jsmap \<Rightarrow> 's option \<times> (string, nat) jsmap"

definition manager_start ::
  "'s factory \<Rightarrow> ('s \<Rightarrow> 's \<times> 'e list) \<Rightarrow> string \<Rightarrow> 's stream_manager \<Rightarrow> 's stream_manager \<times> 'e list" where
  "manager_start create start deviceId m =
    (if jhas (sm_streams m) deviceId then (m, [])
     else case create deviceId (sm_ports m) of
       (None, ports) \<Rightarrow> (m\<lparr>sm_ports := ports\<rparr>, [])
     | (Some stream, ports) \<Rightarrow>
         (case start stream of (stream, effs) \<Rightarrow>
           (m\<lparr>sm_ports := ports, sm_streams := jset deviceId (length (sm_objects m)) (sm_streams m),
              sm_objects := sm_objects m @ [stream]\<rparr>, effs)))"

definition manager_stop :: "('s \<Rightarrow> 's \<times> 'e list) \<Rightarrow> string \<Rightarrow> 's stream_manager \<Rightarrow> 's stream_manager \<times> 'e list" where
  "manager_stop stop deviceId m = (case jget (sm_streams m) deviceId of
      None \<Rightarrow> (m, [])
    | Some i \<Rightarrow> (case stop (sm_objects m ! i) of (stream, effs) \<Rightarrow>
        (m\<lparr>sm_objects := (sm_objects m)[i := stream], sm_streams := jdel deviceId (sm_streams m)\<rparr>, effs)))"

definition manager_stop_gone ::
  "('s \<Rightarrow> 's \<times> 'e list) \<Rightarrow> string list \<Rightarrow> string \<Rightarrow> 's stream_manager \<Rightarrow> 's stream_manager \<times> 'e list" where
  "manager_stop_gone stop deviceIds deviceId m =
    (if deviceId \<in> set deviceIds then (m, []) else manager_stop stop deviceId m)"

definition syncAlwaysOn ::
  "'s factory \<Rightarrow> ('s \<Rightarrow> 's \<times> 'e list) \<Rightarrow> ('s \<Rightarrow> 's \<times> 'e list) \<Rightarrow> string list \<Rightarrow>
    's stream_manager \<Rightarrow> 's stream_manager \<times> 'e list" where
  "syncAlwaysOn create start stop deviceIds m =
    (case for_each (manager_start create start) deviceIds m of (m, started) \<Rightarrow>
     case for_each (manager_stop_gone stop deviceIds) (jkeys (sm_streams m)) m of (m, stopped) \<Rightarrow>
       (m, started @ stopped))"

definition manager_stop_entry ::
  "('s \<Rightarrow> 's \<times> 'e list) \<Rightarrow> string \<times> nat \<Rightarrow> 's stream_manager \<Rightarrow> 's stream_manager \<times> 'e list" where
  "manager_stop_entry stop entry m =
    (case stop (sm_objects m ! snd entry) of (stream, effs) \<Rightarrow>
      (m\<lparr>sm_objects := (sm_objects m)[snd entry := stream], sm_streams := jdel (fst entry) (sm_streams m),
         sm_stopped := sm_stopped m @ [snd entry]\<rparr>, effs))"

definition manager_stopAll :: "('s \<Rightarrow> 's \<times> 'e list) \<Rightarrow> 's stream_manager \<Rightarrow> 's stream_manager \<times> 'e list" where
  "manager_stopAll stop m = for_each (manager_stop_entry stop) (sm_streams m) m"

section \<open>What a stream promises, and what the manager makes of it\<close>

text \<open>Every stream of the map is an object of its own and running; every other object is not running.\<close>

definition manager_inv :: "('s \<Rightarrow> bool) \<Rightarrow> 's stream_manager \<Rightarrow> bool" where
  "manager_inv running m \<longleftrightarrow> jwf (sm_streams m) \<and> distinct (map snd (sm_streams m)) \<and>
    (\<forall>i < length (sm_objects m). running (sm_objects m ! i) \<longleftrightarrow> i \<in> set (map snd (sm_streams m))) \<and>
    (\<forall>i\<in>set (map snd (sm_streams m)). i < length (sm_objects m))"

locale device_stream =
  fixes start :: "'s \<Rightarrow> 's \<times> 'e list"
    and stop :: "'s \<Rightarrow> 's \<times> 'e list"
    and running :: "'s \<Rightarrow> bool"
  assumes start_runs: "running (fst (start s))"
    and stop_ends: "\<not> running (fst (stop s))"
begin

lemma start_inv:
  assumes inv: "manager_inv running m"
  shows "manager_inv running (fst (manager_start create start deviceId m))"
proof (cases "jhas (sm_streams m) deviceId")
  case False
  then have none: "jget (sm_streams m) deviceId = None" by (simp add: jhas_def)
  obtain s ports where c: "create deviceId (sm_ports m) = (s, ports)" by fastforce
  obtain wf: "jwf (sm_streams m)" "jwf (jset deviceId (length (sm_objects m)) (sm_streams m))"
    using inv by (auto simp: manager_inv_def)
  have fresh: "length (sm_objects m) \<notin> set (map snd (sm_streams m))" using inv by (auto simp: manager_inv_def)
  show ?thesis
  proof (cases s)
    case (Some x)
    obtain y effs where y: "start x = (y, effs)" by fastforce
    have "running y" using start_runs [of x] y by simp
    then show ?thesis
      using inv False c Some y fresh wf
      by (auto simp: manager_start_def manager_inv_def jget_None_append [OF none] nth_append less_Suc_eq)
  qed (use inv False c in \<open>simp add: manager_start_def manager_inv_def\<close>)
qed (use inv in \<open>simp add: manager_start_def\<close>)

lemma removed_inv:
  assumes inv: "manager_inv running m" and i: "jget (sm_streams m) deviceId = Some i" and dead: "\<not> running y"
    and m': "sm_objects m' = (sm_objects m)[i := y]" "sm_streams m' = jdel deviceId (sm_streams m)"
  shows "manager_inv running m'"
proof -
  have wf: "jwf (sm_streams m)" and dist: "distinct (map (\<lambda>x. id (snd x)) (sm_streams m))"
    using inv by (simp_all add: manager_inv_def)
  note d = jdel_distinct_values [OF wf i dist]
  have "i < length (sm_objects m)" using inv jget_Some_in [OF i] by (force simp: manager_inv_def)
  then show ?thesis
    using inv d dead m' by (auto simp: manager_inv_def nth_list_update)
qed

lemma stop_inv: "manager_inv running m \<Longrightarrow> manager_inv running (fst (manager_stop stop deviceId m))"
proof (cases "jget (sm_streams m) deviceId")
  case (Some i)
  assume inv: "manager_inv running m"
  obtain y effs where y: "stop (sm_objects m ! i) = (y, effs)" by fastforce
  have "\<not> running y" using stop_ends [of "sm_objects m ! i"] y by simp
  then show ?thesis using removed_inv [OF inv Some, of y] y Some by (simp add: manager_stop_def)
qed (simp add: manager_stop_def)

lemma sync_streams_inv:
  assumes inv: "manager_inv running m"
  shows "manager_inv running (fst (syncAlwaysOn create start stop deviceIds m))"
proof -
  let ?m = "fst (for_each (manager_start create start) deviceIds m)"
  have "manager_inv running ?m" by (rule for_each_inv [where P = "manager_inv running", OF start_inv inv])
  then have "manager_inv running (fst (for_each (manager_stop_gone stop deviceIds) (jkeys (sm_streams ?m)) ?m))"
    by (intro for_each_inv [where P = "manager_inv running" and f = "manager_stop_gone stop deviceIds" and s = ?m])
      (simp_all add: manager_stop_gone_def stop_inv)
  then show ?thesis by (simp add: syncAlwaysOn_def split_def)
qed

lemma stop_entries:
  assumes "manager_inv running m" "sm_streams m = entries"
  shows "manager_inv running (fst (for_each (manager_stop_entry stop) entries m)) \<and>
    sm_streams (fst (for_each (manager_stop_entry stop) entries m)) = [] \<and>
    sm_stopped (fst (for_each (manager_stop_entry stop) entries m)) = sm_stopped m @ map snd entries"
  using assms
proof (induction entries arbitrary: m)
  case (Cons e es)
  obtain k i where e: "e = (k, i)" by (cases e)
  obtain y effs where y: "stop (sm_objects m ! i) = (y, effs)" by fastforce
  let ?m = "m\<lparr>sm_objects := (sm_objects m)[i := y], sm_streams := es, sm_stopped := sm_stopped m @ [i]\<rparr>"
  have i: "jget (sm_streams m) k = Some i" using Cons.prems(2) e by simp
  have "jdel k es = es" using Cons.prems e by (auto simp: manager_inv_def jwf_def jdel_filter filter_id_conv)
  then have del: "jdel k (sm_streams m) = es" using Cons.prems(2) e by simp
  have "manager_inv running ?m"
    using stop_ends [of "sm_objects m ! i"] y by (intro removed_inv [OF Cons.prems(1) i, of y]) (simp_all add: del)
  from Cons.IH [OF this] have IH: "manager_inv running (fst (for_each (manager_stop_entry stop) es ?m)) \<and>
    sm_streams (fst (for_each (manager_stop_entry stop) es ?m)) = [] \<and>
    sm_stopped (fst (for_each (manager_stop_entry stop) es ?m)) = sm_stopped m @ i # map snd es" by simp
  have "fst (for_each (manager_stop_entry stop) (e # es) m) = fst (for_each (manager_stop_entry stop) es ?m)"
    using del by (simp add: for_each_Cons manager_stop_entry_def e y)
  then show ?case using IH e by simp
qed (simp add: for_each_def)

text \<open>Which devices have a stream after a synchronisation, and that a stream that stays is not touched.\<close>

lemma starts_keys:
  assumes "\<And>d ports. fst (create d ports) \<noteq> None \<longleftrightarrow> can d"
  shows "jget (sm_streams (fst (for_each (manager_start create start) ids m))) d \<noteq> None \<longleftrightarrow>
    jget (sm_streams m) d \<noteq> None \<or> d \<in> set ids \<and> can d"
proof (induction ids arbitrary: m)
  case (Cons k ids)
  have "jget (sm_streams (fst (manager_start create start k m))) d \<noteq> None \<longleftrightarrow> jget (sm_streams m) d \<noteq> None \<or> d = k \<and> can d"
    using assms [of k "sm_ports m"]
    by (auto simp: manager_start_def jhas_def split: option.splits prod.splits)
  then show ?case using Cons [of "fst (manager_start create start k m)"] by (auto simp: for_each_Cons)
qed simp

lemma start_keeps:
  assumes "jget (sm_streams m) d = Some i" "i < length (sm_objects m)"
  shows "jget (sm_streams (fst (manager_start create start k m))) d = Some i \<and>
    i < length (sm_objects (fst (manager_start create start k m))) \<and>
    sm_objects (fst (manager_start create start k m)) ! i = sm_objects m ! i"
  using assms by (auto simp: manager_start_def jhas_def nth_append split: option.splits prod.splits)

lemma starts_keep:
  assumes "jget (sm_streams m) d = Some i" "i < length (sm_objects m)"
  shows "jget (sm_streams (fst (for_each (manager_start create start) ids m))) d = Some i \<and>
    sm_objects (fst (for_each (manager_start create start) ids m)) ! i = sm_objects m ! i"
proof -
  let ?P = "\<lambda>n. jget (sm_streams n) d = Some i \<and> i < length (sm_objects n) \<and> sm_objects n ! i = sm_objects m ! i"
  have "?P (fst (for_each (manager_start create start) ids m))"
    by (rule for_each_inv [where P = ?P]) (use start_keeps assms in auto)
  then show ?thesis by blast
qed

lemma stops_keys:
  "jget (sm_streams (fst (for_each (manager_stop_gone stop ids) ks m))) d =
    (if d \<in> set ks \<and> d \<notin> set ids then None else jget (sm_streams m) d)"
proof (induction ks arbitrary: m)
  case (Cons k ks)
  have "jget (sm_streams (fst (manager_stop_gone stop ids k m))) d = (if d = k \<and> d \<notin> set ids then None else jget (sm_streams m) d)"
    by (auto simp: manager_stop_gone_def manager_stop_def split: option.splits prod.splits)
  then show ?case using Cons [of "fst (manager_stop_gone stop ids k m)"] by (auto simp: for_each_Cons)
qed simp

lemma stop_gone_keeps:
  assumes inv: "manager_inv running m" and d: "jget (sm_streams m) d = Some i" "d \<in> set ids"
  shows "jget (sm_streams (fst (manager_stop_gone stop ids k m))) d = Some i \<and>
    sm_objects (fst (manager_stop_gone stop ids k m)) ! i = sm_objects m ! i"
proof (cases "k \<in> set ids")
  case False
  then have "k \<noteq> d" using d(2) by blast
  moreover have "j \<noteq> i" if "jget (sm_streams m) k = Some j" for j
  proof
    assume "j = i"
    moreover have "inj_on snd (set (sm_streams m))" using inv by (simp add: manager_inv_def distinct_map)
    ultimately have "(k, i) = (d, i)"
      using jget_Some_in [OF that] jget_Some_in [OF d(1)] inj_onD [of snd "set (sm_streams m)" "(k, i)" "(d, i)"] by simp
    then show False using \<open>k \<noteq> d\<close> by simp
  qed
  ultimately show ?thesis using d(1) False
    by (auto simp: manager_stop_gone_def manager_stop_def split: option.split prod.split)
qed (use d in \<open>simp add: manager_stop_gone_def\<close>)

lemma stops_keep:
  assumes "manager_inv running m" "jget (sm_streams m) d = Some i" "d \<in> set ids"
  shows "sm_objects (fst (for_each (manager_stop_gone stop ids) ks m)) ! i = sm_objects m ! i"
proof -
  let ?P = "\<lambda>n. manager_inv running n \<and> jget (sm_streams n) d = Some i \<and> sm_objects n ! i = sm_objects m ! i"
  have step: "?P (fst (manager_stop_gone stop ids k n))" if "?P n" for k n
    using stop_gone_keeps [of n d i ids k] that assms(3) by (simp add: manager_stop_gone_def stop_inv)
  have "?P (fst (for_each (manager_stop_gone stop ids) ks m))"
    by (rule for_each_inv [where P = ?P]) (use step assms in blast)+
  then show ?thesis by blast
qed

lemma sync_keys:
  assumes "\<And>d ports. fst (create d ports) \<noteq> None \<longleftrightarrow> can d"
  shows "jget (sm_streams (fst (syncAlwaysOn create start stop ids m))) d \<noteq> None \<longleftrightarrow>
    d \<in> set ids \<and> (jget (sm_streams m) d \<noteq> None \<or> can d)"
proof -
  let ?m = "fst (for_each (manager_start create start) ids m)"
  have "jget (sm_streams (fst (syncAlwaysOn create start stop ids m))) d =
      (if d \<in> set (jkeys (sm_streams ?m)) \<and> d \<notin> set ids then None else jget (sm_streams ?m) d)"
    by (simp add: syncAlwaysOn_def split_def stops_keys)
  then show ?thesis using starts_keys [of create can, OF assms] by (auto simp: jkeys_iff)
qed

lemma sync_keeps:
  assumes inv: "manager_inv running m" and d: "jget (sm_streams m) d = Some i" "d \<in> set ids"
  shows "jget (sm_streams (fst (syncAlwaysOn create start stop ids m))) d = Some i \<and>
    sm_objects (fst (syncAlwaysOn create start stop ids m)) ! i = sm_objects m ! i"
proof -
  let ?m = "fst (for_each (manager_start create start) ids m)"
  have "i < length (sm_objects m)" using inv jget_Some_in [OF d(1)] by (force simp: manager_inv_def)
  note kept = starts_keep [OF d(1) this, of create ids]
  have "manager_inv running ?m" by (rule for_each_inv [where P = "manager_inv running", OF start_inv inv])
  then have "sm_objects (fst (for_each (manager_stop_gone stop ids) (jkeys (sm_streams ?m)) ?m)) ! i = sm_objects ?m ! i"
    using kept d(2) by (intro stops_keep) auto
  then show ?thesis using kept d(2) by (simp add: syncAlwaysOn_def split_def stops_keys)
qed

end

section \<open>The streams of the Agent\<close>

datatype mirror_object = Ios_mirror h264_config h264_stream | Android_mirror mirror_config android_stream

datatype mirror_output = Ios_output stream_effect | Android_output mirror_effect

fun object_start :: "mirror_object \<Rightarrow> mirror_object \<times> mirror_output list" where
  "object_start (Ios_mirror cfg s) = (case h264_start cfg s of (s, effs) \<Rightarrow> (Ios_mirror cfg s, map Ios_output effs))"
| "object_start (Android_mirror cfg s) =
    (case mirror_start cfg s of (s, effs) \<Rightarrow> (Android_mirror cfg s, map Android_output effs))"

fun object_stop :: "mirror_object \<Rightarrow> mirror_object \<times> mirror_output list" where
  "object_stop (Ios_mirror cfg s) = (case h264_stop s of (s, effs) \<Rightarrow> (Ios_mirror cfg s, map Ios_output effs))"
| "object_stop (Android_mirror cfg s) =
    (case mirror_stop cfg s of (s, effs) \<Rightarrow> (Android_mirror cfg s, map Android_output effs))"

fun object_running :: "mirror_object \<Rightarrow> bool" where
  "object_running (Ios_mirror cfg s) = hs_active s"
| "object_running (Android_mirror cfg s) = as_active s"

interpretation mirror: device_stream object_start object_stop object_running
proof unfold_locales
  fix obj
  show "object_running (fst (object_start obj))"
    by (cases obj) (simp_all add: h264_start_def h264_launch_def mirror_start_def mirror_launch_def Let_def split_def)
  show "\<not> object_running (fst (object_stop obj))"
    by (cases obj) (simp_all add: h264_stop_def clearResolutionTimer_def mirror_stop_def Let_def split_def split: option.split)
qed

record mirror_section =
  ms_helperPath :: string
  ms_android :: "(string \<times> nat \<times> mirror_tuning) option"

definition allocateMirrorPort :: "nat \<Rightarrow> string \<Rightarrow> (string, nat) jsmap \<Rightarrow> nat \<times> (string, nat) jsmap" where
  "allocateMirrorPort base serial ports = (case jget ports serial of
      Some port \<Rightarrow> (port, ports)
    | None \<Rightarrow> (base + length ports, jset serial (base + length ports) ports))"

text \<open>The factory: \<open>devices\<close> is the present view of the discovery.\<close>

definition create_stream :: "mirror_section \<Rightarrow> register_device list \<Rightarrow> mirror_object factory" where
  "create_stream cfg devices deviceId ports =
    (case List.find (\<lambda>d. rd_id d = deviceId) devices of
      None \<Rightarrow> (None, ports)
    | Some device \<Rightarrow>
        if rd_platform device = Android then
          (case ms_android cfg of
             None \<Rightarrow> (None, ports)
           | Some (dexPath, base, tuning) \<Rightarrow>
               (case allocateMirrorPort base deviceId ports of (port, ports) \<Rightarrow>
                 (Some (Android_mirror \<lparr>mc_serial = deviceId, mc_dexPath = dexPath, mc_port = port, mc_tuning = tuning\<rparr>
                     mirror_new), ports)))
        else (Some (Ios_mirror \<lparr>hc_helperPath = ms_helperPath cfg, hc_deviceName = rd_name device,
                hc_deviceId = deviceId\<rparr> h264_new), ports))"

definition can_stream :: "mirror_section \<Rightarrow> register_device list \<Rightarrow> string \<Rightarrow> bool" where
  "can_stream cfg devices deviceId = (case List.find (\<lambda>d. rd_id d = deviceId) devices of
      None \<Rightarrow> False
    | Some device \<Rightarrow> rd_platform device = Android \<longrightarrow> ms_android cfg \<noteq> None)"

lemma create_stream_can: "fst (create_stream cfg devices d ports) \<noteq> None \<longleftrightarrow> can_stream cfg devices d"
  by (auto simp: create_stream_def can_stream_def split: option.split prod.split)

text \<open>Steps: the manager's operations and the callbacks of the stream objects.\<close>

datatype manager_event =
    Sync_streams "register_device list" "string list"
  | Stop_streams
  | Ios_callback nat h264_event
  | Android_callback nat mirror_event

definition own_ios :: "h264_event \<Rightarrow> bool" where "own_ios ev \<longleftrightarrow> ev \<noteq> H264_stop"
definition own_android :: "mirror_event \<Rightarrow> bool" where "own_android ev \<longleftrightarrow> ev \<noteq> Mirror_start \<and> ev \<noteq> Mirror_stop"

definition object_callback ::
  "manager_event \<Rightarrow> mirror_object \<Rightarrow> mirror_object \<times> mirror_output list" where
  "object_callback ev obj = (case (ev, obj) of
      (Ios_callback _ e, Ios_mirror cfg s) \<Rightarrow>
        if own_ios e then (case h264_step cfg e s of (s, effs) \<Rightarrow> (Ios_mirror cfg s, map Ios_output effs)) else (obj, [])
    | (Android_callback _ e, Android_mirror cfg s) \<Rightarrow>
        if own_android e then (case mirror_step cfg e s of (s, effs) \<Rightarrow> (Android_mirror cfg s, map Android_output effs))
        else (obj, [])
    | _ \<Rightarrow> (obj, []))"

definition manager_callback ::
  "nat \<Rightarrow> manager_event \<Rightarrow> mirror_object stream_manager \<Rightarrow> mirror_object stream_manager \<times> mirror_output list" where
  "manager_callback i ev m =
    (if i < length (sm_objects m)
     then (case object_callback ev (sm_objects m ! i) of (obj, effs) \<Rightarrow> (m\<lparr>sm_objects := (sm_objects m)[i := obj]\<rparr>, effs))
     else (m, []))"

fun manager_step ::
  "mirror_section \<Rightarrow> manager_event \<Rightarrow> mirror_object stream_manager \<Rightarrow> mirror_object stream_manager \<times> mirror_output list" where
  "manager_step cfg (Sync_streams devices ids) m = syncAlwaysOn (create_stream cfg devices) object_start object_stop ids m"
| "manager_step cfg Stop_streams m = manager_stopAll object_stop m"
| "manager_step cfg (Ios_callback i ev) m = manager_callback i (Ios_callback i ev) m"
| "manager_step cfg (Android_callback i ev) m = manager_callback i (Android_callback i ev) m"

inductive managed :: "mirror_section \<Rightarrow> mirror_object stream_manager \<Rightarrow> bool" for cfg where
  init: "managed cfg manager_new"
| step: "managed cfg m \<Longrightarrow> managed cfg (fst (manager_step cfg ev m))"

section \<open>Invariants of the composition\<close>

text \<open>Every object has lived as its class allows: an iOS stream was started once.\<close>

fun object_lived :: "mirror_object \<Rightarrow> bool" where
  "object_lived (Ios_mirror cfg s) = h264_reached cfg s"
| "object_lived (Android_mirror cfg s) = mirror_reached cfg s"

lemma ios_active: "own_ios ev \<Longrightarrow> hs_active (fst (h264_step cfg ev s)) = hs_active s"
  by (cases ev) (auto simp: own_ios_def stdout_active parseHelperLog_def clearResolutionTimer_def helper_error_def helper_exit_def
      h264_scheduleRestart_def resolution_deadline_def helper_restart_elapsed_def h264_launch_def helper_escalation_def
      h264_kill_def h264_await_turn_def h264_await_over_def Let_def split: option.split)

lemma schedule_active [simp]: "as_active (fst (mirror_scheduleRestart cfg s)) = as_active s"
  by (simp add: mirror_scheduleRestart_def split_def)

lemma android_active: "own_android ev \<Longrightarrow> as_active (fst (mirror_step cfg ev s)) = as_active s"
  by (cases ev) (auto simp: own_android_def push_done_def forward_done_def connectSocket_def daemon_ended_def socket_data_def
      handleChunk_def socket_close_def connect_retry_def preamble_deadline_def mirror_restart_elapsed_def mirror_launch_def
      mirror_await_turn_def Let_def split: option.split prod.split)

fun object_device :: "mirror_object \<Rightarrow> string" where
  "object_device (Ios_mirror cfg s) = hc_deviceId cfg"
| "object_device (Android_mirror cfg s) = mc_serial cfg"

definition ports_ok :: "mirror_section \<Rightarrow> (string, nat) jsmap \<Rightarrow> bool" where
  "ports_ok cfg ports \<longleftrightarrow> jwf ports \<and> (case ms_android cfg of
      None \<Rightarrow> ports = []
    | Some (_, base, _) \<Rightarrow> map snd ports = map (\<lambda>k. base + k) [0..<length ports])"

fun object_port_ok :: "(string, nat) jsmap \<Rightarrow> mirror_object \<Rightarrow> bool" where
  "object_port_ok ports (Ios_mirror cfg s) = True"
| "object_port_ok ports (Android_mirror cfg s) = (jget ports (mc_serial cfg) = Some (mc_port cfg))"

definition objects_ok :: "mirror_section \<Rightarrow> mirror_object stream_manager \<Rightarrow> bool" where
  "objects_ok cfg m \<longleftrightarrow> (\<forall>obj\<in>set (sm_objects m). object_lived obj \<and> object_port_ok (sm_ports m) obj) \<and>
    ports_ok cfg (sm_ports m) \<and>
    (\<forall>(d, i)\<in>set (sm_streams m). i < length (sm_objects m) \<and> object_device (sm_objects m ! i) = d)"

lemma allocated:
  assumes "ms_android cfg = Some (dex, base, tuning)" "ports_ok cfg ports" "allocateMirrorPort base serial ports = (port, ports')"
  shows "ports_ok cfg ports' \<and> jget ports' serial = Some port \<and> (\<forall>k p. jget ports k = Some p \<longrightarrow> jget ports' k = Some p)"
proof (cases "jget ports serial")
  case None
  then have "ports' = ports @ [(serial, base + length ports)]" "port = base + length ports"
    using assms(3) by (auto simp: allocateMirrorPort_def jget_None_append)
  moreover have "jwf ports'" using assms None by (auto simp: allocateMirrorPort_def ports_ok_def)
  moreover have "jget ports' serial = Some port" "\<forall>k p. jget ports k = Some p \<longrightarrow> jget ports' k = Some p"
    using assms(3) None by (auto simp: allocateMirrorPort_def)
  ultimately show ?thesis using assms(1,2) by (simp add: ports_ok_def)
qed (use assms in \<open>simp add: allocateMirrorPort_def\<close>)

text \<open>A created stream: its device, its port, its life once started.\<close>

lemma created:
  assumes ok: "ports_ok cfg ports" and c: "create_stream cfg devices d ports = (obj, ports')"
  shows "ports_ok cfg ports' \<and> (\<forall>k p. jget ports k = Some p \<longrightarrow> jget ports' k = Some p) \<and>
    (\<forall>x. obj = Some x \<longrightarrow> object_device (fst (object_start x)) = d \<and> object_lived (fst (object_start x)) \<and>
      object_port_ok ports' (fst (object_start x)))"
proof -
  have ios: "object_lived (fst (object_start (Ios_mirror hc h264_new)))" for hc
    using h264_reached.started [of hc] by (simp add: split_def)
  have android: "object_lived (fst (object_start (Android_mirror mc mirror_new)))" for mc
    using mirror_reached.step [OF mirror_reached.init, of mc Mirror_start] by (simp add: split_def)
  show ?thesis
  proof (cases "ms_android cfg")
    case None
    then show ?thesis using ok c ios by (auto simp: create_stream_def split_def split: option.splits if_splits)
  next
    case (Some a)
    obtain dex base tuning where a: "a = (dex, base, tuning)" by (cases a)
    obtain port ports1 where al: "allocateMirrorPort base d ports = (port, ports1)" by fastforce
    note allocated [OF Some [unfolded a] ok al]
    then show ?thesis using ok c ios android Some a al
      by (auto simp: create_stream_def split_def split: option.splits if_splits)
  qed
qed

lemma stop_keeps:
  "object_device (fst (object_stop obj)) = object_device obj" "object_lived obj \<Longrightarrow> object_lived (fst (object_stop obj))"
  "object_port_ok ports (fst (object_stop obj)) = object_port_ok ports obj"
  using h264_reached.step [of _ _ H264_stop] mirror_reached.step [of _ _ Mirror_stop]
  by (cases obj; force simp: split_def)+

lemma callback_keeps:
  "object_device (fst (object_callback ev obj)) = object_device obj"
  "object_lived obj \<Longrightarrow> object_lived (fst (object_callback ev obj))"
  "object_port_ok ports (fst (object_callback ev obj)) = object_port_ok ports obj"
  "object_running (fst (object_callback ev obj)) = object_running obj"
  by (cases ev; cases obj; auto simp: object_callback_def split_def ios_active android_active
      intro: h264_reached.step mirror_reached.step)+

lemma more_ports:
  "(\<And>k p. jget ports k = Some p \<Longrightarrow> jget ports' k = Some p) \<Longrightarrow> object_port_ok ports obj \<Longrightarrow> object_port_ok ports' obj"
  by (cases obj) simp_all

lemma start_objects_ok:
  assumes ok: "objects_ok cfg m" and wf: "jwf (sm_streams m)"
  shows "objects_ok cfg (fst (manager_start (create_stream cfg devices) object_start d m))"
proof (cases "jhas (sm_streams m) d")
  case False
  obtain obj ports where c: "create_stream cfg devices d (sm_ports m) = (obj, ports)" by fastforce
  have "ports_ok cfg (sm_ports m)" using ok by (simp add: objects_ok_def)
  note cr = created [OF this c]
  have old: "object_lived x \<and> object_port_ok ports x" if "x \<in> set (sm_objects m)" for x
    using ok that cr more_ports [of "sm_ports m" ports x] unfolding objects_ok_def by blast
  have none: "jget (sm_streams m) d = None" using False by (simp add: jhas_def)
  show ?thesis
  proof (cases obj)
    case None
    then show ?thesis using False c cr old ok by (simp add: manager_start_def objects_ok_def)
  next
    case (Some x)
    obtain y effs where y: "object_start x = (y, effs)" by fastforce
    have "\<forall>(k, i)\<in>set (sm_streams m @ [(d, length (sm_objects m))]).
        i < length (sm_objects m @ [y]) \<and> object_device ((sm_objects m @ [y]) ! i) = k"
      using ok cr Some y by (auto simp: objects_ok_def nth_append)
    moreover have "\<forall>o'\<in>set (sm_objects m @ [y]). object_lived o' \<and> object_port_ok ports o'"
      using old cr Some y by auto
    moreover have "fst (manager_start (create_stream cfg devices) object_start d m) =
        m\<lparr>sm_ports := ports, sm_streams := sm_streams m @ [(d, length (sm_objects m))], sm_objects := sm_objects m @ [y]\<rparr>"
      using False c Some y by (simp add: manager_start_def jget_None_append [OF none])
    ultimately show ?thesis using cr unfolding objects_ok_def by simp
  qed
qed (use ok in \<open>simp add: manager_start_def\<close>)

lemma replaced_ok:
  assumes ok: "objects_ok cfg m" and y: "object_device y = object_device (sm_objects m ! i)" "object_lived y" "object_port_ok (sm_ports m) y"
    and m': "sm_objects m' = (sm_objects m)[i := y]" "set (sm_streams m') \<subseteq> set (sm_streams m)" "sm_ports m' = sm_ports m"
  shows "objects_ok cfg m'"
proof -
  have "\<forall>x\<in>set (sm_objects m'). object_lived x \<and> object_port_ok (sm_ports m') x"
    using ok y m' set_update_subset_insert [of "sm_objects m" i y] by (auto simp: objects_ok_def)
  moreover have "k < length (sm_objects m') \<and> object_device (sm_objects m' ! k) = d" if "(d, k) \<in> set (sm_streams m')" for d k
  proof -
    have "k < length (sm_objects m) \<and> object_device (sm_objects m ! k) = d" using ok that m'(2) unfolding objects_ok_def by blast
    then show ?thesis using y(1) by (cases "k = i") (auto simp: m'(1))
  qed
  ultimately show ?thesis using ok m'(3) unfolding objects_ok_def by auto
qed

definition managed_inv :: "mirror_section \<Rightarrow> mirror_object stream_manager \<Rightarrow> bool" where
  "managed_inv cfg m \<longleftrightarrow> manager_inv object_running m \<and> objects_ok cfg m"

lemma stop_objects_ok: "objects_ok cfg m \<Longrightarrow> objects_ok cfg (fst (manager_stop object_stop d m))"
proof (cases "jget (sm_streams m) d")
  case (Some i)
  assume ok: "objects_ok cfg m"
  then have i: "sm_objects m ! i \<in> set (sm_objects m)" using jget_Some_in [OF Some] by (auto simp: objects_ok_def)
  obtain y effs where y: "object_stop (sm_objects m ! i) = (y, effs)" by fastforce
  have "object_lived (sm_objects m ! i)" "object_port_ok (sm_ports m) (sm_objects m ! i)" using ok i by (auto simp: objects_ok_def)
  then have "objects_ok cfg (m\<lparr>sm_objects := (sm_objects m)[i := y], sm_streams := jdel d (sm_streams m)\<rparr>)"
    using stop_keeps [where obj = "sm_objects m ! i"] y by (intro replaced_ok [OF ok, of y i]) (auto simp: jdel_filter)
  then show ?thesis using y Some by (simp add: manager_stop_def)
qed (simp add: manager_stop_def)

lemma stop_entry_ok: "objects_ok cfg m \<Longrightarrow> i < length (sm_objects m) \<Longrightarrow> objects_ok cfg (fst (manager_stop_entry object_stop (d, i) m))"
proof -
  assume ok: "objects_ok cfg m" and "i < length (sm_objects m)"
  then have i: "sm_objects m ! i \<in> set (sm_objects m)" by simp
  obtain y effs where y: "object_stop (sm_objects m ! i) = (y, effs)" by fastforce
  have "object_lived (sm_objects m ! i)" "object_port_ok (sm_ports m) (sm_objects m ! i)" using ok i by (auto simp: objects_ok_def)
  then have "objects_ok cfg (m\<lparr>sm_objects := (sm_objects m)[i := y], sm_streams := jdel d (sm_streams m),
      sm_stopped := sm_stopped m @ [i]\<rparr>)"
    using stop_keeps [where obj = "sm_objects m ! i"] y by (intro replaced_ok [OF ok, of y i]) (auto simp: jdel_filter)
  then show ?thesis using y by (simp add: manager_stop_entry_def)
qed

lemma stop_all_ok:
  "objects_ok cfg m \<Longrightarrow> \<forall>(d, i)\<in>set entries. i < length (sm_objects m) \<Longrightarrow>
    objects_ok cfg (fst (for_each (manager_stop_entry object_stop) entries m))"
proof (induction entries arbitrary: m)
  case (Cons e es)
  obtain d i where e: "e = (d, i)" by (cases e)
  have "length (sm_objects (fst (manager_stop_entry object_stop (d, i) m))) = length (sm_objects m)"
    by (simp add: manager_stop_entry_def split_def)
  then show ?case
    using Cons.IH [of "fst (manager_stop_entry object_stop (d, i) m)"] Cons.prems stop_entry_ok [of cfg m i d] e
    by (simp add: for_each_Cons)
qed simp

lemma sync_managed_inv:
  assumes inv: "managed_inv cfg m"
  shows "managed_inv cfg (fst (syncAlwaysOn (create_stream cfg devices) object_start object_stop ids m))"
proof -
  let ?start = "manager_start (create_stream cfg devices) object_start" and ?stop = "manager_stop_gone object_stop ids"
  have step: "managed_inv cfg (fst (?start d n))" if "managed_inv cfg n" for d n
    using that mirror.start_inv start_objects_ok by (auto simp: managed_inv_def manager_inv_def [of _ n])
  have "managed_inv cfg (fst (for_each ?start ids m))"
    by (rule for_each_inv [where P = "managed_inv cfg", OF step inv])
  from for_each_inv [where P = "managed_inv cfg" and f = ?stop, OF _ this]
  have "managed_inv cfg (fst (for_each ?stop (jkeys (sm_streams (fst (for_each ?start ids m)))) (fst (for_each ?start ids m))))"
    by (simp add: manager_stop_gone_def managed_inv_def mirror.stop_inv stop_objects_ok)
  then show ?thesis by (simp add: syncAlwaysOn_def split_def)
qed

lemma callback_managed_inv:
  assumes inv: "managed_inv cfg m"
  shows "managed_inv cfg (fst (manager_callback i ev m))"
proof (cases "i < length (sm_objects m)")
  case True
  then have i: "sm_objects m ! i \<in> set (sm_objects m)" by simp
  obtain y effs where y: "object_callback ev (sm_objects m ! i) = (y, effs)" by fastforce
  let ?m = "m\<lparr>sm_objects := (sm_objects m)[i := y]\<rparr>"
  have ok: "objects_ok cfg m" using inv by (simp add: managed_inv_def)
  have "object_lived (sm_objects m ! i)" "object_port_ok (sm_ports m) (sm_objects m ! i)" using ok i by (auto simp: objects_ok_def)
  then have "objects_ok cfg ?m"
    using callback_keeps [where ev = ev and obj = "sm_objects m ! i"] y by (intro replaced_ok [OF ok, of y i]) auto
  moreover have "object_running ((sm_objects m)[i := y] ! k) = object_running (sm_objects m ! k)" for k
    using callback_keeps(4) [where ev = ev and obj = "sm_objects m ! i"] y True by (cases "k = i") auto
  then have "manager_inv object_running ?m" using inv by (simp add: managed_inv_def manager_inv_def)
  ultimately show ?thesis using True y by (simp add: manager_callback_def managed_inv_def)
qed (use inv in \<open>simp add: manager_callback_def\<close>)

lemma managed_holds: "managed cfg m \<Longrightarrow> managed_inv cfg m"
proof (induction rule: managed.induct)
  case init
  show ?case by (simp add: managed_inv_def manager_inv_def objects_ok_def manager_new_def ports_ok_def split: option.split)
next
  case (step m ev)
  show ?case
  proof (cases ev)
    case Stop_streams
    have "\<forall>(d, i)\<in>set (sm_streams m). i < length (sm_objects m)" using step by (auto simp: managed_inv_def objects_ok_def)
    then show ?thesis using step stop_all_ok [of cfg m "sm_streams m"] mirror.stop_entries [of m "sm_streams m"] Stop_streams
      by (simp add: managed_inv_def manager_stopAll_def)
  qed (use step in \<open>simp_all add: sync_managed_inv callback_managed_inv\<close>)
qed

section \<open>The property\<close>

lemma ports_distinct:
  "ports_ok cfg ports \<Longrightarrow> jget ports k = Some p \<Longrightarrow> jget ports k' = Some p \<Longrightarrow> k = k'"
proof -
  assume ok: "ports_ok cfg ports" and g: "jget ports k = Some p" "jget ports k' = Some p"
  have "distinct (map snd ports)"
  proof (cases "ms_android cfg")
    case (Some a)
    have "distinct (map (\<lambda>k. fst (snd a) + k) [0..<length ports])" by (simp add: distinct_map inj_on_def)
    then show ?thesis using ok Some by (simp add: ports_ok_def split_def)
  qed (use ok in \<open>simp add: ports_ok_def\<close>)
  then have "inj_on snd (set ports)" by (simp add: distinct_map)
  from inj_onD [OF this _ jget_Some_in [OF g(1)] jget_Some_in [OF g(2)]] show "k = k'" by simp
qed

lemma create_ports_grow:
  "jget ports k = Some p \<Longrightarrow> jget (snd (create_stream cfg devices d ports)) k = Some p"
  by (auto simp: create_stream_def allocateMirrorPort_def split: option.split prod.split)

lemma sync_ports_grow:
  assumes "jget (sm_ports m) k = Some p"
  shows "jget (sm_ports (fst (syncAlwaysOn (create_stream cfg devices) object_start object_stop ids m))) k = Some p"
proof -
  let ?P = "\<lambda>n. jget (sm_ports n) k = Some p"
  have "?P (fst (manager_start (create_stream cfg devices) object_start d n))" if "?P n" for d n
    using create_ports_grow [OF that, of cfg devices d] that
    by (auto simp: manager_start_def split: option.split prod.split)
  from for_each_inv [where P = ?P, OF this assms]
  have start: "?P (fst (for_each (manager_start (create_stream cfg devices) object_start) ids m))" .
  have "?P (fst (manager_stop_gone object_stop ids d n))" if "?P n" for d n
    using that by (simp add: manager_stop_gone_def manager_stop_def split: option.split prod.split)
  from for_each_inv [where P = ?P, OF this start] show ?thesis by (simp add: syncAlwaysOn_def split_def)
qed

text \<open>
  C15: The manager of the mirroring streams, whatever synchronisations, callbacks and stops it has seen:
  after a synchronisation exactly the listed devices that had a stream or for which one can be made have a
  stream; the stream of a device that stays is the same object in the same state; the running streams are
  exactly those of the map, one per device and each for its own device, so a stream that was dropped is
  never running; two Android streams share a mirror port only when they are of the same device, and a
  device keeps its port; every stream has the guarantees of its class; after \<open>stopAll\<close> none is running and
  all that ran are waited for.
\<close>

theorem streams_managed:
  assumes "managed cfg m"
  shows "let m' = fst (manager_step cfg (Sync_streams devices ids) m) in
    (jget (sm_streams m') d \<noteq> None \<longleftrightarrow> d \<in> set ids \<and> (jget (sm_streams m) d \<noteq> None \<or> can_stream cfg devices d)) \<and>
    (jget (sm_streams m) d = Some i \<longrightarrow> d \<in> set ids \<longrightarrow>
      jget (sm_streams m') d = Some i \<and> sm_objects m' ! i = sm_objects m ! i) \<and>
    (k < length (sm_objects m') \<longrightarrow>
      object_running (sm_objects m' ! k) = (jget (sm_streams m') (object_device (sm_objects m' ! k)) = Some k) \<and>
      object_lived (sm_objects m' ! k)) \<and>
    (Android_mirror c s \<in> set (sm_objects m') \<longrightarrow> Android_mirror c' s' \<in> set (sm_objects m') \<longrightarrow>
      mc_port c = mc_port c' \<longrightarrow> mc_serial c = mc_serial c') \<and>
    (jget (sm_ports m) serial = Some port \<longrightarrow> jget (sm_ports m') serial = Some port) \<and>
    (let n = fst (manager_step cfg Stop_streams m) in
      sm_streams n = [] \<and> (\<forall>obj\<in>set (sm_objects n). \<not> object_running obj) \<and>
      set (sm_stopped n) = set (sm_stopped m) \<union> snd ` set (sm_streams m))"
proof -
  let ?m = "fst (manager_step cfg (Sync_streams devices ids) m)" and ?n = "fst (manager_step cfg Stop_streams m)"
  have "managed_inv cfg m" by (rule managed_holds [OF assms])
  then have inv: "manager_inv object_running m" by (simp add: managed_inv_def)
  have "managed_inv cfg ?m" by (rule managed_holds [OF managed.step [OF assms]])
  then have mi: "manager_inv object_running ?m" and ok: "objects_ok cfg ?m" by (simp_all add: managed_inv_def)
  have ports: "mc_serial c = mc_serial c'"
    if "Android_mirror c s \<in> set (sm_objects ?m)" "Android_mirror c' s' \<in> set (sm_objects ?m)" "mc_port c = mc_port c'"
  proof -
    have "object_port_ok (sm_ports ?m) (Android_mirror c s)" "object_port_ok (sm_ports ?m) (Android_mirror c' s')"
      "ports_ok cfg (sm_ports ?m)" using ok that unfolding objects_ok_def by blast+
    then show ?thesis using ports_distinct [of cfg "sm_ports ?m" "mc_serial c" "mc_port c" "mc_serial c'"] that(3) by simp
  qed
  have own: "object_running (sm_objects ?m ! k) = (jget (sm_streams ?m) (object_device (sm_objects ?m ! k)) = Some k) \<and>
      object_lived (sm_objects ?m ! k)" if k: "k < length (sm_objects ?m)"
  proof -
    have "object_running (sm_objects ?m ! k) \<longleftrightarrow> k \<in> set (map snd (sm_streams ?m))" and wf: "jwf (sm_streams ?m)"
      using mi k by (simp_all add: manager_inv_def)
    moreover have "k \<in> set (map snd (sm_streams ?m)) \<longleftrightarrow> jget (sm_streams ?m) (object_device (sm_objects ?m ! k)) = Some k"
    proof
      assume "k \<in> set (map snd (sm_streams ?m))"
      then obtain d where d: "(d, k) \<in> set (sm_streams ?m)" by auto
      then have "object_device (sm_objects ?m ! k) = d" using ok by (auto simp: objects_ok_def)
      then show "jget (sm_streams ?m) (object_device (sm_objects ?m ! k)) = Some k" using jget_in_wf [OF wf d] by simp
    qed (auto dest: jget_Some_in intro: rev_image_eqI)
    moreover have "object_lived (sm_objects ?m ! k)" using ok k by (auto simp: objects_ok_def)
    ultimately show ?thesis by simp
  qed
  have n: "manager_inv object_running ?n" "sm_streams ?n = []" "sm_stopped ?n = sm_stopped m @ map snd (sm_streams m)"
    using mirror.stop_entries [OF inv refl] by (simp_all add: manager_stopAll_def)
  have "\<forall>obj\<in>set (sm_objects ?n). \<not> object_running obj"
    using n(1,2) by (auto simp: manager_inv_def in_set_conv_nth)
  then show ?thesis
    using mirror.sync_keys [of "create_stream cfg devices" "can_stream cfg devices" ids m d, OF create_stream_can]
      mirror.sync_keeps [OF inv, of d i ids "create_stream cfg devices"] own ports n(2,3)
      sync_ports_grow [of m serial port cfg devices ids]
    by (simp add: Let_def)
qed

definition sample_section :: mirror_section where
  "sample_section = \<lparr>ms_helperPath = ''helper'', ms_android = Some (''dex'', 8400, default_mirror_tuning)\<rparr>"

definition sample_device :: "string \<Rightarrow> device_platform \<Rightarrow> register_device" where
  "sample_device i p = \<lparr>rd_id = i, rd_name = i, rd_platform = p, rd_osVersion = ''1'', rd_tags = []\<rparr>"

text \<open>Two Android devices appear, then only one of them and an iOS device are left.\<close>

theorem streams_managed_witness:
  "let devices = [sample_device ''a'' Android, sample_device ''b'' Android, sample_device ''c'' Ios];
       m = fst (manager_step sample_section (Sync_streams devices [''a'', ''b'']) manager_new);
       m' = fst (manager_step sample_section (Sync_streams devices [''b'', ''c'']) m) in
   jget (sm_streams m') ''a'' = None \<and> jget (sm_streams m') ''b'' = Some 1 \<and> jget (sm_streams m') ''c'' \<noteq> None \<and>
   jget (sm_ports m') ''b'' = Some 8401"
proof -
  let ?devices = "[sample_device ''a'' Android, sample_device ''b'' Android, sample_device ''c'' Ios]"
  let ?m = "fst (manager_step sample_section (Sync_streams ?devices [''a'', ''b'']) manager_new)"
  have m: "jget (sm_streams ?m) ''b'' = Some 1" "jget (sm_ports ?m) ''b'' = Some 8401"
    by (simp_all add: syncAlwaysOn_def manager_new_def for_each_Cons manager_start_def jhas_def create_stream_def
        sample_device_def sample_section_def allocateMirrorPort_def mirror_start_def mirror_launch_def mirror_new_def
        manager_stop_gone_def jkeys_def)
  have "managed sample_section ?m" by (intro managed.intros)
  note at = streams_managed [OF this, of ?devices "[''b'', ''c'']", unfolded Let_def]
  note keys = at [THEN conjunct1]
  have "can_stream sample_section ?devices ''c''" by (simp add: can_stream_def sample_device_def)
  then show ?thesis
    using keys [of "''a''"] keys [of "''c''"] at [THEN conjunct2, THEN conjunct1, of "''b''" 1]
      at [THEN conjunct2, THEN conjunct2, THEN conjunct2, THEN conjunct2, THEN conjunct1, of "''b''" 8401] m
    unfolding Let_def by simp
qed

end
