(* ===== verification/Agent_Config.thy ===== *)
theory Agent_Config
  imports Shared_Protocol Js_Text Android_Supervisor Android_Stream
begin

text \<open>
  The Agent's configuration (config.ts): every reader of the environment, the errors it throws, in the
  order of \<open>loadConfig\<close>. The machine is the record \<open>host\<close>: the host name, the home directory, the root of
  the repository, the files that can be executed or read, and \<open>JSON.parse\<close> (\<open>None\<close> where it throws).
\<close>

section \<open>The host and the errors\<close>

type_synonym process_env = "string \<Rightarrow> string option"

record host =
  ho_name :: string
  ho_home :: string
  ho_root :: string
  ho_executable :: "string \<Rightarrow> bool"
  ho_readable :: "string \<Rightarrow> bool"
  ho_parse :: "string \<Rightarrow> json option"

datatype config_error =
    Not_positive_integer string string
  | Below_minimum string int string
  | Static_syntax
  | Static_not_array
  | Static_fields_missing
  | Static_platform
  | Static_tags
  | Project_missing
  | Base_port_too_high string
  | Mirror_helper_missing string
  | Server_url_invalid
  | Agent_token_short
  | Agent_token_placeholder
  | Agent_id_invalid string
  | Adb_missing string
  | Artifact_missing string string
  | Controller_token_short

text \<open>\<open>path.join\<close>: the parts that are not empty, joined and normalised.\<close>

definition path_step :: "bool \<Rightarrow> string list \<Rightarrow> string \<Rightarrow> string list" where
  "path_step absolute segs seg =
    (if seg = [] \<or> seg = ''.'' then segs
     else if seg = ''..'' then
       (if segs \<noteq> [] \<and> last segs \<noteq> ''..'' then butlast segs else if absolute then segs else segs @ [''..''])
     else segs @ [seg])"

definition path_normalize :: "string \<Rightarrow> string" where
  "path_normalize path =
    (let absolute = (path \<noteq> [] \<and> hd path = CHR ''/'');
         segs = foldl (path_step absolute) [] (split_on (CHR ''/'') path);
         trailing = (if path \<noteq> [] \<and> last path = CHR ''/'' \<and> segs \<noteq> [] then ''/'' else []);
         body = Js_Text.join ''/'' segs @ trailing
     in if absolute then CHR ''/'' # body else if body = [] then ''.'' else body)"

definition path_join :: "string list \<Rightarrow> string" where
  "path_join parts =
    (let given = filter (\<lambda>p. p \<noteq> []) parts in
     if given = [] then ''.'' else path_normalize (Js_Text.join ''/'' given))"

definition default_runner_apk :: "host \<Rightarrow> string" where
  "default_runner_apk h = path_join [ho_root h, ''android-controller/runner/build/outputs/apk/debug/runner-debug.apk'']"

definition default_mirror_dex :: "host \<Rightarrow> string" where
  "default_mirror_dex h = path_join [ho_root h, ''android-controller/mirror/build/outputs/apk/debug/mirror-debug.apk'']"

definition default_mirror_helper :: "host \<Rightarrow> string" where
  "default_mirror_helper h = path_join [ho_root h, ''mirror-helper/.build/debug/mirror-helper'']"

section \<open>Fields\<close>

definition default_discovery_interval_ms :: int where "default_discovery_interval_ms = 20000"
definition default_heartbeat_interval_ms :: int where "default_heartbeat_interval_ms = 25000"
definition default_health_interval_ms :: int where "default_health_interval_ms = 10000"
definition min_interval_ms :: int where "min_interval_ms = 1000"
definition agent_min_token_length :: nat where "agent_min_token_length = 24"
definition max_base_port :: int where "max_base_port = 65000"

definition agent_name_char :: "char \<Rightarrow> bool" where
  "agent_name_char c \<longleftrightarrow> is_alnum c \<or> c = CHR ''_'' \<or> c = CHR ''-''"

definition sanitizeAgentId :: "string \<Rightarrow> string" where
  "sanitizeAgentId raw =
    (let sanitized = take 64 (map (\<lambda>c. if agent_name_char c then c else CHR ''-'') raw) in
     if sanitized = [] then ''agent'' else sanitized)"

definition parsePositiveInt :: "string \<Rightarrow> string option \<Rightarrow> int \<Rightarrow> int \<Rightarrow> config_error + int" where
  "parsePositiveInt name raw fallback minimum = (case raw of
      None \<Rightarrow> Inr fallback
    | Some t \<Rightarrow> (case js_Number t of
        Fin q \<Rightarrow>
          if \<not> is_integer_num (Fin q) \<or> q \<le> 0 then Inl (Not_positive_integer name t)
          else if q < of_int minimum then Inl (Below_minimum name minimum t)
          else Inr \<lfloor>q\<rfloor>
      | _ \<Rightarrow> Inl (Not_positive_integer name t)))"

text \<open>\<open>raw?.trim()\<close>, with the empty text as absent.\<close>

definition trimmed_option :: "string option \<Rightarrow> string option" where
  "trimmed_option raw = (case raw of
      None \<Rightarrow> None
    | Some t \<Rightarrow> if trim t = [] then None else Some (trim t))"

definition parseStaticPlatform :: "json option \<Rightarrow> config_error + device_platform" where
  "parseStaticPlatform raw = (case raw of
      None \<Rightarrow> Inr Ios
    | Some v \<Rightarrow>
        if isDevicePlatform (Some v) then Inr (if v = JStr ''ios'' then Ios else Android) else Inl Static_platform)"

definition config_parseTags :: "json option \<Rightarrow> config_error + string list" where
  "config_parseTags raw = (case raw of
      None \<Rightarrow> Inr []
    | Some (JArr xs) \<Rightarrow> (case those (map str_of xs) of None \<Rightarrow> Inl Static_tags | Some tags \<Rightarrow> Inr tags)
    | Some _ \<Rightarrow> Inl Static_tags)"

definition static_device :: "json \<Rightarrow> config_error + register_device" where
  "static_device entry = (case entry of
      JObj fs \<Rightarrow>
        (case (jget fs ''id'', jget fs ''name'', jget fs ''osVersion'') of
          (Some (JStr i), Some (JStr name), Some (JStr version)) \<Rightarrow>
            and_then (parseStaticPlatform (jget fs ''platform'')) (\<lambda>platform.
            and_then (config_parseTags (jget fs ''tags'')) (\<lambda>tags.
              Inr \<lparr>rd_id = i, rd_name = name, rd_platform = platform, rd_osVersion = version, rd_tags = tags\<rparr>))
        | _ \<Rightarrow> Inl Static_fields_missing)
    | _ \<Rightarrow> Inl Static_fields_missing)"

definition parseStaticDevices :: "host \<Rightarrow> string option \<Rightarrow> config_error + register_device list" where
  "parseStaticDevices h raw = (case raw of
      None \<Rightarrow> Inr []
    | Some t \<Rightarrow>
        if trim t = [] then Inr []
        else case ho_parse h t of
          None \<Rightarrow> Inl Static_syntax
        | Some (JArr entries) \<Rightarrow> map_result static_device entries
        | Some _ \<Rightarrow> Inl Static_not_array)"

definition parseMirrorHelperPath :: "host \<Rightarrow> string option \<Rightarrow> config_error + string" where
  "parseMirrorHelperPath h raw = (case trimmed_option raw of
      None \<Rightarrow> Inr (default_mirror_helper h)
    | Some p \<Rightarrow> if ho_executable h p then Inr p else Inl (Mirror_helper_missing p))"

definition resolveArtifact :: "host \<Rightarrow> string \<Rightarrow> string option \<Rightarrow> string \<Rightarrow> config_error + string" where
  "resolveArtifact h name raw fallback = (case trimmed_option raw of
      None \<Rightarrow> Inr fallback
    | Some p \<Rightarrow> if ho_readable h p then Inr p else Inl (Artifact_missing name p))"

definition parseControllerToken :: "string option \<Rightarrow> config_error + string option" where
  "parseControllerToken raw = (case trimmed_option raw of
      None \<Rightarrow> Inr None
    | Some t \<Rightarrow> if length t < agent_min_token_length then Inl Controller_token_short else Inr (Some t))"

section \<open>iOS\<close>

record supervisor_config =
  sc_projectPath :: string
  sc_scheme :: string
  sc_basePort :: int
  sc_derivedDataDir :: string
  sc_logDir :: string
  sc_healthIntervalMs :: int

definition or_else :: "string option \<Rightarrow> string \<Rightarrow> string" where
  "or_else raw fallback = (case raw of Some t \<Rightarrow> t | None \<Rightarrow> fallback)"

definition checked_base_port :: "process_env \<Rightarrow> string \<Rightarrow> int \<Rightarrow> config_error + int" where
  "checked_base_port env name fallback =
    and_then (parsePositiveInt name (env name) fallback 1) (\<lambda>port.
      if port > max_base_port then Inl (Base_port_too_high name) else Inr port)"

definition parseSupervisorConfig :: "host \<Rightarrow> process_env \<Rightarrow> config_error + supervisor_config option" where
  "parseSupervisorConfig h env =
    (if env ''NEBULA_XCODEBUILD_ENABLED'' \<noteq> Some ''true'' then Inr None
     else case env ''NEBULA_CONTROLLER_PROJECT'' of
       None \<Rightarrow> Inl Project_missing
     | Some projectPath \<Rightarrow>
         if trim projectPath = [] then Inl Project_missing
         else and_then (checked_base_port env ''NEBULA_CONTROLLER_BASE_PORT'' 8200) (\<lambda>basePort.
           let nebulaHome = path_join [ho_home h, ''.nebula''] in
           and_then (parsePositiveInt ''NEBULA_CONTROLLER_HEALTH_INTERVAL_MS'' (env ''NEBULA_CONTROLLER_HEALTH_INTERVAL_MS'')
               default_health_interval_ms min_interval_ms) (\<lambda>health.
             Inr (Some \<lparr>sc_projectPath = projectPath,
               sc_scheme = or_else (env ''NEBULA_CONTROLLER_SCHEME'') ''NebulaController'',
               sc_basePort = basePort,
               sc_derivedDataDir = or_else (env ''NEBULA_DERIVED_DATA_DIR'') (path_join [nebulaHome, ''derived-data'']),
               sc_logDir = or_else (env ''NEBULA_CONTROLLER_LOG_DIR'') (path_join [nebulaHome, ''logs'']),
               sc_healthIntervalMs = health\<rparr>))))"

section \<open>Android\<close>

text \<open>\<open>parseIntFields\<close>: the fields in the order of the specification; a missing minimum is 1.\<close>

definition parseIntFields ::
  "process_env \<Rightarrow> (string \<times> string \<times> int \<times> int option) list \<Rightarrow> config_error + (string, int) jsmap" where
  "parseIntFields env spec = map_result (\<lambda>(key, name, fallback, minimum).
      and_then (parsePositiveInt name (env name) fallback (case minimum of None \<Rightarrow> 1 | Some m \<Rightarrow> m))
        (\<lambda>n. Inr (key, n))) spec"

definition int_field :: "(string, int) jsmap \<Rightarrow> string \<Rightarrow> int" where
  "int_field fs key = (case jget fs key of Some n \<Rightarrow> n | None \<Rightarrow> 0)"

definition supervisor_spec :: "(string \<times> string \<times> int \<times> int option) list" where
  "supervisor_spec =
    [(''healthIntervalMs'', ''NEBULA_ANDROID_HEALTH_INTERVAL_MS'', 10000, Some min_interval_ms),
     (''healthFailThreshold'', ''NEBULA_ANDROID_HEALTH_FAIL_THRESHOLD'', 3, None),
     (''restartBaseMs'', ''NEBULA_ANDROID_RESTART_BASE_MS'', 2000, None),
     (''restartMaxMs'', ''NEBULA_ANDROID_RESTART_MAX_MS'', 60000, None),
     (''killEscalationMs'', ''NEBULA_ANDROID_KILL_ESCALATION_MS'', 3000, None),
     (''portCooldownMs'', ''NEBULA_ANDROID_PORT_COOLDOWN_MS'', 5000, None),
     (''readyDeadlineMs'', ''NEBULA_ANDROID_READY_DEADLINE_MS'', 60000, None),
     (''reinstallAfterFailures'', ''NEBULA_ANDROID_REINSTALL_AFTER_FAILURES'', 3, None)]"

definition parseAndroidSupervisorTuning :: "process_env \<Rightarrow> config_error + android_tuning" where
  "parseAndroidSupervisorTuning env = and_then (parseIntFields env supervisor_spec) (\<lambda>fs.
     Inr \<lparr>at_healthIntervalMs = int_field fs ''healthIntervalMs'',
       at_healthFailThreshold = nat (int_field fs ''healthFailThreshold''),
       at_restartBaseMs = int_field fs ''restartBaseMs'', at_restartMaxMs = int_field fs ''restartMaxMs'',
       at_killEscalationMs = int_field fs ''killEscalationMs'', at_portCooldownMs = int_field fs ''portCooldownMs'',
       at_readyDeadlineMs = int_field fs ''readyDeadlineMs'',
       at_reinstallAfterFailures = nat (int_field fs ''reinstallAfterFailures'')\<rparr>)"

definition runner_spec :: "(string \<times> string \<times> int \<times> int option) list" where
  "runner_spec =
    [(''actionTimeoutMs'', ''NEBULA_ANDROID_ACTION_TIMEOUT_MS'', 9000, None),
     (''swipeStepMs'', ''NEBULA_ANDROID_SWIPE_STEP_MS'', 8, None),
     (''maxSwipeDurationMs'', ''NEBULA_ANDROID_MAX_SWIPE_DURATION_MS'', 8000, None)]"

definition parseAndroidRunnerTuning :: "process_env \<Rightarrow> config_error + runner_tuning" where
  "parseAndroidRunnerTuning env = and_then (parseIntFields env runner_spec) (\<lambda>fs.
     Inr \<lparr>rt_actionTimeoutMs = nat (int_field fs ''actionTimeoutMs''), rt_swipeStepMs = nat (int_field fs ''swipeStepMs''),
       rt_maxSwipeDurationMs = nat (int_field fs ''maxSwipeDurationMs'')\<rparr>)"

definition mirror_spec :: "(string \<times> string \<times> int \<times> int option) list" where
  "mirror_spec =
    [(''restartBaseMs'', ''NEBULA_ANDROID_MIRROR_RESTART_BASE_MS'', 2000, None),
     (''restartMaxMs'', ''NEBULA_ANDROID_MIRROR_RESTART_MAX_MS'', 60000, None),
     (''errorThreshold'', ''NEBULA_ANDROID_MIRROR_ERROR_THRESHOLD'', 5, None),
     (''killEscalationMs'', ''NEBULA_ANDROID_MIRROR_KILL_ESCALATION_MS'', 2000, None),
     (''preambleDeadlineMs'', ''NEBULA_ANDROID_MIRROR_PREAMBLE_DEADLINE_MS'', 10000, None),
     (''connectRetryMs'', ''NEBULA_ANDROID_MIRROR_CONNECT_RETRY_MS'', 500, None),
     (''bitRate'', ''NEBULA_ANDROID_MIRROR_BITRATE'', 8000000, None),
     (''fps'', ''NEBULA_ANDROID_MIRROR_FPS'', 60, None),
     (''iframeIntervalSec'', ''NEBULA_ANDROID_MIRROR_IFRAME_SEC'', 1, None),
     (''repeatFrameMs'', ''NEBULA_ANDROID_MIRROR_REPEAT_FRAME_MS'', 100, None),
     (''swapPollMs'', ''NEBULA_ANDROID_MIRROR_SWAP_POLL_MS'', 500, None),
     (''acceptDeadlineMs'', ''NEBULA_ANDROID_MIRROR_ACCEPT_DEADLINE_MS'', 30000, None)]"

definition parseAndroidMirrorTuning :: "process_env \<Rightarrow> config_error + mirror_tuning" where
  "parseAndroidMirrorTuning env = and_then (parseIntFields env mirror_spec) (\<lambda>fs.
     Inr \<lparr>mt_restartBaseMs = int_field fs ''restartBaseMs'', mt_restartMaxMs = int_field fs ''restartMaxMs'',
       mt_errorThreshold = nat (int_field fs ''errorThreshold''), mt_killEscalationMs = int_field fs ''killEscalationMs'',
       mt_preambleDeadlineMs = int_field fs ''preambleDeadlineMs'', mt_connectRetryMs = int_field fs ''connectRetryMs'',
       mt_bitRate = nat (int_field fs ''bitRate''), mt_fps = nat (int_field fs ''fps''),
       mt_iframeIntervalSec = nat (int_field fs ''iframeIntervalSec''), mt_repeatFrameMs = nat (int_field fs ''repeatFrameMs''),
       mt_swapPollMs = nat (int_field fs ''swapPollMs''), mt_acceptDeadlineMs = nat (int_field fs ''acceptDeadlineMs'')\<rparr>)"

definition adb_candidates :: "host \<Rightarrow> process_env \<Rightarrow> string list" where
  "adb_candidates h env =
    map (\<lambda>dir. path_join [dir, ''adb'']) (filter (\<lambda>dir. dir \<noteq> []) (split_on (CHR '':'') (or_else (env ''PATH'') []))) @
    [''/opt/homebrew/bin/adb'', ''/usr/local/bin/adb'', path_join [ho_home h, ''Library/Android/sdk/platform-tools/adb'']]"

definition resolveAdbPath :: "host \<Rightarrow> process_env \<Rightarrow> config_error + string option" where
  "resolveAdbPath h env = (case trimmed_option (env ''NEBULA_ADB_PATH'') of
      Some explicit \<Rightarrow> if ho_executable h explicit then Inr (Some explicit) else Inl (Adb_missing explicit)
    | None \<Rightarrow> Inr (List.find (ho_executable h) (adb_candidates h env)))"

record android_config =
  ac_adbPath :: string
  ac_runnerApkPath :: string
  ac_basePort :: int
  ac_logDir :: string
  ac_mirrorDexPath :: string
  ac_mirrorBasePort :: int
  ac_supervisorTuning :: android_tuning
  ac_runnerTuning :: runner_tuning
  ac_mirrorTuning :: mirror_tuning

definition parseAndroidConfig :: "host \<Rightarrow> process_env \<Rightarrow> config_error + android_config option" where
  "parseAndroidConfig h env =
    and_then (resolveAdbPath h env) (\<lambda>adb. case adb of
      None \<Rightarrow> Inr None
    | Some adbPath \<Rightarrow>
        and_then (checked_base_port env ''NEBULA_ANDROID_BASE_PORT'' 8300) (\<lambda>basePort.
        and_then (checked_base_port env ''NEBULA_ANDROID_MIRROR_BASE_PORT'' 8400) (\<lambda>mirrorBasePort.
        and_then (resolveArtifact h ''NEBULA_ANDROID_RUNNER_APK'' (env ''NEBULA_ANDROID_RUNNER_APK'') (default_runner_apk h)) (\<lambda>apk.
        and_then (resolveArtifact h ''NEBULA_ANDROID_MIRROR_DEX'' (env ''NEBULA_ANDROID_MIRROR_DEX'') (default_mirror_dex h)) (\<lambda>dex.
        and_then (parseAndroidSupervisorTuning env) (\<lambda>supervisorTuning.
        and_then (parseAndroidRunnerTuning env) (\<lambda>runnerTuning.
        and_then (parseAndroidMirrorTuning env) (\<lambda>mirrorTuning.
          Inr (Some \<lparr>ac_adbPath = adbPath, ac_runnerApkPath = apk, ac_basePort = basePort,
            ac_logDir = or_else (env ''NEBULA_CONTROLLER_LOG_DIR'') (path_join [ho_home h, ''.nebula'', ''logs'']),
            ac_mirrorDexPath = dex, ac_mirrorBasePort = mirrorBasePort, ac_supervisorTuning = supervisorTuning,
            ac_runnerTuning = runnerTuning, ac_mirrorTuning = mirrorTuning\<rparr>)))))))))"

section \<open>The whole\<close>

record agent_config =
  cf_serverUrl :: string
  cf_agentToken :: string
  cf_agentId :: string
  cf_discoveryIntervalMs :: int
  cf_heartbeatIntervalMs :: int
  cf_staticDevices :: "register_device list"
  cf_supervisor :: "supervisor_config option"
  cf_mirrorHelperPath :: string
  cf_controllerToken :: "string option"
  cf_android :: "android_config option"

definition ws_url :: "string \<Rightarrow> bool" where
  "ws_url url \<longleftrightarrow> starts_with ''ws://'' url \<or> starts_with ''wss://'' url"

definition loadConfig :: "host \<Rightarrow> process_env \<Rightarrow> config_error + agent_config" where
  "loadConfig h env =
    (let serverUrl = or_else (env ''NEBULA_SERVER_URL'') [];
         agentToken = or_else (env ''NEBULA_AGENT_TOKEN'') [];
         agentId = sanitizeAgentId (or_else (env ''NEBULA_AGENT_ID'') (ho_name h)) in
     and_then (require (serverUrl \<noteq> [] \<and> ws_url serverUrl) Server_url_invalid) (\<lambda>_.
     and_then (require (agentToken \<noteq> [] \<and> \<not> length agentToken < agent_min_token_length) Agent_token_short) (\<lambda>_.
     and_then (require (\<not> starts_with ''change-me'' agentToken) Agent_token_placeholder) (\<lambda>_.
     and_then (require (matches_class agent_name_char 64 agentId) (Agent_id_invalid agentId)) (\<lambda>_.
     and_then (parsePositiveInt ''NEBULA_DISCOVERY_INTERVAL_MS'' (env ''NEBULA_DISCOVERY_INTERVAL_MS'')
       default_discovery_interval_ms min_interval_ms) (\<lambda>discovery.
     and_then (parsePositiveInt ''NEBULA_HEARTBEAT_INTERVAL_MS'' (env ''NEBULA_HEARTBEAT_INTERVAL_MS'')
       default_heartbeat_interval_ms min_interval_ms) (\<lambda>heartbeat.
     and_then (parseStaticDevices h (env ''NEBULA_STATIC_DEVICES'')) (\<lambda>static.
     and_then (parseSupervisorConfig h env) (\<lambda>supervisor.
     and_then (parseMirrorHelperPath h (env ''NEBULA_MIRROR_HELPER'')) (\<lambda>helper.
     and_then (parseControllerToken (env ''NEBULA_CONTROLLER_TOKEN'')) (\<lambda>token.
     and_then (parseAndroidConfig h env) (\<lambda>android.
       Inr \<lparr>cf_serverUrl = serverUrl, cf_agentToken = agentToken, cf_agentId = agentId,
         cf_discoveryIntervalMs = discovery, cf_heartbeatIntervalMs = heartbeat, cf_staticDevices = static,
         cf_supervisor = supervisor, cf_mirrorHelperPath = helper, cf_controllerToken = token,
         cf_android = android\<rparr>))))))))))))"

section \<open>What each reader accepts\<close>

lemma integer_num: "is_integer_num (Fin q) \<longleftrightarrow> Fin q = num \<lfloor>q\<rfloor>"
  by (auto simp: num_def)

lemma parsePositiveInt_Inr:
  "parsePositiveInt name raw fallback minimum = Inr n \<longleftrightarrow>
    (case raw of None \<Rightarrow> n = fallback | Some t \<Rightarrow> js_Number t = num n \<and> 0 < n \<and> minimum \<le> n)"
  by (auto simp: parsePositiveInt_def num_def not_le not_less split: option.split jsnum.split)

definition int_ok :: "string option \<Rightarrow> int \<Rightarrow> bool" where
  "int_ok raw minimum \<longleftrightarrow> (case raw of None \<Rightarrow> True | Some t \<Rightarrow> \<exists>n. js_Number t = num n \<and> 0 < n \<and> minimum \<le> n)"

lemma parsePositiveInt_accepts: "(\<exists>n. parsePositiveInt name raw fallback minimum = Inr n) \<longleftrightarrow> int_ok raw minimum"
  by (auto simp: parsePositiveInt_Inr int_ok_def split: option.split)

lemma parsePositiveInt_bounds:
  "parsePositiveInt name raw fallback minimum = Inr n \<Longrightarrow> 0 < fallback \<Longrightarrow> minimum \<le> fallback \<Longrightarrow> 0 < n \<and> minimum \<le> n"
  by (auto simp: parsePositiveInt_Inr split: option.splits)

lemma and_then_accepts: "(\<exists>b. and_then r f = Inr b) \<longleftrightarrow> (\<exists>a. r = Inr a \<and> (\<exists>b. f a = Inr b))"
  by (cases r) auto

definition port_ok :: "string option \<Rightarrow> bool" where
  "port_ok raw \<longleftrightarrow> (case raw of None \<Rightarrow> True | Some t \<Rightarrow> \<exists>n. js_Number t = num n \<and> 0 < n \<and> n \<le> max_base_port)"

lemma checked_base_port_Inr:
  "checked_base_port env name fallback = Inr n \<longleftrightarrow>
    (case env name of None \<Rightarrow> n = fallback | Some t \<Rightarrow> js_Number t = num n \<and> 0 < n) \<and> n \<le> max_base_port"
proof -
  have "checked_base_port env name fallback = Inr n \<longleftrightarrow> parsePositiveInt name (env name) fallback 1 = Inr n \<and> n \<le> max_base_port"
    by (cases "parsePositiveInt name (env name) fallback 1") (auto simp: checked_base_port_def)
  moreover have "0 < n \<and> 1 \<le> n \<longleftrightarrow> 0 < n" by linarith
  ultimately show ?thesis unfolding parsePositiveInt_Inr by (cases "env name") simp_all
qed

lemma checked_base_port_accepts:
  "fallback \<le> max_base_port \<Longrightarrow> (\<exists>n. checked_base_port env name fallback = Inr n) \<longleftrightarrow> port_ok (env name)"
  unfolding checked_base_port_Inr port_ok_def by (cases "env name") (simp_all only: option.case conj_assoc simp_thms ex_simps)

lemma parseIntFields_accepts:
  "(\<exists>fs. parseIntFields env spec = Inr fs) \<longleftrightarrow>
    (\<forall>(key, name, fallback, minimum)\<in>set spec. int_ok (env name) (case minimum of None \<Rightarrow> 1 | Some m \<Rightarrow> m))"
  unfolding parseIntFields_def map_result_total
  by (rule ball_cong [OF refl])
    (simp add: split_beta and_then_accepts parsePositiveInt_accepts del: split_paired_Ex)

definition static_entry_ok :: "json \<Rightarrow> bool" where
  "static_entry_ok entry = (case entry of
      JObj fs \<Rightarrow> is_string (jget fs ''id'') \<and> is_string (jget fs ''name'') \<and> is_string (jget fs ''osVersion'') \<and>
        (jget fs ''platform'' = None \<or> isDevicePlatform (jget fs ''platform'')) \<and>
        (case jget fs ''tags'' of None \<Rightarrow> True | Some (JArr xs) \<Rightarrow> list_all (\<lambda>t. is_string (Some t)) xs | Some _ \<Rightarrow> False)
    | _ \<Rightarrow> False)"

lemma those_strings: "(\<exists>ys. those (map str_of xs) = Some ys) \<longleftrightarrow> list_all (\<lambda>t. is_string (Some t)) xs"
proof (induction xs)
  case (Cons x xs)
  then show ?case by (cases x) auto
qed simp

lemma config_parseTags_accepts:
  "(\<exists>ts. config_parseTags raw = Inr ts) \<longleftrightarrow>
    (case raw of None \<Rightarrow> True | Some (JArr xs) \<Rightarrow> list_all (\<lambda>t. is_string (Some t)) xs | Some _ \<Rightarrow> False)"
proof (cases raw)
  case (Some v)
  then show ?thesis
  proof (cases v)
    case (JArr xs)
    then show ?thesis using Some those_strings [of xs] by (cases "those (map str_of xs)") (simp_all add: config_parseTags_def)
  qed (simp_all add: config_parseTags_def)
qed (simp add: config_parseTags_def)

lemma parseStaticPlatform_accepts: "(\<exists>p. parseStaticPlatform raw = Inr p) \<longleftrightarrow> raw = None \<or> isDevicePlatform raw"
  by (auto simp: parseStaticPlatform_def split: option.split)

lemma static_device_accepts: "(\<exists>d. static_device entry = Inr d) \<longleftrightarrow> static_entry_ok entry"
proof (cases entry)
  case (JObj fs)
  show ?thesis
  proof (cases "is_string (jget fs ''id'') \<and> is_string (jget fs ''name'') \<and> is_string (jget fs ''osVersion'')")
    case True
    then show ?thesis
      using JObj config_parseTags_accepts [of "jget fs ''tags''"] parseStaticPlatform_accepts [of "jget fs ''platform''"]
      unfolding JObj static_device_def static_entry_ok_def is_string_iff by (elim conjE exE) (simp add: and_then_accepts)
  next
    case False
    then show ?thesis using JObj
      by (auto simp: static_device_def static_entry_ok_def is_string_iff split: option.splits json.splits)
  qed
qed (simp_all add: static_device_def static_entry_ok_def)

definition static_ok :: "host \<Rightarrow> string option \<Rightarrow> bool" where
  "static_ok h raw = (case raw of
      None \<Rightarrow> True
    | Some t \<Rightarrow> trim t = [] \<or> (case ho_parse h t of Some (JArr entries) \<Rightarrow> list_all static_entry_ok entries | _ \<Rightarrow> False))"

lemma parseStaticDevices_accepts: "(\<exists>ds. parseStaticDevices h raw = Inr ds) \<longleftrightarrow> static_ok h raw"
  by (auto simp: parseStaticDevices_def static_ok_def map_result_total static_device_accepts list_all_iff
      split: option.split json.split)

definition ios_ok :: "process_env \<Rightarrow> bool" where
  "ios_ok env \<longleftrightarrow> env ''NEBULA_XCODEBUILD_ENABLED'' = Some ''true'' \<longrightarrow>
    (\<exists>p. env ''NEBULA_CONTROLLER_PROJECT'' = Some p \<and> trim p \<noteq> []) \<and> port_ok (env ''NEBULA_CONTROLLER_BASE_PORT'') \<and>
    int_ok (env ''NEBULA_CONTROLLER_HEALTH_INTERVAL_MS'') min_interval_ms"

lemma parseSupervisorConfig_accepts: "(\<exists>s. parseSupervisorConfig h env = Inr s) \<longleftrightarrow> ios_ok env"
proof -
  have port: "(\<exists>n. checked_base_port env ''NEBULA_CONTROLLER_BASE_PORT'' 8200 = Inr n) \<longleftrightarrow> port_ok (env ''NEBULA_CONTROLLER_BASE_PORT'')"
    by (rule checked_base_port_accepts) (simp add: max_base_port_def)
  show ?thesis
  proof (cases "env ''NEBULA_CONTROLLER_PROJECT''")
    case (Some p)
    have "(\<exists>s. parseSupervisorConfig h env = Inr s) \<longleftrightarrow> env ''NEBULA_XCODEBUILD_ENABLED'' \<noteq> Some ''true'' \<or>
        trim p \<noteq> [] \<and> (\<exists>n. checked_base_port env ''NEBULA_CONTROLLER_BASE_PORT'' 8200 = Inr n) \<and>
        (\<exists>n. parsePositiveInt ''NEBULA_CONTROLLER_HEALTH_INTERVAL_MS'' (env ''NEBULA_CONTROLLER_HEALTH_INTERVAL_MS'')
          default_health_interval_ms min_interval_ms = Inr n)"
      using Some by (simp add: parseSupervisorConfig_def Let_def and_then_accepts)
    then show ?thesis using Some unfolding port parsePositiveInt_accepts ios_ok_def by simp
  qed (simp add: parseSupervisorConfig_def ios_ok_def)
qed

definition adb_found :: "host \<Rightarrow> process_env \<Rightarrow> bool" where
  "adb_found h env \<longleftrightarrow> trimmed_option (env ''NEBULA_ADB_PATH'') \<noteq> None \<or> list_ex (ho_executable h) (adb_candidates h env)"

definition path_ok :: "(string \<Rightarrow> bool) \<Rightarrow> string option \<Rightarrow> bool" where
  "path_ok usable raw = (case trimmed_option raw of None \<Rightarrow> True | Some p \<Rightarrow> usable p)"

definition android_env_ok :: "host \<Rightarrow> process_env \<Rightarrow> bool" where
  "android_env_ok h env \<longleftrightarrow> path_ok (ho_executable h) (env ''NEBULA_ADB_PATH'') \<and>
    (adb_found h env \<longrightarrow> port_ok (env ''NEBULA_ANDROID_BASE_PORT'') \<and> port_ok (env ''NEBULA_ANDROID_MIRROR_BASE_PORT'') \<and>
      path_ok (ho_readable h) (env ''NEBULA_ANDROID_RUNNER_APK'') \<and> path_ok (ho_readable h) (env ''NEBULA_ANDROID_MIRROR_DEX'') \<and>
      (\<forall>(key, name, fallback, minimum)\<in>set (supervisor_spec @ runner_spec @ mirror_spec).
        int_ok (env name) (case minimum of None \<Rightarrow> 1 | Some m \<Rightarrow> m)))"

lemma resolveArtifact_accepts: "(\<exists>p. resolveArtifact h name raw fallback = Inr p) \<longleftrightarrow> path_ok (ho_readable h) raw"
  by (auto simp: resolveArtifact_def path_ok_def split: option.split)

lemma tunings_accept:
  "(\<exists>t. parseAndroidSupervisorTuning env = Inr t) \<longleftrightarrow> (\<exists>fs. parseIntFields env supervisor_spec = Inr fs)"
  "(\<exists>t. parseAndroidRunnerTuning env = Inr t) \<longleftrightarrow> (\<exists>fs. parseIntFields env runner_spec = Inr fs)"
  "(\<exists>t. parseAndroidMirrorTuning env = Inr t) \<longleftrightarrow> (\<exists>fs. parseIntFields env mirror_spec = Inr fs)"
  by (simp_all add: parseAndroidSupervisorTuning_def parseAndroidRunnerTuning_def parseAndroidMirrorTuning_def and_then_accepts)

lemma find_found: "(\<exists>x. List.find P xs = Some x) \<longleftrightarrow> list_ex P xs"
  by (induction xs) auto

lemma resolveAdbPath_Inr:
  assumes "resolveAdbPath h env = Inr a"
  shows "path_ok (ho_executable h) (env ''NEBULA_ADB_PATH'') \<and> (a \<noteq> None \<longleftrightarrow> adb_found h env)"
proof (cases "trimmed_option (env ''NEBULA_ADB_PATH'')")
  case None
  then show ?thesis using assms find_found [of "ho_executable h" "adb_candidates h env"]
    by (simp add: resolveAdbPath_def path_ok_def adb_found_def)
next
  case (Some p)
  then have "ho_executable h p" "a = Some p" using assms by (simp_all add: resolveAdbPath_def split: if_splits)
  then show ?thesis using Some by (simp add: path_ok_def adb_found_def)
qed

lemma resolveAdbPath_accepts: "(\<exists>a. resolveAdbPath h env = Inr a) \<longleftrightarrow> path_ok (ho_executable h) (env ''NEBULA_ADB_PATH'')"
  by (auto simp: resolveAdbPath_def path_ok_def split: option.splits)

lemma parseAndroidConfig_accepts: "(\<exists>a. parseAndroidConfig h env = Inr a) \<longleftrightarrow> android_env_ok h env"
proof (cases "resolveAdbPath h env")
  case (Inl e)
  then show ?thesis using resolveAdbPath_accepts [of h env] by (simp add: parseAndroidConfig_def android_env_ok_def)
next
  case (Inr adb)
  note adb = resolveAdbPath_Inr [OF Inr]
  have ports: "(\<exists>n. checked_base_port env ''NEBULA_ANDROID_BASE_PORT'' 8300 = Inr n) \<longleftrightarrow> port_ok (env ''NEBULA_ANDROID_BASE_PORT'')"
    "(\<exists>n. checked_base_port env ''NEBULA_ANDROID_MIRROR_BASE_PORT'' 8400 = Inr n) \<longleftrightarrow> port_ok (env ''NEBULA_ANDROID_MIRROR_BASE_PORT'')"
    by (rule checked_base_port_accepts; simp add: max_base_port_def)+
  show ?thesis
  proof (cases adb)
    case None
    then show ?thesis using Inr adb by (simp add: parseAndroidConfig_def android_env_ok_def)
  next
    case (Some path)
    have "(\<exists>a. parseAndroidConfig h env = Inr a) \<longleftrightarrow>
        (\<exists>n. checked_base_port env ''NEBULA_ANDROID_BASE_PORT'' 8300 = Inr n) \<and>
        (\<exists>n. checked_base_port env ''NEBULA_ANDROID_MIRROR_BASE_PORT'' 8400 = Inr n) \<and>
        (\<exists>p. resolveArtifact h ''NEBULA_ANDROID_RUNNER_APK'' (env ''NEBULA_ANDROID_RUNNER_APK'') (default_runner_apk h) = Inr p) \<and>
        (\<exists>p. resolveArtifact h ''NEBULA_ANDROID_MIRROR_DEX'' (env ''NEBULA_ANDROID_MIRROR_DEX'') (default_mirror_dex h) = Inr p) \<and>
        (\<exists>t. parseAndroidSupervisorTuning env = Inr t) \<and> (\<exists>t. parseAndroidRunnerTuning env = Inr t) \<and>
        (\<exists>t. parseAndroidMirrorTuning env = Inr t)"
      by (simp add: parseAndroidConfig_def Inr Some and_then_accepts)
    then show ?thesis
      using adb Some unfolding ports resolveArtifact_accepts tunings_accept parseIntFields_accepts android_env_ok_def
      by (simp add: ball_Un conj_assoc)
  qed
qed

section \<open>What is accepted, and what it guarantees\<close>

lemma sanitized_id: "matches_class agent_name_char 64 (sanitizeAgentId raw)"
proof -
  have "agent_name_char (CHR ''-'')" by (simp add: agent_name_char_def)
  then have "list_all agent_name_char (take 64 (map (\<lambda>c. if agent_name_char c then c else CHR ''-'') raw))"
    by (auto simp: list_all_iff dest!: in_set_takeD)
  then show ?thesis
    by (simp add: sanitizeAgentId_def matches_class_def Let_def agent_name_char_def is_alnum_def code_def)
qed

lemma sanitized_same: "matches_class agent_name_char 64 raw \<Longrightarrow> sanitizeAgentId raw = raw"
proof -
  assume m: "matches_class agent_name_char 64 raw"
  then have "map (\<lambda>c. if agent_name_char c then c else CHR ''-'') raw = raw"
    by (intro map_idI) (auto simp: matches_class_def list_all_iff)
  then show ?thesis using m by (simp add: sanitizeAgentId_def matches_class_def)
qed

definition config_env_ok :: "host \<Rightarrow> process_env \<Rightarrow> bool" where
  "config_env_ok h env \<longleftrightarrow>
    (case env ''NEBULA_SERVER_URL'' of Some url \<Rightarrow> ws_url url | None \<Rightarrow> False) \<and>
    (case env ''NEBULA_AGENT_TOKEN'' of
      Some t \<Rightarrow> agent_min_token_length \<le> length t \<and> \<not> starts_with ''change-me'' t | None \<Rightarrow> False) \<and>
    int_ok (env ''NEBULA_DISCOVERY_INTERVAL_MS'') min_interval_ms \<and>
    int_ok (env ''NEBULA_HEARTBEAT_INTERVAL_MS'') min_interval_ms \<and>
    static_ok h (env ''NEBULA_STATIC_DEVICES'') \<and> ios_ok env \<and>
    path_ok (ho_executable h) (env ''NEBULA_MIRROR_HELPER'') \<and>
    path_ok (\<lambda>t. agent_min_token_length \<le> length t) (env ''NEBULA_CONTROLLER_TOKEN'') \<and>
    android_env_ok h env"

lemma helper_accepts: "(\<exists>p. parseMirrorHelperPath h raw = Inr p) \<longleftrightarrow> path_ok (ho_executable h) raw"
  by (auto simp: parseMirrorHelperPath_def path_ok_def split: option.split)

lemma controller_token_accepts:
  "(\<exists>t. parseControllerToken raw = Inr t) \<longleftrightarrow> path_ok (\<lambda>t. agent_min_token_length \<le> length t) raw"
  by (auto simp: parseControllerToken_def path_ok_def not_less split: option.split)

lemma require_accepts: "(\<exists>u. require b e = Inr u) \<longleftrightarrow> b"
  by simp

lemma ws_url_nonempty: "ws_url url \<Longrightarrow> url \<noteq> []"
  by (auto simp: ws_url_def starts_with_def)

lemma long_token_nonempty: "agent_min_token_length \<le> length t \<Longrightarrow> t \<noteq> []"
  by (auto simp: agent_min_token_length_def)

lemma loadConfig_accepts: "(\<exists>c. loadConfig h env = Inr c) \<longleftrightarrow> config_env_ok h env"
proof -
  let ?url = "or_else (env ''NEBULA_SERVER_URL'') []" and ?token = "or_else (env ''NEBULA_AGENT_TOKEN'') []"
  have "(\<exists>c. loadConfig h env = Inr c) \<longleftrightarrow>
    (?url \<noteq> [] \<and> ws_url ?url) \<and> (?token \<noteq> [] \<and> \<not> length ?token < agent_min_token_length) \<and>
    \<not> starts_with ''change-me'' ?token \<and>
    (\<exists>n. parsePositiveInt ''NEBULA_DISCOVERY_INTERVAL_MS'' (env ''NEBULA_DISCOVERY_INTERVAL_MS'')
       default_discovery_interval_ms min_interval_ms = Inr n) \<and>
    (\<exists>n. parsePositiveInt ''NEBULA_HEARTBEAT_INTERVAL_MS'' (env ''NEBULA_HEARTBEAT_INTERVAL_MS'')
       default_heartbeat_interval_ms min_interval_ms = Inr n) \<and>
    (\<exists>ds. parseStaticDevices h (env ''NEBULA_STATIC_DEVICES'') = Inr ds) \<and>
    (\<exists>s. parseSupervisorConfig h env = Inr s) \<and>
    (\<exists>p. parseMirrorHelperPath h (env ''NEBULA_MIRROR_HELPER'') = Inr p) \<and>
    (\<exists>t. parseControllerToken (env ''NEBULA_CONTROLLER_TOKEN'') = Inr t) \<and>
    (\<exists>a. parseAndroidConfig h env = Inr a)"
    by (simp add: loadConfig_def Let_def and_then_accepts sanitized_id)
  also have "\<dots> \<longleftrightarrow> config_env_ok h env"
    unfolding parsePositiveInt_accepts parseStaticDevices_accepts parseSupervisorConfig_accepts helper_accepts
      controller_token_accepts parseAndroidConfig_accepts config_env_ok_def
    using ws_url_nonempty [of ?url] long_token_nonempty [of ?token]
    by (cases "env ''NEBULA_SERVER_URL''"; cases "env ''NEBULA_AGENT_TOKEN''") (auto simp: or_else_def not_less)
  finally show ?thesis .
qed

lemma int_field_positive:
  assumes "parseIntFields env spec = Inr fs" "list_all (\<lambda>(_, _, fallback, m). 0 < fallback \<and> (case m of None \<Rightarrow> True | Some m \<Rightarrow> m \<le> fallback)) spec"
  shows "\<forall>n\<in>set (map snd fs). 0 < n" "map fst fs = map fst spec"
proof -
  have all: "list_all2 (\<lambda>(key, name, fallback, minimum) y. \<exists>n. parsePositiveInt name (env name) fallback
      (case minimum of None \<Rightarrow> 1 | Some m \<Rightarrow> m) = Inr n \<and> y = (key, n)) spec fs"
    using assms(1) unfolding parseIntFields_def map_result_Inr
    by (rule list_all2_mono) (auto simp: and_then_Inr)
  show "map fst fs = map fst spec"
    using all by (induction rule: list_all2_induct) auto
  show "\<forall>n\<in>set (map snd fs). 0 < n"
  proof
    fix n assume "n \<in> set (map snd fs)"
    then obtain i where i: "i < length fs" "snd (fs ! i) = n" by (auto simp: in_set_conv_nth)
    obtain key name fallback m where s: "spec ! i = (key, name, fallback, m)" by (cases "spec ! i") auto
    have "i < length spec" using all i by (simp add: list_all2_lengthD)
    then have f: "0 < fallback \<and> (case m of None \<Rightarrow> True | Some m \<Rightarrow> m \<le> fallback)"
      using assms(2) s by (auto simp: list_all_length)
    have "parsePositiveInt name (env name) fallback (case m of None \<Rightarrow> 1 | Some m \<Rightarrow> m) = Inr n"
      using list_all2_nthD2 [OF all i(1)] s i(2) by auto
    then show "0 < n" using f by (auto dest: parsePositiveInt_bounds split: option.splits)
  qed
qed

lemma field_positive:
  assumes "parseIntFields env spec = Inr fs" "list_all (\<lambda>(_, _, fallback, m). 0 < fallback \<and> (case m of None \<Rightarrow> True | Some m \<Rightarrow> m \<le> fallback)) spec"
    and "key \<in> set (map fst spec)"
  shows "0 < int_field fs key"
proof -
  note p = int_field_positive [OF assms(1,2)]
  have "key \<in> set (map fst fs)" using p(2) assms(3) by simp
  then obtain n where n: "jget fs key = Some n" by (metis jkeys_def jkeys_iff not_None_eq)
  then show ?thesis using p(1) jget_Some_in [OF n] by (force simp: int_field_def)
qed

lemma supervisor_tuning_ok: "parseAndroidSupervisorTuning env = Inr t \<Longrightarrow> tuning_ok t"
  by (auto simp: parseAndroidSupervisorTuning_def and_then_Inr tuning_ok_def supervisor_spec_def min_interval_ms_def
      intro!: field_positive)

lemma mirror_tuning_positive:
  "parseAndroidMirrorTuning env = Inr t \<Longrightarrow> 0 < mt_restartBaseMs t \<and> 0 < mt_restartMaxMs t"
  by (auto simp: parseAndroidMirrorTuning_def and_then_Inr mirror_spec_def intro!: field_positive)

lemma supervisor_config_bounds:
  "parseSupervisorConfig h env = Inr (Some s) \<Longrightarrow>
    env ''NEBULA_XCODEBUILD_ENABLED'' = Some ''true'' \<and> trim (sc_projectPath s) \<noteq> [] \<and>
    0 < sc_basePort s \<and> sc_basePort s \<le> max_base_port \<and> min_interval_ms \<le> sc_healthIntervalMs s"
  by (auto simp: parseSupervisorConfig_def and_then_Inr Let_def checked_base_port_Inr default_health_interval_ms_def
      min_interval_ms_def split: if_splits option.splits dest!: parsePositiveInt_bounds)

lemma android_config_bounds:
  assumes "parseAndroidConfig h env = Inr (Some a)"
  shows "0 < ac_basePort a \<and> ac_basePort a \<le> max_base_port \<and> 0 < ac_mirrorBasePort a \<and> ac_mirrorBasePort a \<le> max_base_port \<and>
    ho_executable h (ac_adbPath a) \<and> tuning_ok (ac_supervisorTuning a) \<and>
    0 < mt_restartBaseMs (ac_mirrorTuning a) \<and> 0 < mt_restartMaxMs (ac_mirrorTuning a)"
proof -
  obtain adb where adb: "resolveAdbPath h env = Inr (Some adb)" "ac_adbPath a = adb"
    and ports: "checked_base_port env ''NEBULA_ANDROID_BASE_PORT'' 8300 = Inr (ac_basePort a)"
      "checked_base_port env ''NEBULA_ANDROID_MIRROR_BASE_PORT'' 8400 = Inr (ac_mirrorBasePort a)"
    and tun: "parseAndroidSupervisorTuning env = Inr (ac_supervisorTuning a)"
      "parseAndroidMirrorTuning env = Inr (ac_mirrorTuning a)"
    using assms by (auto simp: parseAndroidConfig_def and_then_Inr split: option.splits)
  have "ho_executable h adb"
    using adb(1) by (auto simp: resolveAdbPath_def split: option.splits if_splits dest: find_Some_iff_in)
  then show ?thesis
    using adb(2) ports supervisor_tuning_ok [OF tun(1)] mirror_tuning_positive [OF tun(2)]
    by (auto simp: checked_base_port_Inr split: option.splits)
qed

lemma loaded_parts:
  assumes "loadConfig h env = Inr c"
  shows "cf_serverUrl c = or_else (env ''NEBULA_SERVER_URL'') []" "cf_agentToken c = or_else (env ''NEBULA_AGENT_TOKEN'') []"
    "cf_agentId c = sanitizeAgentId (or_else (env ''NEBULA_AGENT_ID'') (ho_name h))"
    "parsePositiveInt ''NEBULA_DISCOVERY_INTERVAL_MS'' (env ''NEBULA_DISCOVERY_INTERVAL_MS'')
       default_discovery_interval_ms min_interval_ms = Inr (cf_discoveryIntervalMs c)"
    "parsePositiveInt ''NEBULA_HEARTBEAT_INTERVAL_MS'' (env ''NEBULA_HEARTBEAT_INTERVAL_MS'')
       default_heartbeat_interval_ms min_interval_ms = Inr (cf_heartbeatIntervalMs c)"
    "parseSupervisorConfig h env = Inr (cf_supervisor c)" "parseAndroidConfig h env = Inr (cf_android c)"
    "parseControllerToken (env ''NEBULA_CONTROLLER_TOKEN'') = Inr (cf_controllerToken c)"
    "ws_url (cf_serverUrl c)" "agent_min_token_length \<le> length (cf_agentToken c)" "\<not> starts_with ''change-me'' (cf_agentToken c)"
  using assms by (auto simp: loadConfig_def Let_def and_then_Inr)


section \<open>The requirements, in their order\<close>

text \<open>
  The requirements on the environment as a list of checks: a check that fails names its error. They are
  stated on the environment alone; a later check may speak of a value that an earlier one rejects.
\<close>

type_synonym check = "config_error option"

fun first_failure :: "check list \<Rightarrow> check" where
  "first_failure [] = None"
| "first_failure (None # cs) = first_failure cs"
| "first_failure (Some e # cs) = Some e"

definition demand :: "bool \<Rightarrow> config_error \<Rightarrow> check" where
  "demand ok e = (if ok then None else Some e)"

definition whole_positive :: "string \<Rightarrow> bool" where
  "whole_positive t \<longleftrightarrow> (\<exists>n. js_Number t = num n \<and> 0 < n)"

definition int_check :: "string \<Rightarrow> string option \<Rightarrow> int \<Rightarrow> check" where
  "int_check name raw minimum = (case raw of
      None \<Rightarrow> None
    | Some t \<Rightarrow>
        if \<not> whole_positive t then Some (Not_positive_integer name t)
        else demand (\<exists>n. js_Number t = num n \<and> minimum \<le> n) (Below_minimum name minimum t))"

definition port_check :: "process_env \<Rightarrow> string \<Rightarrow> check" where
  "port_check env name = (case env name of
      None \<Rightarrow> None
    | Some t \<Rightarrow>
        if \<not> whole_positive t then Some (Not_positive_integer name t)
        else demand (\<exists>n. js_Number t = num n \<and> n \<le> 65000) (Base_port_too_high name))"

definition path_check :: "(string \<Rightarrow> bool) \<Rightarrow> (string \<Rightarrow> config_error) \<Rightarrow> string option \<Rightarrow> check" where
  "path_check usable err raw = (case trimmed_option raw of None \<Rightarrow> None | Some p \<Rightarrow> demand (usable p) (err p))"

definition field_checks :: "process_env \<Rightarrow> (string \<times> string \<times> int \<times> int option) list \<Rightarrow> check list" where
  "field_checks env spec =
    map (\<lambda>(key, name, fallback, minimum). int_check name (env name) (case minimum of None \<Rightarrow> 1 | Some m \<Rightarrow> m)) spec"

definition entry_checks :: "json \<Rightarrow> check list" where
  "entry_checks entry = (case entry of
      JObj fs \<Rightarrow>
        [demand (is_string (jget fs ''id'') \<and> is_string (jget fs ''name'') \<and> is_string (jget fs ''osVersion'')) Static_fields_missing,
         demand (jget fs ''platform'' = None \<or> isDevicePlatform (jget fs ''platform'')) Static_platform,
         demand (case jget fs ''tags'' of None \<Rightarrow> True | Some (JArr xs) \<Rightarrow> list_all (\<lambda>t. is_string (Some t)) xs | Some _ \<Rightarrow> False)
           Static_tags]
    | _ \<Rightarrow> [Some Static_fields_missing])"

definition static_checks :: "host \<Rightarrow> string option \<Rightarrow> check list" where
  "static_checks h raw = (case raw of
      None \<Rightarrow> []
    | Some t \<Rightarrow>
        if trim t = [] then []
        else case ho_parse h t of
          None \<Rightarrow> [Some Static_syntax]
        | Some (JArr entries) \<Rightarrow> concat (map entry_checks entries)
        | Some _ \<Rightarrow> [Some Static_not_array])"

definition ios_checks :: "process_env \<Rightarrow> check list" where
  "ios_checks env =
    (if env ''NEBULA_XCODEBUILD_ENABLED'' \<noteq> Some ''true'' then []
     else [demand (\<exists>p. env ''NEBULA_CONTROLLER_PROJECT'' = Some p \<and> trim p \<noteq> []) Project_missing,
       port_check env ''NEBULA_CONTROLLER_BASE_PORT'',
       int_check ''NEBULA_CONTROLLER_HEALTH_INTERVAL_MS'' (env ''NEBULA_CONTROLLER_HEALTH_INTERVAL_MS'') 1000])"

definition android_checks :: "host \<Rightarrow> process_env \<Rightarrow> check list" where
  "android_checks h env =
    path_check (ho_executable h) Adb_missing (env ''NEBULA_ADB_PATH'') #
    (if \<not> adb_found h env then []
     else [port_check env ''NEBULA_ANDROID_BASE_PORT'', port_check env ''NEBULA_ANDROID_MIRROR_BASE_PORT'',
         path_check (ho_readable h) (Artifact_missing ''NEBULA_ANDROID_RUNNER_APK'') (env ''NEBULA_ANDROID_RUNNER_APK''),
         path_check (ho_readable h) (Artifact_missing ''NEBULA_ANDROID_MIRROR_DEX'') (env ''NEBULA_ANDROID_MIRROR_DEX'')] @
       field_checks env supervisor_spec @ field_checks env runner_spec @ field_checks env mirror_spec)"

definition config_checks :: "host \<Rightarrow> process_env \<Rightarrow> check list" where
  "config_checks h env =
    [demand (\<exists>url. env ''NEBULA_SERVER_URL'' = Some url \<and> ws_url url) Server_url_invalid,
     demand (\<exists>t. env ''NEBULA_AGENT_TOKEN'' = Some t \<and> 24 \<le> length t) Agent_token_short,
     demand (\<forall>t. env ''NEBULA_AGENT_TOKEN'' = Some t \<longrightarrow> \<not> starts_with ''change-me'' t) Agent_token_placeholder,
     int_check ''NEBULA_DISCOVERY_INTERVAL_MS'' (env ''NEBULA_DISCOVERY_INTERVAL_MS'') 1000,
     int_check ''NEBULA_HEARTBEAT_INTERVAL_MS'' (env ''NEBULA_HEARTBEAT_INTERVAL_MS'') 1000] @
    static_checks h (env ''NEBULA_STATIC_DEVICES'') @
    ios_checks env @
    [path_check (ho_executable h) Mirror_helper_missing (env ''NEBULA_MIRROR_HELPER''),
     path_check (\<lambda>t. 24 \<le> length t) (\<lambda>_. Controller_token_short) (env ''NEBULA_CONTROLLER_TOKEN'')] @
    android_checks h env"

text \<open>The error of a reader, and how the errors of readers in sequence compose.\<close>

definition failure :: "config_error + 'a \<Rightarrow> check" where
  "failure r = (case r of Inl e \<Rightarrow> Some e | Inr _ \<Rightarrow> None)"

lemma failure_simps [simp]: "failure (Inl e) = Some e" "failure (Inr a) = None"
  by (simp_all add: failure_def)

lemma failure_Some: "failure r = Some e \<longleftrightarrow> r = Inl e"
  by (cases r) simp_all

lemma first_failure_Cons: "first_failure (c # cs) = (case c of None \<Rightarrow> first_failure cs | Some e \<Rightarrow> Some e)"
  by (cases c) simp_all

lemma first_failure_append: "first_failure (cs @ ds) = (case first_failure cs of None \<Rightarrow> first_failure ds | Some e \<Rightarrow> Some e)"
  by (induction cs) (simp_all add: first_failure_Cons split: option.split)

lemma failure_then:
  "failure r = first_failure cs \<Longrightarrow> (\<And>a. r = Inr a \<Longrightarrow> failure (f a) = first_failure ds) \<Longrightarrow>
    failure (and_then r f) = first_failure (cs @ ds)"
  by (cases r) (auto simp: first_failure_append dest: sym split: option.split)

lemma failure_then_one:
  "failure r = c \<Longrightarrow> (\<And>a. r = Inr a \<Longrightarrow> failure (f a) = first_failure ds) \<Longrightarrow>
    failure (and_then r f) = first_failure (c # ds)"
  by (cases r) (auto simp: first_failure_Cons)

lemma failure_value: "failure (and_then r (\<lambda>a. Inr (g a))) = failure r"
  by (cases r) simp_all

lemma failure_last: "failure r = first_failure cs \<Longrightarrow> failure (and_then r (\<lambda>a. Inr (g a))) = first_failure cs"
  by (simp add: failure_value)

lemma failure_map_result:
  "(\<And>x. x \<in> set xs \<Longrightarrow> failure (f x) = first_failure (g x)) \<Longrightarrow>
    failure (map_result f xs) = first_failure (concat (map g xs))"
proof (induction xs)
  case (Cons x xs)
  from Cons.prems have "failure (f x) = first_failure (g x)" by simp
  moreover have "failure (map_result f xs) = first_failure (concat (map g xs))" using Cons by simp
  ultimately show ?case
    by (simp, intro failure_then) (simp_all add: failure_last)
qed simp

lemma failure_require: "failure (require b e) = demand b e"
  by (simp add: require_def demand_def)

lemma failure_int: "failure (parsePositiveInt name raw fallback minimum) = int_check name raw minimum"
proof (cases raw)
  case (Some t)
  show ?thesis
  proof (cases "js_Number t")
    case (Fin q)
    have whole: "whole_positive t \<longleftrightarrow> is_integer_num (Fin q) \<and> 0 < q"
      unfolding whole_positive_def Fin num_def by (auto simp: num_def)
    show ?thesis
    proof (cases "whole_positive t")
      case True
      with whole have "is_integer_num (Fin q)" "0 < q" by simp_all
      then obtain n where n: "q = of_int n" by (auto simp: num_def)
      with True whole show ?thesis
        by (auto simp: Some Fin parsePositiveInt_def int_check_def demand_def num_def not_less)
    next
      case False
      with whole show ?thesis by (auto simp: Some Fin parsePositiveInt_def int_check_def not_less)
    qed
  qed (simp_all add: Some parsePositiveInt_def int_check_def whole_positive_def num_def)
qed (simp add: parsePositiveInt_def int_check_def)

lemma failure_port:
  assumes "fallback \<le> max_base_port"
  shows "failure (checked_base_port env name fallback) = port_check env name"
proof (cases "env name")
  case None
  with assms show ?thesis by (simp add: checked_base_port_def port_check_def parsePositiveInt_def not_less)
next
  case (Some t)
  show ?thesis
  proof (cases "whole_positive t")
    case True
    then obtain n where n: "js_Number t = num n" "0 < n" by (auto simp: whole_positive_def)
    then have "parsePositiveInt name (env name) fallback 1 = Inr n" by (simp add: parsePositiveInt_Inr Some)
    with n True show ?thesis
      by (simp add: checked_base_port_def port_check_def Some demand_def max_base_port_def num_def not_less)
  next
    case False
    then have "failure (parsePositiveInt name (env name) fallback 1) = Some (Not_positive_integer name t)"
      by (simp add: failure_int int_check_def Some)
    with False show ?thesis by (simp add: failure_Some checked_base_port_def port_check_def Some)
  qed
qed

lemma failure_fields: "failure (parseIntFields env spec) = first_failure (field_checks env spec)"
proof -
  have "failure (parseIntFields env spec) = first_failure (concat (map (\<lambda>x. [case x of (key, name, fallback, minimum) \<Rightarrow>
      int_check name (env name) (case minimum of None \<Rightarrow> 1 | Some m \<Rightarrow> m)]) spec))"
    unfolding parseIntFields_def
    by (rule failure_map_result) (simp add: split_beta failure_value failure_int first_failure_Cons split: option.split)
  then show ?thesis by (simp add: field_checks_def)
qed

lemma failure_artifact:
  "failure (resolveArtifact h name raw fallback) = path_check (ho_readable h) (Artifact_missing name) raw"
  by (simp add: resolveArtifact_def path_check_def demand_def split: option.split)

lemma failure_entry: "failure (static_device entry) = first_failure (entry_checks entry)"
proof (cases entry)
  case (JObj fs)
  show ?thesis
  proof (cases "is_string (jget fs ''id'') \<and> is_string (jget fs ''name'') \<and> is_string (jget fs ''osVersion'')")
    case True
    have platform: "failure (parseStaticPlatform p) = demand (p = None \<or> isDevicePlatform p) Static_platform" for p
      by (auto simp: parseStaticPlatform_def demand_def split: option.split)
    have tags: "failure (config_parseTags t) =
        demand (case t of None \<Rightarrow> True | Some (JArr xs) \<Rightarrow> list_all (\<lambda>t. is_string (Some t)) xs | Some _ \<Rightarrow> False) Static_tags" for t
      using config_parseTags_accepts [of t]
      by (cases "config_parseTags t") (auto simp: demand_def config_parseTags_def split: option.splits json.splits)
    from True obtain i name version where "static_device entry =
        and_then (parseStaticPlatform (jget fs ''platform'')) (\<lambda>platform.
        and_then (config_parseTags (jget fs ''tags'')) (\<lambda>tags.
          Inr \<lparr>rd_id = i, rd_name = name, rd_platform = platform, rd_osVersion = version, rd_tags = tags\<rparr>))"
      unfolding is_string_iff JObj static_device_def by auto
    then have "failure (static_device entry) =
        first_failure [demand (jget fs ''platform'' = None \<or> isDevicePlatform (jget fs ''platform'')) Static_platform,
          demand (case jget fs ''tags'' of None \<Rightarrow> True | Some (JArr xs) \<Rightarrow> list_all (\<lambda>t. is_string (Some t)) xs | Some _ \<Rightarrow> False)
            Static_tags]"
      by (simp only:) (intro failure_then_one platform failure_last, simp add: tags first_failure_Cons split: option.split)
    with True show ?thesis by (simp add: entry_checks_def JObj demand_def)
  next
    case False
    then show ?thesis using JObj
      by (auto simp: static_device_def entry_checks_def is_string_iff demand_def split: option.splits json.splits)
  qed
qed (simp_all add: static_device_def entry_checks_def)

lemma failure_static: "failure (parseStaticDevices h raw) = first_failure (static_checks h raw)"
  by (simp add: parseStaticDevices_def static_checks_def failure_map_result failure_entry split: option.split json.split)

lemma failure_ios: "failure (parseSupervisorConfig h env) = first_failure (ios_checks env)"
proof (cases "env ''NEBULA_XCODEBUILD_ENABLED'' = Some ''true'' \<and> (\<exists>p. env ''NEBULA_CONTROLLER_PROJECT'' = Some p \<and> trim p \<noteq> [])")
  case True
  then obtain p where p: "env ''NEBULA_CONTROLLER_PROJECT'' = Some p" "trim p \<noteq> []" by blast
  have "failure (parseSupervisorConfig h env) = first_failure
      [port_check env ''NEBULA_CONTROLLER_BASE_PORT'',
       int_check ''NEBULA_CONTROLLER_HEALTH_INTERVAL_MS'' (env ''NEBULA_CONTROLLER_HEALTH_INTERVAL_MS'') 1000]"
    unfolding parseSupervisorConfig_def Let_def p option.case
    using True p
    by (simp, intro failure_then_one failure_port failure_last)
      (simp_all add: max_base_port_def failure_int first_failure_Cons min_interval_ms_def split: option.split)
  with True show ?thesis by (simp add: ios_checks_def demand_def)
next
  case False
  then show ?thesis by (auto simp: parseSupervisorConfig_def ios_checks_def demand_def split: option.splits)
qed

lemma failure_tunings:
  "failure (parseAndroidSupervisorTuning env) = first_failure (field_checks env supervisor_spec)"
  "failure (parseAndroidRunnerTuning env) = first_failure (field_checks env runner_spec)"
  "failure (parseAndroidMirrorTuning env) = first_failure (field_checks env mirror_spec)"
  unfolding parseAndroidSupervisorTuning_def parseAndroidRunnerTuning_def parseAndroidMirrorTuning_def
  by (intro failure_last failure_fields)+

lemma failure_android: "failure (parseAndroidConfig h env) = first_failure (android_checks h env)"
  unfolding parseAndroidConfig_def android_checks_def
proof (rule failure_then_one)
  show "failure (resolveAdbPath h env) = path_check (ho_executable h) Adb_missing (env ''NEBULA_ADB_PATH'')"
    by (simp add: resolveAdbPath_def path_check_def demand_def split: option.split)
next
  fix adb assume r: "resolveAdbPath h env = Inr adb"
  have ports: "8300 \<le> max_base_port" "8400 \<le> max_base_port" by (simp_all add: max_base_port_def)
  from resolveAdbPath_Inr [OF r] show "failure (case adb of None \<Rightarrow> Inr None | Some adbPath \<Rightarrow>
        and_then (checked_base_port env ''NEBULA_ANDROID_BASE_PORT'' 8300) (\<lambda>basePort.
        and_then (checked_base_port env ''NEBULA_ANDROID_MIRROR_BASE_PORT'' 8400) (\<lambda>mirrorBasePort.
        and_then (resolveArtifact h ''NEBULA_ANDROID_RUNNER_APK'' (env ''NEBULA_ANDROID_RUNNER_APK'') (default_runner_apk h)) (\<lambda>apk.
        and_then (resolveArtifact h ''NEBULA_ANDROID_MIRROR_DEX'' (env ''NEBULA_ANDROID_MIRROR_DEX'') (default_mirror_dex h)) (\<lambda>dex.
        and_then (parseAndroidSupervisorTuning env) (\<lambda>supervisorTuning.
        and_then (parseAndroidRunnerTuning env) (\<lambda>runnerTuning.
        and_then (parseAndroidMirrorTuning env) (\<lambda>mirrorTuning.
          Inr (Some \<lparr>ac_adbPath = adbPath, ac_runnerApkPath = apk, ac_basePort = basePort,
            ac_logDir = or_else (env ''NEBULA_CONTROLLER_LOG_DIR'') (path_join [ho_home h, ''.nebula'', ''logs'']),
            ac_mirrorDexPath = dex, ac_mirrorBasePort = mirrorBasePort, ac_supervisorTuning = supervisorTuning,
            ac_runnerTuning = runnerTuning, ac_mirrorTuning = mirrorTuning\<rparr>)))))))))
      = first_failure (if \<not> adb_found h env then []
        else [port_check env ''NEBULA_ANDROID_BASE_PORT'', port_check env ''NEBULA_ANDROID_MIRROR_BASE_PORT'',
          path_check (ho_readable h) (Artifact_missing ''NEBULA_ANDROID_RUNNER_APK'') (env ''NEBULA_ANDROID_RUNNER_APK''),
          path_check (ho_readable h) (Artifact_missing ''NEBULA_ANDROID_MIRROR_DEX'') (env ''NEBULA_ANDROID_MIRROR_DEX'')] @
          field_checks env supervisor_spec @ field_checks env runner_spec @ field_checks env mirror_spec)"
    by (cases adb; simp)
      (intro failure_then_one failure_then failure_port failure_artifact failure_tunings failure_last ports)
qed

lemma failure_config: "failure (loadConfig h env) = first_failure (config_checks h env)"
proof -
  let ?url = "or_else (env ''NEBULA_SERVER_URL'') []" and ?token = "or_else (env ''NEBULA_AGENT_TOKEN'') []"
  have url: "(?url \<noteq> [] \<and> ws_url ?url) = (\<exists>url. env ''NEBULA_SERVER_URL'' = Some url \<and> ws_url url)"
    using ws_url_nonempty by (cases "env ''NEBULA_SERVER_URL''") (auto simp: or_else_def)
  have token: "(?token \<noteq> [] \<and> \<not> length ?token < agent_min_token_length) = (\<exists>t. env ''NEBULA_AGENT_TOKEN'' = Some t \<and> 24 \<le> length t)"
    using long_token_nonempty by (cases "env ''NEBULA_AGENT_TOKEN''") (auto simp: or_else_def agent_min_token_length_def)
  have placeholder: "(\<not> starts_with ''change-me'' ?token) = (\<forall>t. env ''NEBULA_AGENT_TOKEN'' = Some t \<longrightarrow> \<not> starts_with ''change-me'' t)"
    by (cases "env ''NEBULA_AGENT_TOKEN''") (simp_all add: or_else_def starts_with_def)
  have intervals: "failure (parsePositiveInt name raw fallback min_interval_ms) = int_check name raw 1000" for name raw fallback
    by (simp add: failure_int min_interval_ms_def)
  have helper: "failure (parseMirrorHelperPath h raw) = path_check (ho_executable h) Mirror_helper_missing raw" for raw
    by (simp add: parseMirrorHelperPath_def path_check_def demand_def split: option.split)
  have controller: "failure (parseControllerToken raw) = path_check (\<lambda>t. 24 \<le> length t) (\<lambda>_. Controller_token_short) raw" for raw
    by (simp add: parseControllerToken_def path_check_def demand_def agent_min_token_length_def split: option.split)
  have id: "require (matches_class agent_name_char 64 (sanitizeAgentId raw)) e = Inr ()" for raw and e :: config_error
    by (simp add: require_def sanitized_id)
  show ?thesis
    unfolding loadConfig_def config_checks_def Let_def append_Cons append_Nil url token placeholder id and_then_simps
    by (intro failure_then_one failure_then failure_require intervals failure_static failure_ios helper controller
        failure_last failure_android)
qed

text \<open>The two errors that only \<open>loadConfig\<close> itself names.\<close>

fun own_error :: "config_error \<Rightarrow> bool" where
  "own_error Server_url_invalid = True"
| "own_error (Agent_id_invalid i) = True"
| "own_error e = False"

lemma first_failure_in: "first_failure cs = Some e \<Longrightarrow> Some e \<in> set cs"
  by (induction cs rule: first_failure.induct) auto

lemma demand_Some [simp]: "demand ok e = Some e' \<longleftrightarrow> \<not> ok \<and> e' = e" "Some e' = demand ok e \<longleftrightarrow> \<not> ok \<and> e' = e"
  by (auto simp: demand_def)

lemma own_errors:
  assumes "own_error e"
  shows "Some e \<noteq> int_check name raw minimum" "Some e \<noteq> port_check env name"
    "Some e \<notin> set (entry_checks entry)" "Some e \<notin> set (field_checks env spec)"
    "(\<And>p. \<not> own_error (err p)) \<Longrightarrow> Some e \<noteq> path_check usable err raw"
proof -
  show int: "Some e \<noteq> int_check name raw minimum" for name raw minimum
    using assms by (auto simp: int_check_def split: option.splits if_splits)
  show "Some e \<noteq> port_check env name"
    using assms by (auto simp: port_check_def split: option.splits if_splits)
  show "Some e \<notin> set (entry_checks entry)"
    using assms by (auto simp: entry_checks_def split: json.splits)
  show "Some e \<notin> set (field_checks env spec)"
    using int by (auto simp: field_checks_def)
  show "(\<And>p. \<not> own_error (err p)) \<Longrightarrow> Some e \<noteq> path_check usable err raw"
    using assms by (auto simp: path_check_def split: option.splits)
qed

lemma config_checks_error:
  assumes "Some e \<in> set (config_checks h env)" "own_error e"
  shows "e = Server_url_invalid \<and> \<not> (\<exists>url. env ''NEBULA_SERVER_URL'' = Some url \<and> ws_url url)"
proof -
  note own = own_errors [OF assms(2)]
  have not: "e \<noteq> Project_missing" "e \<noteq> Agent_token_short" "e \<noteq> Agent_token_placeholder" "e \<noteq> Static_syntax" "e \<noteq> Static_not_array"
    using assms(2) by auto
  have "Some e \<notin> set (static_checks h raw)" for raw
    using own(3) not by (auto simp: static_checks_def split: option.splits json.splits)
  moreover have "Some e \<notin> set (ios_checks env)"
    using own(1,2) not by (simp add: ios_checks_def)
  moreover have "Some e \<notin> set (android_checks h env)"
    using own(2,4,5) by (simp add: android_checks_def)
  ultimately show ?thesis
    using assms(1) own(1,5) not by (simp add: config_checks_def)
qed

text \<open>
  C34: The Agent starts exactly on the environments that satisfy the documented requirements, and otherwise
  stops with the error of the first requirement that fails. The requirements and their errors are, in this
  order: the address, the length of the token, the placeholder, the discovery and the heartbeat interval,
  the static devices one by one, the project, the base port and the health interval of iOS when it is
  enabled, the mirror helper, the controller token, the given adb, and, when an adb is found, the two base
  ports, the two artifacts and the tunings of Android, field by field. The check of the agent's id can
  never fail, as every id is normalised to the accepted form, which leaves accepted ids as they are.
\<close>

theorem config_errors:
  "((\<exists>c. loadConfig h env = Inr c) \<longleftrightarrow> config_env_ok h env) \<and>
   (\<forall>e. loadConfig h env = Inl e \<longleftrightarrow> first_failure (config_checks h env) = Some e) \<and>
   (loadConfig h env = Inl Server_url_invalid \<longleftrightarrow> (\<forall>url. env ''NEBULA_SERVER_URL'' = Some url \<longrightarrow> \<not> ws_url url)) \<and>
   (\<forall>i. loadConfig h env \<noteq> Inl (Agent_id_invalid i)) \<and>
   (matches_class agent_name_char 64 raw \<longrightarrow> sanitizeAgentId raw = raw)"
proof -
  have fails: "loadConfig h env = Inl e \<longleftrightarrow> first_failure (config_checks h env) = Some e" for e
    using failure_config [of h env] failure_Some by metis
  have own: "e = Server_url_invalid \<and> \<not> (\<exists>url. env ''NEBULA_SERVER_URL'' = Some url \<and> ws_url url)"
    if "loadConfig h env = Inl e" "own_error e" for e
    using config_checks_error [OF first_failure_in that(2)] fails that(1) by blast
  have id: "loadConfig h env \<noteq> Inl (Agent_id_invalid i)" for i
    using own [of "Agent_id_invalid i"] by fastforce
  have first: "loadConfig h env = Inl Server_url_invalid"
    if "\<not> (\<exists>url. env ''NEBULA_SERVER_URL'' = Some url \<and> ws_url url)"
  proof -
    from that have "demand (\<exists>url. env ''NEBULA_SERVER_URL'' = Some url \<and> ws_url url) Server_url_invalid = Some Server_url_invalid"
      by simp
    then have "first_failure (config_checks h env) = Some Server_url_invalid"
      unfolding config_checks_def append_Cons by (simp only: first_failure.simps)
    then show ?thesis by (simp only: fails)
  qed
  have "loadConfig h env = Inl Server_url_invalid \<longleftrightarrow> (\<forall>url. env ''NEBULA_SERVER_URL'' = Some url \<longrightarrow> \<not> ws_url url)"
    using own [of Server_url_invalid, simplified] first by blast
  then show ?thesis using loadConfig_accepts fails id sanitized_same by blast
qed

section \<open>An environment that is accepted, and two that should not be\<close>

definition sample_host :: host where
  "sample_host = \<lparr>ho_name = ''mac.local'', ho_home = ''/u'', ho_root = ''/r'', ho_executable = (\<lambda>p. p = ''/opt/homebrew/bin/adb''),
     ho_readable = (\<lambda>_. False), ho_parse = (\<lambda>_. None)\<rparr>"

definition sample_process_env :: process_env where
  "sample_process_env = map_of [(''NEBULA_SERVER_URL'', ''ws://s:3000/agent''),
     (''NEBULA_AGENT_TOKEN'', ''0123456789abcdef01234567'')]"

lemma trimmed_option_None [simp]: "trimmed_option None = None"
  by (simp add: trimmed_option_def)

lemma sample_loaded: "\<exists>c. loadConfig sample_host sample_process_env = Inr c \<and> cf_agentId c = ''mac-local'' \<and> cf_android c \<noteq> None"
proof -
  have found: "adb_found sample_host sample_process_env"
    by (simp add: adb_found_def adb_candidates_def sample_host_def)
  have "int_ok (sample_process_env name) m" if "name \<in> fst ` set []" for name m using that by simp
  have none: "sample_process_env name = None" if "name \<noteq> ''NEBULA_SERVER_URL''" "name \<noteq> ''NEBULA_AGENT_TOKEN''" for name
    using that by (simp add: sample_process_env_def)
  have "config_env_ok sample_host sample_process_env"
    unfolding config_env_ok_def android_env_ok_def ios_ok_def
    by (simp add: none path_ok_def port_ok_def int_ok_def static_ok_def supervisor_spec_def runner_spec_def mirror_spec_def)
      (simp add: sample_process_env_def ws_url_def starts_with_def agent_min_token_length_def)
  then obtain c where c: "loadConfig sample_host sample_process_env = Inr c" using loadConfig_accepts by blast
  have "cf_agentId c = ''mac-local''"
    using loaded_parts(3) [OF c] none [of "''NEBULA_AGENT_ID''"]
    by (simp add: or_else_def sample_host_def sanitizeAgentId_def agent_name_char_def is_alnum_def code_def)
  moreover have "cf_android c \<noteq> None"
  proof -
    obtain adb where adb: "resolveAdbPath sample_host sample_process_env = Inr adb"
      using loaded_parts(7) [OF c] by (auto simp: parseAndroidConfig_def and_then_Inr)
    have "adb \<noteq> None" using adb resolveAdbPath_Inr found by blast
    show ?thesis
    proof
      assume "cf_android c = None"
      with adb \<open>adb \<noteq> None\<close> show False using loaded_parts(7) [OF c]
        by (auto simp: parseAndroidConfig_def and_then_Inr)
    qed
  qed
  ultimately show ?thesis using c by blast
qed


theorem config_errors_witness:
  "loadConfig sample_host (sample_process_env(''NEBULA_AGENT_TOKEN'' := Some ''short'')) = Inl Agent_token_short \<and>
   loadConfig sample_host (sample_process_env(''NEBULA_CONTROLLER_TOKEN'' := Some ''short'',
     ''NEBULA_MIRROR_HELPER'' := Some ''/nowhere'')) = Inl (Mirror_helper_missing ''/nowhere'')"
proof -
  let ?short = "sample_process_env(''NEBULA_AGENT_TOKEN'' := Some ''short'')"
  let ?two = "sample_process_env(''NEBULA_CONTROLLER_TOKEN'' := Some ''short'', ''NEBULA_MIRROR_HELPER'' := Some ''/nowhere'')"
  have short: "first_failure (config_checks sample_host ?short) = Some Agent_token_short"
    by (simp add: config_checks_def demand_def sample_process_env_def ws_url_def starts_with_def)
  have two: "first_failure (config_checks sample_host ?two) = Some (Mirror_helper_missing ''/nowhere'')"
    by (simp add: config_checks_def demand_def sample_process_env_def ws_url_def starts_with_def int_check_def
        static_checks_def ios_checks_def path_check_def trimmed_option_def trim_def is_ws_def code_def sample_host_def)
  show ?thesis
    using short two config_errors [of sample_host ?short undefined] config_errors [of sample_host ?two undefined] by blast
qed

text \<open>
  A static device whose id is not an id of the protocol is accepted, but the server then drops the whole
  registration it is part of.
\<close>

definition sample_bad_entry :: json where
  "sample_bad_entry = JObj [(''id'', JStr ''my phone''), (''name'', JStr ''n''), (''osVersion'', JStr ''17'')]"

theorem static_device_poisons_registration:
  "\<exists>d. parseStaticDevices (sample_host\<lparr>ho_parse := (\<lambda>_. Some (JArr [sample_bad_entry]))\<rparr>) (Some ''x'') = Inr [d] \<and>
    parseAgentMessage (Some (buildRegisterMessage (others @ [d]) kinds)) = None"
proof -
  let ?d = "\<lparr>rd_id = ''my phone'', rd_name = ''n'', rd_platform = Ios, rd_osVersion = ''17'', rd_tags = []\<rparr>"
  have "parseStaticDevices (sample_host\<lparr>ho_parse := (\<lambda>_. Some (JArr [sample_bad_entry]))\<rparr>) (Some ''x'') = Inr [?d]"
    by (simp add: parseStaticDevices_def sample_bad_entry_def static_device_def parseStaticPlatform_def config_parseTags_def
        trim_def is_ws_def code_def)
  moreover have "\<not> isRegisterDevice (json_of_device ?d)"
    by (simp add: isRegisterDevice_def json_of_device_def isDeviceId_def is_device_id_def matches_class_def is_alnum_def code_def
        device_id_char_def)
  ultimately show ?thesis
    by (cases kinds) (simp_all add: parseAgentMessage_def parseJson_def buildRegisterMessage_def jget_def)
qed

text \<open>
  An interval has a lower bound but no upper one, and Node runs a timer whose delay is above
  2147483647 ms every millisecond: the very rate the lower bound is there to exclude.
\<close>

definition node_delay :: "int \<Rightarrow> int" where
  "node_delay delay = (if delay < 1 \<or> 2147483647 < delay then 1 else delay)"

theorem huge_interval_runs_every_millisecond:
  "parsePositiveInt name (Some ''3000000000'') default_discovery_interval_ms min_interval_ms = Inr 3000000000 \<and>
    node_delay 3000000000 = 1 \<and> node_delay 3000000000 < min_interval_ms"
proof -
  have "js_Number ''3000000000'' = num 3000000000"
    by (simp add: literal_defs)
  then show ?thesis by (simp add: parsePositiveInt_Inr min_interval_ms_def node_delay_def)
qed

end
