(* ===== verification/Agent_Core.thy ===== *)
theory Agent_Core
  imports Agent_Config Agent_Tunnel Agent_Executor Agent_Discovery Stream_Manager
begin

text \<open>
  The Agent as a whole (main.ts): the tunnel, the gate of the viewing demand, the command executor, the
  discovery, the two supervisors and the mirroring streams, wired by the callbacks of \<open>main\<close>. A step is one
  turn of the event loop: an event of the socket, a timer, a callback of a component, or a signal.
  \<open>discoverAndRegister\<close> is two steps, before and after its await. Once the process has exited nothing happens.
\<close>

section \<open>The parts\<close>

record agent =
  ma_tunnel :: tunnel
  ma_gate :: demand_gate
  ma_executor :: executor
  ma_discovery :: aggregator
  ma_adb :: adb_source
  ma_ios :: "supervisor option"
  ma_android :: "android_supervisor option"
  ma_streams :: "mirror_object stream_manager"
  ma_inFlight :: bool
  ma_timers :: bool
  ma_shuttingDown :: bool
  ma_exit :: "nat option"

datatype agent_output =
    Tunnel_out tunnel_effect
  | Ios_out process_effect
  | Android_out android_effect
  | Stream_out mirror_output
  | Request_out string queued
  | Start_discovery
  | Exit_process nat

definition ready_tag :: string where "ready_tag = ''controller-ready''"

definition streams_of :: "agent_config \<Rightarrow> mirror_section" where
  "streams_of cfg = \<lparr>ms_helperPath = cf_mirrorHelperPath cfg,
     ms_android = map_option (\<lambda>a. (ac_mirrorDexPath a, nat (ac_mirrorBasePort a), ac_mirrorTuning a)) (cf_android cfg)\<rparr>"

definition createDiscoverySources :: "agent_config \<Rightarrow> device_platform list" where
  "createDiscoverySources cfg = Ios # (if cf_android cfg \<noteq> None then [Android] else [])"

definition createSupervisor :: "agent_config \<Rightarrow> supervisor option" where
  "createSupervisor cfg = map_option (\<lambda>s. supervisor_init (nat (sc_basePort s))) (cf_supervisor cfg)"

definition createAndroidSupervisor :: "agent_config \<Rightarrow> android_supervisor option" where
  "createAndroidSupervisor cfg = map_option (\<lambda>a. android_init (nat (ac_basePort a))) (cf_android cfg)"

text \<open>The state after the synchronous part of \<open>main\<close>, which ends with \<open>tunnel.connect()\<close>.\<close>

definition agent_start :: "agent_config \<Rightarrow> agent" where
  "agent_start cfg = \<lparr>ma_tunnel = fst (tunnel_connect tunnel_init), ma_gate = gate_init, ma_executor = executor_init,
     ma_discovery = aggregator_init (createDiscoverySources cfg) (cf_staticDevices cfg), ma_adb = adb_init,
     ma_ios = createSupervisor cfg, ma_android = createAndroidSupervisor cfg, ma_streams = manager_new,
     ma_inFlight = False, ma_timers = True, ma_shuttingDown = False, ma_exit = None\<rparr>"

definition endpoints :: "agent \<Rightarrow> resolver list" where
  "endpoints a =
    (case ma_ios a of
       Some sv \<Rightarrow> [\<lparr>rs_resolve = supervisor_resolve sv, rs_isReady = supervisor_isReady sv\<rparr>] | None \<Rightarrow> []) @
    (case ma_android a of
       Some sv \<Rightarrow> [\<lparr>rs_resolve = android_resolve sv, rs_isReady = android_isReady sv\<rparr>] | None \<Rightarrow> [])"

definition agent_resolver :: "agent \<Rightarrow> resolver" where
  "agent_resolver a = \<lparr>rs_resolve = composite_resolve (endpoints a), rs_isReady = composite_isReady (endpoints a)\<rparr>"

definition withReadinessTag :: "register_device list \<Rightarrow> resolver \<Rightarrow> register_device list" where
  "withReadinessTag devices r = map (\<lambda>d.
     if \<not> rs_isReady r (rd_id d) then d
     else if ready_tag \<in> set (rd_tags d) then d
     else d\<lparr>rd_tags := rd_tags d @ [ready_tag]\<rparr>) devices"

section \<open>Frames and commands\<close>

text \<open>
  The frame callback of the streams. \<open>buffered\<close> is the socket's \<open>bufferedAmount\<close> as the frames of a turn are
  tried one after the other. An exception of \<open>encodeAgentFrame\<close> leaves the callback and ends the process.
\<close>

definition uplink_frame :: "(nat \<Rightarrow> nat) \<Rightarrow> agent_frame \<Rightarrow> agent \<Rightarrow> agent \<times> agent_output list" where
  "uplink_frame buffered frame a =
    (if ma_exit a \<noteq> None then (a, [])
     else if \<not> shouldSend (ma_gate a) (af_deviceId frame) then (a, [])
     else case sendFrame frame (buffered (tn_sent (ma_tunnel a) + tn_dropped (ma_tunnel a))) (ma_tunnel a) of
       (t, effs, Inr _) \<Rightarrow> (a\<lparr>ma_tunnel := t\<rparr>, map Tunnel_out effs)
     | (t, effs, Inl _) \<Rightarrow> (a\<lparr>ma_tunnel := t, ma_exit := Some 1\<rparr>, [Exit_process 1]))"

definition relay_output :: "(nat \<Rightarrow> nat) \<Rightarrow> mirror_output \<Rightarrow> agent \<Rightarrow> agent \<times> agent_output list" where
  "relay_output buffered out a = (case out of
      Ios_output (Emit_frame f) \<Rightarrow> uplink_frame buffered f a
    | Android_output (Mirror_frame f) \<Rightarrow> uplink_frame buffered f a
    | _ \<Rightarrow> (a, [Stream_out out]))"

text \<open>What the executor puts out; the outcome of a command is sent back by the tunnel.\<close>

definition settle_output :: "tunnel \<Rightarrow> executor_output \<Rightarrow> agent_output list" where
  "settle_output t out = (case out of
      Outcome c outcome \<Rightarrow> map Tunnel_out (snd (sendOutcome (cm_requestId c) outcome t))
    | Request i q \<Rightarrow> [Request_out i q])"

definition drive_executor :: "executor_event \<Rightarrow> agent \<Rightarrow> agent \<times> agent_output list" where
  "drive_executor ev a = (case executor_step ev (ma_executor a) of
     (ex, outs) \<Rightarrow> (a\<lparr>ma_executor := ex\<rparr>, concat (map (settle_output (ma_tunnel a)) outs)))"

section \<open>Discovery\<close>

definition discover_begin :: "agent \<Rightarrow> agent \<times> agent_output list" where
  "discover_begin a = (if ma_inFlight a then (a, []) else (a\<lparr>ma_inFlight := True\<rparr>, [Start_discovery]))"

text \<open>\<open>report\<close> and \<open>stdout\<close> are what devicectl and adb gave, \<open>None\<close> where they failed.\<close>

definition refresh_sources ::
  "json option \<Rightarrow> string option \<Rightarrow> (string \<Rightarrow> string option) \<Rightarrow> agent \<Rightarrow> agent \<times> bool" where
  "refresh_sources report stdout getProp a =
    (case (if ma_android a = None then ([], ma_adb a)
           else case android_discover stdout getProp (ma_adb a) of (found, s) \<Rightarrow> ([found], s)) of
      (found, adb) \<Rightarrow>
        (case aggregator_refresh (ios_discover report # found) (ma_discovery a) of
          (g, shouldRegister) \<Rightarrow> (a\<lparr>ma_adb := adb, ma_discovery := g\<rparr>, shouldRegister)))"

definition sync_ios :: "(nat \<Rightarrow> bool) \<Rightarrow> ms \<Rightarrow> string list \<Rightarrow> agent \<Rightarrow> agent \<times> agent_output list" where
  "sync_ios ok now ids a = (case ma_ios a of
      None \<Rightarrow> (a, [])
    | Some sv \<Rightarrow> (case syncDevices ok now ids sv of (sv, effs) \<Rightarrow> (a\<lparr>ma_ios := Some sv\<rparr>, map Ios_out effs)))"

definition sync_android :: "ms \<Rightarrow> string list \<Rightarrow> agent \<Rightarrow> agent \<times> agent_output list" where
  "sync_android now ids a = (case ma_android a of
      None \<Rightarrow> (a, [])
    | Some sv \<Rightarrow> (case android_syncDevices now ids sv of (sv, effs) \<Rightarrow> (a\<lparr>ma_android := Some sv\<rparr>, map Android_out effs)))"

definition sync_streams :: "agent_config \<Rightarrow> string list \<Rightarrow> agent \<Rightarrow> agent \<times> agent_output list" where
  "sync_streams cfg ids a =
    (case syncAlwaysOn (create_stream (streams_of cfg) (aggregator_devices (ma_discovery a))) object_start object_stop ids
        (ma_streams a) of
      (m, effs) \<Rightarrow> (a\<lparr>ma_streams := m\<rparr>, map Stream_out effs))"

definition discover_end ::
  "agent_config \<Rightarrow> json option \<Rightarrow> string option \<Rightarrow> (string \<Rightarrow> string option) \<Rightarrow> (nat \<Rightarrow> bool) \<Rightarrow> ms \<Rightarrow>
    agent \<Rightarrow> agent \<times> agent_output list" where
  "discover_end cfg report stdout getProp ok now a =
    (if \<not> ma_inFlight a then (a, [])
     else case refresh_sources report stdout getProp a of (a, shouldRegister) \<Rightarrow>
       let iosIds = discoveredIds Ios (ma_discovery a); androidIds = discoveredIds Android (ma_discovery a) in
       (case sync_ios ok now iosIds a of (a, e1) \<Rightarrow>
        case sync_android now androidIds a of (a, e2) \<Rightarrow>
        case sync_streams cfg (iosIds @ androidIds) a of (a, e3) \<Rightarrow>
          (a\<lparr>ma_inFlight := False\<rparr>, e1 @ e2 @ e3 @
             (if \<not> shouldRegister then []
              else map Tunnel_out (snd (sendRegister
                (withReadinessTag (aggregator_devices (ma_discovery a)) (agent_resolver a)) (ma_tunnel a)))))))"

section \<open>Steps\<close>

text \<open>What the callbacks handed to the tunnel do.\<close>

definition tunnel_callback :: "ms \<Rightarrow> tunnel_effect \<Rightarrow> agent \<Rightarrow> agent \<times> agent_output list" where
  "tunnel_callback now eff a = (case eff of
      On_open \<Rightarrow> discover_begin a
    | On_command requestId deviceId occupantId action \<Rightarrow>
        drive_executor (Submit (agent_resolver a) now
          \<lparr>cm_requestId = requestId, cm_deviceId = deviceId, cm_occupantId = occupantId, cm_action = action\<rparr>) a
    | On_occupancy_ended deviceId occupantId \<Rightarrow> drive_executor (Revoke deviceId occupantId) a
    | On_stream_demand deviceIds \<Rightarrow> (a\<lparr>ma_gate := gate_apply deviceIds (ma_gate a)\<rparr>, [])
    | On_disconnect \<Rightarrow>
        (case drive_executor Revoke_all a of (a, outs) \<Rightarrow> (a\<lparr>ma_gate := gate_reset (ma_gate a)\<rparr>, outs))
    | _ \<Rightarrow> (a, [Tunnel_out eff]))"

definition agent_heartbeat :: "agent \<Rightarrow> agent_output list" where
  "agent_heartbeat a =
    (let deviceIds = map rd_id (aggregator_devices (ma_discovery a)) in
     if length deviceIds = 0 then [] else map Tunnel_out (snd (sendHeartbeat deviceIds (ma_tunnel a))))"

definition shutdown :: "agent \<Rightarrow> agent \<times> agent_output list" where
  "shutdown a =
    (if ma_shuttingDown a then (a, [])
     else case manager_stopAll object_stop (ma_streams a) of (m, e1) \<Rightarrow>
       (case (case ma_ios a of None \<Rightarrow> (None, []) | Some sv \<Rightarrow> map_prod Some (map Ios_out) (supervisor_stopAll sv)) of
         (ios, e2) \<Rightarrow>
        case (case ma_android a of None \<Rightarrow> (None, []) | Some sv \<Rightarrow> map_prod Some (map Android_out) (android_stopAll sv)) of
         (android, e3) \<Rightarrow>
        case tunnel_close (ma_tunnel a) of (t, e4) \<Rightarrow>
          (a\<lparr>ma_shuttingDown := True, ma_timers := False, ma_streams := m, ma_ios := ios, ma_android := android,
             ma_tunnel := t\<rparr>,
           map Stream_out e1 @ e2 @ e3 @ map Tunnel_out e4)))"

datatype agent_event =
    Tunnel_event tunnel_event ms
  | Discovery_due
  | Discovery_done "json option" "string option" "string \<Rightarrow> string option" "nat \<Rightarrow> bool" ms
  | Heartbeat_due
  | Queue_turn ms string
  | Controller_answered string http_answer
  | Ios_event supervisor_event
  | Android_event android_event
  | Stream_event manager_event "nat \<Rightarrow> nat"
  | Terminate_signal
  | Children_awaited

text \<open>The events a component has by itself, beside the calls that \<open>main\<close> makes.\<close>

fun own_tunnel :: "tunnel_event \<Rightarrow> bool" where
  "own_tunnel (Frame _ _) = False"
| "own_tunnel (Register_devices _) = False"
| "own_tunnel (Send_heartbeat _) = False"
| "own_tunnel (Command_settled _ _) = False"
| "own_tunnel Shut_down = False"
| "own_tunnel _ = True"

fun own_supervisor :: "supervisor_event \<Rightarrow> bool" where
  "own_supervisor (Sync_devices _ _ _) = False"
| "own_supervisor Stop_all_sessions = False"
| "own_supervisor _ = True"

fun own_android_supervisor :: "android_event \<Rightarrow> bool" where
  "own_android_supervisor (Android_sync _ _) = False"
| "own_android_supervisor Android_stop_all = False"
| "own_android_supervisor _ = True"

fun own_stream :: "manager_event \<Rightarrow> bool" where
  "own_stream (Sync_streams _ _) = False"
| "own_stream Stop_streams = False"
| "own_stream _ = True"

definition android_supervisorTuning :: "agent_config \<Rightarrow> android_tuning" where
  "android_supervisorTuning cfg =
    (case cf_android cfg of Some a \<Rightarrow> ac_supervisorTuning a | None \<Rightarrow> default_supervisor_tuning)"

fun agent_handle :: "agent_config \<Rightarrow> agent_event \<Rightarrow> agent \<Rightarrow> agent \<times> agent_output list" where
  "agent_handle cfg (Tunnel_event ev now) a =
    (if \<not> own_tunnel ev then (a, [])
     else case tunnel_step ev (ma_tunnel a) of (t, effs) \<Rightarrow> for_each (tunnel_callback now) effs (a\<lparr>ma_tunnel := t\<rparr>))"
| "agent_handle cfg Discovery_due a = (if \<not> ma_timers a then (a, []) else discover_begin a)"
| "agent_handle cfg (Discovery_done report stdout getProp ok now) a = discover_end cfg report stdout getProp ok now a"
| "agent_handle cfg Heartbeat_due a = (a, if \<not> ma_timers a then [] else agent_heartbeat a)"
| "agent_handle cfg (Queue_turn now deviceId) a = drive_executor (Run_next now deviceId) a"
| "agent_handle cfg (Controller_answered deviceId answer) a = drive_executor (Request_done deviceId answer) a"
| "agent_handle cfg (Ios_event ev) a = (case ma_ios a of
      None \<Rightarrow> (a, [])
    | Some sv \<Rightarrow>
        if \<not> own_supervisor ev then (a, [])
        else case supervisor_step ev sv of (sv, effs) \<Rightarrow> (a\<lparr>ma_ios := Some sv\<rparr>, map Ios_out effs))"
| "agent_handle cfg (Android_event ev) a = (case ma_android a of
      None \<Rightarrow> (a, [])
    | Some sv \<Rightarrow>
        if \<not> own_android_supervisor ev then (a, [])
        else case android_step (android_supervisorTuning cfg) ev sv of
          (sv, effs) \<Rightarrow> (a\<lparr>ma_android := Some sv\<rparr>, map Android_out effs))"
| "agent_handle cfg (Stream_event ev buffered) a =
    (if \<not> own_stream ev then (a, [])
     else case manager_step (streams_of cfg) ev (ma_streams a) of (m, outs) \<Rightarrow>
       for_each (relay_output buffered) outs (a\<lparr>ma_streams := m\<rparr>))"
| "agent_handle cfg Terminate_signal a = shutdown a"
| "agent_handle cfg Children_awaited a =
    (if \<not> ma_shuttingDown a then (a, []) else (a\<lparr>ma_exit := Some 0\<rparr>, [Exit_process 0]))"

definition agent_step :: "agent_config \<Rightarrow> agent_event \<Rightarrow> agent \<Rightarrow> agent \<times> agent_output list" where
  "agent_step cfg ev a = (if ma_exit a \<noteq> None then (a, []) else agent_handle cfg ev a)"

fun agent_run :: "agent_config \<Rightarrow> agent_event list \<Rightarrow> agent \<Rightarrow> agent \<times> agent_output list" where
  "agent_run cfg [] a = (a, [])"
| "agent_run cfg (ev # evs) a =
    (case agent_step cfg ev a of (a, out) \<Rightarrow> case agent_run cfg evs a of (a, rest) \<Rightarrow> (a, out @ rest))"

inductive agent_reached :: "agent_config \<Rightarrow> agent \<Rightarrow> bool" for cfg where
  start: "agent_reached cfg (agent_start cfg)"
| step: "agent_reached cfg a \<Longrightarrow> agent_reached cfg (fst (agent_step cfg ev a))"

section \<open>Every part stays in its own reachable states\<close>

definition ios_part :: "agent_config \<Rightarrow> supervisor option \<Rightarrow> bool" where
  "ios_part cfg ios \<longleftrightarrow> (case cf_supervisor cfg of
      None \<Rightarrow> ios = None
    | Some s \<Rightarrow> \<exists>sv. ios = Some sv \<and> supervised (nat (sc_basePort s)) sv)"

definition android_part :: "agent_config \<Rightarrow> android_supervisor option \<Rightarrow> bool" where
  "android_part cfg android \<longleftrightarrow> (case cf_android cfg of
      None \<Rightarrow> android = None
    | Some s \<Rightarrow> \<exists>sv. android = Some sv \<and> android_reached (ac_supervisorTuning s) (nat (ac_basePort s)) sv)"

definition executor_part :: "executor \<Rightarrow> bool" where
  "executor_part ex \<longleftrightarrow> (\<exists>evs. ex = fst (executor_run evs executor_init))"

definition agent_parts :: "agent_config \<Rightarrow> agent \<Rightarrow> bool" where
  "agent_parts cfg a \<longleftrightarrow> tunnel_reached (ma_tunnel a) \<and> ios_part cfg (ma_ios a) \<and> android_part cfg (ma_android a) \<and>
    managed (streams_of cfg) (ma_streams a) \<and> executor_part (ma_executor a)"

lemma executor_run_snoc: "fst (executor_run (evs @ [ev]) ex) = fst (executor_step ev (fst (executor_run evs ex)))"
  by (simp add: executor_run_append split_def)

lemma executor_part_step: "executor_part ex \<Longrightarrow> executor_part (fst (executor_step ev ex))"
  unfolding executor_part_def by (metis executor_run_snoc)

lemma ios_part_step: "ios_part cfg (Some sv) \<Longrightarrow> ios_part cfg (Some (fst (supervisor_step ev sv)))"
  by (auto simp: ios_part_def intro: supervised.step split: option.splits)

lemma android_part_step:
  "android_part cfg (Some sv) \<Longrightarrow> android_part cfg (Some (fst (android_step (android_supervisorTuning cfg) ev sv)))"
  by (auto simp: android_part_def android_supervisorTuning_def intro: android_reached.step split: option.splits)

lemma parts_start: "agent_parts cfg (agent_start cfg)"
proof -
  have "executor_part executor_init" unfolding executor_part_def by (rule exI [of _ "[]"]) simp
  then show ?thesis
    by (auto simp: agent_parts_def agent_start_def createSupervisor_def createAndroidSupervisor_def ios_part_def android_part_def
        intro: tunnel_reached.start supervised.init android_reached.init managed.init split: option.split)
qed

lemma parts_executor: "agent_parts cfg a \<Longrightarrow> agent_parts cfg (fst (drive_executor ev a))"
  by (simp add: agent_parts_def drive_executor_def split_def executor_part_step)

lemma parts_tunnel: "agent_parts cfg a \<Longrightarrow> agent_parts cfg (a\<lparr>ma_tunnel := fst (tunnel_step ev (ma_tunnel a))\<rparr>)"
  by (simp add: agent_parts_def tunnel_reached.step)

lemma parts_fields [simp]:
  "agent_parts cfg (a\<lparr>ma_gate := g\<rparr>) = agent_parts cfg a" "agent_parts cfg (a\<lparr>ma_inFlight := b\<rparr>) = agent_parts cfg a"
  "agent_parts cfg (a\<lparr>ma_exit := e\<rparr>) = agent_parts cfg a" "agent_parts cfg (a\<lparr>ma_adb := s\<rparr>) = agent_parts cfg a"
  "agent_parts cfg (a\<lparr>ma_discovery := d\<rparr>) = agent_parts cfg a" "agent_parts cfg (a\<lparr>ma_timers := b\<rparr>) = agent_parts cfg a"
  "agent_parts cfg (a\<lparr>ma_shuttingDown := b\<rparr>) = agent_parts cfg a"
  by (simp_all add: agent_parts_def)

lemma parts_callback: "agent_parts cfg a \<Longrightarrow> agent_parts cfg (fst (tunnel_callback now eff a))"
  by (simp add: tunnel_callback_def discover_begin_def parts_executor split_def split: tunnel_effect.split)

lemma parts_frame: "agent_parts cfg a \<Longrightarrow> agent_parts cfg (fst (uplink_frame buffered f a))"
  using parts_tunnel [of cfg a "Frame f (buffered (tn_sent (ma_tunnel a) + tn_dropped (ma_tunnel a)))"]
  by (simp add: uplink_frame_def tunnel_step_def split_def split: sum.split)

lemma parts_relay: "agent_parts cfg a \<Longrightarrow> agent_parts cfg (fst (relay_output buffered out a))"
  by (simp add: relay_output_def parts_frame split: mirror_output.split stream_effect.split mirror_effect.split)

lemma parts_streams:
  "agent_parts cfg a \<Longrightarrow> agent_parts cfg (a\<lparr>ma_streams := fst (manager_step (streams_of cfg) ev (ma_streams a))\<rparr>)"
  by (simp add: agent_parts_def managed.step)

lemma parts_ios:
  "agent_parts cfg a \<Longrightarrow> ma_ios a = Some sv \<Longrightarrow> agent_parts cfg (a\<lparr>ma_ios := Some (fst (supervisor_step ev sv))\<rparr>)"
  by (simp add: agent_parts_def ios_part_step)

lemma parts_android:
  "agent_parts cfg a \<Longrightarrow> ma_android a = Some sv \<Longrightarrow>
    agent_parts cfg (a\<lparr>ma_android := Some (fst (android_step (android_supervisorTuning cfg) ev sv))\<rparr>)"
  by (simp add: agent_parts_def android_part_step)

lemma parts_sync:
  "agent_parts cfg a \<Longrightarrow> agent_parts cfg (fst (sync_ios ok now ids a))"
  "agent_parts cfg a \<Longrightarrow> agent_parts cfg (fst (sync_android now ids a))"
  "agent_parts cfg a \<Longrightarrow> agent_parts cfg (fst (sync_streams cfg ids a))"
  using parts_ios [of cfg a _ "Sync_devices ok now ids"] parts_android [of cfg a _ "Android_sync now ids"]
    parts_streams [of cfg a "Sync_streams (aggregator_devices (ma_discovery a)) ids"]
  by (simp_all add: sync_ios_def sync_android_def sync_streams_def split_def split: option.split)

lemma parts_refresh: "agent_parts cfg a \<Longrightarrow> agent_parts cfg (fst (refresh_sources report stdout getProp a))"
  by (simp add: refresh_sources_def split_def)

lemma parts_discovered: "agent_parts cfg a \<Longrightarrow> agent_parts cfg (fst (discover_end cfg report stdout getProp ok now a))"
  by (simp add: discover_end_def split_def Let_def parts_sync parts_refresh)

lemma parts_shutdown: "agent_parts cfg a \<Longrightarrow> agent_parts cfg (fst (shutdown a))"
proof -
  assume parts: "agent_parts cfg a"
  let ?a = "fst (shutdown a)"
  have "managed (streams_of cfg) (fst (manager_stopAll object_stop (ma_streams a)))"
    using managed.step [of "streams_of cfg" "ma_streams a" Stop_streams] parts by (simp add: agent_parts_def)
  moreover have "tunnel_reached (fst (tunnel_close (ma_tunnel a)))"
    using tunnel_reached.step [of "ma_tunnel a" Shut_down] parts by (simp add: agent_parts_def tunnel_step_def)
  moreover have "ios_part cfg (Some (fst (supervisor_stopAll sv)))" if "ma_ios a = Some sv" for sv
    using ios_part_step [of cfg sv Stop_all_sessions] parts that by (simp add: agent_parts_def)
  moreover have "android_part cfg (Some (fst (android_stopAll sv)))" if "ma_android a = Some sv" for sv
    using android_part_step [of cfg sv Android_stop_all] parts that by (simp add: agent_parts_def)
  ultimately show ?thesis using parts
    by (cases "ma_ios a"; cases "ma_android a") (simp_all add: agent_parts_def shutdown_def split_def)
qed

theorem agent_parts_reached: "agent_reached cfg a \<Longrightarrow> agent_parts cfg a"
proof (induction rule: agent_reached.induct)
  case start
  show ?case by (rule parts_start)
next
  case (step a ev)
  have "agent_parts cfg (fst (agent_handle cfg ev a))"
  proof (cases ev)
    case (Tunnel_event e now)
    have "agent_parts cfg (fst (for_each (tunnel_callback now) effs (a\<lparr>ma_tunnel := fst (tunnel_step e (ma_tunnel a))\<rparr>)))" for effs
      by (intro for_each_inv [where P = "agent_parts cfg"] parts_callback parts_tunnel step.IH)
    then show ?thesis using Tunnel_event step.IH by (simp add: split_def)
  next
    case (Stream_event e buffered)
    have "agent_parts cfg (fst (for_each (relay_output buffered) outs
        (a\<lparr>ma_streams := fst (manager_step (streams_of cfg) e (ma_streams a))\<rparr>)))" for outs
      by (intro for_each_inv [where P = "agent_parts cfg"] parts_relay parts_streams step.IH)
    then show ?thesis using Stream_event step.IH by (simp add: split_def)
  qed (use step.IH in \<open>simp_all add: discover_begin_def parts_discovered parts_executor parts_ios parts_android
      parts_shutdown split_def split: option.split\<close>)
  then show ?case using step.IH by (simp add: agent_step_def)
qed

section \<open>After the shutdown\<close>

text \<open>The outputs that set something going: a child process, a connection, a message.\<close>

fun sets_going :: "agent_output \<Rightarrow> bool" where
  "sets_going (Tunnel_out Connect_socket) = True"
| "sets_going (Tunnel_out (Text j)) = True"
| "sets_going (Tunnel_out (Binary b)) = True"
| "sets_going (Ios_out (Spawned pid tool dev port)) = True"
| "sets_going (Android_out (Spawned_instrument pid dev)) = True"
| "sets_going (Stream_out (Ios_output (Spawn_helper c path args))) = True"
| "sets_going (Stream_out (Android_output (Spawn_daemon pid args))) = True"
| "sets_going (Stream_out (Android_output (Connect_mirror c port))) = True"
| "sets_going Start_discovery = True"
| "sets_going _ = False"

definition quiet :: "agent \<Rightarrow> bool" where
  "quiet a \<longleftrightarrow> ma_shuttingDown a \<and> \<not> ma_timers a \<and> \<not> ma_inFlight a \<and> tn_isClosed (ma_tunnel a) \<and>
    (\<forall>sv. ma_ios a = Some sv \<longrightarrow> sv_sessions sv = []) \<and> (\<forall>sv. ma_android a = Some sv \<longrightarrow> ad_sessions sv = []) \<and>
    sm_streams (ma_streams a) = []"

text \<open>Without a session the supervisors start nothing.\<close>

lemma stop_sessions: "sv_sessions (fst (stopSession k sv)) = jdel k (sv_sessions sv)"
  by (simp add: stopSession_def teardownProcesses_def jdel_absent split: option.split)

lemma stop_android_sessions: "ad_sessions (fst (android_stopSession k sv)) = jdel k (ad_sessions sv)"
  by (simp add: android_stopSession_def android_teardown_def Let_def jdel_absent split: option.split)

lemma stops_all:
  assumes "\<And>k s. sessions (fst (stop k s)) = jdel k (sessions s)"
  shows "sessions (fst (for_each stop ks s)) = filter (\<lambda>x. fst x \<notin> set ks) (sessions s)"
proof (induction ks arbitrary: s)
  case (Cons k ks)
  then show ?case by (auto simp: for_each_Cons assms jdel_filter intro: filter_cong)
qed simp

lemma stopAll_empty: "sv_sessions (fst (supervisor_stopAll sv)) = []" "ad_sessions (fst (android_stopAll sv')) = []"
  using stops_all [of sv_sessions stopSession, OF stop_sessions, of "jkeys (sv_sessions sv)" sv]
    stops_all [of ad_sessions android_stopSession, OF stop_android_sessions, of "jkeys (ad_sessions sv')" sv']
  by (auto simp: supervisor_stopAll_def android_stopAll_def jkeys_def filter_empty_conv)

lemma no_sessions_quiet:
  assumes "sv_sessions sv = []" "own_supervisor ev"
  shows "sv_sessions (fst (supervisor_step ev sv)) = [] \<and> (\<forall>e\<in>set (snd (supervisor_step ev sv)). \<not> sets_going (Ios_out e))"
  using assms
  by (cases ev) (auto simp: child_ended_def handleChildFailure_def live_session_def health_polled_def restart_elapsed_def
      escalation_elapsed_def await_turn_def await_over_def signalProcessTree_def split: if_splits)

lemma android_live_none: "ad_sessions sv = [] \<Longrightarrow> android_live sid sv = None"
  by (simp add: android_live_def)

lemma no_android_sessions_quiet:
  assumes "ad_sessions sv = []" "own_android_supervisor ev"
  shows "ad_sessions (fst (android_step T ev sv)) = [] \<and> (\<forall>e\<in>set (snd (android_step T ev sv)). \<not> sets_going (Android_out e))"
  using assms
  by (cases ev) (auto simp: adb_done_def after_install_def next_stage_def mark_installed_def launch_failed_def launch_stale_def
      drop_launch_def isStale_def android_live_none instrument_ended_def android_health_tick_def android_health_polled_def
      android_restart_elapsed_def cleanup_done_def android_await_turn_def android_await_over_def signal_instrument_def Let_def
      split: if_splits launch_stage.splits)

text \<open>A stream that is not running stays so and produces nothing.\<close>

definition mirror_idle :: "android_stream \<Rightarrow> bool" where
  "mirror_idle s \<longleftrightarrow> (\<not> as_active s \<longrightarrow> as_session s = None \<and> as_restart s = None)"

lemma mirror_reached_idle: "mirror_reached cfg s \<Longrightarrow> mirror_idle s"
proof (induction rule: mirror_reached.induct)
  case (step s ev)
  show ?case
  proof (cases "own_android ev \<and> \<not> as_active s")
    case True
    then show ?thesis using step.IH
      by (cases ev) (auto simp: own_android_def mirror_idle_def push_done_def forward_done_def daemon_ended_def socket_data_def
          socket_close_def connect_retry_def preamble_deadline_def mirror_current_def mirror_restart_elapsed_def
          mirror_await_turn_def Let_def split: option.split)
  next
    case False
    then consider "own_android ev" "as_active s" | "ev = Mirror_start" | "ev = Mirror_stop" by (auto simp: own_android_def)
    then show ?thesis
    proof cases
      case 1
      then show ?thesis using android_active [of ev cfg s] by (simp add: mirror_idle_def)
    next
      case 2
      then show ?thesis by (simp add: mirror_start_def mirror_launch_def mirror_idle_def)
    next
      case 3
      then show ?thesis by (simp add: mirror_stop_def split_def mirror_idle_def)
    qed
  qed
qed (simp add: mirror_new_def mirror_idle_def)

lemma stopped_stream_quiet:
  assumes "\<not> object_running obj" "object_lived obj" "e \<in> set (snd (object_callback ev obj))"
  shows "\<not> sets_going (Stream_out e) \<and> (\<forall>f. e \<noteq> Ios_output (Emit_frame f)) \<and> (\<forall>f. e \<noteq> Android_output (Mirror_frame f))"
proof (cases obj)
  case (Ios_mirror cfg s)
  then obtain i ev' e' where ev: "ev = Ios_callback i ev'" and e: "e = Ios_output e'" "e' \<in> set (snd (h264_step cfg ev' s))"
    using assms(3) by (auto simp: object_callback_def split_def split: manager_event.splits if_splits)
  have "\<not> hs_active s" using assms(1) Ios_mirror by simp
  then show ?thesis
    using e frames_only_stdout [of _ cfg ev' s] spawn_only_restart [of _ _ _ cfg ev' s] by (cases e') auto
next
  case (Android_mirror cfg s)
  then obtain i ev' e' where ev: "ev = Android_callback i ev'" "own_android ev'"
    and e: "e = Android_output e'" "e' \<in> set (snd (mirror_step cfg ev' s))"
    using assms(3) by (auto simp: object_callback_def split_def split: manager_event.splits if_splits)
  have "\<not> as_active s" "mirror_idle s" using assms(1,2) Android_mirror mirror_reached_idle by auto
  then have "\<not> stream_output e'" using no_session_quiet [OF _ _ _ _ e(2)] ev(2) by (auto simp: mirror_idle_def own_android_def)
  then show ?thesis using e by (cases e') auto
qed

lemma for_each_all:
  assumes "\<And>x s. x \<in> set xs \<Longrightarrow> P s \<Longrightarrow> P (fst (f x s)) \<and> (\<forall>e\<in>set (snd (f x s)). Q e)" "P s"
  shows "P (fst (for_each f xs s)) \<and> (\<forall>e\<in>set (snd (for_each f xs s)). Q e)"
  using assms
proof (induction xs arbitrary: s)
  case (Cons x xs)
  have x: "P (fst (f x s)) \<and> (\<forall>e\<in>set (snd (f x s)). Q e)" by (rule Cons.prems(1) [OF _ Cons.prems(2)]) simp
  have "P (fst (for_each f xs (fst (f x s)))) \<and> (\<forall>e\<in>set (snd (for_each f xs (fst (f x s)))). Q e)"
    by (rule Cons.IH) (use Cons.prems(1) x in auto)
  then show ?case using x by (auto simp: for_each_Cons)
qed simp

definition silent :: "agent \<Rightarrow> bool" where
  "silent a \<longleftrightarrow> quiet a \<and> tunnel_inv (ma_tunnel a)"

lemma silent_closed: "silent a \<Longrightarrow> tn_phase (ma_tunnel a) \<noteq> Open_ready"
  by (auto simp: silent_def quiet_def tunnel_inv_def)

lemma silent_fields [simp]:
  "silent (a\<lparr>ma_executor := x\<rparr>) = silent a" "silent (a\<lparr>ma_gate := g\<rparr>) = silent a" "silent (a\<lparr>ma_exit := c\<rparr>) = silent a"
  by (simp_all add: silent_def quiet_def)

lemma silent_executor: "silent a \<Longrightarrow> silent (fst (drive_executor ev a)) \<and> (\<forall>e\<in>set (snd (drive_executor ev a)). \<not> sets_going e)"
  using silent_closed [of a]
  by (auto simp: drive_executor_def split_def settle_output_def sendOutcome_def tunnel_send_def split: executor_output.splits)

lemma silent_callback:
  assumes "silent a" "eff \<noteq> Connect_socket" "eff \<noteq> On_open" "\<And>j. eff \<noteq> Text j" "\<And>b. eff \<noteq> Binary b"
  shows "silent (fst (tunnel_callback now eff a)) \<and> (\<forall>e\<in>set (snd (tunnel_callback now eff a)). \<not> sets_going e)"
  using assms silent_executor [OF assms(1)] by (cases eff) (auto simp: tunnel_callback_def split_def)

lemma silent_relay:
  assumes "silent a" "\<not> sets_going (Stream_out out)"
  shows "silent (fst (relay_output buffered out a)) \<and> (\<forall>e\<in>set (snd (relay_output buffered out a)). \<not> sets_going e)"
proof -
  have frame: "uplink_frame buffered f a = (a, [])" for f
    using silent_closed [OF assms(1)] by (simp add: uplink_frame_def sendFrame_def)
  show ?thesis
    using assms by (auto simp: relay_output_def frame split: mirror_output.split stream_effect.split mirror_effect.split)
qed

lemma silent_stream_step:
  assumes "agent_parts cfg a" "silent a" "own_stream ev"
  shows "silent (a\<lparr>ma_streams := fst (manager_step (streams_of cfg) ev (ma_streams a))\<rparr>) \<and>
    (\<forall>e\<in>set (snd (manager_step (streams_of cfg) ev (ma_streams a))). \<not> sets_going (Stream_out e))"
proof -
  have m: "managed_inv (streams_of cfg) (ma_streams a)" and none: "sm_streams (ma_streams a) = []"
    using assms(1,2) managed_holds by (auto simp: agent_parts_def silent_def quiet_def)
  have quiet: "\<not> sets_going (Stream_out e)"
    if "i < length (sm_objects (ma_streams a))" "e \<in> set (snd (object_callback ev (sm_objects (ma_streams a) ! i)))" for i e
    using stopped_stream_quiet [OF _ _ that(2)] m none that(1)
    by (auto simp: managed_inv_def manager_inv_def objects_ok_def)
  have "sm_streams (fst (manager_callback i ev (ma_streams a))) = [] \<and>
      (\<forall>e\<in>set (snd (manager_callback i ev (ma_streams a))). \<not> sets_going (Stream_out e))" for i
    using none quiet [of i] by (auto simp: manager_callback_def split_def)
  then show ?thesis using assms(2,3) by (cases ev) (auto simp: silent_def quiet_def)
qed

lemma silent_step:
  assumes parts: "agent_parts cfg a" and silent: "silent a"
  shows "silent (fst (agent_step cfg ev a)) \<and> (\<forall>e\<in>set (snd (agent_step cfg ev a)). \<not> sets_going e)"
proof -
  have q: "quiet a" "tunnel_inv (ma_tunnel a)" using silent by (simp_all add: silent_def)
  have "silent (fst (agent_handle cfg ev a)) \<and> (\<forall>e\<in>set (snd (agent_handle cfg ev a)). \<not> sets_going e)"
  proof (cases ev)
    case (Tunnel_event e now)
    note t = closed_stays_silent [OF _ q(2), of e]
    have a': "silent (a\<lparr>ma_tunnel := fst (tunnel_step e (ma_tunnel a))\<rparr>)"
      using q t tunnel_step_inv [OF q(2), of e] by (simp add: silent_def quiet_def)
    have "silent (fst (for_each (tunnel_callback now) (snd (tunnel_step e (ma_tunnel a)))
          (a\<lparr>ma_tunnel := fst (tunnel_step e (ma_tunnel a))\<rparr>))) \<and>
        (\<forall>x\<in>set (snd (for_each (tunnel_callback now) (snd (tunnel_step e (ma_tunnel a)))
          (a\<lparr>ma_tunnel := fst (tunnel_step e (ma_tunnel a))\<rparr>))). \<not> sets_going x)"
      by (rule for_each_all [where P = silent, OF silent_callback a']) (use t q in \<open>auto simp: quiet_def\<close>)
    then show ?thesis using Tunnel_event silent by (simp add: split_def)
  next
    case (Stream_event e buffered)
    show ?thesis
    proof (cases "own_stream e")
      case True
      note s = silent_stream_step [OF parts silent True]
      have "silent (fst (for_each (relay_output buffered) (snd (manager_step (streams_of cfg) e (ma_streams a)))
            (a\<lparr>ma_streams := fst (manager_step (streams_of cfg) e (ma_streams a))\<rparr>))) \<and>
          (\<forall>x\<in>set (snd (for_each (relay_output buffered) (snd (manager_step (streams_of cfg) e (ma_streams a)))
            (a\<lparr>ma_streams := fst (manager_step (streams_of cfg) e (ma_streams a))\<rparr>))). \<not> sets_going x)"
        by (rule for_each_all [where P = silent, OF silent_relay]) (use s in auto)
      then show ?thesis using True Stream_event by (simp add: split_def)
    qed (use Stream_event silent in simp)
  next
    case (Ios_event e)
    then show ?thesis using q no_sessions_quiet [of _ e] silent
      by (auto simp: silent_def quiet_def split_def split: option.split)
  next
    case (Android_event e)
    then show ?thesis using q no_android_sessions_quiet [of _ e "android_supervisorTuning cfg"] silent
      by (auto simp: silent_def quiet_def split_def split: option.split)
  qed (use silent silent_executor [OF silent] q in \<open>auto simp: quiet_def discover_end_def shutdown_def\<close>)
  then show ?thesis using silent by (simp add: agent_step_def)
qed

lemma agent_reached_run: "agent_reached cfg a \<Longrightarrow> agent_reached cfg (fst (agent_run cfg evs a))"
  by (induction evs arbitrary: a) (auto simp: split_def intro: agent_reached.step)

lemma silent_run:
  "agent_reached cfg a \<Longrightarrow> silent a \<Longrightarrow>
    silent (fst (agent_run cfg evs a)) \<and> (\<forall>e\<in>set (snd (agent_run cfg evs a)). \<not> sets_going e)"
proof (induction evs arbitrary: a)
  case (Cons ev evs)
  have "silent (fst (agent_step cfg ev a)) \<and> (\<forall>e\<in>set (snd (agent_step cfg ev a)). \<not> sets_going e)"
    by (rule silent_step [OF agent_parts_reached [OF Cons.prems(1)] Cons.prems(2)])
  then show ?case using Cons.IH [OF agent_reached.step [OF Cons.prems(1), of ev]] by (auto simp: split_def)
qed simp

lemma shutdown_silent:
  assumes "agent_parts cfg a" "\<not> ma_shuttingDown a" "\<not> ma_inFlight a"
  shows "silent (fst (shutdown a))"
proof -
  have m: "manager_inv object_running (ma_streams a)" and t: "tunnel_reached (ma_tunnel a)"
    using assms(1) managed_holds by (auto simp: agent_parts_def managed_inv_def)
  have "sm_streams (fst (manager_stopAll object_stop (ma_streams a))) = []"
    using mirror.stop_entries [OF m refl] by (simp add: manager_stopAll_def)
  moreover have "tunnel_inv (fst (tunnel_close (ma_tunnel a)))"
    using tunnel_step_inv [OF tunnel_reached_inv [OF t], of Shut_down] by (simp add: tunnel_step_def)
  moreover have "tn_isClosed (fst (tunnel_close (ma_tunnel a)))"
    by (simp add: tunnel_close_def stopConnectionTimers_def)
  ultimately show ?thesis
    using assms(2,3)
    by (cases "ma_ios a"; cases "ma_android a")
      (simp_all add: silent_def quiet_def shutdown_def split_def stopAll_empty)
qed

lemma loaded_tuning_ok: "loadConfig h env = Inr cfg \<Longrightarrow> cf_android cfg = Some s \<Longrightarrow> tuning_ok (ac_supervisorTuning s)"
  using loaded_parts(7) [of h env cfg] android_config_bounds [of h env s] by simp

text \<open>What the shutdown signals: every process that is alive in a session, and whatever a running stream's \<open>stop\<close> does.\<close>

lemma for_each_emits:
  assumes "x \<in> set xs" "I s" "\<And>s. I s \<Longrightarrow> e \<in> set (snd (f x s))" "\<And>y s. y \<in> set xs \<Longrightarrow> y \<noteq> x \<Longrightarrow> I s \<Longrightarrow> I (fst (f y s))"
  shows "e \<in> set (snd (for_each f xs s))"
  using assms
proof (induction xs arbitrary: s)
  case (Cons y ys)
  show ?case
  proof (cases "y = x")
    case False
    then have "e \<in> set (snd (for_each f ys (fst (f y s))))" using Cons.prems by (intro Cons.IH) auto
    then show ?thesis by (simp add: for_each_Cons)
  qed (use Cons.prems in \<open>simp add: for_each_Cons\<close>)
qed simp

lemma stopAll_signals:
  assumes "sv_inv base sv" "pid < sv_nextPid sv" "pid \<notin> set (sv_exited sv)" "pid \<notin> set (sv_terminating sv)"
  shows "Signalled pid SIGTERM \<in> set (snd (supervisor_stopAll sv))"
proof -
  obtain d s where d: "(d, s) \<in> set (sv_sessions sv)" "pid \<in> set (children s)"
    using assms by (auto simp: sv_inv_def owned_def)
  then have get: "jget (sv_sessions sv) d = Some s" using assms(1) by (intro jget_in_wf) (simp_all add: sv_inv_def sv_slots_def)
  show ?thesis unfolding supervisor_stopAll_def
  proof (rule for_each_emits [where x = d and I = "\<lambda>v. jget (sv_sessions v) d = Some s \<and> pid \<notin> set (sv_exited v)"])
    show "d \<in> set (jkeys (sv_sessions sv))" using get by (simp add: jkeys_iff)
    show "Signalled pid SIGTERM \<in> set (snd (stopSession d v))" if "jget (sv_sessions v) d = Some s \<and> pid \<notin> set (sv_exited v)" for v
      using that d(2) by (auto simp: stopSession_def teardownProcesses_def signalProcessTree_def)
  qed (use assms(3) get in \<open>auto simp: stopSession_def teardownProcesses_def split: option.split\<close>)
qed

lemma android_stopAll_signals:
  assumes "ad_inv T base sv" "pid < ad_nextPid sv" "pid \<notin> set (ad_exited sv)" "pid \<notin> set (ad_terminating sv)"
  shows "Signalled_instrument pid SIGTERM \<in> set (snd (android_stopAll sv))"
proof -
  obtain d s where d: "(d, s) \<in> set (ad_sessions sv)" "an_instrument s = Some pid"
    using assms by (auto simp: ad_inv_def runs_in_def)
  then have get: "jget (ad_sessions sv) d = Some s" using assms(1) by (intro jget_in_wf) (simp_all add: ad_inv_def ad_slots_def)
  show ?thesis unfolding android_stopAll_def
  proof (rule for_each_emits [where x = d and I = "\<lambda>v. jget (ad_sessions v) d = Some s \<and> pid \<notin> set (ad_exited v)"])
    show "d \<in> set (jkeys (ad_sessions sv))" using get by (simp add: jkeys_iff)
    show "Signalled_instrument pid SIGTERM \<in> set (snd (android_stopSession d v))"
      if "jget (ad_sessions v) d = Some s \<and> pid \<notin> set (ad_exited v)" for v
      using that d(2) by (simp add: android_stopSession_def android_teardown_def signal_instrument_def Let_def)
  qed (use assms(3) get in \<open>auto simp: android_stopSession_def android_teardown_def Let_def split: option.split\<close>)
qed

lemma stopAll_stops:
  assumes "manager_inv running m" "jget (sm_streams m) d = Some i" "e \<in> set (snd (stop (sm_objects m ! i)))"
  shows "e \<in> set (snd (manager_stopAll stop m))"
proof -
  have other: "snd y \<noteq> i" if "y \<in> set (sm_streams m)" "y \<noteq> (d, i)" for y
    using that assms(1) jget_Some_in [OF assms(2)] inj_onD [of snd "set (sm_streams m)" y "(d, i)"]
    by (auto simp: manager_inv_def distinct_map)
  show ?thesis unfolding manager_stopAll_def
    by (rule for_each_emits [where x = "(d, i)" and I = "\<lambda>n. sm_objects n ! i = sm_objects m ! i"])
      (use jget_Some_in [OF assms(2)] assms(3) other in \<open>auto simp: manager_stop_entry_def split_def\<close>)
qed

text \<open>The list of the stopped streams, which \<open>awaitTermination\<close> waits for, stays what the shutdown made it.\<close>

lemma callback_streams: "ma_streams (fst (tunnel_callback now eff a)) = ma_streams a"
  by (simp add: tunnel_callback_def discover_begin_def drive_executor_def split_def split: tunnel_effect.split)

lemma relay_streams: "ma_streams (fst (relay_output buffered out a)) = ma_streams a"
  by (simp add: relay_output_def uplink_frame_def split_def split: mirror_output.split stream_effect.split mirror_effect.split sum.split)

lemma silent_stopped:
  assumes "silent a"
  shows "sm_stopped (ma_streams (fst (agent_step cfg ev a))) = sm_stopped (ma_streams a)"
proof -
  have q: "ma_shuttingDown a" "\<not> ma_timers a" "\<not> ma_inFlight a" using assms by (simp_all add: silent_def quiet_def)
  have "sm_stopped (ma_streams (fst (agent_handle cfg ev a))) = sm_stopped (ma_streams a)"
  proof (cases ev)
    case (Tunnel_event e now)
    have "ma_streams (fst (for_each (tunnel_callback now) effs (a\<lparr>ma_tunnel := t\<rparr>))) = ma_streams a" for effs t
      by (rule for_each_inv [where P = "\<lambda>b. ma_streams b = ma_streams a"]) (simp_all add: callback_streams)
    then show ?thesis using Tunnel_event by (simp add: split_def)
  next
    case (Stream_event e buffered)
    have "ma_streams (fst (for_each (relay_output buffered) outs (a\<lparr>ma_streams := m\<rparr>))) = m" for outs m
      by (rule for_each_inv [where P = "\<lambda>b. ma_streams b = m"]) (simp_all add: relay_streams)
    then show ?thesis using Stream_event
      by (cases e) (simp_all add: split_def manager_callback_def)
  qed (use q in \<open>simp_all add: discover_end_def shutdown_def drive_executor_def split_def split: option.split\<close>)
  then show ?thesis by (simp add: agent_step_def)
qed

lemma silent_run_stopped:
  "agent_reached cfg a \<Longrightarrow> silent a \<Longrightarrow> sm_stopped (ma_streams (fst (agent_run cfg evs a))) = sm_stopped (ma_streams a)"
proof (induction evs arbitrary: a)
  case (Cons ev evs)
  then show ?case
    using silent_step [OF agent_parts_reached [OF Cons.prems(1)] Cons.prems(2), of ev] silent_stopped [OF Cons.prems(2), of cfg ev]
    by (simp add: split_def agent_reached.step)
qed simp

lemma shutdown_signals:
  assumes "agent_parts cfg a" "loadConfig h env = Inr cfg" "\<not> ma_shuttingDown a"
  shows "ma_ios a = Some sv \<Longrightarrow> pid < sv_nextPid sv \<Longrightarrow> pid \<notin> set (sv_exited sv) \<Longrightarrow> pid \<notin> set (sv_terminating sv) \<Longrightarrow>
      Ios_out (Signalled pid SIGTERM) \<in> set (snd (shutdown a))"
    and "ma_android a = Some av \<Longrightarrow> pid < ad_nextPid av \<Longrightarrow> pid \<notin> set (ad_exited av) \<Longrightarrow> pid \<notin> set (ad_terminating av) \<Longrightarrow>
      Android_out (Signalled_instrument pid SIGTERM) \<in> set (snd (shutdown a))"
    and "jget (sm_streams (ma_streams a)) d = Some i \<Longrightarrow>
      Stream_out ` set (snd (object_stop (sm_objects (ma_streams a) ! i))) \<subseteq> set (snd (shutdown a)) \<and>
      i \<in> set (sm_stopped (ma_streams (fst (shutdown a))))"
proof -
  assume "ma_ios a = Some sv" "pid < sv_nextPid sv" "pid \<notin> set (sv_exited sv)" "pid \<notin> set (sv_terminating sv)"
  moreover from this obtain base where "supervised base sv" using assms(1) by (auto simp: agent_parts_def ios_part_def split: option.splits)
  ultimately have "Signalled pid SIGTERM \<in> set (snd (supervisor_stopAll sv))" by (intro stopAll_signals [OF supervised_inv])
  then show "Ios_out (Signalled pid SIGTERM) \<in> set (snd (shutdown a))"
    using assms(3) \<open>ma_ios a = Some sv\<close> by (auto simp: shutdown_def split_def)
next
  assume av: "ma_android a = Some av" "pid < ad_nextPid av" "pid \<notin> set (ad_exited av)" "pid \<notin> set (ad_terminating av)"
  then obtain s where s: "cf_android cfg = Some s" "android_reached (ac_supervisorTuning s) (nat (ac_basePort s)) av"
    using assms(1) by (auto simp: agent_parts_def android_part_def split: option.splits)
  have "Signalled_instrument pid SIGTERM \<in> set (snd (android_stopAll av))"
    by (rule android_stopAll_signals [OF android_reached_inv [OF s(2) loaded_tuning_ok [OF assms(2) s(1)]] av(2-4)])
  then show "Android_out (Signalled_instrument pid SIGTERM) \<in> set (snd (shutdown a))"
    using assms(3) av(1) by (auto simp: shutdown_def split_def)
next
  assume i: "jget (sm_streams (ma_streams a)) d = Some i"
  have m: "manager_inv object_running (ma_streams a)" using assms(1) managed_holds by (auto simp: agent_parts_def managed_inv_def)
  have "i \<in> set (sm_stopped (fst (manager_stopAll object_stop (ma_streams a))))"
    using mirror.stop_entries [OF m refl] jget_Some_in [OF i] by (force simp: manager_stopAll_def)
  then show "Stream_out ` set (snd (object_stop (sm_objects (ma_streams a) ! i))) \<subseteq> set (snd (shutdown a)) \<and>
      i \<in> set (sm_stopped (ma_streams (fst (shutdown a))))"
    using assms(3) stopAll_stops [OF m i, of _ object_stop] by (auto simp: shutdown_def split_def)
qed

text \<open>Without sessions, the processes a supervisor ever started have exited or are awaited.\<close>

lemma awaited_children:
  assumes "agent_parts cfg a" "silent a" "loadConfig h env = Inr cfg"
  shows "(ma_ios a = Some sv \<longrightarrow> pid < sv_nextPid sv \<longrightarrow> pid \<in> set (sv_exited sv) \<union> set (sv_terminating sv)) \<and>
    (ma_android a = Some av \<longrightarrow> pid < ad_nextPid av \<longrightarrow> pid \<in> set (ad_exited av) \<union> set (ad_terminating av))"
proof (intro conjI impI)
  assume sv: "ma_ios a = Some sv" "pid < sv_nextPid sv"
  then obtain base where "supervised base sv" using assms(1) by (auto simp: agent_parts_def ios_part_def split: option.splits)
  then have "sv_inv base sv" by (rule supervised_inv)
  moreover have "sv_sessions sv = []" using assms(2) sv by (simp add: silent_def quiet_def)
  ultimately show "pid \<in> set (sv_exited sv) \<union> set (sv_terminating sv)" using sv(2) by (auto simp: sv_inv_def owned_def)
next
  assume av: "ma_android a = Some av" "pid < ad_nextPid av"
  then obtain s where s: "cf_android cfg = Some s" "android_reached (ac_supervisorTuning s) (nat (ac_basePort s)) av"
    using assms(1) by (auto simp: agent_parts_def android_part_def split: option.splits)
  have "ad_inv (ac_supervisorTuning s) (nat (ac_basePort s)) av"
    by (rule android_reached_inv [OF s(2) loaded_tuning_ok [OF assms(3) s(1)]])
  moreover have "ad_sessions av = []" using assms(2) av by (simp add: silent_def quiet_def)
  ultimately show "pid \<in> set (ad_exited av) \<union> set (ad_terminating av)" using av(2) by (auto simp: ad_inv_def runs_in_def)
qed



section \<open>A discovery that ends after the shutdown\<close>

text \<open>
  \<open>discoverAndRegister\<close> does not look at \<open>isShuttingDown\<close> when its await ends. A discovery under way when the
  Agent is told to end therefore starts the sessions and streams of the devices it finds after \<open>stopAll\<close>, and
  \<open>process.exit\<close> leaves their processes behind: they have neither exited nor been signalled nor awaited.
\<close>

definition sample_ios_config :: agent_config where
  "sample_ios_config = \<lparr>cf_serverUrl = ''ws://s/agent'', cf_agentToken = ''0123456789abcdef01234567'', cf_agentId = ''mac'',
     cf_discoveryIntervalMs = 20000, cf_heartbeatIntervalMs = 25000, cf_staticDevices = [],
     cf_supervisor = Some \<lparr>sc_projectPath = ''p'', sc_scheme = ''NebulaController'', sc_basePort = 8200,
       sc_derivedDataDir = ''d'', sc_logDir = ''l'', sc_healthIntervalMs = 10000\<rparr>,
     cf_mirrorHelperPath = ''helper'', cf_controllerToken = None, cf_android = None\<rparr>"

definition sample_report :: json where
  "sample_report = JObj [(''result'', JObj [(''devices'', JArr [JObj
     [(''hardwareProperties'', JObj [(''udid'', JStr ''d1''), (''platform'', JStr ''ios'')]),
      (''deviceProperties'', JObj [(''name'', JStr ''phone''), (''osVersionNumber'', JStr ''17'')]),
      (''connectionProperties'', JObj [(''pairingState'', JStr ''paired'')])]])])]"

lemma sample_report_devices: "ios_discover (Some sample_report) =
    Some [\<lparr>rd_id = ''d1'', rd_name = ''phone'', rd_platform = Ios, rd_osVersion = ''17'', rd_tags = []\<rparr>]"
  by (simp add: ios_discover_def parseDevicectlOutput_def sample_report_def getRecord_def getString_def jget_def isConnected_def
      List.map_filter_def ios_toRegisterInput_def nonempty_text_def isIosPlatform_def lower_char_def code_def Let_def)

definition late_discovery :: "agent_event list" where
  "late_discovery = [Tunnel_event Opened 0, Terminate_signal,
     Discovery_done (Some sample_report) None (\<lambda>_. None) (\<lambda>_. True) 7, Children_awaited]"

lemma for_each_one: "for_each f [x] s = f x s"
  by (simp add: for_each_Cons)

definition late_begun :: agent where
  "late_begun = (agent_start sample_ios_config)\<lparr>ma_tunnel := fst (on_open (fst (tunnel_connect tunnel_init))), ma_inFlight := True\<rparr>"

lemma late_begun: "agent_step sample_ios_config (Tunnel_event Opened 0) (agent_start sample_ios_config) = (late_begun, [Start_discovery])"
  by (simp add: agent_step_def agent_start_def tunnel_step_def tunnel_connect_def tunnel_init_def on_open_def for_each_one
      tunnel_callback_def discover_begin_def late_begun_def)

definition late_ended :: agent where
  "late_ended = late_begun\<lparr>ma_shuttingDown := True, ma_timers := False, ma_tunnel := fst (tunnel_close (ma_tunnel late_begun))\<rparr>"

lemma late_ended: "agent_step sample_ios_config Terminate_signal late_begun = (late_ended, [Tunnel_out Close_socket])"
  by (simp add: agent_step_def late_begun_def late_ended_def agent_start_def sample_ios_config_def shutdown_def manager_stopAll_def
      manager_new_def createSupervisor_def createAndroidSupervisor_def supervisor_stopAll_def supervisor_init_def jkeys_def
      tunnel_close_def on_open_def tunnel_connect_def tunnel_init_def)

definition late_sync :: "supervisor \<times> process_effect list" where
  "late_sync = syncDevices (\<lambda>_. True) 7 [''d1''] (supervisor_init 8200)"

lemma late_sync: "\<exists>sv. late_sync = (sv, [Spawned 0 ''xcodebuild'' ''d1'' 8200, Spawned 1 ''iproxy'' ''d1'' 8200]) \<and>
    sv_exited sv = [] \<and> sv_terminating sv = []"
  by (simp add: late_sync_def syncDevices_def js_set_def for_each_one start_missing_def stop_gone_def startSession_def
      allocatePort_def launchProcesses_def put_session_def supervisor_init_def jhas_def jkeys_def Let_def)

lemma late_refresh:
  "\<exists>b. refresh_sources (Some sample_report) None (\<lambda>_. None) late_ended = (b, True) \<and>
    discoveredIds Ios (ma_discovery b) = [''d1''] \<and> ma_ios b = Some (supervisor_init 8200) \<and> ma_android b = None \<and>
    ma_exit b = None \<and> ma_shuttingDown b"
  by (simp add: refresh_sources_def sample_report_devices aggregator_refresh_def late_ended_def late_begun_def agent_start_def
      aggregator_init_def createDiscoverySources_def createSupervisor_def createAndroidSupervisor_def sample_ios_config_def
      discovery_apply_def discovery_init_def discoveredIds_def)

lemma late_found:
  "\<exists>a out sv. agent_step sample_ios_config (Discovery_done (Some sample_report) None (\<lambda>_. None) (\<lambda>_. True) 7) late_ended =
      (a, [Ios_out (Spawned 0 ''xcodebuild'' ''d1'' 8200), Ios_out (Spawned 1 ''iproxy'' ''d1'' 8200)] @ out) \<and>
    (\<forall>sig. Ios_out (Signalled 0 sig) \<notin> set out) \<and> ma_ios a = Some sv \<and> sv_exited sv = [] \<and> sv_terminating sv = [] \<and>
    ma_exit a = None \<and> ma_shuttingDown a"
proof -
  obtain b where b: "refresh_sources (Some sample_report) None (\<lambda>_. None) late_ended = (b, True)"
    "discoveredIds Ios (ma_discovery b) = [''d1'']" "ma_ios b = Some (supervisor_init 8200)" "ma_android b = None"
    "ma_exit b = None" "ma_shuttingDown b" using late_refresh by blast
  obtain sv where sv: "syncDevices (\<lambda>_. True) 7 [''d1''] (supervisor_init 8200) =
      (sv, [Spawned 0 ''xcodebuild'' ''d1'' 8200, Spawned 1 ''iproxy'' ''d1'' 8200])" "sv_exited sv = []" "sv_terminating sv = []"
    using late_sync by (auto simp: late_sync_def)
  have on: "ma_inFlight late_ended" "ma_exit late_ended = None"
    by (simp_all add: late_ended_def late_begun_def agent_start_def)
  show ?thesis
    using b sv on
    by (auto simp: agent_step_def discover_end_def sync_ios_def sync_android_def sync_streams_def Let_def split_def)
qed

theorem late_discovery_leaves_processes:
  "let a = fst (agent_run sample_ios_config late_discovery (agent_start sample_ios_config));
       out = snd (agent_run sample_ios_config late_discovery (agent_start sample_ios_config)) in
    ma_exit a = Some 0 \<and> Ios_out (Spawned 0 ''xcodebuild'' ''d1'' 8200) \<in> set out \<and>
    (\<forall>sig. Ios_out (Signalled 0 sig) \<notin> set out) \<and>
    (\<exists>sv. ma_ios a = Some sv \<and> 0 \<notin> set (sv_exited sv) \<and> 0 \<notin> set (sv_terminating sv))"
proof -
  obtain a out sv where a: "agent_step sample_ios_config (Discovery_done (Some sample_report) None (\<lambda>_. None) (\<lambda>_. True) 7) late_ended =
      (a, [Ios_out (Spawned 0 ''xcodebuild'' ''d1'' 8200), Ios_out (Spawned 1 ''iproxy'' ''d1'' 8200)] @ out)"
    "\<forall>sig. Ios_out (Signalled 0 sig) \<notin> set out" "ma_ios a = Some sv" "sv_exited sv = []" "sv_terminating sv = []"
    "ma_exit a = None" "ma_shuttingDown a" using late_found by blast
  have "agent_step sample_ios_config Children_awaited a = (a\<lparr>ma_exit := Some 0\<rparr>, [Exit_process 0])"
    using a by (simp add: agent_step_def)
  then have run: "agent_run sample_ios_config late_discovery (agent_start sample_ios_config) =
      (a\<lparr>ma_exit := Some 0\<rparr>, [Start_discovery, Tunnel_out Close_socket, Ios_out (Spawned 0 ''xcodebuild'' ''d1'' 8200),
         Ios_out (Spawned 1 ''iproxy'' ''d1'' 8200)] @ out @ [Exit_process 0])"
    using a(1) by (simp add: late_discovery_def late_begun late_ended)
  show ?thesis unfolding run Let_def using a by simp
qed

section \<open>Which frames leave\<close>

text \<open>A frame comes from a running stream and is of that stream's device.\<close>

lemma frame_source:
  assumes "object_lived obj" "e \<in> set (snd (object_callback ev obj))" "e = Ios_output (Emit_frame f) \<or> e = Android_output (Mirror_frame f)"
  shows "object_running obj \<and> object_device obj = af_deviceId f"
proof
  show "object_running obj" using stopped_stream_quiet [OF _ assms(1,2)] assms(3) by blast
  show "object_device obj = af_deviceId f"
  proof (cases obj)
    case (Ios_mirror cfg s)
    then obtain e' where "Emit_frame f \<in> set (snd (h264_step cfg e' s))"
      using assms(2,3) by (auto simp: object_callback_def split_def split: manager_event.splits if_splits)
    from frames_only_stdout [OF this] show ?thesis using Ios_mirror by (auto simp: h264_frame_def)
  next
    case (Android_mirror cfg s)
    then obtain e' where "Mirror_frame f \<in> set (snd (mirror_step cfg e' s))"
      using assms(2,3) by (auto simp: object_callback_def split_def split: manager_event.splits if_splits)
    from frames_only_data [OF this] show ?thesis using Android_mirror by (auto simp: mirror_frame_def)
  qed
qed

text \<open>
  The frames of a turn that the demand lets through, in order; \<open>fits\<close> are the limits of the send queue. The
  \<open>j\<close>-th of them finds the queue as \<open>buffered\<close> tells it for the number of frames sent and dropped before it.
\<close>

definition demanded_frames :: "demand_gate \<Rightarrow> mirror_output list \<Rightarrow> agent_frame list" where
  "demanded_frames gate outs = filter (\<lambda>f. dg_hasSnapshot gate \<longrightarrow> af_deviceId f \<in> set (dg_demanded gate))
    (List.map_filter (\<lambda>out. case out of
        Ios_output (Emit_frame f) \<Rightarrow> Some f | Android_output (Mirror_frame f) \<Rightarrow> Some f | _ \<Rightarrow> None) outs)"

definition fits :: "nat \<Rightarrow> agent_frame \<Rightarrow> bool" where
  "fits queued f \<longleftrightarrow> queued \<le> 2 * 1024 * 1024 \<and> (af_isKey f \<or> queued \<le> 512 * 1024)"

abbreviation tried :: "agent \<Rightarrow> nat" where
  "tried a \<equiv> tn_sent (ma_tunnel a) + tn_dropped (ma_tunnel a)"

lemma demanded_Nil [simp]: "demanded_frames gate [] = []"
  by (simp add: demanded_frames_def List.map_filter_def)

lemma demanded_source:
  "f \<in> set (demanded_frames gate outs) \<Longrightarrow>
    (Ios_output (Emit_frame f) \<in> set outs \<or> Android_output (Mirror_frame f) \<in> set outs) \<and>
    (dg_hasSnapshot gate \<longrightarrow> af_deviceId f \<in> set (dg_demanded gate))"
proof -
  have "(case out of Ios_output (Emit_frame f) \<Rightarrow> Some f | Android_output (Mirror_frame f) \<Rightarrow> Some f | _ \<Rightarrow> None) = Some f \<Longrightarrow>
      out = Ios_output (Emit_frame f) \<or> out = Android_output (Mirror_frame f)" for out
    by (simp split: mirror_output.splits stream_effect.splits mirror_effect.splits)
  then show "f \<in> set (demanded_frames gate outs) \<Longrightarrow>
    (Ios_output (Emit_frame f) \<in> set outs \<or> Android_output (Mirror_frame f) \<in> set outs) \<and>
    (dg_hasSnapshot gate \<longrightarrow> af_deviceId f \<in> set (dg_demanded gate))"
    by (fastforce simp: demanded_frames_def List.map_filter_def)
qed

lemma relay_cases:
  obtains (frame) f where "demanded_frames (ma_gate a) (out # outs) = f # demanded_frames (ma_gate a) outs"
      "relay_output buffered out a = uplink_frame buffered f a" "shouldSend (ma_gate a) (af_deviceId f)"
  | (other) "demanded_frames (ma_gate a) (out # outs) = demanded_frames (ma_gate a) outs"
      "fst (relay_output buffered out a) = a" "\<forall>p. Tunnel_out (Binary p) \<notin> set (snd (relay_output buffered out a))"
proof (cases "\<exists>f. out = Ios_output (Emit_frame f) \<or> out = Android_output (Mirror_frame f)")
  case True
  then obtain f where f: "out = Ios_output (Emit_frame f) \<or> out = Android_output (Mirror_frame f)" by blast
  then have r: "relay_output buffered out a = uplink_frame buffered f a" by (auto simp: relay_output_def)
  show ?thesis
  proof (cases "shouldSend (ma_gate a) (af_deviceId f)")
    case True
    then show ?thesis using f r by (intro frame [of f]) (auto simp: demanded_frames_def List.map_filter_def shouldSend_def split: if_splits)
  next
    case False
    then show ?thesis using f r
      by (intro other) (auto simp: demanded_frames_def List.map_filter_def shouldSend_def uplink_frame_def split: if_splits)
  qed
next
  case False
  then have "relay_output buffered out a = (a, [Stream_out out])"
    by (auto simp: relay_output_def split: mirror_output.split stream_effect.split mirror_effect.split)
  then show ?thesis using False
    by (intro other) (auto simp: demanded_frames_def List.map_filter_def split: mirror_output.splits stream_effect.splits mirror_effect.splits)
qed

text \<open>One demanded frame on an open tunnel: it is dropped, sent, or ends the process because it cannot be encoded.\<close>

lemma uplink_one:
  assumes "tn_phase (ma_tunnel a) = Open_ready" "ma_exit a = None" "shouldSend (ma_gate a) (af_deviceId f)"
  obtains (dropped) a' where "uplink_frame buffered f a = (a', [])" "\<not> fits (buffered (tried a)) f"
      "tn_phase (ma_tunnel a') = Open_ready" "ma_exit a' = None" "ma_gate a' = ma_gate a" "tried a' = tried a + 1"
  | (sent) a' p where "uplink_frame buffered f a = (a', [Tunnel_out (Binary p)])" "fits (buffered (tried a)) f"
      "encodeAgentFrame f = Inr p"
      "tn_phase (ma_tunnel a') = Open_ready" "ma_exit a' = None" "ma_gate a' = ma_gate a" "tried a' = tried a + 1"
  | (thrown) a' e where "uplink_frame buffered f a = (a', [Exit_process 1])" "encodeAgentFrame f = Inl e" "ma_exit a' = Some 1"
proof (cases "decideFrameSend (af_isKey f) (buffered (tried a))")
  case Send_frame
  then have "fits (buffered (tried a)) f"
    by (auto simp: decideFrameSend_def fits_def frame_queue_max_bytes_def frame_backpressure_bytes_def split: if_splits)
  then show ?thesis using sent thrown assms Send_frame
    by (cases "encodeAgentFrame f") (auto simp: uplink_frame_def sendFrame_def Let_def)
next
  case Drop_backpressure
  then have "\<not> fits (buffered (tried a)) f"
    by (auto simp: decideFrameSend_def fits_def frame_queue_max_bytes_def frame_backpressure_bytes_def split: if_splits)
  then show ?thesis using dropped assms Drop_backpressure by (auto simp: uplink_frame_def sendFrame_def Let_def)
next
  case Drop_queue_full
  then have "\<not> fits (buffered (tried a)) f"
    by (auto simp: decideFrameSend_def fits_def frame_queue_max_bytes_def frame_backpressure_bytes_def split: if_splits)
  then show ?thesis using dropped assms Drop_queue_full by (auto simp: uplink_frame_def sendFrame_def Let_def)
qed

lemma relay_exited: "ma_exit a \<noteq> None \<Longrightarrow> Tunnel_out (Binary p) \<notin> set (snd (for_each (relay_output buffered) outs a))"
proof (induction outs arbitrary: a)
  case (Cons out outs)
  have "uplink_frame buffered f a = (a, [])" for f using Cons.prems by (simp add: uplink_frame_def)
  then show ?case using Cons
    by (cases rule: relay_cases [of a out outs buffered]) (simp_all add: for_each_Cons)
qed simp

lemma relay_sent:
  assumes "tn_phase (ma_tunnel a) = Open_ready" "ma_exit a = None"
    and "Tunnel_out (Binary p) \<in> set (snd (for_each (relay_output buffered) outs a))"
  shows "\<exists>j < length (demanded_frames (ma_gate a) outs). encodeAgentFrame (demanded_frames (ma_gate a) outs ! j) = Inr p \<and>
    fits (buffered (tried a + j)) (demanded_frames (ma_gate a) outs ! j)"
  using assms
proof (induction outs arbitrary: a)
  case (Cons out outs)
  show ?case
  proof (cases rule: relay_cases [of a out outs buffered])
    case (frame f)
    have later: ?thesis if "uplink_frame buffered f a = (a', effs)" "Tunnel_out (Binary p) \<in> set (snd (for_each (relay_output buffered) outs a'))"
      "tn_phase (ma_tunnel a') = Open_ready" "ma_exit a' = None" "ma_gate a' = ma_gate a" "tried a' = tried a + 1" for a' effs
    proof -
      note next_one = that
      from Cons.IH [OF that(3,4,2)] obtain j where "j < length (demanded_frames (ma_gate a) outs)"
        "encodeAgentFrame (demanded_frames (ma_gate a) outs ! j) = Inr p"
        "fits (buffered (tried a + 1 + j)) (demanded_frames (ma_gate a) outs ! j)"
        unfolding next_one(5,6) by blast
      then show ?thesis using frame(1) by (intro exI [of _ "Suc j"]) simp
    qed
    show ?thesis using Cons.prems(1,2) frame(3)
    proof (cases rule: uplink_one [of a f buffered])
      case (dropped a')
      then show ?thesis using later Cons.prems(3) frame(2) by (simp add: for_each_Cons)
    next
      case (sent a' q)
      show ?thesis
      proof (cases "p = q")
        case True
        then show ?thesis using sent frame(1) by (intro exI [of _ 0]) simp
      next
        case False
        then show ?thesis using sent later Cons.prems(3) frame(2) by (simp add: for_each_Cons)
      qed
    next
      case (thrown a' e)
      then show ?thesis using Cons.prems(3) frame(2) relay_exited [of a' p buffered outs] by (simp add: for_each_Cons)
    qed
  next
    case other
    then show ?thesis using Cons by (simp add: for_each_Cons)
  qed
qed simp

lemma relay_sends:
  assumes "tn_phase (ma_tunnel a) = Open_ready" "ma_exit a = None"
    and "\<forall>f\<in>set (demanded_frames (ma_gate a) outs). \<exists>q. encodeAgentFrame f = Inr q"
    and "j < length (demanded_frames (ma_gate a) outs)" "encodeAgentFrame (demanded_frames (ma_gate a) outs ! j) = Inr p"
    and "fits (buffered (tried a + j)) (demanded_frames (ma_gate a) outs ! j)"
  shows "Tunnel_out (Binary p) \<in> set (snd (for_each (relay_output buffered) outs a))"
  using assms
proof (induction outs arbitrary: a j)
  case (Cons out outs)
  show ?case
  proof (cases rule: relay_cases [of a out outs buffered])
    case (frame f)
    have later: ?thesis if "uplink_frame buffered f a = (a', effs)" "j = Suc k"
      "tn_phase (ma_tunnel a') = Open_ready" "ma_exit a' = None" "ma_gate a' = ma_gate a" "tried a' = tried a + 1" for a' effs k
    proof -
      have "Tunnel_out (Binary p) \<in> set (snd (for_each (relay_output buffered) outs a'))"
      proof (rule Cons.IH [OF that(3,4), of k])
        show "fits (buffered (tried a' + k)) (demanded_frames (ma_gate a') outs ! k)"
          using Cons.prems(6) unfolding frame(1) that(2,5,6) by simp
      qed (use Cons.prems(3-5) frame(1) that(2,5) in simp_all)
      then show ?thesis using that(1) frame(2) by (simp add: for_each_Cons)
    qed
    show ?thesis using Cons.prems(1,2) frame(3)
    proof (cases rule: uplink_one [of a f buffered])
      case (dropped a')
      then have "j \<noteq> 0" using Cons.prems(6) frame(1) by (cases j) auto
      then show ?thesis using later [OF dropped(1)] dropped by (cases j) auto
    next
      case (sent a' q)
      then show ?thesis using later [OF sent(1)] Cons.prems(5) frame by (cases j) (auto simp: for_each_Cons)
    next
      case (thrown a' e)
      then show ?thesis using Cons.prems(3) frame(1) by simp
    qed
  next
    case other
    then show ?thesis using Cons by (simp add: for_each_Cons)
  qed
qed simp

lemma sendFrame_phase: "tn_phase (fst (sendFrame f b t)) = tn_phase t"
  by (simp add: sendFrame_def Let_def split: frame_decision.split sum.split)

lemma relay_closed:
  assumes "tn_phase (ma_tunnel a) \<noteq> Open_ready"
  shows "Tunnel_out (Binary p) \<notin> set (snd (for_each (relay_output buffered) outs a))"
  using assms
proof (induction outs arbitrary: a)
  case (Cons out outs)
  have "uplink_frame buffered f a = (a, [])" for f using Cons.prems by (simp add: uplink_frame_def sendFrame_def)
  then show ?case using Cons by (cases rule: relay_cases [of a out outs buffered]) (simp_all add: for_each_Cons)
qed simp

lemma settle_no_binary: "Tunnel_out (Binary p) \<notin> set (settle_output t out)"
  by (auto simp: settle_output_def sendOutcome_def tunnel_send_def split: executor_output.split)

lemma drive_no_binary: "Tunnel_out (Binary p) \<notin> set (snd (drive_executor ev a))"
  by (auto simp: drive_executor_def split_def settle_no_binary)

lemma callback_no_binary:
  "(\<forall>b. eff \<noteq> Binary b) \<Longrightarrow> Tunnel_out (Binary p) \<notin> set (snd (tunnel_callback now eff a))"
  by (cases eff) (auto simp: tunnel_callback_def discover_begin_def drive_no_binary split_def)

lemma own_tunnel_no_binary: "own_tunnel ev \<Longrightarrow> Binary b \<notin> set (snd (tunnel_step ev t))"
  by (cases ev) (auto simp: tunnel_step_def tunnel_defs dest!: handleServerMessage_callbacks split: option.split)

lemma other_no_binary:
  assumes "\<And>e buffered. ev \<noteq> Stream_event e buffered"
  shows "Tunnel_out (Binary p) \<notin> set (snd (agent_handle cfg ev a))"
proof (cases ev)
  case (Tunnel_event e now)
  have "own_tunnel e \<Longrightarrow> \<forall>x\<in>set (snd (for_each (tunnel_callback now) (snd (tunnel_step e (ma_tunnel a))) s)). x \<noteq> Tunnel_out (Binary p)" for s
    using for_each_all [where P = "\<lambda>_. True" and Q = "\<lambda>x. x \<noteq> Tunnel_out (Binary p)" and f = "tunnel_callback now"
        and xs = "snd (tunnel_step e (ma_tunnel a))" and s = s] callback_no_binary own_tunnel_no_binary by metis
  then show ?thesis using Tunnel_event by (auto simp: split_def)
qed (use assms drive_no_binary in \<open>auto simp: discover_begin_def discover_end_def agent_heartbeat_def sendHeartbeat_def sendRegister_def
    tunnel_send_def sync_ios_def sync_android_def sync_streams_def shutdown_def tunnel_close_def map_prod_def split_def Let_def
    split: option.splits if_splits\<close>)

lemma managed_frame:
  assumes "managed_inv cfg m" "own_stream e" "e' \<in> set (snd (manager_step cfg e m))"
    "e' = Ios_output (Emit_frame f) \<or> e' = Android_output (Mirror_frame f)"
  shows "\<exists>i. jget (sm_streams m) (af_deviceId f) = Some i \<and> object_running (sm_objects m ! i)"
proof -
  have inv: "manager_inv object_running m" "objects_ok cfg m" using assms(1) by (simp_all add: managed_inv_def)
  obtain i where i: "i < length (sm_objects m)" "e' \<in> set (snd (object_callback e (sm_objects m ! i)))"
    using assms(2,3) by (cases e) (auto simp: manager_callback_def split_def split: if_splits)
  have "object_lived (sm_objects m ! i)" using inv(2) i(1) by (auto simp: objects_ok_def)
  note src = frame_source [OF this i(2) assms(4)]
  then obtain d where d: "(d, i) \<in> set (sm_streams m)" using inv(1) i(1) by (auto simp: manager_inv_def)
  then have "d = af_deviceId f" using inv(2) src by (auto simp: objects_ok_def)
  then show ?thesis using jget_in_wf [OF _ d] inv(1) src by (auto simp: manager_inv_def)
qed


definition no_viewers :: json where
  "no_viewers = buildStreamDemandMessage []"


section \<open>Commands across connections\<close>

text \<open>The events of the executor in a step of the Agent.\<close>

definition callback_events :: "resolver \<Rightarrow> ms \<Rightarrow> tunnel_effect \<Rightarrow> executor_event list" where
  "callback_events r now eff = (case eff of
      On_command requestId deviceId occupantId action \<Rightarrow>
        [Submit r now \<lparr>cm_requestId = requestId, cm_deviceId = deviceId, cm_occupantId = occupantId, cm_action = action\<rparr>]
    | On_occupancy_ended deviceId occupantId \<Rightarrow> [Revoke deviceId occupantId]
    | On_disconnect \<Rightarrow> [Revoke_all]
    | _ \<Rightarrow> [])"

definition executor_events :: "agent_event \<Rightarrow> agent \<Rightarrow> executor_event list" where
  "executor_events ev a =
    (if ma_exit a \<noteq> None then []
     else case ev of
       Tunnel_event e now \<Rightarrow>
         if own_tunnel e then concat (map (callback_events (agent_resolver a) now) (snd (tunnel_step e (ma_tunnel a)))) else []
     | Queue_turn now deviceId \<Rightarrow> [Run_next now deviceId]
     | Controller_answered deviceId answer \<Rightarrow> [Request_done deviceId answer]
     | _ \<Rightarrow> [])"

fun agent_executor_events :: "agent_config \<Rightarrow> agent_event list \<Rightarrow> agent \<Rightarrow> executor_event list" where
  "agent_executor_events cfg [] a = []"
| "agent_executor_events cfg (ev # evs) a =
    executor_events ev a @ agent_executor_events cfg evs (fst (agent_step cfg ev a))"

definition requests :: "agent_output list \<Rightarrow> (string \<times> queued) set" where
  "requests out = {(i, q). Request_out i q \<in> set out}"

definition executor_requests :: "executor_output list \<Rightarrow> (string \<times> queued) set" where
  "executor_requests out = {(i, q). Request i q \<in> set out}"

lemma requests_simps [simp]:
  "requests [] = {}" "requests (xs @ ys) = requests xs \<union> requests ys" "executor_requests [] = {}"
  "executor_requests (us @ vs) = executor_requests us \<union> executor_requests vs" "requests (map Tunnel_out effs) = {}"
  "requests [Tunnel_out eff] = {}" "requests [Stream_out out] = {}" "requests [Exit_process n] = {}"
  "requests [Start_discovery] = {}" "requests (map Ios_out es) = {}" "requests (map Android_out fs) = {}"
  "requests (map Stream_out gs) = {}"
  by (auto simp: requests_def executor_requests_def)

lemma settle_requests: "requests (concat (map (settle_output t) outs)) = executor_requests outs"
  by (induction outs) (auto simp: requests_def executor_requests_def settle_output_def split: executor_output.splits)

text \<open>What a step of the Agent does to the executor is what the executor's events do.\<close>

definition follows :: "agent \<Rightarrow> executor_event list \<Rightarrow> agent \<times> agent_output list \<Rightarrow> bool" where
  "follows a evs res \<longleftrightarrow> ma_executor (fst res) = fst (executor_run evs (ma_executor a)) \<and>
    requests (snd res) = executor_requests (snd (executor_run evs (ma_executor a)))"

lemma follows_drive: "follows a [ev] (drive_executor ev a)"
  by (simp add: follows_def drive_executor_def split_def settle_requests Let_def)

lemma callback_resolver: "agent_resolver (fst (tunnel_callback now eff a)) = agent_resolver a"
  by (cases eff) (auto simp: tunnel_callback_def discover_begin_def drive_executor_def split_def agent_resolver_def endpoints_def)

lemma follows_callback: "follows a (callback_events (agent_resolver a) now eff) (tunnel_callback now eff a)"
  using follows_drive [of a] by (cases eff) (auto simp: tunnel_callback_def callback_events_def follows_def discover_begin_def split_def)

lemma follows_callbacks:
  "follows a (concat (map (callback_events (agent_resolver a) now) effs)) (for_each (tunnel_callback now) effs a)"
proof (induction effs arbitrary: a)
  case Nil
  show ?case by (simp add: follows_def)
next
  case (Cons eff effs)
  let ?a = "fst (tunnel_callback now eff a)"
  have "follows ?a (concat (map (callback_events (agent_resolver a) now) effs)) (for_each (tunnel_callback now) effs ?a)"
    using Cons.IH [of ?a] by (simp add: callback_resolver)
  then show ?case using follows_callback [of a now eff]
    by (simp add: follows_def for_each_Cons executor_run_append)
qed

lemma follows_relay: "follows a [] (for_each (relay_output buffered) outs a)"
proof -
  have frame: "ma_executor (fst (uplink_frame buffered f s)) = ma_executor s \<and> requests (snd (uplink_frame buffered f s)) = {}" for f s
    by (simp add: uplink_frame_def split_def split: sum.split)
  have one: "ma_executor (fst (relay_output buffered out s)) = ma_executor s \<and> requests (snd (relay_output buffered out s)) = {}" for out s
    using frame by (simp add: relay_output_def split: mirror_output.split stream_effect.split mirror_effect.split)
  have "ma_executor (fst (for_each (relay_output buffered) outs a)) = ma_executor a \<and>
      requests (snd (for_each (relay_output buffered) outs a)) = {}"
    by (induction outs arbitrary: a) (simp_all add: for_each_Cons one)
  then show ?thesis by (simp add: follows_def)
qed

lemma follows_step: "follows a (executor_events ev a) (agent_step cfg ev a)"
proof (cases "ma_exit a")
  case None
  have "follows a (executor_events ev a) (agent_handle cfg ev a)"
  proof (cases ev)
    case (Tunnel_event e now)
    let ?t = "fst (tunnel_step e (ma_tunnel a))" and ?effs = "snd (tunnel_step e (ma_tunnel a))"
    have "agent_resolver (a\<lparr>ma_tunnel := ?t\<rparr>) = agent_resolver a" by (simp add: agent_resolver_def endpoints_def)
    then have "follows a (concat (map (callback_events (agent_resolver a) now) ?effs))
        (for_each (tunnel_callback now) ?effs (a\<lparr>ma_tunnel := ?t\<rparr>))"
      using follows_callbacks [of "a\<lparr>ma_tunnel := ?t\<rparr>" now ?effs] by (simp add: follows_def)
    then show ?thesis using Tunnel_event None by (simp add: executor_events_def follows_def split_def)
  next
    case (Stream_event e buffered)
    then show ?thesis
      using follows_relay [of "a\<lparr>ma_streams := fst (manager_step (streams_of cfg) e (ma_streams a))\<rparr>" buffered] None
      by (simp add: executor_events_def follows_def split_def)
  qed (use None follows_drive [of a] in \<open>auto simp: executor_events_def follows_def discover_begin_def discover_end_def agent_heartbeat_def
      sync_ios_def sync_android_def sync_streams_def refresh_sources_def shutdown_def map_prod_def split_def Let_def
      split: option.split\<close>)
  then show ?thesis using None by (simp add: agent_step_def)
qed (simp add: follows_def executor_events_def agent_step_def)

lemma follows_run: "follows a (agent_executor_events cfg evs a) (agent_run cfg evs a)"
proof (induction evs arbitrary: a)
  case (Cons ev evs)
  show ?case using follows_step [of a ev cfg] Cons.IH [of "fst (agent_step cfg ev a)"]
    by (simp add: follows_def split_def executor_run_append)
qed (simp add: follows_def)

definition command_received :: "agent_event list \<Rightarrow> string \<Rightarrow> string \<Rightarrow> bool" where
  "command_received evs deviceId occupantId \<longleftrightarrow> (\<exists>raw now requestId action.
    Tunnel_event (Received raw) now \<in> set evs \<and> parseServerMessage raw = Some (Command requestId deviceId occupantId action))"

lemma handled_command:
  "On_command r d occ act \<in> set (handleServerMessage raw) \<Longrightarrow> parseServerMessage raw = Some (Command r d occ act)"
  unfolding handleServerMessage_def by (cases "parseServerMessage raw"; simp; cases "the (parseServerMessage raw)"; simp)

lemma on_command_received:
  "On_command r d occ act \<in> set (snd (tunnel_step e t)) \<Longrightarrow>
    \<exists>raw. e = Received raw \<and> parseServerMessage raw = Some (Command r d occ act)"
  by (cases e) (auto simp: tunnel_step_def tunnel_defs sendFrame_def sendRegister_def sendHeartbeat_def sendOutcome_def
      tunnel_send_def Let_def dest: handled_command split: option.splits frame_decision.splits sum.splits if_splits)

lemma submitted_concat: "c \<in> set (submitted (concat xss)) \<longleftrightarrow> (\<exists>xs\<in>set xss. c \<in> set (submitted xs))"
  by (induction xss) auto

lemma submitted_received:
  "c \<in> set (submitted (agent_executor_events cfg evs a)) \<Longrightarrow> command_received evs (cm_deviceId c) (cm_occupantId c)"
proof (induction evs arbitrary: a)
  case (Cons ev evs)
  then consider (now) "c \<in> set (submitted (executor_events ev a))"
    | (later) "c \<in> set (submitted (agent_executor_events cfg evs (fst (agent_step cfg ev a))))" by auto
  then show ?case
  proof cases
    case now
    then obtain e t eff where ev: "ev = Tunnel_event e t" and eff: "eff \<in> set (snd (tunnel_step e (ma_tunnel a)))"
        and c: "c \<in> set (submitted (callback_events (agent_resolver a) t eff))"
      by (auto simp: executor_events_def submitted_concat split: agent_event.splits if_splits)
    then obtain r d occ act where "eff = On_command r d occ act" "c = \<lparr>cm_requestId = r, cm_deviceId = d, cm_occupantId = occ, cm_action = act\<rparr>"
      by (auto simp: callback_events_def split: tunnel_effect.splits)
    then show ?thesis using on_command_received [of r d occ act e "ma_tunnel a"] eff ev by (fastforce simp: command_received_def)
  next
    case later
    then show ?thesis using Cons.IH by (fastforce simp: command_received_def)
  qed
qed simp

lemma request_after_end:
  assumes "agent_reached cfg a" "jget (ex_occupations (ma_executor a)) i \<noteq> Some (cm_occupantId (q_command q))"
    and "Request_out i q \<in> set (snd (agent_run cfg evs a))"
  shows "command_received evs i (cm_occupantId (q_command q))"
proof (rule ccontr)
  assume none: "\<not> command_received evs i (cm_occupantId (q_command q))"
  have inv: "executor_inv (ma_executor a)"
    using agent_parts_reached [OF assms(1)] by (auto simp: agent_parts_def executor_part_def executor_run_inv)
  have "(i, q) \<in> requests (snd (agent_run cfg evs a))" using assms(3) by (simp add: requests_def)
  then have "Request i q \<in> set (snd (executor_run (agent_executor_events cfg evs a) (ma_executor a)))"
    using follows_run [of a cfg evs] by (simp add: follows_def executor_requests_def)
  moreover have "\<forall>c\<in>set (submitted (agent_executor_events cfg evs a)).
      \<not> (cm_deviceId c = i \<and> cm_occupantId c = cm_occupantId (q_command q))"
    using submitted_received none by metis
  ultimately show False using no_request_after_end [OF inv assms(2)] by blast
qed

text \<open>
  C10: No ghost input across the Agent. A request leaves for a device's controller only in the turn of that
  device's queue, for a command of that device queued at most fifteen seconds before. After the tunnel has
  broken, or the server has told that an occupation is over, a request for an occupant's
  command leaves only if the server has since relayed a command of this occupant for the device: what was
  queued before cannot act on the device of a later occupant.
\<close>

theorem no_ghost_across_connections:
  assumes "agent_reached cfg a"
  shows "(Request_out i q \<in> set (snd (agent_step cfg ev a)) \<longrightarrow>
      (\<exists>now. ev = Queue_turn now i \<and> now - q_enqueuedAtMs q \<le> 15000 \<and> cm_deviceId (q_command q) = i)) \<and>
    (ma_exit a = None \<longrightarrow>
      (broken = Closed closeCode \<and> tn_phase (ma_tunnel a) \<noteq> Idle \<or>
       broken = Received raw \<and> tn_phase (ma_tunnel a) = Open_ready \<and>
         parseServerMessage raw = Some (OccupancyEnded i (cm_occupantId (q_command q)))) \<longrightarrow>
      Request_out i q \<in> set (snd (agent_run cfg evs (fst (agent_step cfg (Tunnel_event broken now) a)))) \<longrightarrow>
      (\<exists>raw' now' requestId action. Tunnel_event (Received raw') now' \<in> set evs \<and>
        parseServerMessage raw' = Some (Command requestId i (cm_occupantId (q_command q)) action)))"
proof -
  have inv: "executor_inv (ma_executor a)"
    using agent_parts_reached [OF assms] by (auto simp: agent_parts_def executor_part_def executor_run_inv)
  have now: "\<exists>now. ev = Queue_turn now i \<and> now - q_enqueuedAtMs q \<le> 15000 \<and> cm_deviceId (q_command q) = i"
    if "Request_out i q \<in> set (snd (agent_step cfg ev a))"
  proof -
    have "(i, q) \<in> requests (snd (agent_step cfg ev a))" using that by (simp add: requests_def)
    then have req: "Request i q \<in> set (snd (executor_run (executor_events ev a) (ma_executor a)))"
      using follows_step [of a ev cfg] by (simp add: follows_def executor_requests_def)
    have none: "Request i q \<notin> set (snd (executor_run (concat (map (callback_events r t) effs)) ex))" if "executor_inv ex" for r t effs ex
      using that
    proof (induction effs arbitrary: ex)
      case (Cons eff effs)
      have "Request i q \<notin> set (snd (executor_run (callback_events r t eff) ex))"
        using request_needs_occupation [OF Cons.prems, of i q]
        by (cases eff) (auto simp: callback_events_def Let_def split_def simp del: executor_step.simps)
      then show ?case using Cons.IH [OF executor_run_inv [OF Cons.prems]] by (simp add: executor_run_append)
    qed simp
    obtain e where e: "executor_events ev a = [e]" "\<And>r t c. e \<noteq> Submit r t c" "(\<exists>t d. ev = Queue_turn t d \<and> e = Run_next t d) \<or> (\<exists>d ans. e = Request_done d ans)"
      using req none [OF inv] by (cases ev) (auto simp: executor_events_def split: if_splits)
    then have "Request i q \<in> set (snd (executor_step e (ma_executor a)))" using req by (simp add: Let_def split_def)
    from request_needs_occupation [OF inv this] show ?thesis using e by (auto simp: queue_stale_ms_def)
  qed
  have after: "command_received evs i (cm_occupantId (q_command q))"
    if none: "ma_exit a = None" and c: "broken = Closed closeCode \<and> tn_phase (ma_tunnel a) \<noteq> Idle \<or>
       broken = Received raw \<and> tn_phase (ma_tunnel a) = Open_ready \<and>
         parseServerMessage raw = Some (OccupancyEnded i (cm_occupantId (q_command q)))"
      and req: "Request_out i q \<in> set (snd (agent_run cfg evs (fst (agent_step cfg (Tunnel_event broken now) a))))"
  proof (rule request_after_end [OF agent_reached.step [OF assms] _ req])
    have "jget (ex_occupations (ma_executor (fst (agent_handle cfg (Tunnel_event broken now) a)))) i \<noteq> Some (cm_occupantId (q_command q))"
      using c by (auto simp: tunnel_step_def on_close_def for_each_one tunnel_callback_def drive_executor_def
          revokeAllOccupations_def handleServerMessage_def revokeOccupation_def split: if_splits)
    then show "jget (ex_occupations (ma_executor (fst (agent_step cfg (Tunnel_event broken now) a)))) i \<noteq> Some (cm_occupantId (q_command q))"
      using none by (simp add: agent_step_def)
  qed
  show ?thesis using now after unfolding command_received_def by blast
qed

theorem no_ghost_across_connections_witness:
  "let a = fst (agent_step sample_ios_config (Tunnel_event (Closed 1006) 5) late_begun) in
    \<forall>q turns. Request_out ''d1'' q \<notin> set (snd (agent_run sample_ios_config (map (\<lambda>now. Queue_turn now ''d1'') turns) a))"
proof -
  have begun: "agent_reached sample_ios_config late_begun"
    using agent_reached.step [OF agent_reached.start, of sample_ios_config "Tunnel_event Opened 0"] late_begun by simp
  have "tn_phase (ma_tunnel late_begun) = Open_ready" "ma_exit late_begun = None"
    by (simp_all add: late_begun_def agent_start_def on_open_def)
  then show ?thesis using no_ghost_across_connections [OF begun] unfolding Let_def by fastforce
qed

end
