(* ===== verification/Agent_Shutdown.thy ===== *)
theory Agent_Shutdown
  imports Agent_Core
begin

text \<open>
  The wait at the end of the Agent: the four \<open>awaitTermination\<close> loops (controller-supervisor.ts,
  android-supervisor.ts, h264-stream.ts, android-stream.ts), the manager's (stream-manager.ts) and the end of
  \<open>shutdown\<close> in main.ts. Time is explicit here: the loops poll every 100 ms, a timer may be late by any
  \<open>lag\<close>, and \<open>exits t\<close> are the processes whose end has been noticed when the loop wakes at time \<open>t\<close>.
\<close>

section \<open>Polling\<close>

definition poll_ms :: int where "poll_ms = 100"
definition SHUTDOWN_GRACE_MS :: int where "SHUTDOWN_GRACE_MS = 5000"

text \<open>
  \<open>while (Date.now() < deadline) { ...; if (done) return; await sleep(100) }\<close>: the state, the time and
  whether the loop has ended before the deadline.
\<close>

function poll_until ::
  "(ms \<Rightarrow> 's \<Rightarrow> 's) \<Rightarrow> ('s \<Rightarrow> 's) \<Rightarrow> ('s \<Rightarrow> bool) \<Rightarrow> (ms \<Rightarrow> nat) \<Rightarrow> ms \<Rightarrow> ms \<Rightarrow> 's \<Rightarrow> 's \<times> ms \<times> bool" where
  "poll_until observe turn finished lag deadline now s =
    (let s = observe now s in
     if now < deadline then
       let s = turn s in
       if finished s then (s, now, True)
       else poll_until observe turn finished lag deadline (now + poll_ms + int (lag now)) s
     else (s, now, False))"
  by pat_completeness auto

termination
  by (relation "measure (\<lambda>(observe, turn, finished, lag, deadline, now, s). nat (deadline - now))") (auto simp: poll_ms_def)

declare poll_until.simps [simp del]

lemma poll_until_spec:
  assumes "I s" "\<And>t s. I s \<Longrightarrow> I (observe t s)" "\<And>s. I s \<Longrightarrow> I (turn s)" "\<And>t. lag t \<le> n"
  shows "let r = poll_until observe turn finished lag deadline now s in
    I (fst r) \<and> (snd (snd r) \<longrightarrow> finished (fst r)) \<and> now \<le> fst (snd r) \<and> fst (snd r) \<le> max now (deadline + poll_ms + int n)"
  using assms
proof (induction observe turn finished lag deadline now s rule: poll_until.induct)
  case (1 observe turn finished lag deadline now s)
  let ?s = "turn (observe now s)" and ?now = "now + poll_ms + int (lag now)"
  have s: "I (observe now s)" "I ?s" using "1.prems" by auto
  have lag: "int (lag now) \<le> int n" using "1.prems"(4) [of now] by simp
  show ?case
  proof (cases "now < deadline \<and> \<not> finished ?s")
    case True
    let ?r = "poll_until observe turn finished lag deadline ?now ?s"
    have "I (fst ?r) \<and> (snd (snd ?r) \<longrightarrow> finished (fst ?r)) \<and> ?now \<le> fst (snd ?r) \<and>
        fst (snd ?r) \<le> max ?now (deadline + poll_ms + int n)"
      using "1.IH" [OF refl _ refl _ s(2) "1.prems"(2-4)] True unfolding Let_def by blast
    moreover have "poll_until observe turn finished lag deadline now s = ?r"
      using True by (subst poll_until.simps) (simp add: Let_def)
    ultimately show ?thesis using True lag by (auto simp: Let_def poll_ms_def)
  next
    case False
    then show ?thesis using s lag by (subst poll_until.simps) (auto simp: Let_def poll_ms_def)
  qed
qed

section \<open>The waits\<close>

definition ios_awaitTermination ::
  "(ms \<Rightarrow> nat list) \<Rightarrow> (ms \<Rightarrow> nat) \<Rightarrow> ms \<Rightarrow> ms \<Rightarrow> supervisor \<Rightarrow> supervisor \<times> process_effect list \<times> ms" where
  "ios_awaitTermination exits lag maxWaitMs now sv =
    (case poll_until (\<lambda>t sv. sv\<lparr>sv_exited := sv_exited sv @ exits t\<rparr>) await_turn (\<lambda>sv. sv_terminating sv = [])
        lag (now + maxWaitMs) now sv of
      (sv, t, early) \<Rightarrow> (sv, if early then [] else await_over sv, t))"

text \<open>The Android supervisor then waits for its adb calls, within what is left of the time.\<close>

definition android_awaitTermination ::
  "(ms \<Rightarrow> nat list) \<Rightarrow> ms \<Rightarrow> (ms \<Rightarrow> nat) \<Rightarrow> ms \<Rightarrow> ms \<Rightarrow> android_supervisor \<Rightarrow> android_supervisor \<times> android_effect list \<times> ms" where
  "android_awaitTermination exits cleaned lag maxWaitMs now sv =
    (case poll_until (\<lambda>t sv. sv\<lparr>ad_exited := ad_exited sv @ exits t\<rparr>) android_await_turn (\<lambda>sv. ad_terminating sv = [])
        lag (now + maxWaitMs) now sv of
      (sv, t, _) \<Rightarrow>
        let remaining = max 0 (now + maxWaitMs - t) in
        (sv\<lparr>ad_cleanups := 0\<rparr>, android_await_over sv,
         if ad_cleanups sv = 0 then t else min (max t cleaned) (t + remaining + int (lag t))))"

definition h264_awaitTermination ::
  "(ms \<Rightarrow> nat list) \<Rightarrow> (ms \<Rightarrow> nat) \<Rightarrow> ms \<Rightarrow> ms \<Rightarrow> h264_stream \<Rightarrow> h264_stream \<times> stream_effect list \<times> ms" where
  "h264_awaitTermination exits lag maxWaitMs now s =
    (if hs_terminating s = None then (s, [], now)
     else case poll_until (\<lambda>t s. s\<lparr>hs_exited := hs_exited s @ exits t\<rparr>) h264_await_turn (\<lambda>s. hs_terminating s = None)
        lag (now + maxWaitMs) now s of
      (s, t, early) \<Rightarrow> if early then (s, [], t) else case h264_await_over s of (s, effs) \<Rightarrow> (s, effs, t))"

definition mirror_awaitTermination ::
  "(ms \<Rightarrow> nat list) \<Rightarrow> (ms \<Rightarrow> nat) \<Rightarrow> ms \<Rightarrow> ms \<Rightarrow> android_stream \<Rightarrow> android_stream \<times> mirror_effect list \<times> ms" where
  "mirror_awaitTermination exits lag maxWaitMs now s =
    (case poll_until (\<lambda>t s. s\<lparr>as_exited := as_exited s @ exits t\<rparr>) mirror_await_turn (\<lambda>s. as_terminating s = [])
        lag (now + maxWaitMs) now s of
      (s, t, early) \<Rightarrow> (s, if early then [] else mirror_await_over s, t))"

fun object_awaitTermination ::
  "(ms \<Rightarrow> nat list) \<Rightarrow> (ms \<Rightarrow> nat) \<Rightarrow> ms \<Rightarrow> ms \<Rightarrow> mirror_object \<Rightarrow> mirror_object \<times> mirror_output list \<times> ms" where
  "object_awaitTermination exits lag maxWaitMs now (Ios_mirror cfg s) =
    (case h264_awaitTermination exits lag maxWaitMs now s of (s, effs, t) \<Rightarrow> (Ios_mirror cfg s, map Ios_output effs, t))"
| "object_awaitTermination exits lag maxWaitMs now (Android_mirror cfg s) =
    (case mirror_awaitTermination exits lag maxWaitMs now s of (s, effs, t) \<Rightarrow> (Android_mirror cfg s, map Android_output effs, t))"

text \<open>The manager waits for the streams that \<open>stopAll\<close> has stopped, all at once.\<close>

definition await_stream ::
  "(nat \<Rightarrow> ms \<Rightarrow> nat list) \<Rightarrow> (ms \<Rightarrow> nat) \<Rightarrow> ms \<Rightarrow> ms \<Rightarrow> nat \<Rightarrow> mirror_object stream_manager \<times> ms \<Rightarrow>
    (mirror_object stream_manager \<times> ms) \<times> mirror_output list" where
  "await_stream exits lag maxWaitMs now i mt =
    (case object_awaitTermination (exits i) lag maxWaitMs now (sm_objects (fst mt) ! i) of
      (obj, effs, t) \<Rightarrow> (((fst mt)\<lparr>sm_objects := (sm_objects (fst mt))[i := obj]\<rparr>, max (snd mt) t), effs))"

definition manager_awaitTermination ::
  "(nat \<Rightarrow> ms \<Rightarrow> nat list) \<Rightarrow> (ms \<Rightarrow> nat) \<Rightarrow> ms \<Rightarrow> ms \<Rightarrow> mirror_object stream_manager \<Rightarrow>
    mirror_object stream_manager \<times> mirror_output list \<times> ms" where
  "manager_awaitTermination exits lag maxWaitMs now m =
    (case for_each (await_stream exits lag maxWaitMs now) (sm_stopped m) (m, now) of
      ((m, t), effs) \<Rightarrow> (m\<lparr>sm_stopped := []\<rparr>, effs, t))"

text \<open>The end of \<open>shutdown\<close>: \<open>Promise.all\<close> of the waits, then \<open>process.exit(0)\<close>.\<close>

record world =
  wo_lag :: "ms \<Rightarrow> nat"
  wo_ios :: "ms \<Rightarrow> nat list"
  wo_android :: "ms \<Rightarrow> nat list"
  wo_cleaned :: ms
  wo_streams :: "nat \<Rightarrow> ms \<Rightarrow> nat list"

definition shutdown_wait :: "world \<Rightarrow> ms \<Rightarrow> agent \<Rightarrow> agent \<times> agent_output list \<times> ms" where
  "shutdown_wait w now a =
    (case (case ma_ios a of
        None \<Rightarrow> (None, [], now)
      | Some sv \<Rightarrow> (case ios_awaitTermination (wo_ios w) (wo_lag w) SHUTDOWN_GRACE_MS now sv of (sv, effs, t) \<Rightarrow> (Some sv, effs, t)))
     of (ios, e1, t1) \<Rightarrow>
     case (case ma_android a of
        None \<Rightarrow> (None, [], now)
      | Some sv \<Rightarrow> (case android_awaitTermination (wo_android w) (wo_cleaned w) (wo_lag w) SHUTDOWN_GRACE_MS now sv of
          (sv, effs, t) \<Rightarrow> (Some sv, effs, t)))
     of (android, e2, t2) \<Rightarrow>
     case manager_awaitTermination (wo_streams w) (wo_lag w) SHUTDOWN_GRACE_MS now (ma_streams a) of (m, e3, t3) \<Rightarrow>
       (a\<lparr>ma_ios := ios, ma_android := android, ma_streams := m, ma_exit := Some 0\<rparr>,
        map Ios_out e1 @ map Android_out e2 @ map Stream_out e3 @ [Exit_process 0], max t1 (max t2 t3)))"

section \<open>What a wait achieves\<close>

text \<open>
  The contract of a class that waits for its processes: \<open>ended ps\<close> notes their ends, \<open>turn\<close> forgets those
  that have ended, \<open>count\<close> is the number of processes it has started.
\<close>

locale awaited_processes =
  fixes exited :: "'s \<Rightarrow> nat list" and terminating :: "'s \<Rightarrow> nat list" and count :: "'s \<Rightarrow> nat"
    and ended :: "nat list \<Rightarrow> 's \<Rightarrow> 's" and turn :: "'s \<Rightarrow> 's"
  assumes ended: "exited (ended ps s) = exited s @ ps" "terminating (ended ps s) = terminating s" "count (ended ps s) = count s"
    and turn: "exited (turn s) = exited s" "terminating (turn s) = filter (\<lambda>p. p \<notin> set (exited s)) (terminating s)"
      "count (turn s) = count s"
begin

lemma polled:
  assumes own: "\<And>pid. pid < count s \<Longrightarrow> pid \<in> set (exited s) \<union> set (terminating s)" and lag: "\<And>t. lag t \<le> n" "0 \<le> grace"
    and r: "poll_until (\<lambda>t. ended (exits t)) turn (\<lambda>s. terminating s = []) lag (now + grace) now s = (s', t, early)"
  shows "count s' = count s" "pid < count s \<Longrightarrow> pid \<in> set (exited s') \<union> set (terminating s')" "early \<Longrightarrow> terminating s' = []"
    "t \<le> now + grace + 100 + int n"
proof -
  define I where "I x \<longleftrightarrow> count x = count s \<and> (\<forall>pid < count s. pid \<in> set (exited x) \<union> set (terminating x))" for x
  have "I s" using own by (simp add: I_def)
  have obs: "I x \<Longrightarrow> I (ended (exits t) x)" for t x by (auto simp: I_def ended)
  have step: "I x \<Longrightarrow> I (turn x)" for x by (auto simp: I_def turn)
  from poll_until_spec [where I = I and observe = "\<lambda>t. ended (exits t)" and turn = turn and lag = lag and n = n and
      finished = "\<lambda>s. terminating s = []" and deadline = "now + grace" and now = now, OF \<open>I s\<close> obs step lag(1)] r
  have "I s'" "early \<longrightarrow> terminating s' = []" "t \<le> max now (now + grace + poll_ms + int n)" by (simp_all add: Let_def)
  then show "count s' = count s" "pid < count s \<Longrightarrow> pid \<in> set (exited s') \<union> set (terminating s')" "early \<Longrightarrow> terminating s' = []"
    "t \<le> now + grace + 100 + int n" using lag(2) by (auto simp: I_def poll_ms_def)
qed

end

interpretation ios_wait: awaited_processes sv_exited sv_terminating sv_nextPid "\<lambda>ps sv. sv\<lparr>sv_exited := sv_exited sv @ ps\<rparr>" await_turn
  by unfold_locales (simp_all add: await_turn_def)

interpretation android_wait: awaited_processes ad_exited ad_terminating ad_nextPid
    "\<lambda>ps sv. sv\<lparr>ad_exited := ad_exited sv @ ps\<rparr>" android_await_turn
  by unfold_locales (simp_all add: android_await_turn_def)

interpretation mirror_wait: awaited_processes as_exited as_terminating as_nextPid "\<lambda>ps s. s\<lparr>as_exited := as_exited s @ ps\<rparr>" mirror_await_turn
  by unfold_locales (simp_all add: mirror_await_turn_def)

lemma ios_waited:
  assumes own: "\<And>pid. pid < sv_nextPid sv \<Longrightarrow> pid \<in> set (sv_exited sv) \<union> set (sv_terminating sv)"
    and lag: "\<And>t. lag t \<le> n" "0 \<le> grace" and wait: "ios_awaitTermination exits lag grace now sv = (sv', effs, t)"
  shows "t \<le> now + grace + 100 + int n \<and>
    (\<forall>pid < sv_nextPid sv'. pid \<in> set (sv_exited sv') \<or> Signalled pid SIGKILL \<in> set effs)"
proof -
  obtain s u early where r: "poll_until (\<lambda>t sv. sv\<lparr>sv_exited := sv_exited sv @ exits t\<rparr>) await_turn (\<lambda>sv. sv_terminating sv = [])
      lag (now + grace) now sv = (s, u, early)" by (rule prod_cases3)
  note p = ios_wait.polled [OF own lag r]
  have res: "sv' = s" "effs = (if early then [] else await_over s)" "t = u"
    using wait r by (simp_all add: ios_awaitTermination_def)
  show ?thesis
  proof (intro conjI allI impI)
    show "t \<le> now + grace + 100 + int n" using p(4) res by simp
    fix pid assume "pid < sv_nextPid sv'"
    then have "pid \<in> set (sv_exited s) \<union> set (sv_terminating s)" using p(1) p(2) [of pid] res by simp
    then show "pid \<in> set (sv_exited sv') \<or> Signalled pid SIGKILL \<in> set effs"
      using res p(3) by (cases early) (auto simp: await_over_def signalProcessTree_def)
  qed
qed

lemma android_waited:
  assumes own: "\<And>pid. pid < ad_nextPid sv \<Longrightarrow> pid \<in> set (ad_exited sv) \<union> set (ad_terminating sv)"
    and lag: "\<And>t. lag t \<le> n" "0 \<le> grace" and wait: "android_awaitTermination exits cleaned lag grace now sv = (sv', effs, t)"
  shows "t \<le> now + grace + 100 + 2 * int n \<and>
    (\<forall>pid < ad_nextPid sv'. pid \<in> set (ad_exited sv') \<or> Signalled_instrument pid SIGKILL \<in> set effs)"
proof -
  obtain s u early where r: "poll_until (\<lambda>t sv. sv\<lparr>ad_exited := ad_exited sv @ exits t\<rparr>) android_await_turn
      (\<lambda>sv. ad_terminating sv = []) lag (now + grace) now sv = (s, u, early)" by (rule prod_cases3)
  note p = android_wait.polled [OF own lag r]
  have res: "sv' = s\<lparr>ad_cleanups := 0\<rparr>" "effs = android_await_over s"
    and t: "t = (if ad_cleanups s = 0 then u else min (max u cleaned) (u + max 0 (now + grace - u) + int (lag u)))"
    using wait r by (auto simp: android_awaitTermination_def Let_def)
  have "int (lag u) \<le> int n" using lag(1) by simp
  then have bound: "t \<le> now + grace + 100 + 2 * int n" using p(4) lag(2) t by (simp add: max_def min_def split: if_splits)
  show ?thesis
  proof (intro conjI allI impI)
    fix pid assume "pid < ad_nextPid sv'"
    then have "pid \<in> set (ad_exited s) \<union> set (ad_terminating s)" using p(1) p(2) [of pid] res by simp
    then show "pid \<in> set (ad_exited sv') \<or> Signalled_instrument pid SIGKILL \<in> set effs"
      using res by (auto simp: android_await_over_def signal_instrument_def)
  qed (rule bound)
qed

lemma mirror_waited:
  assumes own: "\<And>pid. pid < as_nextPid s \<Longrightarrow> pid \<in> set (as_exited s) \<union> set (as_terminating s)"
    and lag: "\<And>t. lag t \<le> n" "0 \<le> grace" and wait: "mirror_awaitTermination exits lag grace now s = (s', effs, t)"
  shows "t \<le> now + grace + 100 + int n \<and> (\<forall>pid < as_nextPid s'. pid \<in> set (as_exited s') \<union> set (as_terminating s')) \<and>
    (\<forall>pid < as_nextPid s'. pid \<in> set (as_exited s') \<or> Signal_daemon pid SIGKILL \<in> set effs)"
proof -
  obtain r u early where r: "poll_until (\<lambda>t s. s\<lparr>as_exited := as_exited s @ exits t\<rparr>) mirror_await_turn
      (\<lambda>s. as_terminating s = []) lag (now + grace) now s = (r, u, early)" by (rule prod_cases3)
  note p = mirror_wait.polled [OF own lag r]
  have res: "s' = r" "effs = (if early then [] else mirror_await_over r)" "t = u"
    using wait r by (simp_all add: mirror_awaitTermination_def)
  show ?thesis
  proof (intro conjI allI impI)
    show "t \<le> now + grace + 100 + int n" using p(4) res by simp
    show "pid \<in> set (as_exited s') \<union> set (as_terminating s')" if "pid < as_nextPid s'" for pid using p(1) p(2) [of pid] res that by simp
    fix pid assume "pid < as_nextPid s'"
    then have "pid \<in> set (as_exited r) \<union> set (as_terminating r)" using p(1) p(2) [of pid] res by simp
    then show "pid \<in> set (as_exited s') \<or> Signal_daemon pid SIGKILL \<in> set effs"
      using res p(3) by (cases early) (auto simp: mirror_await_over_def signal_daemon_def)
  qed
qed

lemma h264_waited:
  assumes own: "\<And>c. c < hs_nextChild s \<Longrightarrow> c \<in> set (hs_exited s) \<or> c \<in> set (hs_killed s) \<or> hs_terminating s = Some c"
    and lag: "\<And>t. lag t \<le> n" "0 \<le> grace" and wait: "h264_awaitTermination exits lag grace now s = (s', effs, t)"
  shows "t \<le> now + grace + 100 + int n \<and> (\<forall>c < hs_nextChild s'. c \<in> set (hs_exited s') \<or> c \<in> set (hs_killed s'))"
proof (cases "hs_terminating s")
  case None
  then show ?thesis using own wait lag(2) by (auto simp: h264_awaitTermination_def)
next
  case (Some child)
  define I :: "h264_stream \<Rightarrow> bool" where
    "I = (\<lambda>x. \<forall>c < hs_nextChild x. c \<in> set (hs_exited x) \<or> c \<in> set (hs_killed x) \<or> hs_terminating x = Some c)"
  have "I s" using own by (simp add: I_def)
  have obs: "I x \<Longrightarrow> I (x\<lparr>hs_exited := hs_exited x @ exits t\<rparr>)" for t x by (auto simp: I_def)
  have turn: "I x \<Longrightarrow> I (h264_await_turn x)" for x by (auto simp: I_def h264_await_turn_def split: option.split)
  obtain r u early where r: "poll_until (\<lambda>t s. s\<lparr>hs_exited := hs_exited s @ exits t\<rparr>) h264_await_turn
      (\<lambda>s. hs_terminating s = None) lag (now + grace) now s = (r, u, early)" by (rule prod_cases3)
  from poll_until_spec [where I = I and observe = "\<lambda>t s. s\<lparr>hs_exited := hs_exited s @ exits t\<rparr>" and turn = h264_await_turn and
      lag = lag and n = n and finished = "\<lambda>s. hs_terminating s = None" and deadline = "now + grace" and now = now,
      OF \<open>I s\<close> obs turn lag(1)] r
  have "I r" "early \<longrightarrow> hs_terminating r = None" "u \<le> max now (now + grace + poll_ms + int n)" by (simp_all add: Let_def)
  then have u: "u \<le> now + grace + 100 + int n" and gone: "I r" "early \<longrightarrow> hs_terminating r = None"
    using lag(2) by (simp_all add: poll_ms_def)
  have "s' = (if early then r else fst (h264_await_over r))" "t = u"
    using wait r Some by (auto simp: h264_awaitTermination_def split_def split: if_splits)
  then show ?thesis using u gone
    by (auto simp: I_def h264_await_over_def h264_kill_def split: option.split)
qed

section \<open>The streams\<close>

fun object_settled :: "mirror_output list \<Rightarrow> mirror_object \<Rightarrow> bool" where
  "object_settled effs (Ios_mirror cfg s) \<longleftrightarrow> (\<forall>c < hs_nextChild s. c \<in> set (hs_exited s) \<or> c \<in> set (hs_killed s))"
| "object_settled effs (Android_mirror cfg s) \<longleftrightarrow>
    (\<forall>pid < as_nextPid s. pid \<in> set (as_exited s) \<or> Android_output (Signal_daemon pid SIGKILL) \<in> set effs)"

fun object_owned :: "mirror_object \<Rightarrow> bool" where
  "object_owned (Ios_mirror cfg s) \<longleftrightarrow>
    (\<forall>c < hs_nextChild s. c \<in> set (hs_exited s) \<or> c \<in> set (hs_killed s) \<or> hs_terminating s = Some c)"
| "object_owned (Android_mirror cfg s) \<longleftrightarrow> (\<forall>pid < as_nextPid s. pid \<in> set (as_exited s) \<union> set (as_terminating s))"

lemma settled_mono: "object_settled effs obj \<Longrightarrow> set effs \<subseteq> set effs' \<Longrightarrow> object_settled effs' obj"
  by (cases obj) auto

lemma object_waited:
  assumes "object_owned obj" "\<And>t. lag t \<le> n" "0 \<le> grace" "object_awaitTermination exits lag grace now obj = (obj', effs, t)"
  shows "object_owned obj' \<and> object_settled effs obj' \<and> t \<le> now + grace + 100 + int n"
proof (cases obj)
  case (Ios_mirror cfg s)
  obtain s' e u where w: "h264_awaitTermination exits lag grace now s = (s', e, u)" by (rule prod_cases3)
  have "\<And>c. c < hs_nextChild s \<Longrightarrow> c \<in> set (hs_exited s) \<or> c \<in> set (hs_killed s) \<or> hs_terminating s = Some c"
    using assms(1) Ios_mirror by simp
  from h264_waited [OF this assms(2,3) w] show ?thesis using assms(4) Ios_mirror w by auto
next
  case (Android_mirror cfg s)
  obtain s' e u where w: "mirror_awaitTermination exits lag grace now s = (s', e, u)" by (rule prod_cases3)
  have "\<And>pid. pid < as_nextPid s \<Longrightarrow> pid \<in> set (as_exited s) \<union> set (as_terminating s)" using assms(1) Android_mirror by simp
  from mirror_waited [OF this assms(2,3) w] show ?thesis using assms(4) Android_mirror w by (auto simp: image_iff)
qed

lemma for_each_snoc: "for_each f (xs @ [x]) s =
    (fst (f x (fst (for_each f xs s))), snd (for_each f xs s) @ snd (f x (fst (for_each f xs s))))"
  by (simp add: for_each_def split_def)

lemma streams_waited:
  assumes lag: "\<And>t. lag t \<le> n" "0 \<le> grace" and own: "\<forall>obj\<in>set (sm_objects m). object_owned obj"
    and stopped: "\<forall>i\<in>set is. i < length (sm_objects m)"
  shows "let r = for_each (await_stream exits lag grace now) is (m, now); objs = sm_objects (fst (fst r)) in
    length objs = length (sm_objects m) \<and> (\<forall>obj\<in>set objs. object_owned obj) \<and>
    (\<forall>i\<in>set is. object_settled (snd r) (objs ! i)) \<and> snd (fst r) \<le> now + grace + 100 + int n"
  using stopped
proof (induction "is" rule: rev_induct)
  case Nil
  then show ?case using own lag(2) by simp
next
  case (snoc i "is")
  let ?r = "for_each (await_stream exits lag grace now) is (m, now)"
  obtain m' t' effs where r: "?r = ((m', t'), effs)" by (metis prod.collapse)
  have IH: "length (sm_objects m') = length (sm_objects m)" "\<forall>obj\<in>set (sm_objects m'). object_owned obj"
    "\<forall>j\<in>set is. object_settled effs (sm_objects m' ! j)" "t' \<le> now + grace + 100 + int n"
    using snoc r by (simp_all add: Let_def)
  obtain obj e u where w: "object_awaitTermination (exits i) lag grace now (sm_objects m' ! i) = (obj, e, u)" by (rule prod_cases3)
  have i: "i < length (sm_objects m')" using snoc.prems IH(1) by simp
  then have "object_owned (sm_objects m' ! i)" using IH(2) by simp
  note waited = object_waited [OF this lag w]
  have "object_settled (effs @ e) ((sm_objects m')[i := obj] ! j)" if "j \<in> set (is @ [i])" for j
    using that IH(3) waited i settled_mono [of effs "sm_objects m' ! j" "effs @ e"] settled_mono [of e obj "effs @ e"]
    by (cases "j = i") auto
  moreover have "\<forall>obj\<in>set ((sm_objects m')[i := obj]). object_owned obj"
    using IH(2) waited by (metis insert_iff set_update_subset_insert subsetD)
  moreover have "await_stream exits lag grace now i (m', t') = ((m'\<lparr>sm_objects := (sm_objects m')[i := obj]\<rparr>, max t' u), e)"
    by (simp add: await_stream_def w)
  ultimately show ?case using r IH(1,4) waited by (simp add: for_each_snoc Let_def)
qed

text \<open>The tuning of an Android stream is that of the configuration.\<close>

fun object_tuned :: "mirror_section \<Rightarrow> mirror_object \<Rightarrow> bool" where
  "object_tuned cfg (Ios_mirror c s) = True"
| "object_tuned cfg (Android_mirror c s) = (\<exists>dex base. ms_android cfg = Some (dex, base, mc_tuning c))"

lemma tuned_changes:
  "object_tuned cfg (fst (object_start obj)) = object_tuned cfg obj" "object_tuned cfg (fst (object_stop obj)) = object_tuned cfg obj"
  "object_tuned cfg (fst (object_callback ev obj)) = object_tuned cfg obj"
  by (cases obj; simp add: split_def object_callback_def split: manager_event.split)+

definition all_tuned :: "mirror_section \<Rightarrow> mirror_object stream_manager \<Rightarrow> bool" where
  "all_tuned cfg m \<longleftrightarrow> (\<forall>obj\<in>set (sm_objects m). object_tuned cfg obj)"

lemma tuned_updated:
  assumes "all_tuned cfg m" "i < length (sm_objects m) \<Longrightarrow> object_tuned cfg obj"
  shows "all_tuned cfg (m\<lparr>sm_objects := (sm_objects m)[i := obj]\<rparr>)"
proof (cases "i < length (sm_objects m)")
  case True
  then show ?thesis using assms set_update_subset_insert [of "sm_objects m" i obj] unfolding all_tuned_def by auto
qed (use assms in \<open>simp add: list_update_beyond\<close>)

lemma tuned_fields [simp]: "all_tuned cfg (m\<lparr>sm_streams := x\<rparr>) = all_tuned cfg m" "all_tuned cfg (m\<lparr>sm_stopped := y\<rparr>) = all_tuned cfg m"
  "all_tuned cfg (m\<lparr>sm_ports := z\<rparr>) = all_tuned cfg m"
  by (simp_all add: all_tuned_def)

lemma created_tuned: "fst (create_stream cfg devices d ports) = Some obj \<Longrightarrow> object_tuned cfg obj"
  by (auto simp: create_stream_def split: option.splits prod.splits if_splits)

lemma tuned_nth: "all_tuned cfg m \<Longrightarrow> i < length (sm_objects m) \<Longrightarrow> object_tuned cfg (sm_objects m ! i)"
  by (simp add: all_tuned_def)

lemma start_tuned: "all_tuned cfg m \<Longrightarrow> all_tuned cfg (fst (manager_start (create_stream cfg devices) object_start d m))"
  using tuned_changes(1) by (auto simp: manager_start_def all_tuned_def split_def dest: created_tuned split: option.split prod.split)

lemma stop_tuned:
  "all_tuned cfg m \<Longrightarrow> all_tuned cfg (fst (manager_stop object_stop d m))"
  "all_tuned cfg m \<Longrightarrow> all_tuned cfg (fst (manager_stop_entry object_stop e m))"
  "all_tuned cfg m \<Longrightarrow> all_tuned cfg (fst (manager_callback i ev m))"
  using tuned_updated [of cfg m _ "fst (object_stop (sm_objects m ! _))"] tuned_nth [of cfg m]
  by (auto simp: manager_stop_def manager_stop_entry_def manager_callback_def split_def tuned_changes
      intro!: tuned_updated split: option.split)

lemma managed_tuned: "managed cfg m \<Longrightarrow> all_tuned cfg m"
proof (induction rule: managed.induct)
  case init
  show ?case by (simp add: all_tuned_def manager_new_def)
next
  case (step m ev)
  show ?case
  proof (cases ev)
    case (Sync_streams devices ids)
    let ?m = "fst (for_each (manager_start (create_stream cfg devices) object_start) ids m)"
    have "all_tuned cfg ?m" by (rule for_each_inv [where P = "all_tuned cfg", OF start_tuned step.IH])
    then have "all_tuned cfg (fst (for_each (manager_stop_gone object_stop ids) (jkeys (sm_streams ?m)) ?m))"
      by (rule for_each_inv [where P = "all_tuned cfg" and f = "manager_stop_gone object_stop ids", rotated])
        (simp add: manager_stop_gone_def stop_tuned)
    then show ?thesis using Sync_streams by (simp add: syncAlwaysOn_def split_def)
  next
    case Stop_streams
    then show ?thesis using for_each_inv [where P = "all_tuned cfg", OF stop_tuned(2) step.IH] by (simp add: manager_stopAll_def)
  qed (use step.IH in \<open>simp_all add: stop_tuned\<close>)
qed

lemma stopped_in_range: "managed cfg m \<Longrightarrow> \<forall>i\<in>set (sm_stopped m). i < length (sm_objects m)"
proof (induction rule: managed.induct)
  case init
  show ?case by (simp add: manager_new_def)
next
  case (step m ev)
  let ?P = "\<lambda>n. (\<forall>i\<in>set (sm_stopped n). i < length (sm_objects n)) \<and> length (sm_objects m) \<le> length (sm_objects n)"
  have m: "?P m" using step.IH by simp
  show ?case
  proof (cases ev)
    case (Sync_streams devices ids)
    have start: "?P (fst (manager_start (create_stream cfg devices) object_start d n))" if "?P n" for d n
      using that by (auto simp: manager_start_def split_def less_SucI split: option.split)
    have stop: "?P (fst (manager_stop_gone object_stop ids d n))" if "?P n" for d n
      using that by (auto simp: manager_stop_gone_def manager_stop_def split_def split: option.split)
    have "?P (fst (for_each (manager_start (create_stream cfg devices) object_start) ids m))"
      by (rule for_each_inv [where P = ?P, OF start m])
    from for_each_inv [where P = ?P and f = "manager_stop_gone object_stop ids", OF stop this] show ?thesis using Sync_streams by (simp add: syncAlwaysOn_def split_def)
  next
    case Stop_streams
    have entries: "\<forall>(d, i)\<in>set (sm_streams m). i < length (sm_objects m)"
      using managed_holds [OF step.hyps] by (auto simp: managed_inv_def objects_ok_def)
    have "?P (fst (manager_stop_entry object_stop e n))" if "e \<in> set (sm_streams m)" "?P n" for e n
      using entries that by (fastforce simp: manager_stop_entry_def split_def)
    then have "?P (fst (for_each (manager_stop_entry object_stop) (sm_streams m) m)) \<and>
        (\<forall>e\<in>set (snd (for_each (manager_stop_entry object_stop) (sm_streams m) m)). True)"
      by (intro for_each_all [where P = ?P and Q = "\<lambda>_. True"] m) simp_all
    then show ?thesis using Stop_streams by (simp add: manager_stopAll_def)
  qed (use step.IH in \<open>simp_all add: manager_callback_def split_def\<close>)
qed

lemma stopped_owned:
  assumes "managed cfg m" "obj \<in> set (sm_objects m)" "\<not> object_running obj"
    and tun: "\<And>dex base t. ms_android cfg = Some (dex, base, t) \<Longrightarrow> 0 < mt_restartBaseMs t \<and> 0 < mt_restartMaxMs t"
  shows "object_owned obj"
proof (cases obj)
  case (Ios_mirror c s)
  have "h264_reached c s" using managed_holds [OF assms(1)] assms(2) Ios_mirror by (auto simp: managed_inv_def objects_ok_def)
  then show ?thesis using h264_reached_inv [of c s] assms(3) Ios_mirror by (auto simp: h264_inv_def)
next
  case (Android_mirror c s)
  have "mirror_reached c s" using managed_holds [OF assms(1)] assms(2) Android_mirror by (auto simp: managed_inv_def objects_ok_def)
  moreover obtain dex base where "ms_android cfg = Some (dex, base, mc_tuning c)"
    using managed_tuned [OF assms(1)] assms(2) Android_mirror by (fastforce simp: all_tuned_def)
  then have "mirror_tuning_ok c" using tun by (simp add: mirror_tuning_ok_def)
  ultimately have "mirror_inv c s" by (rule mirror_reached_inv)
  moreover have "\<not> as_active s" using assms(3) Android_mirror by simp
  ultimately show ?thesis using Android_mirror by (auto simp: mirror_inv_def mirror_phase_def mirror_procs_def)
qed

lemma loaded_mirror_tuning:
  assumes "loadConfig h env = Inr cfg" "ms_android (streams_of cfg) = Some (dex, base, t)"
  shows "0 < mt_restartBaseMs t \<and> 0 < mt_restartMaxMs t"
proof -
  obtain s where s: "cf_android cfg = Some s" "t = ac_mirrorTuning s" using assms(2) by (auto simp: streams_of_def)
  then have "parseAndroidConfig h env = Inr (Some s)" using loaded_parts(7) [OF assms(1)] by simp
  then show ?thesis using android_config_bounds s(2) by blast
qed

section \<open>The end\<close>

text \<open>
  C13: The Agent's shutdown terminates and leaves nothing behind. Told to end while no discovery is under way,
  and whatever happens in between, its waits are over 5.1 seconds after they began, plus what the timers are
  late, and it exits with code 0; by then every process its supervisors ever started, and every process of the
  streams that were running, has ended or has been sent SIGKILL.
\<close>

theorem shutdown_terminates:
  assumes "loadConfig h env = Inr cfg" "agent_reached cfg a" "\<not> ma_shuttingDown a" "\<not> ma_inFlight a" "ma_exit a = None"
    and "\<forall>u. wo_lag w u \<le> n"
  shows "let a' = fst (agent_run cfg evs (fst (agent_step cfg Terminate_signal a))); r = shutdown_wait w now a';
      b = fst r; out = fst (snd r); t = snd (snd r) in
    ma_exit b = Some 0 \<and> t \<le> now + 5100 + 2 * int n \<and>
    (ma_ios b = Some sv \<longrightarrow> pid < sv_nextPid sv \<longrightarrow>
      pid \<in> set (sv_exited sv) \<or> Ios_out (Signalled pid SIGKILL) \<in> set out) \<and>
    (ma_android b = Some av \<longrightarrow> pid < ad_nextPid av \<longrightarrow>
      pid \<in> set (ad_exited av) \<or> Android_out (Signalled_instrument pid SIGKILL) \<in> set out) \<and>
    (i \<in> set (sm_stopped (ma_streams a')) \<longrightarrow> (case sm_objects (ma_streams b) ! i of
        Ios_mirror c s \<Rightarrow> \<forall>k < hs_nextChild s. k \<in> set (hs_exited s) \<or> k \<in> set (hs_killed s)
      | Android_mirror c s \<Rightarrow> \<forall>k < as_nextPid s. k \<in> set (as_exited s) \<or>
          Stream_out (Android_output (Signal_daemon k SIGKILL)) \<in> set out))"
proof -
  let ?z = "fst (agent_step cfg Terminate_signal a)"
  let ?a = "fst (agent_run cfg evs ?z)"
  have z: "agent_reached cfg ?z" by (rule agent_reached.step [OF assms(2)])
  have "silent ?z"
    using shutdown_silent [OF agent_parts_reached [OF assms(2)] assms(3,4)] assms(5) by (simp add: agent_step_def)
  then have silent: "silent ?a" using silent_run [OF z] by blast
  have parts: "agent_parts cfg ?a" by (rule agent_parts_reached [OF agent_reached_run [OF z]])
  then have m: "managed (streams_of cfg) (ma_streams ?a)" by (simp add: agent_parts_def)
  note children = awaited_children [OF parts silent assms(1)]
  have own: "\<forall>obj\<in>set (sm_objects (ma_streams ?a)). object_owned obj"
  proof
    fix obj assume obj: "obj \<in> set (sm_objects (ma_streams ?a))"
    then have "\<not> object_running obj"
      using silent managed_holds [OF m] by (auto simp: silent_def quiet_def managed_inv_def manager_inv_def in_set_conv_nth)
    then show "object_owned obj" by (rule stopped_owned [OF m obj _ loaded_mirror_tuning [OF assms(1)]])
  qed
  have lag: "wo_lag w t \<le> n" "(0::ms) \<le> SHUTDOWN_GRACE_MS" for t using assms(6) by (simp_all add: SHUTDOWN_GRACE_MS_def)
  let ?s = "for_each (await_stream (wo_streams w) (wo_lag w) SHUTDOWN_GRACE_MS now) (sm_stopped (ma_streams ?a)) (ma_streams ?a, now)"
  obtain ms t3 e3 where s: "?s = ((ms, t3), e3)" by (metis prod.collapse)
  have streams: "t3 \<le> now + SHUTDOWN_GRACE_MS + 100 + int n"
      "\<forall>i\<in>set (sm_stopped (ma_streams ?a)). object_settled e3 (sm_objects ms ! i)"
    using streams_waited [where lag = "wo_lag w" and exits = "wo_streams w" and now = now, OF lag own stopped_in_range [OF m]] s by (simp_all add: Let_def)
  define wi where "wi = (case ma_ios ?a of None \<Rightarrow> (None, [], now)
      | Some sv \<Rightarrow> (case ios_awaitTermination (wo_ios w) (wo_lag w) SHUTDOWN_GRACE_MS now sv of (sv, effs, t) \<Rightarrow> (Some sv, effs, t)))"
  define wa where "wa = (case ma_android ?a of None \<Rightarrow> (None, [], now)
      | Some sv \<Rightarrow> (case android_awaitTermination (wo_android w) (wo_cleaned w) (wo_lag w) SHUTDOWN_GRACE_MS now sv of
          (sv, effs, t) \<Rightarrow> (Some sv, effs, t)))"
  have i: "snd (snd wi) \<le> now + SHUTDOWN_GRACE_MS + 100 + int n \<and> (\<forall>sv pid. fst wi = Some sv \<longrightarrow> pid < sv_nextPid sv \<longrightarrow>
      pid \<in> set (sv_exited sv) \<or> Signalled pid SIGKILL \<in> set (fst (snd wi)))"
  proof (cases "ma_ios ?a")
    case (Some x)
    obtain sv' e t where r: "ios_awaitTermination (wo_ios w) (wo_lag w) SHUTDOWN_GRACE_MS now x = (sv', e, t)" by (rule prod_cases3)
    have "\<And>pid. pid < sv_nextPid x \<Longrightarrow> pid \<in> set (sv_exited x) \<union> set (sv_terminating x)" using children Some by blast
    from ios_waited [OF this lag r] show ?thesis using Some r by (simp add: wi_def)
  qed (use lag in \<open>simp add: wi_def\<close>)
  have a: "snd (snd wa) \<le> now + SHUTDOWN_GRACE_MS + 100 + 2 * int n \<and> (\<forall>sv pid. fst wa = Some sv \<longrightarrow> pid < ad_nextPid sv \<longrightarrow>
      pid \<in> set (ad_exited sv) \<or> Signalled_instrument pid SIGKILL \<in> set (fst (snd wa)))"
  proof (cases "ma_android ?a")
    case (Some x)
    obtain sv' e t where r: "android_awaitTermination (wo_android w) (wo_cleaned w) (wo_lag w) SHUTDOWN_GRACE_MS now x = (sv', e, t)"
      by (rule prod_cases3)
    have "\<And>pid. pid < ad_nextPid x \<Longrightarrow> pid \<in> set (ad_exited x) \<union> set (ad_terminating x)" using children Some by blast
    from android_waited [OF this lag r] show ?thesis using Some r by (simp add: wa_def)
  qed (use lag in \<open>simp add: wa_def\<close>)
  have r: "shutdown_wait w now ?a = (?a\<lparr>ma_ios := fst wi, ma_android := fst wa, ma_streams := ms\<lparr>sm_stopped := []\<rparr>, ma_exit := Some 0\<rparr>,
      map Ios_out (fst (snd wi)) @ map Android_out (fst (snd wa)) @ map Stream_out e3 @ [Exit_process 0],
      max (snd (snd wi)) (max (snd (snd wa)) t3))"
    by (simp add: shutdown_wait_def wi_def [symmetric] wa_def [symmetric] manager_awaitTermination_def s split_def)
  have "i \<in> set (sm_stopped (ma_streams ?a)) \<longrightarrow> object_settled e3 (sm_objects ms ! i)" using streams(2) by blast
  then have "i \<in> set (sm_stopped (ma_streams ?a)) \<longrightarrow> (case sm_objects ms ! i of
        Ios_mirror c s \<Rightarrow> \<forall>k < hs_nextChild s. k \<in> set (hs_exited s) \<or> k \<in> set (hs_killed s)
      | Android_mirror c s \<Rightarrow> \<forall>k < as_nextPid s. k \<in> set (as_exited s) \<or> Android_output (Signal_daemon k SIGKILL) \<in> set e3)"
    by (cases "sm_objects ms ! i") auto
  then show ?thesis
    unfolding Let_def r using i a streams(1)
    by (auto simp: SHUTDOWN_GRACE_MS_def image_iff split: mirror_object.split)
qed

theorem shutdown_terminates_witness:
  "\<exists>c. loadConfig sample_host sample_process_env = Inr c \<and>
    snd (snd (shutdown_wait \<lparr>wo_lag = (\<lambda>_. 3), wo_ios = (\<lambda>_. []), wo_android = (\<lambda>_. []), wo_cleaned = 0, wo_streams = (\<lambda>_ _. [])\<rparr> 0
      (fst (agent_run c [Terminate_signal] (fst (agent_step c Terminate_signal (agent_start c))))))) \<le> 5106"
proof -
  obtain c where c: "loadConfig sample_host sample_process_env = Inr c" using sample_loaded by blast
  let ?w = "\<lparr>wo_lag = (\<lambda>_. 3), wo_ios = (\<lambda>_. []), wo_android = (\<lambda>_. []), wo_cleaned = 0, wo_streams = (\<lambda>_ _. [])\<rparr>"
  have "\<not> ma_shuttingDown (agent_start c)" "\<not> ma_inFlight (agent_start c)" "ma_exit (agent_start c) = None"
      "\<forall>u. wo_lag ?w u \<le> 3"
    by (simp_all add: agent_start_def)
  from shutdown_terminates [OF c agent_reached.start this, of "[Terminate_signal]" 0] show ?thesis using c by (auto simp: Let_def)
qed

text \<open>
  The manager waits for the streams that \<open>stopAll\<close> stops. A stream stopped because its device has gone is in no
  list any more, so a helper of it that does not end at SIGTERM is neither awaited nor sent SIGKILL when the
  Agent ends before the escalation timer of \<open>stop\<close>, which is not kept alive, has fired.
\<close>

theorem dropped_stream_is_not_awaited:
  "let m = fst (manager_step sample_section Stop_streams (fst (manager_step sample_section (Sync_streams [] [])
      (fst (manager_step sample_section (Sync_streams [sample_device ''d1'' Ios] [''d1'']) manager_new))))) in
    (\<exists>c s. sm_objects m = [Ios_mirror c s] \<and> hs_nextChild s = 1 \<and> hs_exited s = [] \<and> hs_killed s = [] \<and> hs_terminating s = Some 0) \<and>
    manager_awaitTermination exits lag grace now m = (m, [], now)"
  by (simp add: syncAlwaysOn_def manager_new_def for_each_Cons manager_start_def jhas_def create_stream_def sample_device_def
      manager_stop_gone_def manager_stop_def jkeys_def h264_start_def h264_launch_def h264_new_def h264_stop_def
      clearResolutionTimer_def manager_stopAll_def manager_awaitTermination_def Let_def)

end
